(* ===== verification/Prelude.thy ===== *)
theory Prelude
  imports Main "HOL-Library.Word" "HOL-Library.List_Lexorder" "HOL-Library.Product_Lexorder"
    "HOL-Library.Option_ord"
begin

text \<open>
  Shared vocabulary of the development: machine integers as words, Rust results as sums with
  the question-mark operator, checked arithmetic on words and on lengths, big-endian byte
  images, and the interface \<open>codec\<close> that every wire field of the repository satisfies.

  A length or an index of type \<open>usize\<close> is a natural number; the target is a 64-bit machine,
  so a \<open>usize\<close> operation that the source checks for overflow is checked against
  \<open>2 ^ 64\<close> here. A signed 64-bit field is its two's complement pattern, read with
  \<open>sint\<close> where the source compares it.
\<close>

unbundle bit_operations_syntax

named_theorems wire_simps \<open>how each reader acts on the wire image of a value\<close>
named_theorems enc_dests \<open>what a successful encoder call appended\<close>

type_synonym u8 = "8 word"
type_synonym u16 = "16 word"
type_synonym u32 = "32 word"
type_synonym u64 = "64 word"
type_synonym i64 = "64 word"
type_synonym bytes = "u8 list"

section \<open>Results\<close>

text \<open>The question-mark operator of Rust: an error leaves at once, a value goes on.\<close>

definition bindE :: "'e + 'a \<Rightarrow> ('a \<Rightarrow> 'e + 'b) \<Rightarrow> 'e + 'b" where
  "bindE m f = (case m of Inl e \<Rightarrow> Inl e | Inr x \<Rightarrow> f x)"

definition ensure :: "bool \<Rightarrow> 'e \<Rightarrow> 'e + unit" where
  "ensure c e = (if c then Inr () else Inl e)"

definition ok_or :: "'e \<Rightarrow> 'a option \<Rightarrow> 'e + 'a" where
  "ok_or e v = (case v of None \<Rightarrow> Inl e | Some x \<Rightarrow> Inr x)"

definition map_err :: "('e \<Rightarrow> 'f) \<Rightarrow> 'e + 'a \<Rightarrow> 'f + 'a" where
  "map_err g m = (case m of Inl e \<Rightarrow> Inl (g e) | Inr x \<Rightarrow> Inr x)"

text \<open>A \<open>for\<close> loop whose body may leave with an error, threading its state.\<close>

fun foldE :: "('s \<Rightarrow> 'a \<Rightarrow> 'e + 's) \<Rightarrow> 's \<Rightarrow> 'a list \<Rightarrow> 'e + 's" where
  "foldE f s [] = Inr s"
| "foldE f s (x # xs) = bindE (f s x) (\<lambda>s'. foldE f s' xs)"

text \<open>A loop that runs a reader a fixed number of times and collects what it read.\<close>

fun repeatE :: "('r \<Rightarrow> 'e + 'a \<times> 'r) \<Rightarrow> nat \<Rightarrow> 'r \<Rightarrow> 'e + 'a list \<times> 'r" where
  "repeatE f 0 r = Inr ([], r)"
| "repeatE f (Suc n) r = bindE (f r) (\<lambda>(x, r'). bindE (repeatE f n r') (\<lambda>(xs, r''). Inr (x # xs, r'')))"

text \<open>An iterator whose results are collected up to the first error.\<close>

fun collectE :: "('a \<Rightarrow> 'e + 'b) \<Rightarrow> 'a list \<Rightarrow> 'e + 'b list" where
  "collectE f [] = Inr []"
| "collectE f (x # xs) = bindE (f x) (\<lambda>y. bindE (collectE f xs) (\<lambda>ys. Inr (y # ys)))"

text \<open>A \<open>for\<close> loop over a plain range, with the state that its body threads.\<close>

fun loopE :: "nat \<Rightarrow> ('s \<Rightarrow> 'e + 's) \<Rightarrow> 's \<Rightarrow> 'e + 's" where
  "loopE 0 f s = Inr s"
| "loopE (Suc n) f s = bindE (f s) (loopE n f)"

lemma bindE_Inl [simp]: "bindE (Inl e) f = Inl e"
  by (simp add: bindE_def)

lemma bindE_Inr [simp]: "bindE (Inr x) f = f x"
  by (simp add: bindE_def)

text \<open>Evaluation order for concrete runs: the first step before the rest of the program.\<close>

lemma bindE_weak_cong: "m = m' \<Longrightarrow> bindE m f = bindE m' f"
  by simp

lemma bindE_ret [simp]: "bindE m Inr = m"
  by (cases m) auto

lemma bindE_eq_Inr: "bindE m f = Inr y \<longleftrightarrow> (\<exists>x. m = Inr x \<and> f x = Inr y)"
  by (cases m) auto

lemma bindE_eq_Inl: "bindE m f = Inl e \<longleftrightarrow> m = Inl e \<or> (\<exists>x. m = Inr x \<and> f x = Inl e)"
  by (cases m) auto

lemma bindE_cong [fundef_cong]:
  "m = m' \<Longrightarrow> (\<And>x. m' = Inr x \<Longrightarrow> f x = f' x) \<Longrightarrow> bindE m f = bindE m' f'"
  by (cases m) auto

lemma bindE_elim:
  assumes "bindE m f = Inr y"
  obtains x where "m = Inr x" and "f x = Inr y"
  using assms by (auto simp: bindE_eq_Inr)

lemma ensure_True [simp]: "ensure True e = Inr ()"
  by (simp add: ensure_def)

lemma ensure_eq_Inr [simp]: "ensure c e = Inr u \<longleftrightarrow> c"
  by (simp add: ensure_def)

lemma ensure_eq_Inl [simp]: "ensure c e = Inl e' \<longleftrightarrow> \<not> c \<and> e' = e"
  by (auto simp: ensure_def)

lemma ok_or_simps [simp]: "ok_or e None = Inl e" "ok_or e (Some x) = Inr x"
  by (simp_all add: ok_or_def)

lemma ok_or_eq_Inr [simp]: "ok_or e v = Inr x \<longleftrightarrow> v = Some x"
  by (cases v) (auto simp: ok_or_def)

lemma map_err_simps [simp]: "map_err g (Inl e) = Inl (g e)" "map_err g (Inr x) = Inr x"
  by (simp_all add: map_err_def)

lemma map_err_eq_Inr [simp]: "map_err g m = Inr x \<longleftrightarrow> m = Inr x"
  by (cases m) auto

lemma foldE_append: "foldE f s (xs @ ys) = bindE (foldE f s xs) (\<lambda>s'. foldE f s' ys)"
  by (induction xs arbitrary: s) (auto simp: bindE_def split: sum.splits)

lemma foldE_inv:
  assumes "foldE f s xs = Inr t" and "P s"
    and "\<And>u x v. x \<in> set xs \<Longrightarrow> P u \<Longrightarrow> f u x = Inr v \<Longrightarrow> P v"
  shows "P t"
  using assms by (induction xs arbitrary: s) (auto simp: bindE_eq_Inr)

lemma foldE_unit_iff:
  "foldE (\<lambda>_. f) () xs = Inr () \<longleftrightarrow> (\<forall>x \<in> set xs. f x = Inr ())"
  by (induction xs) (auto simp: bindE_eq_Inr)

lemma collectE_iff: "collectE f xs = Inr ys \<longleftrightarrow> list_all2 (\<lambda>x y. f x = Inr y) xs ys"
proof (induction xs arbitrary: ys)
  case (Cons x xs)
  then show ?case by (cases ys) (auto simp: bindE_eq_Inr)
qed auto

lemma collectE_total: "(\<And>x. x \<in> set xs \<Longrightarrow> \<exists>y. f x = Inr y) \<Longrightarrow> \<exists>ys. collectE f xs = Inr ys"
proof (induction xs)
  case (Cons x xs)
  then obtain y ys where "f x = Inr y" "collectE f xs = Inr ys" by (meson list.set_intros)
  then show ?case by simp
qed simp

section \<open>Checked arithmetic\<close>

definition checked_add :: "'a::len word \<Rightarrow> 'a word \<Rightarrow> 'a word option" where
  "checked_add a b = (if unat a + unat b < 2 ^ LENGTH('a) then Some (a + b) else None)"

definition checked_mul :: "'a::len word \<Rightarrow> 'a word \<Rightarrow> 'a word option" where
  "checked_mul a b = (if unat a * unat b < 2 ^ LENGTH('a) then Some (a * b) else None)"

definition div_ceil :: "'a::len word \<Rightarrow> 'a word \<Rightarrow> 'a word" where
  "div_ceil a b = (let d = a div b; r = a mod b in if r > 0 then d + 1 else d)"

definition saturating_add :: "'a::len word \<Rightarrow> 'a word \<Rightarrow> 'a word" where
  "saturating_add a b = (if unat a + unat b < 2 ^ LENGTH('a) then a + b else - 1)"

definition saturating_sub :: "'a::len word \<Rightarrow> 'a word \<Rightarrow> 'a word" where
  "saturating_sub a b = (if b \<le> a then a - b else 0)"

text \<open>A length as a \<open>u64\<close>, the greatest one when it does not fit.\<close>

definition u64_len :: "'a list \<Rightarrow> u64" where
  "u64_len xs = (if length xs < 2 ^ 64 then of_nat (length xs) else - 1)"

definition usize_add :: "nat \<Rightarrow> nat \<Rightarrow> nat option" where
  "usize_add a b = (if a + b < 2 ^ 64 then Some (a + b) else None)"

definition usize_mul :: "nat \<Rightarrow> nat \<Rightarrow> nat option" where
  "usize_mul a b = (if a * b < 2 ^ 64 then Some (a * b) else None)"

lemma unat_less_2p: "unat (x :: 'a::len word) < 2 ^ LENGTH('a)"
  by (rule unsigned_less)

lemma checked_add_Some: "checked_add a b = Some c \<longleftrightarrow> unat c = unat a + unat b"
proof
  assume "checked_add a b = Some c"
  then show "unat c = unat a + unat b"
    by (auto simp: checked_add_def unat_word_ariths split: if_splits)
next
  assume *: "unat c = unat a + unat b"
  then have "unat a + unat b < 2 ^ LENGTH('a)"
    by (metis unsigned_less)
  moreover have "a + b = c"
    by (simp only: word_arith_nat_add [of a b] * [symmetric]) simp
  ultimately show "checked_add a b = Some c"
    by (simp add: checked_add_def)
qed

lemma checked_mul_Some: "checked_mul a b = Some c \<Longrightarrow> unat c = unat a * unat b"
  by (auto simp: checked_mul_def unat_word_ariths split: if_splits)

lemma usize_add_Some [simp]: "usize_add a b = Some c \<longleftrightarrow> c = a + b \<and> a + b < 2 ^ 64"
  by (auto simp: usize_add_def)

lemma usize_mul_Some [simp]: "usize_mul a b = Some c \<longleftrightarrow> c = a * b \<and> a * b < 2 ^ 64"
  by (auto simp: usize_mul_def)

lemma unat_div_ceil:
  assumes "0 < b"
  shows "unat (div_ceil a b) = (unat a + unat b - 1) div unat b"
proof -
  have b: "0 < unat b" using assms by (simp add: unat_gt_0)
  have split: "unat a = unat b * (unat a div unat b) + unat a mod unat b" by simp
  show ?thesis
  proof (cases "a mod b = 0")
    case True
    then have r: "unat a mod unat b = 0" by (metis unat_mod unat_0)
    have "(unat a + unat b - 1) div unat b = (unat b * (unat a div unat b) + (unat b - 1)) div unat b"
      using r split b by (metis Nat.add_diff_assoc add.right_neutral Suc_leI One_nat_def)
    also have "\<dots> = unat a div unat b" using b by (intro div_nat_eqI) auto
    finally show ?thesis using True by (simp add: div_ceil_def unat_div)
  next
    case False
    then have r: "0 < unat a mod unat b" by (metis unat_mod unat_gt_0 word_neq_0_conv)
    let ?m = "unat a mod unat b"
    have m: "?m < unat b" using b by simp
    have q: "unat b * (unat a div unat b + 1) = unat b * (unat a div unat b) + unat b"
      by (simp only: distrib_left mult_1_right)
    have "unat a + unat b - 1 = unat b * (unat a div unat b + 1) + (?m - 1)"
      using split r q by linarith
    then have "(unat a + unat b - 1) div unat b
        = (unat b * (unat a div unat b + 1) + (?m - 1)) div unat b"
      by (rule arg_cong)
    also have "\<dots> = unat a div unat b + 1"
      using b div_less [of "?m - 1" "unat b"] m by (subst div_mult_self4) auto
    finally have v: "(unat a + unat b - 1) div unat b = unat a div unat b + 1" .
    have "unat b * (unat a div unat b) < unat a" using r split by linarith
    then have "unat a div unat b < unat a"
      using b by (cases "unat a div unat b = 0") (auto intro: le_less_trans [rotated])
    then have "unat a div unat b + 1 < 2 ^ LENGTH('a)"
      by (metis Suc_eq_plus1 Suc_leI le_less_trans unsigned_less)
    then have "unat (a div b + 1) = unat a div unat b + 1"
      by (simp add: unat_word_ariths unat_div)
    then show ?thesis using False v
      by (simp add: div_ceil_def word_neq_0_conv)
  qed
qed

lemma take_bit_small: "unat (w :: 'a::len word) < 2 ^ n \<Longrightarrow> take_bit n w = w"
  by (rule word_unat_eq_iff [THEN iffD2]) (simp add: unsigned_take_bit_eq take_bit_nat_eq_self)

lemma bit_small: "unat (w :: 'a::len word) < 2 ^ n \<Longrightarrow> bit w k \<Longrightarrow> k < n"
  using take_bit_small [of w n] by (metis bit_take_bit_iff)

lemma unat_ucast_down:
  "unat b < 2 ^ LENGTH('b) \<Longrightarrow> unat (ucast (b :: 'a::len word) :: 'b::len word) = unat b"
  by (simp add: unsigned_ucast_eq take_bit_nat_eq_self unsigned_take_bit_eq)

lemma unat_ucast_up:
  "LENGTH('a) \<le> LENGTH('b) \<Longrightarrow> unat (ucast (b :: 'a::len word) :: 'b::len word) = unat b"
  by (rule unat_ucast_down, rule less_le_trans [OF unat_less_2p]) simp

lemma ucast_ucast_small:
  "unat b < 2 ^ LENGTH('b) \<Longrightarrow> (ucast (ucast (b :: 'a::len word) :: 'b::len word) :: 'a word) = b"
  by (rule word_unat_eq_iff [THEN iffD2]) (simp add: unat_ucast_down unat_less_2p)

lemma unat_of_nat_small: "n < 2 ^ LENGTH('a) \<Longrightarrow> unat (of_nat n :: 'a::len word) = n"
  by (simp add: unat_of_nat)

lemma unat_saturating_add:
  "unat a + unat b < 2 ^ LENGTH('a) \<Longrightarrow> unat (saturating_add a (b :: 'a::len word)) = unat a + unat b"
  by (simp add: saturating_add_def unat_word_ariths)

lemma unat_saturating_sub: "unat (saturating_sub a (b :: 'a::len word)) = unat a - unat b"
  by (auto simp: saturating_sub_def unat_sub word_le_nat_alt)

lemma unat_u64_len: "unat (u64_len xs) = min (length xs) (2 ^ 64 - 1)"
  by (simp add: u64_len_def unat_of_nat unsigned_minus_1_eq_mask mask_eq_exp_minus_1 min_def)

section \<open>Big-endian byte images\<close>

fun be_val :: "nat \<Rightarrow> bytes \<Rightarrow> nat" where
  "be_val acc [] = acc"
| "be_val acc (b # bs) = be_val (acc * 256 + unat b) bs"

fun be_bytes :: "nat \<Rightarrow> nat \<Rightarrow> bytes" where
  "be_bytes 0 v = []"
| "be_bytes (Suc n) v = be_bytes n (v div 256) @ [of_nat v]"

definition u16_to_be_bytes :: "u16 \<Rightarrow> bytes" where "u16_to_be_bytes v = be_bytes 2 (unat v)"
definition u32_to_be_bytes :: "u32 \<Rightarrow> bytes" where "u32_to_be_bytes v = be_bytes 4 (unat v)"
definition u64_to_be_bytes :: "u64 \<Rightarrow> bytes" where "u64_to_be_bytes v = be_bytes 8 (unat v)"
definition from_be_bytes :: "bytes \<Rightarrow> 'a::len word" where "from_be_bytes bs = of_nat (be_val 0 bs)"

lemma length_be_bytes [simp]: "length (be_bytes n v) = n"
  by (induction n arbitrary: v) auto

lemma be_val_snoc: "be_val acc (bs @ [b]) = be_val acc bs * 256 + unat b"
  by (induction bs arbitrary: acc) auto

lemma unat_u8_of_nat: "unat (of_nat v :: u8) = v mod 256"
  by (simp add: unat_of_nat)

lemma be_val_be_bytes: "be_val 0 (be_bytes n v) = v mod 256 ^ n"
proof (induction n arbitrary: v)
  case (Suc n)
  have "v mod (256 * 256 ^ n) = 256 * (v div 256 mod 256 ^ n) + v mod 256"
    by (rule mod_mult2_eq)
  then show ?case
    using Suc by (simp add: be_val_snoc unat_u8_of_nat algebra_simps)
qed simp

lemma be_val_bound: "be_val 0 bs < 256 ^ length bs"
proof (induction bs rule: rev_induct)
  case (snoc b bs)
  have "unat b < 256" using unat_less_2p [of b] by simp
  moreover have "be_val 0 bs + 1 \<le> 256 ^ length bs" using snoc by simp
  then have "(be_val 0 bs + 1) * 256 \<le> 256 ^ length bs * 256" by (rule mult_le_mono1)
  ultimately show ?case by (simp add: be_val_snoc algebra_simps)
qed simp

lemma be_bytes_be_val: "be_bytes (length bs) (be_val 0 bs) = bs"
proof (induction bs rule: rev_induct)
  case (snoc b bs)
  have "unat b < 256" using unat_less_2p [of b] by simp
  then have "(be_val 0 bs * 256 + unat b) div 256 = be_val 0 bs" by simp
  moreover have "(of_nat (be_val 0 bs * 256 + unat b) :: u8) = b"
    by (rule word_unat_eq_iff [THEN iffD2], simp only: unat_u8_of_nat)
      (use \<open>unat b < 256\<close> in simp)
  ultimately show ?case using snoc by (simp add: be_val_snoc)
qed simp

lemma from_be_to_be:
  "(from_be_bytes (u16_to_be_bytes a) :: u16) = a"
  "(from_be_bytes (u32_to_be_bytes b) :: u32) = b"
  "(from_be_bytes (u64_to_be_bytes c) :: u64) = c"
  using unat_less_2p [of a] unat_less_2p [of b] unat_less_2p [of c]
  by (simp_all add: from_be_bytes_def u16_to_be_bytes_def u32_to_be_bytes_def u64_to_be_bytes_def
      be_val_be_bytes)

lemma to_be_from_be:
  "length bs = 2 \<Longrightarrow> u16_to_be_bytes (from_be_bytes bs) = bs"
  "length bs = 4 \<Longrightarrow> u32_to_be_bytes (from_be_bytes bs) = bs"
  "length bs = 8 \<Longrightarrow> u64_to_be_bytes (from_be_bytes bs) = bs"
  using be_val_bound [of bs] be_bytes_be_val [of bs]
  by (simp_all add: from_be_bytes_def u16_to_be_bytes_def u32_to_be_bytes_def u64_to_be_bytes_def
      unat_of_nat)

lemma length_to_be_bytes [simp]:
  "length (u16_to_be_bytes a) = 2" "length (u32_to_be_bytes b) = 4" "length (u64_to_be_bytes c) = 8"
  by (simp_all add: u16_to_be_bytes_def u32_to_be_bytes_def u64_to_be_bytes_def)

end
