(* ===== verification/Codec.thy ===== *)
theory Codec
  imports Prelude
begin

text \<open>
  The interface between an encoder and a reader. A value has one wire image; a reader that
  stands before the image of a valid value returns the value and stands after the image; and
  whatever a reader accepts is the image of a valid value. The second law says that the
  encoding is canonical: no other bytes are accepted. A reader position is built by \<open>at\<close>
  from the bytes already consumed and the bytes left.
\<close>

abbreviation suffix_at :: "bytes \<Rightarrow> bytes \<Rightarrow> bytes" where
  "suffix_at p s \<equiv> s"

locale codec =
  fixes at :: "bytes \<Rightarrow> bytes \<Rightarrow> 'r"
    and wire :: "'a \<Rightarrow> bytes"
    and read :: "'r \<Rightarrow> 'e + 'a \<times> 'r"
    and valid :: "'a \<Rightarrow> bool"
  assumes at_inj: "at p s = at p s' \<Longrightarrow> s = s'"
    and read_wire: "valid x \<Longrightarrow> read (at p (wire x @ s)) = Inr (x, at (p @ wire x) s)"
    and wire_read: "read (at p bs) = Inr (x, rd) \<Longrightarrow>
      valid x \<and> (\<exists>s. bs = wire x @ s \<and> rd = at (p @ wire x) s)"
begin

lemma read_iff:
  "read (at p bs) = Inr (x, rd) \<longleftrightarrow> valid x \<and> (\<exists>s. bs = wire x @ s \<and> rd = at (p @ wire x) s)"
  using read_wire wire_read by blast

lemma prefix_free:
  assumes "valid x" and "valid y" and "wire x @ s = wire y @ t"
  shows "x = y \<and> s = t"
proof -
  have "Inr (x, at ([] @ wire x) s) = read (at [] (wire x @ s))"
    using assms(1) by (simp only: read_wire)
  also have "\<dots> = Inr (y, at ([] @ wire y) t)"
    using assms(2,3) by (simp only: read_wire)
  finally have "x = y" and "at ([] @ wire x) s = at ([] @ wire y) t"
    by auto
  then show ?thesis using at_inj by blast
qed

lemma wire_inj: "valid x \<Longrightarrow> valid y \<Longrightarrow> wire x = wire y \<Longrightarrow> x = y"
  using prefix_free [of x y "[]" "[]"] by simp

lemma truncated:
  assumes "valid x" and "wire x = bs @ s" and "s \<noteq> []"
  shows "\<exists>e. read (at p bs) = Inl e"
proof (cases "read (at p bs)")
  case (Inr y)
  obtain z rd where "y = (z, rd)" by (cases y)
  with Inr obtain t where z: "valid z" and "bs = wire z @ t"
    using wire_read by blast
  with assms have "wire x @ [] = wire z @ (t @ s)" by simp
  from prefix_free [OF assms(1) z this] assms(3) show ?thesis by simp
qed simp

lemma many_wire:
  "list_all valid xs \<Longrightarrow>
   repeatE read (length xs) (at p (concat (map wire xs) @ s))
     = Inr (xs, at (p @ concat (map wire xs)) s)"
  by (induction xs arbitrary: p) (simp_all add: read_wire)

lemma wire_many:
  "repeatE read n (at p bs) = Inr (xs, rd) \<Longrightarrow>
   length xs = n \<and> list_all valid xs \<and>
   (\<exists>s. bs = concat (map wire xs) @ s \<and> rd = at (p @ concat (map wire xs)) s)"
proof (induction n arbitrary: p bs xs)
  case (Suc n)
  obtain y rd' ys where y: "read (at p bs) = Inr (y, rd')"
    and ys: "repeatE read n rd' = Inr (ys, rd)" and xs: "xs = y # ys"
    using Suc.prems by (auto simp: bindE_eq_Inr)
  from wire_read [OF y] obtain s where
    "valid y" and bs: "bs = wire y @ s" and rd': "rd' = at (p @ wire y) s"
    by blast
  with Suc.IH [of "p @ wire y" s ys] ys xs show ?case by auto
qed simp

end

end
