(* ===== verification/RustStd.thy ===== *)
theory RustStd
  imports Prelude
begin

text \<open>
  What the repository uses of the Rust standard library on text: a \<open>String\<close> is its UTF-8
  bytes, \<open>from_utf8\<close> accepts exactly the well-formed sequences, and
  \<open>trim().is_empty()\<close> holds of a string whose every character is Unicode white space.
\<close>

type_synonym str = bytes

text \<open>The bytes of an ASCII literal of the source.\<close>

definition lit :: "string \<Rightarrow> bytes" where
  "lit s = map (\<lambda>c. of_char c) s"

definition is_cont :: "u8 \<Rightarrow> bool" where
  "is_cont b \<longleftrightarrow> 0x80 \<le> b \<and> b \<le> 0xBF"

definition cont_bits :: "u8 \<Rightarrow> nat" where
  "cont_bits b = unat b - 0x80"

text \<open>The first scalar value of a byte string and the bytes after it, when well formed.\<close>

fun utf8_next :: "bytes \<Rightarrow> (nat \<times> bytes) option" where
  "utf8_next [] = None"
| "utf8_next (a # r) =
     (if a \<le> 0x7F then Some (unat a, r)
      else if 0xC2 \<le> a \<and> a \<le> 0xDF then
        (case r of b # r' \<Rightarrow>
           if is_cont b then Some ((unat a - 0xC0) * 64 + cont_bits b, r') else None
         | _ \<Rightarrow> None)
      else if 0xE0 \<le> a \<and> a \<le> 0xEF then
        (case r of b # c # r' \<Rightarrow>
           if (if a = 0xE0 then 0xA0 \<le> b \<and> b \<le> 0xBF
               else if a = 0xED then 0x80 \<le> b \<and> b \<le> 0x9F else is_cont b) \<and> is_cont c
           then Some ((unat a - 0xE0) * 4096 + cont_bits b * 64 + cont_bits c, r') else None
         | _ \<Rightarrow> None)
      else if 0xF0 \<le> a \<and> a \<le> 0xF4 then
        (case r of b # c # d # r' \<Rightarrow>
           if (if a = 0xF0 then 0x90 \<le> b \<and> b \<le> 0xBF
               else if a = 0xF4 then 0x80 \<le> b \<and> b \<le> 0x8F else is_cont b) \<and> is_cont c \<and> is_cont d
           then Some ((unat a - 0xF0) * 262144 + cont_bits b * 4096 + cont_bits c * 64 + cont_bits d, r')
           else None
         | _ \<Rightarrow> None)
      else None)"

lemma utf8_next_shorter: "utf8_next s = Some (c, r) \<Longrightarrow> length r < length s"
  by (cases s) (auto split: if_splits list.splits)

function utf8_chars :: "bytes \<Rightarrow> nat list option" where
  "utf8_chars s =
     (if s = [] then Some []
      else case utf8_next s of None \<Rightarrow> None
           | Some (c, r) \<Rightarrow> (case utf8_chars r of None \<Rightarrow> None | Some cs \<Rightarrow> Some (c # cs)))"
  by pat_completeness auto
termination
  by (relation "measure length") (auto dest: utf8_next_shorter)

declare utf8_chars.simps [simp del]

definition from_utf8_ok :: "bytes \<Rightarrow> bool" where
  "from_utf8_ok s \<longleftrightarrow> utf8_chars s \<noteq> None"

definition is_whitespace :: "nat \<Rightarrow> bool" where
  "is_whitespace c \<longleftrightarrow> (0x9 \<le> c \<and> c \<le> 0xD) \<or> (0x2000 \<le> c \<and> c \<le> 0x200A) \<or>
     c \<in> {0x20, 0x85, 0xA0, 0x1680, 0x2028, 0x2029, 0x202F, 0x205F, 0x3000}"

definition trim_is_empty :: "str \<Rightarrow> bool" where
  "trim_is_empty s \<longleftrightarrow> (case utf8_chars s of None \<Rightarrow> False | Some cs \<Rightarrow> list_all is_whitespace cs)"

lemma trim_is_empty_Nil [simp]: "trim_is_empty []"
  by (simp add: trim_is_empty_def utf8_chars.simps)

lemma from_utf8_ok_Nil [simp]: "from_utf8_ok []"
  by (simp add: from_utf8_ok_def utf8_chars.simps)

text \<open>ASCII text is well-formed, and its characters are its bytes.\<close>

lemma utf8_chars_ascii: "list_all (\<lambda>b. b \<le> 0x7F) s \<Longrightarrow> utf8_chars s = Some (map unat s)"
  by (induction s) (simp_all add: utf8_chars.simps)

end
