(* ===== verification/Types.thy ===== *)
theory Types
  imports RustStd
begin

text \<open>
  The shared identifiers and policies of the crate \<open>rs3-types\<close>. The identifier types of the
  source wrap a string that \<open>validate_non_empty\<close> has accepted; here they are synonyms for
  the string, each with the constructor of the source, and \<open>valid_name\<close> is the type
  invariant a constructed value has: well-formed UTF-8 that is not blank.
\<close>

type_synonym PublicBucket = str
type_synonym LogicalPath = str
type_synonym BlindIndexKey = str
type_synonym PrefixToken = str
type_synonym BackendObjectId = str
type_synonym BackendVersionId = str
type_synonym ManifestId = str
type_synonym RepositoryId = str
type_synonym KeyId = str
type_synonym MultipartUploadId = bytes
type_synonym PayloadAttemptId = bytes
type_synonym Sequence = u64

datatype TypeError = Empty string

definition validate_non_empty :: "string \<Rightarrow> str \<Rightarrow> TypeError + str" where
  "validate_non_empty kind value = (if trim_is_empty value then Inl (Empty kind) else Inr value)"

definition PublicBucket_new :: "str \<Rightarrow> TypeError + PublicBucket" where
  "PublicBucket_new value = validate_non_empty ''public bucket'' value"

definition LogicalPath_new :: "str \<Rightarrow> TypeError + LogicalPath" where
  "LogicalPath_new value = validate_non_empty ''logical path'' value"

definition BlindIndexKey_new :: "str \<Rightarrow> TypeError + BlindIndexKey" where
  "BlindIndexKey_new value = validate_non_empty ''blind index key'' value"

definition PrefixToken_new :: "str \<Rightarrow> TypeError + PrefixToken" where
  "PrefixToken_new value = validate_non_empty ''prefix token'' value"

definition BackendObjectId_new :: "str \<Rightarrow> TypeError + BackendObjectId" where
  "BackendObjectId_new value = validate_non_empty ''backend object id'' value"

definition BackendVersionId_new :: "str \<Rightarrow> TypeError + BackendVersionId" where
  "BackendVersionId_new value = validate_non_empty ''backend version id'' value"

definition ManifestId_new :: "str \<Rightarrow> TypeError + ManifestId" where
  "ManifestId_new value = validate_non_empty ''manifest id'' value"

definition RepositoryId_new :: "str \<Rightarrow> TypeError + RepositoryId" where
  "RepositoryId_new value = validate_non_empty ''repository id'' value"

definition KeyId_new :: "str \<Rightarrow> TypeError + KeyId" where
  "KeyId_new value = validate_non_empty ''key id'' value"

lemmas name_constructors = PublicBucket_new_def LogicalPath_new_def BlindIndexKey_new_def
  PrefixToken_new_def BackendObjectId_new_def BackendVersionId_new_def ManifestId_new_def
  RepositoryId_new_def KeyId_new_def

definition valid_name :: "str \<Rightarrow> bool" where
  "valid_name s \<longleftrightarrow> from_utf8_ok s \<and> \<not> trim_is_empty s"

lemma valid_name_nonempty: "valid_name s \<Longrightarrow> s \<noteq> []"
  by (auto simp: valid_name_def)

lemma validate_non_empty_Inr [simp]:
  "validate_non_empty kind v = Inr w \<longleftrightarrow> w = v \<and> \<not> trim_is_empty v"
  by (auto simp: validate_non_empty_def)

text \<open>A reference to a stored object, bound to a provider version or to the latest state.\<close>

record BackendObjectRef =
  ref_object_id :: BackendObjectId
  ref_version_id :: "BackendVersionId option"

definition BackendObjectRef_latest :: "BackendObjectId \<Rightarrow> BackendObjectRef" where
  "BackendObjectRef_latest oid = \<lparr>ref_object_id = oid, ref_version_id = None\<rparr>"

definition BackendObjectRef_versioned :: "BackendObjectId \<Rightarrow> BackendVersionId \<Rightarrow> BackendObjectRef" where
  "BackendObjectRef_versioned oid vid = \<lparr>ref_object_id = oid, ref_version_id = Some vid\<rparr>"

section \<open>Keys\<close>

datatype KeyPurpose = Namespace | Content | Metadata | CheckpointSigning

datatype KeyStatus = Primary | Enabled | Disabled | Retired

fun is_enabled_for_lookup :: "KeyStatus \<Rightarrow> bool" where
  "is_enabled_for_lookup Primary = True"
| "is_enabled_for_lookup Enabled = True"
| "is_enabled_for_lookup _ = False"

fun is_primary :: "KeyStatus \<Rightarrow> bool" where
  "is_primary Primary = True"
| "is_primary _ = False"

record KeyDescriptor =
  kd_id :: KeyId
  kd_purpose :: KeyPurpose
  kd_status :: KeyStatus
  kd_created_at_ms :: i64
  kd_public_key :: "str option"

section \<open>Sequences and retention\<close>

definition Sequence_ZERO :: Sequence where "Sequence_ZERO = 0"

definition checked_next :: "Sequence \<Rightarrow> Sequence option" where
  "checked_next s = (case checked_add s 1 of Some v \<Rightarrow> Some v | None \<Rightarrow> None)"

datatype RetentionMode = NoRetention | Governance | Compliance

datatype LegalHoldStatus = Off | On

record RetentionPolicy =
  mode :: RetentionMode
  retain_days :: u32

definition RetentionPolicy_new :: "RetentionMode \<Rightarrow> u32 \<Rightarrow> RetentionPolicy" where
  "RetentionPolicy_new m d = \<lparr>mode = m, retain_days = d\<rparr>"

text \<open>Advancing a sequence strictly increases it, and it stops at the last representable value.\<close>

lemma checked_next_eq: "checked_next s = checked_add s 1"
  by (simp add: checked_next_def split: option.split)

lemma checked_next_Some: "checked_next s = Some t \<longleftrightarrow> unat t = unat s + 1"
  by (simp add: checked_next_eq checked_add_Some)

lemma checked_next_None: "checked_next s = None \<longleftrightarrow> s = - 1"
proof -
  have "checked_next s = None \<longleftrightarrow> \<not> unat s + 1 < 2 ^ 64"
    by (simp add: checked_next_eq checked_add_def)
  also have "\<dots> \<longleftrightarrow> unat s = 2 ^ 64 - 1" using unat_less_2p [of s] by auto
  also have "\<dots> \<longleftrightarrow> unat s = unat (- 1 :: u64)"
    by (simp add: unsigned_minus_1_eq_mask mask_eq_exp_minus_1)
  also have "\<dots> \<longleftrightarrow> s = - 1" by (simp only: word_unat_eq_iff)
  finally show ?thesis .
qed

end
