(* ===== verification/RunWire.thy ===== *)
theory RunWire
  imports Codec Types
begin

text \<open>
  The bounded writer and the reader of the index-run wire format (the last part of
  \<open>rs3-index/src/run.rs\<close>): fixed-width integers, canonical varints, length-prefixed strings
  and records. A reader is the slice of bytes that remain.
\<close>

datatype IndexRunError =
    InvalidDomain
  | UnsupportedVersion u16
  | UnexpectedEof
  | TrailingBytes
  | NonCanonicalVarint
  | InvalidPathPrefix
  | IntegerOverflow
  | LimitExceeded string nat nat
  | InvalidUtf8 string
  | InvalidValue string
  | InvalidTag string u8
  | RecordLengthMismatch
  | InvalidMutationOrdinal u32 u32
  | DuplicateContainer
  | InvalidContainerOrder
  | InvalidPackRecordCount
  | InvalidPackRecordRange
  | PackRecordFactsMismatch
  | UnusedContainer u32
  | UnusedStandaloneStreamContainer u32
  | InvalidNamespaceKeyOrder
  | DuplicateNamespaceKey
  | UnusedNamespaceKey u32
  | InvalidNamespaceKeyOrdinal u32
  | InvalidContainerRange
  | InvalidStandaloneStreamContainer
  | InvalidContainerOrdinal u32
  | InvalidEmptyPayload
  | ProjectionCountMismatch nat nat
  | InvalidProjectionOrder string
  | DuplicateProjectionOrdinal string u32
  | InvalidProjectionOrdinal string u32
  | ProjectionMismatch u32
  | InvalidFrameOrder
  | FrameFactsMismatch

type_synonym 'a run_result = "IndexRunError + 'a"

definition validate_count :: "string \<Rightarrow> nat \<Rightarrow> nat \<Rightarrow> unit run_result" where
  "validate_count field actual maximum =
     (if actual > maximum then Inl (LimitExceeded field actual maximum) else Inr ())"

definition usize_to_u64 :: "nat \<Rightarrow> u64 run_result" where
  "usize_to_u64 value = (if value < 2 ^ 64 then Inr (of_nat value) else Inl IntegerOverflow)"

section \<open>Writer\<close>

record Writer =
  wbytes :: bytes
  maximum :: nat

definition Writer_new :: "nat \<Rightarrow> Writer" where
  "Writer_new m = \<lparr>wbytes = [], maximum = m\<rparr>"

definition Writer_finish :: "Writer \<Rightarrow> bytes" where
  "Writer_finish w = wbytes w"

definition Writer_reserve :: "Writer \<Rightarrow> nat \<Rightarrow> unit run_result" where
  "Writer_reserve w additional =
     bindE (ok_or IntegerOverflow (usize_add (length (wbytes w)) additional)) (\<lambda>actual.
     validate_count ''encoded bytes'' actual (maximum w))"

definition Writer_bytes :: "Writer \<Rightarrow> bytes \<Rightarrow> Writer run_result" where
  "Writer_bytes w value =
     bindE (Writer_reserve w (length value)) (\<lambda>_. Inr (w\<lparr>wbytes := wbytes w @ value\<rparr>))"

definition Writer_u8 :: "Writer \<Rightarrow> u8 \<Rightarrow> Writer run_result" where
  "Writer_u8 w value = Writer_bytes w [value]"

definition Writer_u16 :: "Writer \<Rightarrow> u16 \<Rightarrow> Writer run_result" where
  "Writer_u16 w value = Writer_bytes w (u16_to_be_bytes value)"

definition Writer_u64 :: "Writer \<Rightarrow> u64 \<Rightarrow> Writer run_result" where
  "Writer_u64 w value = Writer_bytes w (u64_to_be_bytes value)"

definition Writer_i64 :: "Writer \<Rightarrow> i64 \<Rightarrow> Writer run_result" where
  "Writer_i64 w value = Writer_bytes w (u64_to_be_bytes value)"

lemma unat_drop_bit_7: "unat (drop_bit 7 (v :: u64)) = unat v div 128"
  by (simp only: unat_drop_bit_eq drop_bit_eq_div [of 7 "unat v"]) simp

lemma drop_bit_7_less:
  assumes "drop_bit 7 (v :: u64) \<noteq> 0"
  shows "unat (drop_bit 7 v) < unat v"
proof -
  have "0 < unat v" using assms by (cases "v = 0") (simp_all add: unat_gt_0)
  then have "unat v div 128 < unat v" by simp
  then show ?thesis by (simp only: unat_drop_bit_7)
qed

function Writer_varint :: "Writer \<Rightarrow> u64 \<Rightarrow> Writer run_result" where
  "Writer_varint w value =
     (if unat (value AND 0x7f) \<ge> 256 then Inl IntegerOverflow else
      let low = ucast (value AND 0x7f) :: u8;
          value = drop_bit 7 value
      in bindE (Writer_u8 w (if value = 0 then low else low OR 0x80)) (\<lambda>w.
         if value = 0 then Inr w else Writer_varint w value))"
  by auto
termination
  by (relation "measure (\<lambda>(w, v). unat v)") (auto intro: drop_bit_7_less)

function varint_len :: "u64 \<Rightarrow> nat" where
  "varint_len value = (if value \<ge> 0x80 then Suc (varint_len (drop_bit 7 value)) else 1)"
  by auto
termination
proof (relation "measure unat")
  fix v :: u64
  assume "0x80 \<le> v"
  then have "128 \<le> unat v" by (simp add: word_le_nat_alt)
  then show "(drop_bit 7 v, v) \<in> measure unat" by (simp add: unat_drop_bit_7)
qed simp

declare Writer_varint.simps [simp del]
declare varint_len.simps [simp del]

definition Writer_string :: "Writer \<Rightarrow> str \<Rightarrow> nat \<Rightarrow> string \<Rightarrow> Writer run_result" where
  "Writer_string w value m field =
     bindE (validate_count field (length value) m) (\<lambda>_.
     bindE (usize_to_u64 (length value)) (\<lambda>len.
     bindE (Writer_varint w len) (\<lambda>w.
     Writer_bytes w value)))"

definition Writer_record :: "Writer \<Rightarrow> Writer \<Rightarrow> Writer run_result" where
  "Writer_record w rec =
     bindE (usize_to_u64 (length (wbytes rec))) (\<lambda>len.
     bindE (Writer_varint w len) (\<lambda>w.
     Writer_bytes w (wbytes rec)))"

section \<open>Reader\<close>

type_synonym RunReader = bytes

definition rd_bytes :: "RunReader \<Rightarrow> nat \<Rightarrow> (bytes \<times> RunReader) run_result" where
  "rd_bytes r len = (if len > length r then Inl UnexpectedEof else Inr (take len r, drop len r))"

definition rd_u8 :: "RunReader \<Rightarrow> (u8 \<times> RunReader) run_result" where
  "rd_u8 r = bindE (rd_bytes r 1) (\<lambda>(bs, r). case bs of [] \<Rightarrow> Inl UnexpectedEof | b # _ \<Rightarrow> Inr (b, r))"

definition rd_u16 :: "RunReader \<Rightarrow> (u16 \<times> RunReader) run_result" where
  "rd_u16 r = bindE (rd_bytes r 2) (\<lambda>(bs, r). Inr (from_be_bytes bs, r))"

definition rd_u64 :: "RunReader \<Rightarrow> (u64 \<times> RunReader) run_result" where
  "rd_u64 r = bindE (rd_bytes r 8) (\<lambda>(bs, r). Inr (from_be_bytes bs, r))"

definition rd_i64 :: "RunReader \<Rightarrow> (i64 \<times> RunReader) run_result" where
  "rd_i64 r = bindE (rd_bytes r 8) (\<lambda>(bs, r). Inr (from_be_bytes bs, r))"

fun rd_varint_loop :: "nat \<Rightarrow> nat \<Rightarrow> u64 \<Rightarrow> RunReader \<Rightarrow> (u64 \<times> RunReader) run_result" where
  "rd_varint_loop 0 index value r = Inl IntegerOverflow"
| "rd_varint_loop (Suc n) index value r =
     bindE (rd_u8 r) (\<lambda>(byte, r).
     let low = ucast (byte AND 0x7f) :: u64 in
     if index = 9 \<and> low > 1 then Inl IntegerOverflow else
     let value = value OR push_bit (index * 7) low in
     if byte AND 0x80 = 0
     then (if index > 0 \<and> low = 0 then Inl NonCanonicalVarint else Inr (value, r))
     else rd_varint_loop n (index + 1) value r)"

definition rd_varint :: "RunReader \<Rightarrow> (u64 \<times> RunReader) run_result" where
  "rd_varint r = rd_varint_loop 10 0 0 r"

definition rd_u32_varint :: "RunReader \<Rightarrow> (u32 \<times> RunReader) run_result" where
  "rd_u32_varint r = bindE (rd_varint r) (\<lambda>(v, r).
     if unat v < 2 ^ 32 then Inr (ucast v, r) else Inl IntegerOverflow)"

definition rd_bounded_count :: "string \<Rightarrow> nat \<Rightarrow> RunReader \<Rightarrow> (nat \<times> RunReader) run_result" where
  "rd_bounded_count field m r = bindE (rd_varint r) (\<lambda>(v, r).
     bindE (validate_count field (unat v) m) (\<lambda>_. Inr (unat v, r)))"

definition rd_record :: "nat \<Rightarrow> RunReader \<Rightarrow> (RunReader \<times> RunReader) run_result" where
  "rd_record m r = bindE (rd_bounded_count ''record bytes'' m r) (\<lambda>(len, r). rd_bytes r len)"

definition rd_typed_string ::
  "string \<Rightarrow> nat \<Rightarrow> (str \<Rightarrow> TypeError + 'a) \<Rightarrow> RunReader \<Rightarrow> ('a \<times> RunReader) run_result" where
  "rd_typed_string field m constructor r =
     bindE (rd_bounded_count field m r) (\<lambda>(len, r).
     bindE (rd_bytes r len) (\<lambda>(text, r).
     if \<not> from_utf8_ok text then Inl (InvalidUtf8 field) else
     bindE (map_err (\<lambda>_. InvalidValue field) (constructor text)) (\<lambda>v. Inr (v, r))))"

definition rd_finish_record :: "RunReader \<Rightarrow> unit run_result" where
  "rd_finish_record r = (if r = [] then Inr () else Inl RecordLengthMismatch)"

lemma validate_count_Inr [simp]: "validate_count f n m = Inr u \<longleftrightarrow> n \<le> m"
  by (simp add: validate_count_def)

lemma validate_count_ok [simp]: "n \<le> m \<Longrightarrow> validate_count f n m = Inr ()"
  by simp

lemma usize_to_u64_Inr [simp]: "usize_to_u64 n = Inr v \<longleftrightarrow> n < 2 ^ 64 \<and> v = of_nat n"
  by (auto simp: usize_to_u64_def)

lemma rd_finish_record_Inr [simp]: "rd_finish_record r = Inr u \<longleftrightarrow> r = []"
  by (simp add: rd_finish_record_def)

section \<open>What a writer appends\<close>

definition appends :: "Writer \<Rightarrow> Writer \<Rightarrow> bytes \<Rightarrow> bool" where
  "appends w w' bs \<longleftrightarrow> w' = w\<lparr>wbytes := wbytes w @ bs\<rparr> \<and> length (wbytes w') \<le> maximum w \<and>
     length (wbytes w') < 2 ^ 64"

fun leb :: "nat \<Rightarrow> bytes" where
  "leb n = (if n < 128 then [of_nat n] else of_nat (n mod 128 + 128) # leb (n div 128))"

declare leb.simps [simp del]

definition varint_wire :: "u64 \<Rightarrow> bytes" where "varint_wire v = leb (unat v)"

lemma appends_trans: "appends w v a \<Longrightarrow> appends v u b \<Longrightarrow> appends w u (a @ b)"
  by (auto simp: appends_def)

lemma appends_new: "appends (Writer_new m) w bs \<Longrightarrow> wbytes w = bs \<and> length bs \<le> m \<and> length bs < 2 ^ 64"
  by (auto simp: appends_def Writer_new_def)

lemma Writer_bytes_iff: "Writer_bytes w v = Inr w' \<longleftrightarrow> appends w w' v"
  by (auto simp: Writer_bytes_def Writer_reserve_def bindE_eq_Inr appends_def)

lemma Writer_fixed_iff:
  "Writer_u8 w b = Inr w' \<longleftrightarrow> appends w w' [b]"
  "Writer_u16 w c = Inr w' \<longleftrightarrow> appends w w' (u16_to_be_bytes c)"
  "Writer_u64 w v = Inr w' \<longleftrightarrow> appends w w' (u64_to_be_bytes v)"
  "Writer_i64 w v = Inr w' \<longleftrightarrow> appends w w' (u64_to_be_bytes v)"
  by (simp_all add: Writer_u8_def Writer_u16_def Writer_u64_def Writer_i64_def Writer_bytes_iff)

text \<open>The seven low bits and the continuation bit of a varint byte.\<close>

lemma and_7f: "w AND 0x7f = take_bit 7 (w :: 'a::len word)"
  by (simp add: take_bit_eq_mask mask_eq_exp_minus_1)

lemma unat_and_7f: "8 \<le> LENGTH('a) \<Longrightarrow> unat (w AND 0x7f :: 'a::len word) = unat w mod 128"
  by (simp only: and_7f unsigned_take_bit_eq take_bit_eq_mod [of 7 "unat w"]) simp

lemma bit_7_iff: "bit (b :: u8) 7 \<longleftrightarrow> 128 \<le> unat b"
proof -
  have "unat b < 256" using unat_less_2p [of b] by simp
  then have "odd (unat b div 128) \<longleftrightarrow> 128 \<le> unat b" by (cases "unat b < 128") (auto simp: div_if)
  moreover have "bit b 7 \<longleftrightarrow> bit (unat b) 7" by (simp only: bit_unsigned_iff) simp
  ultimately show ?thesis by (simp add: bit_iff_odd)
qed

lemma and_80_iff: "b AND 0x80 = 0 \<longleftrightarrow> unat (b :: u8) < 128"
proof -
  have *: "bit (0x80 :: u8) n \<longleftrightarrow> n = 7" for n
  proof -
    have "(0x80 :: u8) = push_bit 7 1" by simp
    then show ?thesis by (simp only: bit_push_bit_iff bit_1_iff) auto
  qed
  have bits: "bit (b AND 0x80) n \<longleftrightarrow> n = 7 \<and> bit b 7" for n
    by (simp only: bit_and_iff *) auto
  have "b AND 0x80 = 0 \<longleftrightarrow> \<not> bit b 7"
  proof
    assume "\<not> bit b 7"
    then show "b AND 0x80 = 0" by (intro bit_word_eqI) (simp only: bits bit_0_eq bot_apply bot_bool_def simp_thms)
  qed (use bits [of 7] in auto)
  then show ?thesis by (simp only: bit_7_iff not_le)
qed

lemma or_80: "unat l < 128 \<Longrightarrow> unat (l OR 0x80 :: u8) = unat l + 128"
proof -
  assume l: "unat l < 128"
  then have "l + 0x80 = l OR 0x80" by (intro disjunctive_add_eq_or) (simp only: and_80_iff)
  moreover have "unat (l + 0x80) = unat l + 128" using l by (simp add: unat_word_ariths)
  ultimately show ?thesis by simp
qed

lemma varint_wire_step:
  "varint_wire v = (let low = ucast (v AND 0x7f) :: u8; v' = drop_bit 7 v in
     (if v' = 0 then low else low OR 0x80) # (if v' = 0 then [] else varint_wire v'))"
proof -
  let ?low = "ucast (v AND 0x7f) :: u8"
  have l: "unat ?low = unat v mod 128" by (subst unat_ucast_down) (simp_all add: unat_and_7f)
  have z: "drop_bit 7 v = 0 \<longleftrightarrow> unat v < 128"
    by (simp only: word_unat_eq_iff unat_drop_bit_7) (simp add: div_eq_0_iff)
  show ?thesis
  proof (cases "unat v < 128")
    case True
    then have "?low = of_nat (unat v)" using l
      by (intro word_unat_eq_iff [THEN iffD2]) (simp only: unat_u8_of_nat, simp)
    with True z show ?thesis by (simp add: varint_wire_def leb.simps [of "unat v"] Let_def)
  next
    case False
    have "unat (?low OR 0x80) = unat v mod 128 + 128" using or_80 [of ?low] l by simp
    then have "?low OR 0x80 = of_nat (unat v mod 128 + 128)"
      by (intro word_unat_eq_iff [THEN iffD2]) (simp only: unat_u8_of_nat, simp)
    with False z show ?thesis
      by (simp add: varint_wire_def leb.simps [of "unat v"] Let_def unat_drop_bit_7 [symmetric])
  qed
qed

lemma Writer_varint_appends: "Writer_varint w v = Inr w' \<Longrightarrow> appends w w' (varint_wire v)"
proof (induction w v arbitrary: w' rule: Writer_varint.induct)
  case (1 w v)
  let ?v = "drop_bit 7 v" let ?b = "if ?v = 0 then ucast (v AND 0x7f) else ucast (v AND 0x7f) OR 0x80 :: u8"
  have small: "\<not> 256 \<le> unat (v AND 0x7f)" by (simp add: unat_and_7f)
  from 1(2) small obtain u where u: "Writer_u8 w ?b = Inr u" and w': "?v = 0 \<and> w' = u \<or> ?v \<noteq> 0 \<and> Writer_varint u ?v = Inr w'"
    by (subst (asm) Writer_varint.simps) (auto simp: Let_def bindE_eq_Inr split: if_splits)
  from u have a: "appends w u [?b]" by (simp only: Writer_fixed_iff)
  show ?case
  proof (cases "?v = 0")
    case True
    with w' a show ?thesis by (subst varint_wire_step) simp
  next
    case False
    with w' 1(1) [OF _ refl refl, of u] small u have "appends u w' (varint_wire ?v)" by (simp add: Let_def)
    from appends_trans [OF a this] False show ?thesis by (subst varint_wire_step) simp
  qed
qed

lemma length_varint_wire: "length (varint_wire v) = varint_len v"
proof (induction v rule: varint_len.induct)
  case (1 v)
  have "drop_bit 7 v = 0 \<longleftrightarrow> \<not> 0x80 \<le> v"
    by (simp only: word_unat_eq_iff unat_drop_bit_7 word_le_nat_alt) (simp add: div_eq_0_iff not_le)
  with 1 show ?case
    by (subst varint_wire_step, subst varint_len.simps) (simp add: Let_def)
qed

section \<open>The fields as codecs\<close>

lemma rd_bytes_append [simp]: "length w = n \<Longrightarrow> rd_bytes (w @ s) n = Inr (w, s)"
  by (auto simp: rd_bytes_def)

lemma rd_bytes_Inr: "rd_bytes bs n = Inr (w, s) \<longleftrightarrow> length w = n \<and> bs = w @ s"
  by (auto simp: rd_bytes_def)

lemma rd_u8_simps [simp]: "rd_u8 [] = Inl UnexpectedEof" "rd_u8 (b # s) = Inr (b, s)"
  by (simp_all add: rd_u8_def rd_bytes_def)

interpretation rw_bytes: codec suffix_at "\<lambda>x. x" "\<lambda>r. rd_bytes r n" "\<lambda>x. length x = n" for n
  by unfold_locales (auto simp: rd_bytes_Inr)

interpretation rw_u8: codec suffix_at "\<lambda>b. [b]" rd_u8 "\<lambda>_. True"
proof unfold_locales
  fix bs :: bytes and x rd
  assume "rd_u8 bs = Inr (x, rd)"
  then show "True \<and> (\<exists>s. bs = [x] @ s \<and> rd = s)" by (cases bs) auto
qed simp_all

interpretation rw_u16: codec suffix_at u16_to_be_bytes rd_u16 "\<lambda>_. True"
  by unfold_locales (auto simp: rd_u16_def bindE_eq_Inr rd_bytes_Inr from_be_to_be to_be_from_be)

interpretation rw_u64: codec suffix_at u64_to_be_bytes rd_u64 "\<lambda>_. True"
  by unfold_locales (auto simp: rd_u64_def bindE_eq_Inr rd_bytes_Inr from_be_to_be to_be_from_be)

interpretation rw_i64: codec suffix_at u64_to_be_bytes rd_i64 "\<lambda>_. True"
  by unfold_locales (auto simp: rd_i64_def bindE_eq_Inr rd_bytes_Inr from_be_to_be to_be_from_be)

text \<open>The varint loop, with the accumulated value as a natural number.\<close>

lemma or_push_bit:
  assumes "acc < 2 ^ k"
  shows "(of_nat acc :: u64) OR push_bit k (of_nat l) = of_nat (acc + l * 2 ^ k)"
proof -
  have "n < k" if "bit acc n" for n
    using assms that by (metis bit_take_bit_iff take_bit_nat_eq_self)
  then have "acc + push_bit k l = acc OR push_bit k l"
    by (intro disjunctive_add) (meson bit_push_bit_iff linorder_not_less)
  then have "(of_nat (acc + push_bit k l) :: u64) = of_nat acc OR push_bit k (of_nat l)"
    by (simp only: of_nat_or_eq of_nat_push_bit)
  then show ?thesis by (simp only: push_bit_eq_mult [of k l])
qed

text \<open>One turn of the loop on a byte with low bits \<open>l\<close>.\<close>

lemma varint_turn:
  assumes "acc < 2 ^ (7 * i)"
  shows "rd_varint_loop (Suc n) i (of_nat acc) (b # s) =
    (let l = unat b mod 128; v = of_nat (acc + l * 2 ^ (7 * i)) in
     if i = 9 \<and> 1 < l then Inl IntegerOverflow
     else if unat b < 128 then (if 0 < i \<and> l = 0 then Inl NonCanonicalVarint else Inr (v, s))
     else rd_varint_loop n (i + 1) v s)"
proof -
  have l: "(ucast (b AND 0x7f) :: u64) = of_nat (unat b mod 128)"
    by (rule word_unat_eq_iff [THEN iffD2]) (simp add: unat_ucast_up unat_and_7f unat_of_nat)
  have "(1 :: u64) < of_nat (unat b mod 128) \<longleftrightarrow> 1 < unat b mod 128"
    and "(of_nat (unat b mod 128) :: u64) = 0 \<longleftrightarrow> unat b mod 128 = 0"
    by (simp_all add: word_less_nat_alt word_unat_eq_iff [of _ 0] unat_of_nat)
  then show ?thesis
    using assms by (simp only: rd_varint_loop.simps rd_u8_simps bindE_Inr prod.case Let_def l and_80_iff
        or_push_bit mult.commute [of i 7])
qed

declare rd_varint_loop.simps(2) [simp del]

lemma leb_small: "n < 128 \<Longrightarrow> leb n = [of_nat n]"
  by (simp add: leb.simps)

lemma leb_big: "128 \<le> n \<Longrightarrow> leb n = of_nat (n mod 128 + 128) # leb (n div 128)"
  by (simp add: leb.simps)

lemma acc_step: "(acc :: nat) < 2 ^ (7 * i) \<Longrightarrow> l < 128 \<Longrightarrow> acc + l * 2 ^ (7 * i) < 2 ^ (7 * (i + 1))"
proof -
  assume a: "acc < 2 ^ (7 * i)" and "l < 128"
  then have "(l + 1) * 2 ^ (7 * i) \<le> 128 * 2 ^ (7 * i)" by (intro mult_le_mono1) simp
  moreover have "(2 :: nat) ^ (7 * (i + 1)) = 128 * 2 ^ (7 * i)" by (simp add: power_add)
  moreover have "acc + l * 2 ^ (7 * i) < (l + 1) * 2 ^ (7 * i)" using a by (simp add: distrib_right)
  ultimately show ?thesis by (simp only:)
qed

lemma loop_read_leb:
  assumes "i + n = 10" and "i < 10" and "acc < 2 ^ (7 * i)" and "acc + x * 2 ^ (7 * i) < 2 ^ 64"
    and "0 < i \<longrightarrow> 0 < x"
  shows "rd_varint_loop n i (of_nat acc) (leb x @ s) = Inr (of_nat (acc + x * 2 ^ (7 * i)), s)"
  using assms
proof (induction x arbitrary: i n acc rule: leb.induct)
  case (1 x)
  obtain n' where n: "n = Suc n'" using 1(2,3) by (cases n) auto
  have nine: "x \<le> 1" if "i = 9"
  proof (rule ccontr)
    assume "\<not> x \<le> 1"
    then have "2 * (2 :: nat) ^ 63 \<le> x * 2 ^ 63" by (intro mult_le_mono1) simp
    with 1(5) that show False by simp
  qed
  show ?case
  proof (cases "x < 128")
    case True
    have "unat (of_nat x :: u8) = x" using True by (simp add: unat_u8_of_nat)
    with True n nine 1(4,6) show ?thesis
      by (auto simp: leb_small varint_turn Let_def)
  next
    case False
    let ?b = "of_nat (x mod 128 + 128) :: u8"
    have b: "unat ?b = x mod 128 + 128" by (simp only: unat_u8_of_nat) simp
    have "(x mod 128 + 128) mod 128 = x mod 128" by simp
    have "i \<noteq> 9" using nine False by auto
    have x: "x mod 128 * 2 ^ (7 * i) + x div 128 * 2 ^ (7 * (i + 1)) = x * 2 ^ (7 * i)"
    proof -
      have "x * 2 ^ (7 * i) = (x mod 128 + 128 * (x div 128)) * 2 ^ (7 * i)" by simp
      also have "\<dots> = x mod 128 * 2 ^ (7 * i) + x div 128 * (128 * 2 ^ (7 * i))"
        by (simp only: distrib_right mult.assoc mult.left_commute)
      finally show ?thesis by (simp add: power_add)
    qed
    have "rd_varint_loop n' (i + 1) (of_nat (acc + x mod 128 * 2 ^ (7 * i))) (leb (x div 128) @ s)
        = Inr (of_nat (acc + x mod 128 * 2 ^ (7 * i) + x div 128 * 2 ^ (7 * (i + 1))), s)"
      using False \<open>i \<noteq> 9\<close> 1(2-5) n x acc_step [of acc i "x mod 128"]
      by (intro 1(1)) (auto simp: div_greater_zero_iff)
    then show ?thesis
      using False n 1(4) b x \<open>i \<noteq> 9\<close>
      by (simp add: leb_big varint_turn Let_def add.assoc del: of_nat_add of_nat_mult)
  qed
qed

lemma loop_leb_read:
  assumes "i + n = 10" and "acc < 2 ^ (7 * i)" and "rd_varint_loop n i (of_nat acc) bs = Inr (v, s)"
  shows "\<exists>x. bs = leb x @ s \<and> (0 < i \<longrightarrow> 0 < x) \<and> acc + x * 2 ^ (7 * i) < 2 ^ 64 \<and>
    v = of_nat (acc + x * 2 ^ (7 * i))"
  using assms
proof (induction n arbitrary: i acc bs)
  case (Suc n)
  obtain b t where bs: "bs = b # t" using Suc.prems(3) by (cases bs) (auto simp: rd_varint_loop.simps(2))
  let ?l = "unat b mod 128"
  have acc': "acc + ?l * 2 ^ (7 * i) < 2 ^ (7 * (i + 1))" using Suc.prems(2) by (intro acc_step) auto
  have bound: "acc + ?l * 2 ^ (7 * i) < 2 ^ 64" if "\<not> (i = 9 \<and> 1 < ?l)"
  proof (cases "i = 9")
    case True
    with that have "?l * 2 ^ 63 \<le> 2 ^ 63" by simp
    with True Suc.prems(2) show ?thesis by simp
  next
    case False
    then have "(2 :: nat) ^ (7 * (i + 1)) \<le> 2 ^ 64" using Suc.prems(1) by (intro power_increasing) auto
    with acc' show ?thesis by linarith
  qed
  show ?case
  proof (cases "unat b < 128")
    case True
    with Suc.prems bs have nov: "\<not> (i = 9 \<and> 1 < ?l)" and "\<not> (0 < i \<and> ?l = 0)"
      and "v = of_nat (acc + ?l * 2 ^ (7 * i))" "t = s"
      by (auto simp: varint_turn Let_def split: if_splits)
    with True bs bound [OF nov] show ?thesis
      by (intro exI [of _ "unat b"]) (auto simp: leb_small)
  next
    case False
    with Suc.prems(2,3) bs have nov: "\<not> (i = 9 \<and> 1 < ?l)"
      and rec: "rd_varint_loop n (i + 1) (of_nat (acc + ?l * 2 ^ (7 * i))) t = Inr (v, s)"
      by (auto simp: varint_turn Let_def split: if_splits)
    from Suc.IH [OF _ acc' rec] Suc.prems(1) obtain y where t: "t = leb y @ s" and y: "0 < y"
      and le: "acc + ?l * 2 ^ (7 * i) + y * 2 ^ (7 * (i + 1)) < 2 ^ 64"
      and v: "v = of_nat (acc + ?l * 2 ^ (7 * i) + y * 2 ^ (7 * (i + 1)))"
      by auto
    define x where "x = ?l + 128 * y"
    have x: "x mod 128 = ?l" "x div 128 = y" "128 \<le> x" using y by (auto simp: x_def)
    have "unat b < 256" using unat_less_2p [of b] by simp
    then have "?l + 128 = unat b" using False le_mod_geq [of 128 "unat b"] by simp
    then have "b # t = leb x @ s" using x t by (simp add: leb_big)
    moreover have "acc + x * 2 ^ (7 * i) = acc + ?l * 2 ^ (7 * i) + y * 2 ^ (7 * (i + 1))"
      by (simp add: x_def power_add algebra_simps)
    ultimately show ?thesis using bs le v x(3) by (intro exI [of _ x]) simp
  qed
qed simp

interpretation rw_varint: codec suffix_at varint_wire rd_varint "\<lambda>_. True"
proof unfold_locales
  fix x and p s :: bytes
  show "rd_varint (varint_wire x @ s) = Inr (x, s)"
    using loop_read_leb [of 0 10 0 "unat x" s] unat_less_2p [of x] by (simp add: rd_varint_def varint_wire_def)
next
  fix bs :: bytes and x rd
  assume "rd_varint bs = Inr (x, rd)"
  then show "True \<and> (\<exists>s. bs = varint_wire x @ s \<and> rd = s)"
    using loop_leb_read [of 0 10 0 bs x rd] by (auto simp: rd_varint_def varint_wire_def unat_of_nat)
qed simp

definition u32_wire :: "u32 \<Rightarrow> bytes" where "u32_wire v = varint_wire (ucast v)"
definition count_wire :: "nat \<Rightarrow> bytes" where "count_wire n = varint_wire (of_nat n)"
definition record_wire :: "bytes \<Rightarrow> bytes" where "record_wire b = count_wire (length b) @ b"

interpretation rw_u32: codec suffix_at u32_wire rd_u32_varint "\<lambda>_. True"
proof unfold_locales
  fix x :: u32 and p s :: bytes
  show "rd_u32_varint (u32_wire x @ s) = Inr (x, s)"
    using unat_less_2p [of x] rw_varint.read_wire [of "ucast x" s]
    by (simp add: rd_u32_varint_def u32_wire_def unat_ucast_up ucast_ucast_small)
next
  fix p bs :: bytes and x rd
  assume "rd_u32_varint bs = Inr (x, rd)"
  then show "True \<and> (\<exists>s. bs = u32_wire x @ s \<and> rd = s)"
    by (auto simp: rd_u32_varint_def u32_wire_def bindE_eq_Inr rw_varint.read_iff ucast_ucast_small
        split: if_splits)
qed simp

interpretation rw_count: codec suffix_at count_wire "rd_bounded_count field m"
    "\<lambda>n. n \<le> m \<and> n < 2 ^ 64" for field m
proof unfold_locales
  fix x and p s :: bytes
  assume "x \<le> m \<and> x < 2 ^ 64"
  then show "rd_bounded_count field m (count_wire x @ s) = Inr (x, s)"
    by (simp add: rd_bounded_count_def count_wire_def rw_varint.read_wire unat_of_nat_small)
next
  fix p bs :: bytes and x rd
  assume "rd_bounded_count field m bs = Inr (x, rd)"
  then show "(x \<le> m \<and> x < 2 ^ 64) \<and> (\<exists>s. bs = count_wire x @ s \<and> rd = s)"
    using unat_less_2p [where 'a = 64]
    by (auto simp: rd_bounded_count_def count_wire_def bindE_eq_Inr rw_varint.read_iff)
qed simp

interpretation rw_record: codec suffix_at record_wire "rd_record m"
    "\<lambda>b. length b \<le> m \<and> length b < 2 ^ 64" for m
  by unfold_locales
    (auto simp: rd_record_def record_wire_def rw_count.read_wire bindE_eq_Inr rw_count.read_iff rd_bytes_Inr)

text \<open>A string field holds a name: the constructor refuses blank text and keeps any other.\<close>

definition name_constructor :: "(str \<Rightarrow> TypeError + str) \<Rightarrow> bool" where
  "name_constructor c \<longleftrightarrow> (\<forall>s t. c s = Inr t \<longleftrightarrow> t = s \<and> \<not> trim_is_empty s)"

lemma name_constructors_ok [simp]:
  "name_constructor KeyId_new" "name_constructor BackendObjectId_new"
  "name_constructor BackendVersionId_new" "name_constructor LogicalPath_new"
  by (simp_all add: name_constructor_def name_constructors)

lemma typed_string_wire:
  "name_constructor c \<Longrightarrow> valid_name x \<Longrightarrow> length x \<le> m \<Longrightarrow> length x < 2 ^ 64 \<Longrightarrow>
   rd_typed_string field m c (record_wire x @ s) = Inr (x, s)"
  by (simp add: rd_typed_string_def record_wire_def rw_count.read_wire valid_name_def name_constructor_def
      bindE_eq_Inr)

lemma typed_string_read:
  "name_constructor c \<Longrightarrow> rd_typed_string field m c bs = Inr (x, s) \<Longrightarrow>
   valid_name x \<and> length x \<le> m \<and> length x < 2 ^ 64 \<and> bs = record_wire x @ s"
  by (auto simp: rd_typed_string_def record_wire_def bindE_eq_Inr rw_count.read_iff rd_bytes_Inr
      valid_name_def name_constructor_def split: if_splits)

lemma typed_string_iff:
  "name_constructor c \<Longrightarrow> rd_typed_string field m c bs = Inr (x, s) \<longleftrightarrow>
   valid_name x \<and> length x \<le> m \<and> length x < 2 ^ 64 \<and> bs = record_wire x @ s"
  using typed_string_wire typed_string_read by metis

interpretation rw_name: codec suffix_at record_wire "rd_typed_string field m KeyId_new"
    "\<lambda>x. valid_name x \<and> length x \<le> m \<and> length x < 2 ^ 64" for field m
  by unfold_locales (auto simp: typed_string_iff)

lemma Writer_string_appends:
  "Writer_string w v m f = Inr w' \<Longrightarrow> length v \<le> m \<and> length v < 2 ^ 64 \<and> appends w w' (record_wire v)"
  by (auto simp: Writer_string_def bindE_eq_Inr record_wire_def count_wire_def Writer_bytes_iff
      intro: appends_trans dest!: Writer_varint_appends)

lemma Writer_record_appends:
  "Writer_record w v = Inr w' \<Longrightarrow> length (wbytes v) < 2 ^ 64 \<and> appends w w' (record_wire (wbytes v))"
  by (auto simp: Writer_record_def bindE_eq_Inr record_wire_def count_wire_def Writer_bytes_iff
      intro: appends_trans dest!: Writer_varint_appends)

lemmas run_readers =
  rw_bytes.read_wire rw_u8.read_wire rw_u16.read_wire rw_u64.read_wire rw_i64.read_wire
  rw_varint.read_wire rw_u32.read_wire rw_count.read_wire rw_record.read_wire typed_string_wire

lemmas run_read_iffs =
  rd_bytes_Inr rw_u8.read_iff rw_u16.read_iff rw_u64.read_iff rw_i64.read_iff
  rw_varint.read_iff rw_u32.read_iff rw_count.read_iff rw_record.read_iff typed_string_iff

lemma varint_wire_nonempty: "0 < length (varint_wire v)"
  by (simp add: length_varint_wire varint_len.simps)

end
