(* ===== verification/Payload.thy ===== *)
theory Payload
  imports Types
begin

text \<open>
  The encrypted layout of a detached payload (\<open>rs3-index/src/lib.rs\<close>, \<open>PayloadLayout\<close>): the
  check of the selected parts and the exact ciphertext length they give.
\<close>

definition PAYLOAD_AEAD_TAG_LEN :: nat where "PAYLOAD_AEAD_TAG_LEN = 16"
definition PAYLOAD_PACK_SEGMENT_BYTES :: nat where "PAYLOAD_PACK_SEGMENT_BYTES = 64 * 1024"
definition MAX_PAYLOAD_PARTS :: nat where "MAX_PAYLOAD_PARTS = 10000"

record PayloadPart =
  pp_part_number :: u32
  pp_attempt_id :: PayloadAttemptId
  pp_plaintext_len :: u64

record PayloadLayout =
  pl_chunk_size :: u64
  pl_plaintext_len :: u64
  pl_key_id :: KeyId
  pl_carrier_id :: bytes
  pl_parts :: "PayloadPart list"

definition layout_bounds_ok :: "PayloadLayout \<Rightarrow> bool" where
  "layout_bounds_ok l \<longleftrightarrow> \<not> (pl_chunk_size l = 0 \<or> pl_chunk_size l > 64 * 1024 * 1024 \<or>
     pl_plaintext_len l = 0 \<or> pl_parts l = [] \<or> length (pl_parts l) > MAX_PAYLOAD_PARTS \<or>
     pl_key_id l = [] \<or> length (pl_key_id l) > 255)"

fun stored_len_parts :: "u64 \<Rightarrow> u32 \<Rightarrow> u64 \<Rightarrow> u64 \<Rightarrow> PayloadPart list \<Rightarrow> (u64 \<times> u64) option" where
  "stored_len_parts chunk previous plaintext stored [] = Some (plaintext, stored)"
| "stored_len_parts chunk previous plaintext stored (part # parts) =
     (if pp_part_number part \<le> previous \<or> pp_part_number part > of_nat MAX_PAYLOAD_PARTS
         \<or> pp_plaintext_len part = 0 then None
      else Option.bind (checked_add plaintext (pp_plaintext_len part)) (\<lambda>plaintext.
           Option.bind (checked_mul (div_ceil (pp_plaintext_len part) chunk) (of_nat PAYLOAD_AEAD_TAG_LEN)) (\<lambda>tags.
           Option.bind (checked_add (pp_plaintext_len part) tags) (\<lambda>sealed.
           Option.bind (checked_add stored sealed) (\<lambda>stored.
           stored_len_parts chunk (pp_part_number part) plaintext stored parts)))))"

definition PayloadLayout_stored_len :: "PayloadLayout \<Rightarrow> u64 option" where
  "PayloadLayout_stored_len l =
     (if \<not> layout_bounds_ok l then None
      else Option.bind (stored_len_parts (pl_chunk_size l) 0 0 0 (pl_parts l)) (\<lambda>(plaintext, stored).
           if plaintext = pl_plaintext_len l then Some stored else None))"

section \<open>The exact ciphertext length\<close>

text \<open>A part is cut in segments of the chunk size, and each segment carries one tag.\<close>

definition sealed_len :: "nat \<Rightarrow> nat \<Rightarrow> nat" where
  "sealed_len chunk n = n + (n + chunk - 1) div chunk * 16"

definition layout_ok :: "PayloadLayout \<Rightarrow> bool" where
  "layout_ok l \<longleftrightarrow> layout_bounds_ok l \<and>
     sorted_wrt (<) (0 # map pp_part_number (pl_parts l)) \<and>
     (\<forall>p \<in> set (pl_parts l). unat (pp_part_number p) \<le> 10000 \<and> 0 < pp_plaintext_len p) \<and>
     (\<Sum>p \<leftarrow> pl_parts l. unat (pp_plaintext_len p)) = unat (pl_plaintext_len l)"

definition layout_len :: "PayloadLayout \<Rightarrow> nat" where
  "layout_len l = (\<Sum>p \<leftarrow> pl_parts l. sealed_len (unat (pl_chunk_size l)) (unat (pp_plaintext_len p)))"

lemma checked_mul_iff: "checked_mul a b = Some c \<longleftrightarrow> unat c = unat a * unat (b :: 'a::len word)"
proof
  assume *: "unat c = unat a * unat b"
  then have "unat a * unat b < 2 ^ LENGTH('a)" by (metis unat_less_2p)
  moreover have "a * b = c" by (simp only: word_arith_nat_mult [of a b] * [symmetric]) simp
  ultimately show "checked_mul a b = Some c" by (simp add: checked_mul_def)
qed (rule checked_mul_Some)

lemma word_exists: "n \<le> unat (b :: 'a::len word) \<Longrightarrow> \<exists>c :: 'a word. unat c = n"
  by (intro exI [of _ "of_nat n"] unat_of_nat_small) (use unat_less_2p [of b] in linarith)

lemma seal_step:
  fixes chunk n stored :: u64
  assumes "0 < chunk"
  shows "Option.bind (checked_mul (div_ceil n chunk) (of_nat PAYLOAD_AEAD_TAG_LEN)) (\<lambda>tags.
      Option.bind (checked_add n tags) (\<lambda>sealed. Option.bind (checked_add stored sealed) f)) = Some r \<longleftrightarrow>
    (\<exists>st. unat st = unat stored + sealed_len (unat chunk) (unat n) \<and> f st = Some r)" (is "?L \<longleftrightarrow> ?R")
proof
  assume ?R
  then obtain st where st: "unat st = unat stored + sealed_len (unat chunk) (unat n)" "f st = Some r" by blast
  obtain c :: u64 where c: "unat c = sealed_len (unat chunk) (unat n)"
    using word_exists [of "sealed_len (unat chunk) (unat n)" st] st by auto
  obtain t :: u64 where t: "unat t = (unat n + unat chunk - 1) div unat chunk * 16"
    using word_exists [of "(unat n + unat chunk - 1) div unat chunk * 16" c] c by (auto simp: sealed_len_def)
  have "checked_mul (div_ceil n chunk) (of_nat PAYLOAD_AEAD_TAG_LEN) = Some t"
    using t by (simp add: checked_mul_iff unat_div_ceil [OF assms] PAYLOAD_AEAD_TAG_LEN_def)
  moreover have "checked_add n t = Some c" and "checked_add stored c = Some st"
    using c t st(1) by (simp_all add: checked_add_Some sealed_len_def)
  ultimately show ?L using st(2) by simp
qed (auto simp: bind_eq_Some_conv checked_mul_iff checked_add_Some unat_div_ceil [OF assms]
    PAYLOAD_AEAD_TAG_LEN_def sealed_len_def)

lemma stored_len_parts_iff:
  assumes "0 < chunk"
  shows "stored_len_parts chunk previous plaintext stored parts = Some (p, s) \<longleftrightarrow>
    sorted_wrt (<) (previous # map pp_part_number parts) \<and>
    (\<forall>q \<in> set parts. unat (pp_part_number q) \<le> 10000 \<and> 0 < pp_plaintext_len q) \<and>
    unat p = unat plaintext + (\<Sum>q \<leftarrow> parts. unat (pp_plaintext_len q)) \<and>
    unat s = unat stored + (\<Sum>q \<leftarrow> parts. sealed_len (unat chunk) (unat (pp_plaintext_len q)))"
proof (induction parts arbitrary: previous plaintext stored)
  case Nil
  show ?case by (auto simp: word_unat_eq_iff)
next
  case (Cons q parts)
  let ?n = "unat (pp_plaintext_len q)" let ?S = "\<Sum>q \<leftarrow> parts. sealed_len (unat chunk) (unat (pp_plaintext_len q))"
  let ?P = "\<Sum>q \<leftarrow> parts. unat (pp_plaintext_len q)"
  have guard: "pp_part_number q \<le> previous \<or> pp_part_number q > of_nat MAX_PAYLOAD_PARTS \<or> pp_plaintext_len q = 0
      \<longleftrightarrow> \<not> (previous < pp_part_number q \<and> unat (pp_part_number q) \<le> 10000 \<and> 0 < pp_plaintext_len q)"
    by (auto simp: MAX_PAYLOAD_PARTS_def word_less_nat_alt word_le_nat_alt not_le not_less unat_gt_0)
  have len: "(\<exists>pl :: u64. unat pl = unat plaintext + ?n \<and> (\<exists>st :: u64. unat st = unat stored + sealed_len (unat chunk) ?n \<and>
        unat p = unat pl + ?P \<and> unat s = unat st + ?S)) \<longleftrightarrow>
      unat p = unat plaintext + (?n + ?P) \<and> unat s = unat stored + (sealed_len (unat chunk) ?n + ?S)"
    (is "?E \<longleftrightarrow> ?F")
  proof
    assume ?F
    then obtain pl st :: u64 where "unat pl = unat plaintext + ?n"
      and "unat st = unat stored + sealed_len (unat chunk) ?n"
      using word_exists [of "unat plaintext + ?n" p] word_exists [of "unat stored + sealed_len (unat chunk) ?n" s]
      by auto
    with \<open>?F\<close> show ?E by (intro exI [of _ pl] exI [of _ st] conjI) simp_all
  qed auto
  show ?case
  proof (cases "previous < pp_part_number q \<and> unat (pp_part_number q) \<le> 10000 \<and> 0 < pp_plaintext_len q")
    case True
    then have "stored_len_parts chunk previous plaintext stored (q # parts) = Some (p, s) \<longleftrightarrow>
        (\<exists>pl. unat pl = unat plaintext + ?n \<and> (\<exists>st. unat st = unat stored + sealed_len (unat chunk) ?n \<and>
          stored_len_parts chunk (pp_part_number q) pl st parts = Some (p, s)))"
      by (simp only: stored_len_parts.simps guard simp_thms if_False bind_eq_Some_conv [of "checked_add plaintext _"]
          seal_step [OF assms] checked_add_Some)
    also have "\<dots> \<longleftrightarrow> sorted_wrt (<) (pp_part_number q # map pp_part_number parts) \<and>
        (\<forall>q \<in> set parts. unat (pp_part_number q) \<le> 10000 \<and> 0 < pp_plaintext_len q) \<and>
        unat p = unat plaintext + (?n + ?P) \<and> unat s = unat stored + (sealed_len (unat chunk) ?n + ?S)"
      unfolding Cons.IH len [symmetric] by blast
    finally show ?thesis using True by (auto dest: less_trans)
  qed (simp only: stored_len_parts.simps guard, auto)
qed

lemma PayloadLayout_stored_len_iff:
  "PayloadLayout_stored_len l = Some s \<longleftrightarrow> layout_ok l \<and> unat s = layout_len l"
proof (cases "layout_bounds_ok l")
  case True
  then have "0 < pl_chunk_size l" by (simp add: layout_bounds_ok_def word_neq_0_conv)
  note parts = stored_len_parts_iff [OF this, of 0 0 0 "pl_parts l"]
  have "PayloadLayout_stored_len l = Some s \<longleftrightarrow>
      stored_len_parts (pl_chunk_size l) 0 0 0 (pl_parts l) = Some (pl_plaintext_len l, s)"
    using True by (auto simp: PayloadLayout_stored_len_def bind_eq_Some_conv split: if_splits)
  then show ?thesis using True unfolding parts by (auto simp: layout_ok_def layout_len_def)
qed (simp add: PayloadLayout_stored_len_def layout_ok_def)

end
