(* ===== verification/Etag.thy ===== *)
theory Etag
  imports Types
begin

text \<open>
  Plaintext ETag facts (\<open>rs3-types/src/etag.rs\<close>): a sixteen-byte MD5 and a part count that
  is zero for an ordinary PUT, in an exact twenty-byte encoding.
\<close>

type_synonym Md5Digest = bytes

record ObjectEtag =
  etag_digest :: Md5Digest
  etag_parts :: u32

datatype ObjectEtagError = InvalidEtagEncoding | InvalidEtagPartCount

definition ETAG_ENCODED_BYTES :: nat where "ETAG_ENCODED_BYTES = 20"

definition ObjectEtag_single :: "Md5Digest \<Rightarrow> ObjectEtag" where
  "ObjectEtag_single d = \<lparr>etag_digest = d, etag_parts = 0\<rparr>"

definition ObjectEtag_multipart :: "Md5Digest \<Rightarrow> u32 \<Rightarrow> ObjectEtagError + ObjectEtag" where
  "ObjectEtag_multipart d parts =
     (if \<not> (1 \<le> parts \<and> parts \<le> 10000) then Inl InvalidEtagPartCount
      else Inr \<lparr>etag_digest = d, etag_parts = parts\<rparr>)"

definition part_count :: "ObjectEtag \<Rightarrow> u32 option" where
  "part_count e = (if etag_parts e = 0 then None else Some (etag_parts e))"

definition ObjectEtag_encode :: "ObjectEtag \<Rightarrow> bytes" where
  "ObjectEtag_encode e = u32_to_be_bytes (etag_parts e) @ etag_digest e"

definition ObjectEtag_try_from :: "bytes \<Rightarrow> ObjectEtagError + ObjectEtag" where
  "ObjectEtag_try_from bs =
     (let parts = from_be_bytes (take 4 bs); d = drop 4 bs in
      if parts = 0 then Inr (ObjectEtag_single d) else ObjectEtag_multipart d parts)"

definition ObjectEtag_decode :: "bytes \<Rightarrow> ObjectEtagError + ObjectEtag" where
  "ObjectEtag_decode bs =
     (if length bs \<noteq> ETAG_ENCODED_BYTES then Inl InvalidEtagEncoding else ObjectEtag_try_from bs)"

definition valid_etag :: "ObjectEtag \<Rightarrow> bool" where
  "valid_etag e \<longleftrightarrow> length (etag_digest e) = 16 \<and> etag_parts e \<le> 10000"

lemma length_ObjectEtag_encode: "valid_etag e \<Longrightarrow> length (ObjectEtag_encode e) = 20"
  by (simp add: valid_etag_def ObjectEtag_encode_def)

lemma one_le_word: "1 \<le> (p :: u32) \<longleftrightarrow> p \<noteq> 0"
  by (simp add: word_le_nat_alt Suc_le_eq unat_gt_0)

lemma ObjectEtag_decode_iff:
  "ObjectEtag_decode bs = Inr e \<longleftrightarrow> valid_etag e \<and> bs = ObjectEtag_encode e"
proof
  assume L: "ObjectEtag_decode bs = Inr e"
  then have len: "length bs = 20" by (simp add: ObjectEtag_decode_def ETAG_ENCODED_BYTES_def split: if_splits)
  then have t: "length (take 4 bs) = 4" and d: "length (drop 4 bs) = 16" by simp_all
  from L len have e: "etag_digest e = drop 4 bs" "etag_parts e = from_be_bytes (take 4 bs)" "etag_parts e \<le> 10000"
    by (auto simp: ObjectEtag_decode_def ETAG_ENCODED_BYTES_def ObjectEtag_try_from_def Let_def
        ObjectEtag_single_def ObjectEtag_multipart_def split: if_splits)
  with t d show "valid_etag e \<and> bs = ObjectEtag_encode e"
    by (simp add: valid_etag_def ObjectEtag_encode_def to_be_from_be)
next
  assume "valid_etag e \<and> bs = ObjectEtag_encode e"
  then show "ObjectEtag_decode bs = Inr e"
    by (cases e) (auto simp: ObjectEtag_decode_def ETAG_ENCODED_BYTES_def ObjectEtag_try_from_def Let_def
        ObjectEtag_single_def ObjectEtag_multipart_def ObjectEtag_encode_def valid_etag_def from_be_to_be
        one_le_word)
qed

end
