(* ===== verification/Cbor.thy ===== *)
theory Cbor
  imports Codec RustStd
begin

text \<open>
  The bounded canonical CBOR primitives of \<open>rs3-types/src/cbor.rs\<close>: the writers append to a
  byte vector; the reader is a cursor over borrowed input. A slice is never longer than
  \<open>2 ^ 63 - 1\<close> bytes, so the overflow branch of \<open>take\<close> is the branch where the
  declared end lies past the input, with the same error.
\<close>

datatype CborError = Invalid

section \<open>Writers\<close>

definition write_type_len :: "bytes \<Rightarrow> u8 \<Rightarrow> u64 \<Rightarrow> bytes" where
  "write_type_len out major value =
     (let prefix = push_bit 5 major in
      if value \<le> 23 then out @ [prefix OR ucast value]
      else if value \<le> 0xff then out @ [prefix OR 24] @ [ucast value]
      else if value \<le> 0xffff then out @ [prefix OR 25] @ u16_to_be_bytes (ucast value)
      else if value \<le> 0xffffffff then out @ [prefix OR 26] @ u32_to_be_bytes (ucast value)
      else out @ [prefix OR 27] @ u64_to_be_bytes value)"

definition write_u64 :: "bytes \<Rightarrow> u64 \<Rightarrow> bytes" where
  "write_u64 out value = write_type_len out 0 value"

definition write_i64 :: "bytes \<Rightarrow> i64 \<Rightarrow> bytes" where
  "write_i64 out value =
     (if 0 \<le> sint value then write_type_len out 0 value
      else write_type_len out 1 (word_of_int (- 1 - sint value)))"

definition write_bytes :: "bytes \<Rightarrow> bytes \<Rightarrow> bytes" where
  "write_bytes out bs = write_type_len out 2 (of_nat (length bs)) @ bs"

definition write_text :: "bytes \<Rightarrow> str \<Rightarrow> bytes" where
  "write_text out text = write_type_len out 3 (of_nat (length text)) @ text"

definition write_array_len :: "bytes \<Rightarrow> nat \<Rightarrow> bytes" where
  "write_array_len out len = write_type_len out 4 (of_nat len)"

definition write_map_len :: "bytes \<Rightarrow> nat \<Rightarrow> bytes" where
  "write_map_len out len = write_type_len out 5 (of_nat len)"

definition write_null :: "bytes \<Rightarrow> bytes" where
  "write_null out = out @ [0xf6]"

section \<open>Reader\<close>

record Reader =
  input :: bytes
  pos :: nat

definition Reader_new :: "bytes \<Rightarrow> Reader" where
  "Reader_new bs = \<lparr>input = bs, pos = 0\<rparr>"

definition is_finished :: "Reader \<Rightarrow> bool" where
  "is_finished r \<longleftrightarrow> pos r = length (input r)"

definition read_byte :: "Reader \<Rightarrow> CborError + u8 \<times> Reader" where
  "read_byte r =
     (if pos r < length (input r) then Inr (input r ! pos r, r\<lparr>pos := pos r + 1\<rparr>) else Inl Invalid)"

definition take_bytes :: "Reader \<Rightarrow> nat \<Rightarrow> CborError + bytes \<times> Reader" where
  "take_bytes r len =
     (let stop = pos r + len in
      if stop > length (input r) then Inl Invalid
      else Inr (take len (drop (pos r) (input r)), r\<lparr>pos := stop\<rparr>))"

definition read_initial :: "Reader \<Rightarrow> CborError + (u8 \<times> u8) \<times> Reader" where
  "read_initial r = bindE (read_byte r) (\<lambda>(byte, r). Inr ((drop_bit 5 byte, byte AND 0x1f), r))"

definition read_len :: "Reader \<Rightarrow> u8 \<Rightarrow> CborError + u64 \<times> Reader" where
  "read_len r additional =
     (if additional \<le> 23 then Inr (ucast additional, r)
      else if additional = 24 then
        bindE (read_byte r) (\<lambda>(b, r).
          let value = ucast b :: u64 in if value < 24 then Inl Invalid else Inr (value, r))
      else if additional = 25 then
        bindE (take_bytes r 2) (\<lambda>(bs, r).
          let value = ucast (from_be_bytes bs :: u16) :: u64 in
          if value \<le> 0xff then Inl Invalid else Inr (value, r))
      else if additional = 26 then
        bindE (take_bytes r 4) (\<lambda>(bs, r).
          let value = ucast (from_be_bytes bs :: u32) :: u64 in
          if value \<le> 0xffff then Inl Invalid else Inr (value, r))
      else if additional = 27 then
        bindE (take_bytes r 8) (\<lambda>(bs, r).
          let value = from_be_bytes bs :: u64 in
          if value \<le> 0xffffffff then Inl Invalid else Inr (value, r))
      else Inl Invalid)"

definition read_u64 :: "Reader \<Rightarrow> CborError + u64 \<times> Reader" where
  "read_u64 r = bindE (read_initial r) (\<lambda>((major, additional), r).
     if major \<noteq> 0 then Inl Invalid else read_len r additional)"

definition read_i64 :: "Reader \<Rightarrow> CborError + i64 \<times> Reader" where
  "read_i64 r = bindE (read_initial r) (\<lambda>((major, additional), r).
     bindE (read_len r additional) (\<lambda>(value, r).
       if major = 0 then (if uint value < 2 ^ 63 then Inr (value, r) else Inl Invalid)
       else if major = 1 then
         (let negative = - 1 - uint value in
          if - (2 ^ 63) \<le> negative then Inr (word_of_int negative, r) else Inl Invalid)
       else Inl Invalid))"

definition read_len_for_major :: "Reader \<Rightarrow> u8 \<Rightarrow> CborError + nat \<times> Reader" where
  "read_len_for_major r expected = bindE (read_initial r) (\<lambda>((major, additional), r).
     if major \<noteq> expected then Inl Invalid
     else bindE (read_len r additional) (\<lambda>(value, r). Inr (unat value, r)))"

definition read_len_for_major_bounded :: "Reader \<Rightarrow> u8 \<Rightarrow> nat \<Rightarrow> CborError + nat \<times> Reader" where
  "read_len_for_major_bounded r expected max_len =
     bindE (read_len_for_major r expected) (\<lambda>(len, r).
       if len > max_len then Inl Invalid else Inr (len, r))"

definition read_bytes_bounded :: "nat \<Rightarrow> Reader \<Rightarrow> CborError + bytes \<times> Reader" where
  "read_bytes_bounded max_len r =
     bindE (read_len_for_major_bounded r 2 max_len) (\<lambda>(len, r). take_bytes r len)"

definition read_bytes :: "Reader \<Rightarrow> CborError + bytes \<times> Reader" where
  "read_bytes r = read_bytes_bounded (2 ^ 64 - 1) r"

definition read_text_bounded :: "nat \<Rightarrow> Reader \<Rightarrow> CborError + str \<times> Reader" where
  "read_text_bounded max_len r =
     bindE (read_len_for_major_bounded r 3 max_len) (\<lambda>(len, r).
       bindE (take_bytes r len) (\<lambda>(bs, r). if from_utf8_ok bs then Inr (bs, r) else Inl Invalid))"

definition read_text :: "Reader \<Rightarrow> CborError + str \<times> Reader" where
  "read_text r = read_text_bounded (2 ^ 64 - 1) r"

definition read_array_len :: "Reader \<Rightarrow> CborError + nat \<times> Reader" where
  "read_array_len r = read_len_for_major r 4"

definition read_map_len :: "Reader \<Rightarrow> CborError + nat \<times> Reader" where
  "read_map_len r = read_len_for_major r 5"

definition read_null :: "Reader \<Rightarrow> CborError + unit \<times> Reader" where
  "read_null r = bindE (read_byte r) (\<lambda>(b, r). if b = 0xf6 then Inr ((), r) else Inl Invalid)"

definition next_is_null :: "Reader \<Rightarrow> bool" where
  "next_is_null r \<longleftrightarrow> pos r < length (input r) \<and> input r ! pos r = 0xf6"

section \<open>Reader positions\<close>

text \<open>The reader that has consumed \<open>p\<close> and has \<open>s\<close> left.\<close>

definition at_pos :: "bytes \<Rightarrow> bytes \<Rightarrow> Reader" where
  "at_pos p s = \<lparr>input = p @ s, pos = length p\<rparr>"

lemma at_pos_inj [simp]: "at_pos p s = at_pos p s' \<longleftrightarrow> s = s'"
  by (simp add: at_pos_def)

lemma Reader_new_at: "Reader_new bs = at_pos [] bs"
  by (simp add: Reader_new_def at_pos_def)

lemma is_finished_at [simp]: "is_finished (at_pos p s) \<longleftrightarrow> s = []"
  by (simp add: is_finished_def at_pos_def)

lemma next_is_null_at [simp]: "next_is_null (at_pos p s) \<longleftrightarrow> (\<exists>t. s = 0xf6 # t)"
  by (cases s) (auto simp: next_is_null_def at_pos_def nth_append)

lemma read_byte_at [simp]:
  "read_byte (at_pos p []) = Inl Invalid"
  "read_byte (at_pos p (b # s)) = Inr (b, at_pos (p @ [b]) s)"
  by (simp_all add: read_byte_def at_pos_def nth_append)

lemma take_bytes_at:
  "take_bytes (at_pos p s) n =
     (if length s < n then Inl Invalid else Inr (take n s, at_pos (p @ take n s) (drop n s)))"
  by (auto simp: take_bytes_def at_pos_def Let_def)

lemma take_bytes_wire [simp]: "length w = n \<Longrightarrow> take_bytes (at_pos p (w @ s)) n = Inr (w, at_pos (p @ w) s)"
  by (auto simp: take_bytes_at)

lemma take_bytes_Inr:
  "take_bytes (at_pos p bs) n = Inr (w, rd) \<Longrightarrow>
     length w = n \<and> (\<exists>s. bs = w @ s \<and> rd = at_pos (p @ w) s)"
  by (auto simp: take_bytes_at split: if_splits)

section \<open>Initial bytes and lengths\<close>

lemma drop_initial: "unat (m :: u8) < 8 \<Longrightarrow> unat l < 32 \<Longrightarrow> drop_bit 5 (push_bit 5 m OR l) = m"
  using bit_small [of m 3] bit_small [of l 5]
  by (intro bit_eqI) (fastforce simp: bit_simps)

lemma and_31: "b AND 31 = take_bit 5 (b :: u8)"
  by (simp add: take_bit_eq_mask mask_eq_exp_minus_1)

lemma and_initial: "unat l < 32 \<Longrightarrow> (push_bit 5 (m :: u8) OR l) AND 31 = l"
  using bit_small [of l 5] by (auto simp: and_31 bit_simps intro!: bit_eqI)

lemma initial_split: "push_bit 5 (drop_bit 5 b) OR (b AND 31) = (b :: u8)"
  by (auto simp: and_31 bit_simps intro!: bit_eqI)

lemma drop_bit_5_bound: "unat (drop_bit 5 (b :: u8)) < 8"
proof -
  have "unat b div 32 < 8" using unat_less_2p [of b] by (simp add: less_mult_imp_div_less)
  then show ?thesis by (simp add: drop_bit_eq_div unat_div)
qed

lemma write_type_len_append: "write_type_len out m v = out @ write_type_len [] m v"
  by (simp add: write_type_len_def Let_def)

text \<open>Initial byte and length together: the common first step of every typed read.\<close>

definition read_type_len :: "Reader \<Rightarrow> CborError + (u8 \<times> u64) \<times> Reader" where
  "read_type_len r = bindE (read_initial r) (\<lambda>((major, additional), r).
     bindE (read_len r additional) (\<lambda>(v, r). Inr ((major, v), r)))"

definition type_len_wire :: "u8 \<times> u64 \<Rightarrow> bytes" where
  "type_len_wire mv = write_type_len [] (fst mv) (snd mv)"

lemmas word_order_nat = word_le_nat_alt word_less_nat_alt

lemma read_type_len_wire:
  assumes "unat m < 8"
  shows "read_type_len (at_pos p (write_type_len [] m v @ s))
      = Inr ((m, v), at_pos (p @ write_type_len [] m v) s)"
proof -
  consider "v \<le> 23" | "23 < v" "v \<le> 0xff" | "0xff < v" "v \<le> 0xffff"
    | "0xffff < v" "v \<le> 0xffffffff" | "0xffffffff < v"
    by (meson not_le)
  then show ?thesis
  proof cases
    case 1
    then have "unat v \<le> 23" by (simp add: word_le_nat_alt)
    then have "unat (ucast v :: u8) \<le> 23" and "(ucast (ucast v :: u8) :: u64) = v"
      by (simp_all add: unat_ucast_down ucast_ucast_small)
    with assms 1 show ?thesis
      by (simp add: read_type_len_def read_initial_def read_len_def write_type_len_def
          drop_initial and_initial word_order_nat del: drop_bit_or)
  next
    case 2
    then have "unat v \<le> 0xff" by (simp add: word_le_nat_alt)
    then have "(ucast (ucast v :: u8) :: u64) = v" by (simp add: ucast_ucast_small)
    with assms 2 show ?thesis
      by (simp add: read_type_len_def read_initial_def read_len_def write_type_len_def
          drop_initial and_initial word_order_nat del: drop_bit_or)
  next
    case 3
    then have "unat v \<le> 0xffff" by (simp add: word_le_nat_alt)
    then have "(ucast (ucast v :: u16) :: u64) = v" by (simp add: ucast_ucast_small)
    with assms 3 show ?thesis
      by (simp add: read_type_len_def read_initial_def read_len_def write_type_len_def
          drop_initial and_initial word_order_nat from_be_to_be del: drop_bit_or)
  next
    case 4
    then have "unat v \<le> 0xffffffff" by (simp add: word_le_nat_alt)
    then have "(ucast (ucast v :: u32) :: u64) = v" by (simp add: ucast_ucast_small)
    with assms 4 show ?thesis
      by (simp add: read_type_len_def read_initial_def read_len_def write_type_len_def
          drop_initial and_initial word_order_nat from_be_to_be del: drop_bit_or)
  next
    case 5
    with assms show ?thesis
      by (simp add: read_type_len_def read_initial_def read_len_def write_type_len_def
          drop_initial and_initial word_order_nat from_be_to_be del: drop_bit_or)
  qed
qed

lemma type_len_wire_read:
  assumes "read_type_len (at_pos p bs) = Inr ((m, v), rd)"
  shows "unat m < 8 \<and> (\<exists>s. bs = write_type_len [] m v @ s \<and> rd = at_pos (p @ write_type_len [] m v) s)"
proof (cases bs)
  case Nil
  with assms show ?thesis by (simp add: read_type_len_def read_initial_def)
next
  case (Cons b t)
  let ?a = "b AND 0x1f"
  from assms Cons have m: "m = drop_bit 5 b"
    and r: "read_len (at_pos (p @ [b]) t) ?a = Inr (v, rd)"
    by (auto simp: read_type_len_def read_initial_def bindE_eq_Inr)
  have b: "push_bit 5 m OR ?a = b" using m initial_split by simp
  have "\<exists>s. bs = write_type_len [] m v @ s \<and> rd = at_pos (p @ write_type_len [] m v) s"
  proof -
    consider "?a \<le> 23" | "?a = 24" | "?a = 25" | "?a = 26" | "?a = 27"
      using r by (auto simp: read_len_def split: if_splits)
    then show ?thesis
    proof cases
      case 1
      then have "v = ucast ?a" and rd: "rd = at_pos (p @ [b]) t"
        using r by (auto simp: read_len_def)
      moreover have "unat ?a \<le> 23" using 1 by (simp add: word_le_nat_alt)
      ultimately have "v \<le> 23" and "(ucast v :: u8) = ?a"
        by (simp_all add: word_le_nat_alt unat_ucast_up ucast_ucast_small)
      then have "write_type_len [] m v = [b]" using b by (simp add: write_type_len_def)
      with Cons rd show ?thesis by simp
    next
      case 2
      then obtain c t' where t: "t = c # t'" and v: "v = ucast c" "\<not> v < 24"
        and rd: "rd = at_pos (p @ [b] @ [c]) t'"
        using r by (cases t) (auto simp: read_len_def Let_def split: if_splits)
      have "unat v \<le> 0xff" and "(ucast v :: u8) = c"
        using v unat_less_2p [of c] by (simp_all add: unat_ucast_up ucast_ucast_small)
      then have "write_type_len [] m v = [b, c]"
        using b 2 v by (simp add: write_type_len_def word_order_nat)
      with Cons rd t show ?thesis by simp
    next
      case 3
      then obtain w where tk: "take_bytes (at_pos (p @ [b]) t) 2 = Inr (w, rd)"
        and v: "v = ucast (from_be_bytes w :: u16)" "\<not> v \<le> 0xff"
        using r by (auto simp: read_len_def Let_def bindE_eq_Inr split: if_splits)
      from take_bytes_Inr [OF tk] obtain s where w: "length w = 2" and t: "t = w @ s"
        and rd: "rd = at_pos ((p @ [b]) @ w) s" by blast
      have "unat v \<le> 0xffff" and "(ucast v :: u16) = from_be_bytes w"
        using v unat_less_2p [of "from_be_bytes w :: u16"] by (simp_all add: unat_ucast_up ucast_ucast_small)
      then have "write_type_len [] m v = b # w"
        using b 3 v w by (simp add: write_type_len_def word_order_nat to_be_from_be)
      with Cons rd t show ?thesis by simp
    next
      case 4
      then obtain w where tk: "take_bytes (at_pos (p @ [b]) t) 4 = Inr (w, rd)"
        and v: "v = ucast (from_be_bytes w :: u32)" "\<not> v \<le> 0xffff"
        using r by (auto simp: read_len_def Let_def bindE_eq_Inr split: if_splits)
      from take_bytes_Inr [OF tk] obtain s where w: "length w = 4" and t: "t = w @ s"
        and rd: "rd = at_pos ((p @ [b]) @ w) s" by blast
      have "unat v \<le> 0xffffffff" and "(ucast v :: u32) = from_be_bytes w"
        using v unat_less_2p [of "from_be_bytes w :: u32"] by (simp_all add: unat_ucast_up ucast_ucast_small)
      then have "write_type_len [] m v = b # w"
        using b 4 v w by (simp add: write_type_len_def word_order_nat to_be_from_be)
      with Cons rd t show ?thesis by simp
    next
      case 5
      then obtain w where tk: "take_bytes (at_pos (p @ [b]) t) 8 = Inr (w, rd)"
        and v: "v = from_be_bytes w" "\<not> v \<le> 0xffffffff"
        using r by (auto simp: read_len_def Let_def bindE_eq_Inr split: if_splits)
      from take_bytes_Inr [OF tk] obtain s where w: "length w = 8" and t: "t = w @ s"
        and rd: "rd = at_pos ((p @ [b]) @ w) s" by blast
      have "write_type_len [] m v = b # w"
        using b 5 v w by (simp add: write_type_len_def word_order_nat to_be_from_be)
      with Cons rd t show ?thesis by simp
    qed
  qed
  with m drop_bit_5_bound show ?thesis by simp
qed

interpretation type_len: codec at_pos type_len_wire read_type_len "\<lambda>mv. unat (fst mv) < 8"
  by unfold_locales
    (auto simp: type_len_wire_def read_type_len_wire dest: type_len_wire_read)

lemma length_type_len:
  "v \<le> 23 \<Longrightarrow> length (write_type_len [] m v) = 1"
  "v \<le> 0xff \<Longrightarrow> length (write_type_len [] m v) \<le> 2"
  "v \<le> 0xffff \<Longrightarrow> length (write_type_len [] m v) \<le> 3"
  "length (write_type_len [] m v) \<le> 9"
  by (auto simp: write_type_len_def Let_def)

section \<open>Typed values\<close>

text \<open>There is one error, so each typed read is the common first step and a test of the major type.\<close>

lemma CborError_eq: "(e :: CborError) = e'"
  by (cases e; cases e') simp

lemma read_u64_alt:
  "read_u64 r = bindE (read_type_len r) (\<lambda>((m, v), r). if m \<noteq> 0 then Inl Invalid else Inr (v, r))"
  by (auto simp: read_u64_def read_type_len_def bindE_def split: sum.splits intro: CborError_eq)

lemma read_i64_alt:
  "read_i64 r = bindE (read_type_len r) (\<lambda>((m, value), r).
     if m = 0 then (if uint value < 2 ^ 63 then Inr (value, r) else Inl Invalid)
     else if m = 1 then
       (if - (2 ^ 63) \<le> - 1 - uint value then Inr (word_of_int (- 1 - uint value), r) else Inl Invalid)
     else Inl Invalid)"
  by (auto simp: read_i64_def read_type_len_def bindE_def Let_def split: sum.splits intro: CborError_eq)

lemma read_len_for_major_alt:
  "read_len_for_major r e = bindE (read_type_len r) (\<lambda>((m, v), r).
     if m \<noteq> e then Inl Invalid else Inr (unat v, r))"
  by (auto simp: read_len_for_major_def read_type_len_def bindE_def split: sum.splits intro: CborError_eq)

lemma sint_cases: "sint (v :: i64) = (if uint v < 2 ^ 63 then uint v else uint v - 2 ^ 64)"
proof -
  have "sint v = (uint v + 2 ^ 63) mod 2 ^ 64 - 2 ^ 63"
    by (simp add: sint_uint signed_take_bit_eq_take_bit_shift take_bit_eq_mod)
  then show ?thesis
  proof (cases "uint v < 2 ^ 63")
    case True
    then have "(uint v + 2 ^ 63) mod 2 ^ 64 = uint v + 2 ^ 63"
      using uint_bounded [of v] by (intro mod_pos_pos_trivial) auto
    with True \<open>sint v = _\<close> show ?thesis by simp
  next
    case False
    have "(uint v + 2 ^ 63) mod 2 ^ 64 = (uint v - 2 ^ 63 + 2 ^ 64) mod 2 ^ 64"
      by (rule arg_cong [where f = "\<lambda>k. k mod 2 ^ 64"]) simp
    also have "\<dots> = uint v - 2 ^ 63"
      using uint_bounded [of v] False by (simp only: mod_add_self2) (intro mod_pos_pos_trivial, auto)
    finally show ?thesis using False \<open>sint v = _\<close> by simp
  qed
qed

text \<open>Every typed field of the schemas is a codec on this reader.\<close>

lemma write_u64_append: "write_u64 out v = out @ write_u64 [] v"
  unfolding write_u64_def by (rule write_type_len_append)

lemma write_i64_append: "write_i64 out v = out @ write_i64 [] v"
  unfolding write_i64_def by (simp add: write_type_len_append [of out])

lemma write_bytes_append: "write_bytes out bs = out @ write_bytes [] bs"
  unfolding write_bytes_def by (simp add: write_type_len_append [of out])

lemma write_text_append: "write_text out s = out @ write_text [] s"
  unfolding write_text_def by (simp add: write_type_len_append [of out])

lemma write_array_len_append: "write_array_len out n = out @ write_array_len [] n"
  unfolding write_array_len_def by (rule write_type_len_append)

lemma write_map_len_append: "write_map_len out n = out @ write_map_len [] n"
  unfolding write_map_len_def by (rule write_type_len_append)

lemma write_null_append: "write_null out = out @ write_null []"
  by (simp add: write_null_def)

text \<open>A chain of writers that starts from an array or map header is a concatenation of wire images.\<close>

lemmas write_appends =
  write_u64_append [of "_ @ _"] write_u64_append [of "write_array_len _ _"]
  write_i64_append [of "_ @ _"] write_i64_append [of "write_array_len _ _"]
  write_bytes_append [of "_ @ _"] write_bytes_append [of "write_array_len _ _"]
  write_text_append [of "_ @ _"] write_text_append [of "write_array_len _ _"]
  write_array_len_append [of "_ @ _"] write_array_len_append [of "write_array_len _ _"]
  write_null_append [of "_ @ _"] write_null_append [of "write_array_len _ _"]
  write_u64_append [of "write_map_len _ _"]

lemmas type_len_iff =
  type_len.read_iff [of _ _ "(m, v)" for m v, unfolded type_len_wire_def fst_conv snd_conv]

lemma read_len_for_major_iff:
  "read_len_for_major (at_pos p bs) m = Inr (n, rd) \<longleftrightarrow>
     unat m < 8 \<and> n < 2 ^ 64 \<and>
     (\<exists>s. bs = write_type_len [] m (of_nat n) @ s \<and> rd = at_pos (p @ write_type_len [] m (of_nat n)) s)"
  (is "?L \<longleftrightarrow> ?R")
proof
  assume ?L
  then obtain v where "read_type_len (at_pos p bs) = Inr ((m, v), rd)" and n: "n = unat v"
    by (auto simp: read_len_for_major_alt bindE_eq_Inr split: if_splits)
  with unat_less_2p [of v] show ?R by (auto simp: type_len_iff)
next
  assume ?R
  then obtain s where "unat m < 8" and n: "n < 2 ^ 64"
    and bs: "bs = write_type_len [] m (of_nat n) @ s"
    and rd: "rd = at_pos (p @ write_type_len [] m (of_nat n)) s"
    by blast
  then have "read_type_len (at_pos p bs) = Inr ((m, of_nat n), rd)" by (auto simp: type_len_iff)
  with n show ?L by (simp add: read_len_for_major_alt unat_of_nat_small)
qed

lemma read_len_for_major_wire:
  "unat m < 8 \<Longrightarrow> n < 2 ^ 64 \<Longrightarrow>
   read_len_for_major (at_pos p (write_type_len [] m (of_nat n) @ s)) m
     = Inr (n, at_pos (p @ write_type_len [] m (of_nat n)) s)"
  by (simp add: read_len_for_major_iff)

interpretation cb_u64: codec at_pos "write_u64 []" read_u64 "\<lambda>_. True"
  by unfold_locales
    (auto simp: read_u64_alt write_u64_def read_type_len_wire bindE_eq_Inr type_len_iff split: if_splits)

interpretation cb_array: codec at_pos "write_array_len []" read_array_len "\<lambda>n. n < 2 ^ 64"
  by unfold_locales (auto simp: read_array_len_def write_array_len_def read_len_for_major_iff)

interpretation cb_map: codec at_pos "write_map_len []" read_map_len "\<lambda>n. n < 2 ^ 64"
  by unfold_locales (auto simp: read_map_len_def write_map_len_def read_len_for_major_iff)

interpretation cb_null: codec at_pos "\<lambda>u. write_null []" read_null "\<lambda>_. True"
proof unfold_locales
  fix p bs x rd
  assume "read_null (at_pos p bs) = Inr (x, rd)"
  then show "True \<and> (\<exists>s. bs = write_null [] @ s \<and> rd = at_pos (p @ write_null []) s)"
    by (cases bs) (auto simp: read_null_def write_null_def split: if_splits)
qed (simp_all add: read_null_def write_null_def)

lemma length_field_read:
  assumes "unat m < 8" and "length x \<le> k" and "length x < 2 ^ 64"
  shows "bindE (read_len_for_major_bounded (at_pos p (write_type_len [] m (of_nat (length x)) @ x @ s)) m k)
      (\<lambda>(len, r). take_bytes r len)
    = Inr (x, at_pos (p @ write_type_len [] m (of_nat (length x)) @ x) s)"
  using assms by (simp add: read_len_for_major_bounded_def read_len_for_major_wire)

lemma length_field_Inr:
  assumes "bindE (read_len_for_major_bounded (at_pos p bs) m k) (\<lambda>(len, r). take_bytes r len) = Inr (x, rd)"
  shows "length x \<le> k \<and> length x < 2 ^ 64 \<and>
    (\<exists>s. bs = write_type_len [] m (of_nat (length x)) @ x @ s \<and>
         rd = at_pos (p @ write_type_len [] m (of_nat (length x)) @ x) s)"
proof -
  from assms obtain len r where l: "read_len_for_major (at_pos p bs) m = Inr (len, r)"
    and k: "len \<le> k" and t: "take_bytes r len = Inr (x, rd)"
    by (auto simp: read_len_for_major_bounded_def bindE_eq_Inr split: if_splits)
  from l obtain s where "len < 2 ^ 64" and bs: "bs = write_type_len [] m (of_nat len) @ s"
    and r: "r = at_pos (p @ write_type_len [] m (of_nat len)) s"
    by (auto simp: read_len_for_major_iff)
  with take_bytes_Inr [OF t [unfolded r]] k show ?thesis by auto
qed

interpretation cb_bytes: codec at_pos "write_bytes []" "read_bytes_bounded k"
    "\<lambda>x. length x \<le> k \<and> length x < 2 ^ 64" for k
  by unfold_locales
    (auto simp: read_bytes_bounded_def write_bytes_def length_field_read dest: length_field_Inr)

lemma read_text_bounded_alt:
  "read_text_bounded k r = bindE (bindE (read_len_for_major_bounded r 3 k) (\<lambda>(len, r). take_bytes r len))
     (\<lambda>(bs, r). if from_utf8_ok bs then Inr (bs, r) else Inl Invalid)"
  by (auto simp: read_text_bounded_def bindE_def split: sum.splits)

interpretation cb_text: codec at_pos "write_text []" "read_text_bounded k"
    "\<lambda>x. length x \<le> k \<and> length x < 2 ^ 64 \<and> from_utf8_ok x" for k
proof unfold_locales
  fix p bs x rd
  assume "read_text_bounded k (at_pos p bs) = Inr (x, rd)"
  then have "bindE (read_len_for_major_bounded (at_pos p bs) 3 k) (\<lambda>(len, r). take_bytes r len) = Inr (x, rd)"
    and "from_utf8_ok x"
    unfolding read_text_bounded_alt by (auto elim!: bindE_elim split: if_splits)
  then show "(length x \<le> k \<and> length x < 2 ^ 64 \<and> from_utf8_ok x) \<and>
      (\<exists>s. bs = write_text [] x @ s \<and> rd = at_pos (p @ write_text [] x) s)"
    by (auto simp: write_text_def dest!: length_field_Inr)
qed (auto simp: read_text_bounded_alt write_text_def length_field_read)

lemma write_i64_uint:
  "write_i64 [] v = (if uint v < 2 ^ 63 then write_type_len [] 0 v else write_type_len [] 1 (NOT v))"
proof -
  have "uint v < 2 ^ 63 \<longleftrightarrow> 0 \<le> sint v"
    using uint_bounded [of v] by (simp add: sint_cases)
  moreover have "(word_of_int (- 1 - sint v) :: u64) = NOT v"
    by (simp add: not_eq_complement)
  ultimately show ?thesis by (simp add: write_i64_def)
qed

lemma uint_not: "uint (NOT v :: u64) = 2 ^ 64 - 1 - uint v"
proof -
  have "uint (NOT v) = uint (- 1 - v)" by (simp add: not_eq_complement minus_diff_commute)
  also have "\<dots> = uint (- 1 :: u64) - uint v"
    by (rule uint_sub_lem [THEN iffD1]) (use uint_bounded [of v] in
      \<open>simp add: word_le_def unsigned_minus_1_eq_mask mask_eq_exp_minus_1\<close>)
  finally show ?thesis by (simp add: unsigned_minus_1_eq_mask mask_eq_exp_minus_1)
qed

lemma word_of_int_not: "(word_of_int (- 1 - uint v) :: u64) = NOT v"
  by (simp add: not_eq_complement minus_diff_commute)

interpretation cb_i64: codec at_pos "write_i64 []" read_i64 "\<lambda>_. True"
proof unfold_locales
  fix p x s
  show "read_i64 (at_pos p (write_i64 [] x @ s)) = Inr (x, at_pos (p @ write_i64 [] x) s)"
    using uint_bounded [of x] word_of_int_not [of "NOT x"]
    by (simp add: write_i64_uint read_i64_alt read_type_len_wire word_of_int_not uint_not
        del: of_int_diff)
next
  fix p bs x rd
  assume "read_i64 (at_pos p bs) = Inr (x, rd)"
  then obtain m v where r: "read_type_len (at_pos p bs) = Inr ((m, v), rd)"
    and "m = 0 \<and> uint v < 2 ^ 63 \<and> x = v
      \<or> m = 1 \<and> uint v < 2 ^ 63 \<and> x = word_of_int (- 1 - uint v)"
    by (auto simp: read_i64_alt bindE_eq_Inr split: if_splits)
  then have "write_i64 [] x = write_type_len [] m v"
  proof (elim disjE conjE)
    assume *: "m = 1" "uint v < 2 ^ 63" "x = word_of_int (- 1 - uint v)"
    then have "x = NOT v" by (simp only: word_of_int_not)
    with *(1,2) show ?thesis by (simp add: write_i64_uint uint_not)
  qed (simp add: write_i64_uint)
  with r show "True \<and> (\<exists>s. bs = write_i64 [] x @ s \<and> rd = at_pos (p @ write_i64 [] x) s)"
    by (auto simp: type_len_iff)
qed (simp)

end
