(* ===== verification/Checksum.thy ===== *)
theory Checksum
  imports Etag Cbor
begin

text \<open>
  Client checksum facts (\<open>rs3-types/src/checksum.rs\<close>): the validated constructor and the
  canonical three-field CBOR encoding.
\<close>

datatype ChecksumAlgorithm = Crc32 | Crc32c | Crc64Nvme | Sha1 | Sha256

fun digest_len :: "ChecksumAlgorithm \<Rightarrow> nat" where
  "digest_len Crc32 = 4"
| "digest_len Crc32c = 4"
| "digest_len Crc64Nvme = 8"
| "digest_len Sha1 = 20"
| "digest_len Sha256 = 32"

datatype ChecksumType = FullObject | Composite u32

datatype ChecksumError = InvalidEncoding | InvalidDigestLength | InvalidPartCount | UnsupportedType
  | InvalidPartLength

record ObjectChecksum =
  ck_algorithm :: ChecksumAlgorithm
  ck_kind :: ChecksumType
  ck_digest :: bytes

definition CHECKSUM_MAX_ENCODED_BYTES :: nat where "CHECKSUM_MAX_ENCODED_BYTES = 48"

definition ObjectChecksum_new ::
  "ChecksumAlgorithm \<Rightarrow> ChecksumType \<Rightarrow> bytes \<Rightarrow> ChecksumError + ObjectChecksum" where
  "ObjectChecksum_new algorithm kind digest =
     (if length digest \<noteq> digest_len algorithm then Inl InvalidDigestLength
      else case kind of
        Composite parts \<Rightarrow>
          if \<not> (1 \<le> parts \<and> parts \<le> 10000) then Inl InvalidPartCount
          else if algorithm = Crc64Nvme then Inl UnsupportedType
          else Inr \<lparr>ck_algorithm = algorithm, ck_kind = kind, ck_digest = digest\<rparr>
      | FullObject \<Rightarrow> Inr \<lparr>ck_algorithm = algorithm, ck_kind = kind, ck_digest = digest\<rparr>)"

fun algorithm_tag :: "ChecksumAlgorithm \<Rightarrow> u64" where
  "algorithm_tag Crc32 = 0"
| "algorithm_tag Crc32c = 1"
| "algorithm_tag Crc64Nvme = 2"
| "algorithm_tag Sha1 = 3"
| "algorithm_tag Sha256 = 4"

fun kind_field :: "ChecksumType \<Rightarrow> u64" where
  "kind_field FullObject = 0"
| "kind_field (Composite parts) = ucast parts"

definition ObjectChecksum_encode :: "ObjectChecksum \<Rightarrow> bytes" where
  "ObjectChecksum_encode c =
     (let out = write_array_len [] 3;
          out = write_u64 out (algorithm_tag (ck_algorithm c));
          out = write_u64 out (kind_field (ck_kind c))
      in write_bytes out (ck_digest c))"

definition algorithm_of_tag :: "u64 \<Rightarrow> ChecksumError + ChecksumAlgorithm" where
  "algorithm_of_tag v =
     (if v = 0 then Inr Crc32 else if v = 1 then Inr Crc32c else if v = 2 then Inr Crc64Nvme
      else if v = 3 then Inr Sha1 else if v = 4 then Inr Sha256 else Inl InvalidEncoding)"

definition kind_of_field :: "u64 \<Rightarrow> ChecksumError + ChecksumType" where
  "kind_of_field v =
     (if v = 0 then Inr FullObject
      else if unat v < 2 ^ 32 then Inr (Composite (ucast v)) else Inl InvalidPartCount)"

definition ObjectChecksum_decode :: "bytes \<Rightarrow> ChecksumError + ObjectChecksum" where
  "ObjectChecksum_decode bs =
     (if length bs > CHECKSUM_MAX_ENCODED_BYTES then Inl InvalidEncoding
      else
        bindE (map_err (\<lambda>_. InvalidEncoding) (read_array_len (Reader_new bs))) (\<lambda>(n, r).
        if n \<noteq> 3 then Inl InvalidEncoding else
        bindE (map_err (\<lambda>_. InvalidEncoding) (read_u64 r)) (\<lambda>(tag, r).
        bindE (algorithm_of_tag tag) (\<lambda>algorithm.
        bindE (map_err (\<lambda>_. InvalidEncoding) (read_u64 r)) (\<lambda>(field, r).
        bindE (kind_of_field field) (\<lambda>kind.
        bindE (map_err (\<lambda>_. InvalidEncoding) (read_bytes_bounded (digest_len algorithm) r)) (\<lambda>(digest, r).
        if \<not> is_finished r then Inl InvalidEncoding
        else ObjectChecksum_new algorithm kind digest)))))))"

definition valid_checksum :: "ObjectChecksum \<Rightarrow> bool" where
  "valid_checksum c \<longleftrightarrow> length (ck_digest c) = digest_len (ck_algorithm c) \<and>
     (\<forall>parts. ck_kind c = Composite parts \<longrightarrow>
        1 \<le> parts \<and> parts \<le> 10000 \<and> ck_algorithm c \<noteq> Crc64Nvme)"

lemma ObjectChecksum_new_iff:
  "ObjectChecksum_new a k d = Inr c \<longleftrightarrow>
     c = \<lparr>ck_algorithm = a, ck_kind = k, ck_digest = d\<rparr> \<and> valid_checksum c"
  by (auto simp: ObjectChecksum_new_def valid_checksum_def split: ChecksumType.splits)

lemma algorithm_of_tag_iff: "algorithm_of_tag v = Inr a \<longleftrightarrow> v = algorithm_tag a"
  by (cases a) (auto simp: algorithm_of_tag_def)

lemma kind_of_field_iff:
  "kind_of_field v = Inr k \<longleftrightarrow> v = kind_field k \<and> (\<forall>p. k = Composite p \<longrightarrow> p \<noteq> 0)"
proof (cases k)
  case (Composite p)
  have "kind_of_field v = Inr k \<longleftrightarrow> v \<noteq> 0 \<and> unat v < 2 ^ 32 \<and> p = ucast v"
    using Composite by (auto simp: kind_of_field_def)
  also have "\<dots> \<longleftrightarrow> v = ucast p \<and> p \<noteq> 0"
    using unat_less_2p [of p]
    by (auto simp: ucast_ucast_small unat_ucast_up unat_ucast_down word_unat_eq_iff [of _ 0])
  finally show ?thesis using Composite by auto
qed (auto simp: kind_of_field_def)

lemma ObjectChecksum_encode_alt:
  "ObjectChecksum_encode c = write_array_len [] 3 @ write_u64 [] (algorithm_tag (ck_algorithm c)) @
     write_u64 [] (kind_field (ck_kind c)) @ write_bytes [] (ck_digest c)"
  unfolding ObjectChecksum_encode_def Let_def
  by (simp add: write_appends)

lemma length_ObjectChecksum_encode:
  assumes "valid_checksum c"
  shows "0 < length (ObjectChecksum_encode c) \<and> length (ObjectChecksum_encode c) \<le> 48"
proof -
  have a: "algorithm_tag (ck_algorithm c) \<le> 23" by (cases "ck_algorithm c") auto
  have "kind_field (ck_kind c) \<le> 0xffff"
    using assms by (cases "ck_kind c") (auto simp: valid_checksum_def word_le_nat_alt unat_ucast_up)
  moreover have "length (ck_digest c) \<le> 32"
    using assms by (cases "ck_algorithm c") (auto simp: valid_checksum_def)
  then have "(of_nat (length (ck_digest c)) :: u64) \<le> 0xff"
    by (simp add: word_le_nat_alt unat_of_nat_small)
  ultimately show ?thesis
    using length_type_len(1) [OF a, of 0] length_type_len(3) [of "kind_field (ck_kind c)" 0]
      length_type_len(1) [of 3 4] length_type_len(2) [of "of_nat (length (ck_digest c))" 2] \<open>length (ck_digest c) \<le> 32\<close>
    by (simp add: ObjectChecksum_encode_alt write_array_len_def write_u64_def write_bytes_def)
qed

lemma ObjectChecksum_decode_iff:
  "ObjectChecksum_decode bs = Inr c \<longleftrightarrow> valid_checksum c \<and> bs = ObjectChecksum_encode c"
proof
  assume "ObjectChecksum_decode bs = Inr c"
  then show "valid_checksum c \<and> bs = ObjectChecksum_encode c"
    by (auto simp: ObjectChecksum_decode_def Reader_new_at bindE_eq_Inr cb_array.read_iff cb_u64.read_iff
        cb_bytes.read_iff ObjectChecksum_new_iff algorithm_of_tag_iff kind_of_field_iff
        ObjectChecksum_encode_alt split: if_splits)
next
  assume *: "valid_checksum c \<and> bs = ObjectChecksum_encode c"
  then have "length (ck_digest c) \<le> digest_len (ck_algorithm c)" "length (ck_digest c) < 2 ^ 64"
    by (cases "ck_algorithm c"; auto simp: valid_checksum_def)+
  moreover have "algorithm_of_tag (algorithm_tag (ck_algorithm c)) = Inr (ck_algorithm c)"
    and "kind_of_field (kind_field (ck_kind c)) = Inr (ck_kind c)"
    using * by (auto simp: algorithm_of_tag_iff kind_of_field_iff valid_checksum_def one_le_word)
  moreover have "ObjectChecksum_new (ck_algorithm c) (ck_kind c) (ck_digest c) = Inr c"
    using * by (simp add: ObjectChecksum_new_iff)
  ultimately show "ObjectChecksum_decode bs = Inr c"
    using * length_ObjectChecksum_encode [of c]
    by (simp add: ObjectChecksum_decode_def CHECKSUM_MAX_ENCODED_BYTES_def Reader_new_at
        ObjectChecksum_encode_alt cb_array.read_wire cb_u64.read_wire cb_bytes.read_wire
        cb_bytes.read_wire [where s = "[]", simplified])
qed

end
