(* ===== verification/OrdMap.thy ===== *)
theory OrdMap
  imports Prelude
begin

text \<open>
  The ordered map of the standard library (\<open>BTreeMap\<close>) as an association list in strictly
  increasing key order, which is the order its iterators follow. Two well-formed maps with
  the same lookups are equal, so statements about whole states are plain equations.
\<close>

type_synonym ('k, 'v) btmap = "('k \<times> 'v) list"

definition bt_ok :: "('k::linorder, 'v) btmap \<Rightarrow> bool" where
  "bt_ok m \<longleftrightarrow> sorted_wrt (<) (map fst m)"

definition bt_get :: "('k, 'v) btmap \<Rightarrow> 'k \<Rightarrow> 'v option" where
  "bt_get m k = map_of m k"

fun bt_insert :: "'k::linorder \<Rightarrow> 'v \<Rightarrow> ('k, 'v) btmap \<Rightarrow> ('k, 'v) btmap" where
  "bt_insert k v [] = [(k, v)]"
| "bt_insert k v ((k', v') # m) =
     (if k < k' then (k, v) # (k', v') # m
      else if k = k' then (k, v) # m else (k', v') # bt_insert k v m)"

definition bt_remove :: "'k \<Rightarrow> ('k, 'v) btmap \<Rightarrow> ('k, 'v) btmap" where
  "bt_remove k m = filter (\<lambda>p. fst p \<noteq> k) m"

definition bt_keys :: "('k, 'v) btmap \<Rightarrow> 'k list" where "bt_keys m = map fst m"
definition bt_values :: "('k, 'v) btmap \<Rightarrow> 'v list" where "bt_values m = map snd m"

locale ordered_map =
  fixes empty :: "'m"
    and get :: "'m \<Rightarrow> 'k::linorder \<Rightarrow> 'v option"
    and insert :: "'k \<Rightarrow> 'v \<Rightarrow> 'm \<Rightarrow> 'm"
    and remove :: "'k \<Rightarrow> 'm \<Rightarrow> 'm"
    and invar :: "'m \<Rightarrow> bool"
  assumes get_empty: "get empty k = None"
    and get_insert: "get (insert k v m) j = (if j = k then Some v else get m j)"
    and get_remove: "get (remove k m) j = (if j = k then None else get m j)"
    and invar_empty: "invar empty"
    and invar_insert: "invar m \<Longrightarrow> invar (insert k v m)"
    and invar_remove: "invar m \<Longrightarrow> invar (remove k m)"
    and ext: "invar m \<Longrightarrow> invar m' \<Longrightarrow> (\<And>k. get m k = get m' k) \<Longrightarrow> m = m'"
begin

lemma insert_get: "invar m \<Longrightarrow> get m k = Some v \<Longrightarrow> insert k v m = m"
  by (rule ext) (auto simp: invar_insert get_insert)

lemma remove_fresh: "invar m \<Longrightarrow> get m k = None \<Longrightarrow> remove k m = m"
  by (rule ext) (auto simp: invar_remove get_remove)

lemma remove_insert: "invar m \<Longrightarrow> get m k = None \<Longrightarrow> remove k (insert k v m) = m"
  by (rule ext) (auto simp: invar_insert invar_remove get_insert get_remove)

lemma insert_overwrite: "invar m \<Longrightarrow> insert k v (insert k w m) = insert k v m"
  by (rule ext) (auto simp: invar_insert get_insert)

lemma insert_remove: "invar m \<Longrightarrow> insert k v (remove k m) = insert k v m"
  by (rule ext) (auto simp: invar_insert invar_remove get_insert get_remove)

lemma insert_commute: "invar m \<Longrightarrow> j \<noteq> k \<Longrightarrow> insert j v (insert k w m) = insert k w (insert j v m)"
  by (rule ext) (auto simp: invar_insert get_insert)

lemma remove_commute: "invar m \<Longrightarrow> remove j (remove k m) = remove k (remove j m)"
  by (rule ext) (auto simp: invar_remove get_remove)

end

lemma bt_insert_keys: "set (map fst (bt_insert k v m)) = insert k (set (map fst m))"
  by (induction k v m rule: bt_insert.induct) auto

lemma bt_get_insert: "bt_get (bt_insert k v m) j = (if j = k then Some v else bt_get m j)"
  by (induction k v m rule: bt_insert.induct) (auto simp: bt_get_def)

lemma bt_get_remove: "bt_get (bt_remove k m) j = (if j = k then None else bt_get m j)"
  by (induction m) (auto simp: bt_get_def bt_remove_def)

lemma bt_ok_insert: "bt_ok m \<Longrightarrow> bt_ok (bt_insert k v m)"
proof (induction k v m rule: bt_insert.induct)
  case (2 k v k' v' m)
  then show ?case
    using bt_insert_keys [of k v m] by (auto simp: bt_ok_def dest: less_trans)
qed (simp add: bt_ok_def)

lemma bt_ok_filter: "bt_ok m \<Longrightarrow> bt_ok (filter P m)"
  by (induction m) (auto simp: bt_ok_def)

lemma bt_ok_remove: "bt_ok m \<Longrightarrow> bt_ok (bt_remove k m)"
  by (simp add: bt_remove_def bt_ok_filter)

lemma bt_ok_distinct: "bt_ok m \<Longrightarrow> distinct (map fst m)"
  by (simp add: bt_ok_def strict_sorted_iff)

lemma bt_ext:
  assumes "bt_ok m" and "bt_ok m'" and "\<And>k. bt_get m k = bt_get m' k"
  shows "m = m'"
proof (rule map_sorted_distinct_set_unique [where f = fst])
  show "set m = set m'"
    using assms map_of_inject_set [OF bt_ok_distinct bt_ok_distinct] by (metis bt_get_def ext)
  then show "inj_on fst (set m \<union> set m')"
    using bt_ok_distinct [OF assms(1)] by (simp add: distinct_map)
qed (use assms in \<open>simp_all only: bt_ok_def strict_sorted_iff simp_thms\<close>)

interpretation btm: ordered_map "[]" bt_get bt_insert bt_remove bt_ok
  by unfold_locales
    (auto simp: bt_get_def [of "[]"] bt_get_insert bt_get_remove bt_ok_insert bt_ok_remove
      bt_ok_def [of "[]"] intro: bt_ext)

lemma bt_keys_get: "k \<in> set (bt_keys m) \<longleftrightarrow> bt_get m k \<noteq> None"
  by (simp add: bt_keys_def bt_get_def map_of_eq_None_iff)

lemma bt_get_mem: "bt_ok m \<Longrightarrow> bt_get m k = Some v \<longleftrightarrow> (k, v) \<in> set m"
  by (simp add: bt_get_def bt_ok_distinct)

lemma bt_values_get: "bt_ok m \<Longrightarrow> v \<in> set (bt_values m) \<longleftrightarrow> (\<exists>k. bt_get m k = Some v)"
  by (force simp: bt_values_def bt_get_mem)

lemma length_bt_insert:
  "bt_ok m \<Longrightarrow> length (bt_insert k v m) = (if bt_get m k = None then Suc (length m) else length m)"
proof (induction k v m rule: bt_insert.induct)
  case (2 k v k' v' m)
  then show ?case
    by (auto simp: bt_ok_def bt_get_def map_of_eq_None_iff)
qed (simp add: bt_get_def)

lemma length_bt_remove:
  assumes "bt_ok m"
  shows "length (bt_remove k m) = (if bt_get m k = None then length m else length m - 1)"
proof -
  have keys: "map fst (bt_remove k m) = remove1 k (map fst m)"
    using bt_ok_distinct [OF assms]
    by (simp add: bt_remove_def distinct_remove1_removeAll removeAll_filter_not_eq filter_map o_def
        neq_commute)
  have "length (bt_remove k m) = length (remove1 k (map fst m))"
    by (simp only: keys [symmetric] length_map)
  then show ?thesis
    by (simp add: length_remove1 bt_get_def map_of_eq_None_iff)
qed

end
