(* ===== verification/Completion.thy ===== *)
theory Completion
  imports Checksum OrdMap
begin

text \<open>
  Multipart completion receipts (\<open>rs3-index/src/completion.rs\<close>): the canonical eight-field
  record, and the bounded set of the newest accepted results that the repository state keeps.
\<close>

definition MAX_COMPLETION_RECEIPTS :: nat where "MAX_COMPLETION_RECEIPTS = 1024"
definition MAX_COMPLETION_RECEIPT_BYTES :: nat where "MAX_COMPLETION_RECEIPT_BYTES = 2048"

record CompletionReceipt =
  rc_upload_id :: MultipartUploadId
  rc_commit_sequence :: Sequence
  rc_selection_digest :: bytes
  rc_attempts_digest :: bytes
  rc_key :: LogicalPath
  rc_content_len :: u64
  rc_etag :: ObjectEtag
  rc_checksum :: "ObjectChecksum option"

datatype CompletionReceiptError = CompletionReceiptError

fun receipt_checksum_bad :: "u32 \<Rightarrow> ObjectChecksum option \<Rightarrow> bool" where
  "receipt_checksum_bad n None = False"
| "receipt_checksum_bad n (Some c) =
     (((ck_algorithm c = Sha1 \<or> ck_algorithm c = Sha256) \<and> ck_kind c = FullObject)
      \<or> (case ck_kind c of Composite parts \<Rightarrow> parts \<noteq> n | FullObject \<Rightarrow> False))"

definition CompletionReceipt_validate :: "CompletionReceipt \<Rightarrow> CompletionReceiptError + unit" where
  "CompletionReceipt_validate r =
     (case part_count (rc_etag r) of
        None \<Rightarrow> Inl CompletionReceiptError
      | Some n \<Rightarrow>
          if rc_commit_sequence r = Sequence_ZERO \<or> length (rc_key r) > 1024
             \<or> receipt_checksum_bad n (rc_checksum r)
          then Inl CompletionReceiptError else Inr ())"

definition CompletionReceipt_encode :: "CompletionReceipt \<Rightarrow> CompletionReceiptError + bytes" where
  "CompletionReceipt_encode r =
     bindE (CompletionReceipt_validate r) (\<lambda>_.
     let out = write_array_len [] 8;
         out = write_bytes out (rc_upload_id r);
         out = write_u64 out (rc_commit_sequence r);
         out = write_bytes out (rc_selection_digest r);
         out = write_bytes out (rc_attempts_digest r);
         out = write_text out (rc_key r);
         out = write_u64 out (rc_content_len r);
         out = write_bytes out (ObjectEtag_encode (rc_etag r));
         out = (case rc_checksum r of
                  Some checksum \<Rightarrow> write_bytes out (ObjectChecksum_encode checksum)
                | None \<Rightarrow> write_null out)
     in if length out > MAX_COMPLETION_RECEIPT_BYTES then Inl CompletionReceiptError else Inr out)"

definition read_array32 :: "Reader \<Rightarrow> CborError + bytes \<times> Reader" where
  "read_array32 r = bindE (read_bytes_bounded 32 r) (\<lambda>(bs, r).
     if length bs = 32 then Inr (bs, r) else Inl Invalid)"

definition read_receipt_checksum :: "Reader \<Rightarrow> CborError + ObjectChecksum option \<times> Reader" where
  "read_receipt_checksum r =
     (if next_is_null r then bindE (read_null r) (\<lambda>(_, r). Inr (None, r))
      else bindE (read_bytes_bounded CHECKSUM_MAX_ENCODED_BYTES r) (\<lambda>(bs, r).
           bindE (map_err (\<lambda>_. Invalid) (ObjectChecksum_decode bs)) (\<lambda>c. Inr (Some c, r))))"

definition receipt_decode :: "bytes \<Rightarrow> CborError + CompletionReceipt" where
  "receipt_decode bs =
     bindE (read_array_len (Reader_new bs)) (\<lambda>(n, r).
     if n \<noteq> 8 then Inl Invalid else
     bindE (read_array32 r) (\<lambda>(upload_id, r).
     bindE (read_u64 r) (\<lambda>(commit_sequence, r).
     bindE (read_array32 r) (\<lambda>(selection_digest, r).
     bindE (read_array32 r) (\<lambda>(attempts_digest, r).
     bindE (read_text_bounded 1024 r) (\<lambda>(text, r).
     bindE (map_err (\<lambda>_. Invalid) (LogicalPath_new text)) (\<lambda>key.
     bindE (read_u64 r) (\<lambda>(content_len, r).
     bindE (read_bytes_bounded ETAG_ENCODED_BYTES r) (\<lambda>(etag_bytes, r).
     bindE (map_err (\<lambda>_. Invalid) (ObjectEtag_decode etag_bytes)) (\<lambda>etag.
     bindE (read_receipt_checksum r) (\<lambda>(checksum, r).
     if \<not> is_finished r then Inl Invalid else
     let receipt = \<lparr>rc_upload_id = upload_id, rc_commit_sequence = commit_sequence,
           rc_selection_digest = selection_digest, rc_attempts_digest = attempts_digest,
           rc_key = key, rc_content_len = content_len, rc_etag = etag, rc_checksum = checksum\<rparr>
     in bindE (map_err (\<lambda>_. Invalid) (CompletionReceipt_validate receipt)) (\<lambda>_.
        Inr receipt))))))))))))"

definition CompletionReceipt_decode :: "bytes \<Rightarrow> CompletionReceiptError + CompletionReceipt" where
  "CompletionReceipt_decode bs =
     (if length bs > MAX_COMPLETION_RECEIPT_BYTES then Inl CompletionReceiptError
      else map_err (\<lambda>_. CompletionReceiptError) (receipt_decode bs))"

section \<open>The retained set\<close>

type_synonym CompletionReceipts = "(MultipartUploadId, CompletionReceipt) btmap"

definition receipts_get :: "CompletionReceipts \<Rightarrow> MultipartUploadId \<Rightarrow> CompletionReceipt option" where
  "receipts_get entries i = bt_get entries i"

definition receipts_iter :: "CompletionReceipts \<Rightarrow> CompletionReceipt list" where
  "receipts_iter entries = bt_values entries"

definition receipts_validate_insert ::
  "CompletionReceipts \<Rightarrow> CompletionReceipt \<Rightarrow> CompletionReceiptError + unit" where
  "receipts_validate_insert entries receipt =
     bindE (CompletionReceipt_validate receipt) (\<lambda>_.
     if (case bt_get entries (rc_upload_id receipt) of Some old \<Rightarrow> old \<noteq> receipt | None \<Rightarrow> False)
        \<or> list_ex (\<lambda>old. rc_commit_sequence old = rc_commit_sequence receipt \<and> old \<noteq> receipt)
            (bt_values entries)
     then Inl CompletionReceiptError else Inr ())"

definition receipts_insert ::
  "CompletionReceipts \<Rightarrow> CompletionReceipt \<Rightarrow> CompletionReceiptError + CompletionReceipts" where
  "receipts_insert entries receipt =
     bindE (receipts_validate_insert entries receipt) (\<lambda>_.
     let entries = bt_insert (rc_upload_id receipt) receipt entries in
     if length entries > MAX_COMPLETION_RECEIPTS
     then let oldest = arg_min_list rc_commit_sequence (bt_values entries)
          in Inr (bt_remove (rc_upload_id oldest) entries)
     else Inr entries)"

definition snapshot_step ::
  "MultipartUploadId option \<times> Sequence set \<times> CompletionReceipts \<Rightarrow> CompletionReceipt \<Rightarrow>
   CompletionReceiptError + MultipartUploadId option \<times> Sequence set \<times> CompletionReceipts" where
  "snapshot_step st receipt =
     (case st of (previous, sequences, entries) \<Rightarrow>
      bindE (CompletionReceipt_validate receipt) (\<lambda>_.
      if (case previous of Some i \<Rightarrow> i \<ge> rc_upload_id receipt | None \<Rightarrow> False)
         \<or> rc_commit_sequence receipt \<in> sequences
      then Inl CompletionReceiptError
      else Inr (Some (rc_upload_id receipt), insert (rc_commit_sequence receipt) sequences,
             bt_insert (rc_upload_id receipt) receipt entries)))"

definition from_snapshot ::
  "CompletionReceipt list \<Rightarrow> CompletionReceiptError + CompletionReceipts" where
  "from_snapshot receipts =
     (if length receipts > MAX_COMPLETION_RECEIPTS then Inl CompletionReceiptError
      else bindE (foldE snapshot_step (None, {}, []) receipts) (\<lambda>(_, _, entries). Inr entries))"

section \<open>The receipt codec\<close>

definition receipt_typed :: "CompletionReceipt \<Rightarrow> bool" where
  "receipt_typed r \<longleftrightarrow> length (rc_upload_id r) = 32 \<and> length (rc_selection_digest r) = 32 \<and>
     length (rc_attempts_digest r) = 32 \<and> valid_name (rc_key r) \<and> valid_etag (rc_etag r) \<and>
     (\<forall>c. rc_checksum r = Some c \<longrightarrow> valid_checksum c)"

fun receipt_checksum_wire :: "ObjectChecksum option \<Rightarrow> bytes" where
  "receipt_checksum_wire None = write_null []"
| "receipt_checksum_wire (Some c) = write_bytes [] (ObjectChecksum_encode c)"

definition receipt_wire :: "CompletionReceipt \<Rightarrow> bytes" where
  "receipt_wire r = write_array_len [] 8 @ write_bytes [] (rc_upload_id r) @
     write_u64 [] (rc_commit_sequence r) @ write_bytes [] (rc_selection_digest r) @
     write_bytes [] (rc_attempts_digest r) @ write_text [] (rc_key r) @
     write_u64 [] (rc_content_len r) @ write_bytes [] (ObjectEtag_encode (rc_etag r)) @
     receipt_checksum_wire (rc_checksum r)"

lemma receipt_encode_wire:
  "CompletionReceipt_encode r = bindE (CompletionReceipt_validate r) (\<lambda>_.
     if length (receipt_wire r) > 2048 then Inl CompletionReceiptError else Inr (receipt_wire r))"
  by (cases "rc_checksum r")
    (simp_all add: CompletionReceipt_encode_def receipt_wire_def write_appends Let_def
      MAX_COMPLETION_RECEIPT_BYTES_def)

interpretation rc_array32: codec at_pos "write_bytes []" read_array32 "\<lambda>x. length x = 32"
  by unfold_locales
    (auto simp: read_array32_def bindE_eq_Inr cb_bytes.read_iff cb_bytes.read_wire split: if_splits)

lemma checksum_wire_not_null:
  assumes "valid_checksum c"
  shows "write_bytes [] (ObjectChecksum_encode c) @ s \<noteq> 0xf6 # t"
proof
  assume "write_bytes [] (ObjectChecksum_encode c) @ s = 0xf6 # t"
  moreover have "0xf6 # t = write_null [] @ t" by (simp add: write_null_def)
  moreover have "length (ObjectChecksum_encode c) \<le> 48"
    using length_ObjectChecksum_encode [OF assms] by simp
  ultimately have "read_bytes_bounded 48 (at_pos [] (write_null [] @ t))
      = Inr (ObjectChecksum_encode c, at_pos ([] @ write_bytes [] (ObjectChecksum_encode c)) s)"
    using cb_bytes.read_wire [of "ObjectChecksum_encode c" 48 "[]" s] by simp
  then show False
    by (simp add: write_null_def read_bytes_bounded_def read_len_for_major_bounded_def
        read_len_for_major_def read_initial_def)
qed

interpretation rc_checksum: codec at_pos receipt_checksum_wire read_receipt_checksum
    "\<lambda>x. \<forall>c. x = Some c \<longrightarrow> valid_checksum c"
proof unfold_locales
  fix p x s
  assume v: "\<forall>c. x = Some c \<longrightarrow> valid_checksum c"
  show "read_receipt_checksum (at_pos p (receipt_checksum_wire x @ s))
      = Inr (x, at_pos (p @ receipt_checksum_wire x) s)"
  proof (cases x)
    case None
    then show ?thesis
      by (simp add: read_receipt_checksum_def write_null_def read_null_def)
  next
    case (Some c)
    with v have c: "valid_checksum c" by simp
    with Some checksum_wire_not_null [OF c] length_ObjectChecksum_encode [OF c] show ?thesis
      by (simp add: read_receipt_checksum_def CHECKSUM_MAX_ENCODED_BYTES_def cb_bytes.read_wire
          ObjectChecksum_decode_iff [THEN iffD2])
  qed
next
  fix p bs x rd
  assume "read_receipt_checksum (at_pos p bs) = Inr (x, rd)"
  then show "(\<forall>c. x = Some c \<longrightarrow> valid_checksum c) \<and>
      (\<exists>s. bs = receipt_checksum_wire x @ s \<and> rd = at_pos (p @ receipt_checksum_wire x) s)"
    by (auto simp: read_receipt_checksum_def bindE_eq_Inr cb_null.read_iff cb_bytes.read_iff
        ObjectChecksum_decode_iff split: if_splits)
qed simp

lemma LogicalPath_new_iff:
  "LogicalPath_new v = Inr k \<longleftrightarrow> k = v \<and> \<not> trim_is_empty v"
  by (simp add: LogicalPath_new_def)

lemma validate_key_len: "CompletionReceipt_validate r = Inr u \<Longrightarrow> length (rc_key r) \<le> 1024"
  by (auto simp: CompletionReceipt_validate_def split: option.splits if_splits)

lemma length_cbor_fields:
  "length (write_u64 [] v) \<le> 9" "length (write_null []) = 1"
  "length (write_bytes [] bs) \<le> 9 + length bs" "length (write_text [] bs) \<le> 9 + length bs"
  "length (write_array_len [] n) \<le> 9"
  using length_type_len(4) [of _ v] length_type_len(4) [of _ "of_nat (length bs)"] length_type_len(4) [of _ "of_nat n"]
  by (simp_all add: write_u64_def write_null_def write_bytes_def write_text_def write_array_len_def)

lemma length_receipt_wire:
  assumes "receipt_typed r" and "CompletionReceipt_validate r = Inr ()"
  shows "length (receipt_wire r) \<le> 2048"
proof -
  have "length (receipt_checksum_wire (rc_checksum r)) \<le> 57"
    using assms(1) length_ObjectChecksum_encode
    by (cases "rc_checksum r") (force simp: receipt_typed_def length_cbor_fields
        intro: order_trans [OF length_cbor_fields(3)])+
  moreover have "length (ObjectEtag_encode (rc_etag r)) = 20"
    using assms(1) by (simp add: receipt_typed_def length_ObjectEtag_encode)
  ultimately show ?thesis
    using validate_key_len [OF assms(2)] assms(1) length_cbor_fields(5) [of 8]
      length_cbor_fields(1) [of "rc_commit_sequence r"] length_cbor_fields(1) [of "rc_content_len r"]
      length_cbor_fields(3) [of "rc_upload_id r"] length_cbor_fields(3) [of "rc_selection_digest r"]
      length_cbor_fields(3) [of "rc_attempts_digest r"] length_cbor_fields(4) [of "rc_key r"]
      length_cbor_fields(3) [of "ObjectEtag_encode (rc_etag r)"]
    by (simp add: receipt_wire_def receipt_typed_def)
qed

lemma receipt_encode_total:
  "receipt_typed r \<Longrightarrow>
   CompletionReceipt_encode r = bindE (CompletionReceipt_validate r) (\<lambda>_. Inr (receipt_wire r))"
  by (cases "CompletionReceipt_validate r") (simp_all add: receipt_encode_wire length_receipt_wire not_less)

lemma receipt_decode_wire:
  assumes t: "receipt_typed r" and v: "CompletionReceipt_validate r = Inr ()"
  shows "receipt_decode (receipt_wire r) = Inr r"
proof -
  have k: "length (rc_key r) \<le> 1024" "from_utf8_ok (rc_key r)" "\<not> trim_is_empty (rc_key r)"
    using validate_key_len [OF v] t by (auto simp: receipt_typed_def valid_name_def)
  have e: "ObjectEtag_decode (ObjectEtag_encode (rc_etag r)) = Inr (rc_etag r)"
    "length (ObjectEtag_encode (rc_etag r)) = 20"
    using t by (simp_all add: receipt_typed_def ObjectEtag_decode_iff length_ObjectEtag_encode)
  show ?thesis
    using t v k e rc_checksum.read_wire [of "rc_checksum r" _ "[]"]
    by (cases r) (simp add: receipt_decode_def receipt_wire_def Reader_new_at cb_array.read_wire
        rc_array32.read_wire cb_u64.read_wire cb_text.read_wire cb_bytes.read_wire
        receipt_typed_def LogicalPath_new_def validate_non_empty_def ETAG_ENCODED_BYTES_def Let_def)
qed

lemma receipt_wire_decode:
  "receipt_decode bs = Inr r \<Longrightarrow>
   receipt_typed r \<and> CompletionReceipt_validate r = Inr () \<and> bs = receipt_wire r"
  unfolding receipt_decode_def Reader_new_at
  by (erule bindE_elim | clarsimp simp: cb_array.read_iff rc_array32.read_iff cb_u64.read_iff
      cb_text.read_iff cb_bytes.read_iff rc_checksum.read_iff LogicalPath_new_iff ObjectEtag_decode_iff
      Let_def split: if_splits)+
    (simp add: receipt_typed_def receipt_wire_def valid_name_def)

lemma CompletionReceipt_decode_iff:
  "CompletionReceipt_decode bs = Inr r \<longleftrightarrow> receipt_typed r \<and> CompletionReceipt_encode r = Inr bs"
proof
  assume "CompletionReceipt_decode bs = Inr r"
  then show "receipt_typed r \<and> CompletionReceipt_encode r = Inr bs"
    by (auto simp: CompletionReceipt_decode_def receipt_encode_total split: if_splits
        dest!: receipt_wire_decode)
next
  assume r: "receipt_typed r \<and> CompletionReceipt_encode r = Inr bs"
  then have "CompletionReceipt_validate r = Inr ()" and "bs = receipt_wire r"
    by (auto simp: receipt_encode_total bindE_eq_Inr)
  with r show "CompletionReceipt_decode bs = Inr r"
    by (simp add: CompletionReceipt_decode_def MAX_COMPLETION_RECEIPT_BYTES_def receipt_decode_wire
        length_receipt_wire not_less)
qed

section \<open>Keeping the newest\<close>

text \<open>The members of a set with fewer than \<open>n\<close> members above them in the order of a key.\<close>

definition newest :: "('a \<Rightarrow> 'b::linorder) \<Rightarrow> nat \<Rightarrow> 'a set \<Rightarrow> 'a set" where
  "newest f n S = {x \<in> S. card {y \<in> S. f x < f y} < n}"

lemma newest_subset: "newest f n S \<subseteq> S"
  by (auto simp: newest_def)

lemma card_above_less:
  fixes f :: "'a \<Rightarrow> 'b::linorder"
  assumes "finite S" and "x \<in> S"
  shows "card {y \<in> S. f x < f y} < card S"
proof (rule psubset_card_mono)
  have "x \<notin> {y \<in> S. f x < f y}" by simp
  with assms(2) show "{y \<in> S. f x < f y} \<subset> S" by blast
qed (rule assms(1))

lemma newest_all: "finite S \<Longrightarrow> card S \<le> n \<Longrightarrow> newest f n S = S"
  using card_above_less [of S _ f] by (fastforce simp: newest_def)

lemma newest_drop:
  assumes "finite S" and "inj_on f S" and "n < card S" and "m \<in> S" and "\<forall>y \<in> S. f m \<le> f y"
  shows "newest f n S = newest f n (S - {m})"
proof -
  have "{y \<in> S. f m < f y} = S - {m}"
    using assms(2,4,5) by (force simp: inj_on_def less_le)
  then have "m \<notin> newest f n S"
    using assms(1,3,4) by (simp add: newest_def)
  moreover have "{y \<in> S. f x < f y} = {y \<in> S - {m}. f x < f y}" if "x \<in> S" for x
    using that assms(5) leD by fastforce
  ultimately show ?thesis by (auto simp: newest_def)
qed

lemma card_newest:
  assumes "finite S" and "inj_on f S" and "n \<le> card S"
  shows "card (newest f n S) = n"
  using assms
proof (induction "card S - n" arbitrary: S)
  case 0
  then show ?case by (simp add: newest_all)
next
  case (Suc k)
  then have "S \<noteq> {}" and n: "n < card S" by auto
  have "Min (f ` S) \<in> f ` S" using Suc.prems(1) \<open>S \<noteq> {}\<close> by simp
  then obtain m where m: "m \<in> S" "f m = Min (f ` S)" by (auto simp: image_iff)
  have "\<forall>y \<in> S. f m \<le> f y" using m Suc.prems(1) by simp
  from newest_drop [OF Suc.prems(1,2) n m(1) this] Suc.hyps(1) [of "S - {m}"] Suc.hyps(2) m(1) Suc.prems
  show ?case by (simp add: inj_on_diff)
qed

lemma above_newest:
  assumes "finite S" and "card {y \<in> S. f x < f y} < n"
  shows "{y \<in> newest f n S. f x < f y} = {y \<in> S. f x < f y}"
proof -
  have "card {z \<in> S. f y < f z} < n" if "f x < f y" for y
    using that assms by (intro le_less_trans [OF card_mono assms(2)]) auto
  then show ?thesis by (auto simp: newest_def)
qed

lemma card_above_newest:
  assumes "finite S" and "inj_on f S"
  shows "card {y \<in> newest f n S. f x < f y} < n \<longleftrightarrow> card {y \<in> S. f x < f y} < n"
proof (cases "card {y \<in> S. f x < f y} < n")
  case False
  let ?A = "{y \<in> S. f x < f y}"
  have "{z \<in> S. f y < f z} = {z \<in> ?A. f y < f z}" if "y \<in> ?A" for y
    using that by auto
  then have "{y \<in> newest f n S. f x < f y} = newest f n ?A"
    by (auto simp: newest_def)
  moreover have "card (newest f n ?A) = n"
    using assms False by (intro card_newest) (auto intro: inj_on_subset)
  ultimately show ?thesis using False by simp
qed (simp add: above_newest [OF assms(1)])

lemma above_insert:
  "{y \<in> insert r T. f x < f y} = (if f x < f r then insert r {y \<in> T. f x < f y} else {y \<in> T. f x < f y})"
  by auto

text \<open>Dropping old members early never changes which members are the newest in the end.\<close>

lemma newest_insert:
  assumes "finite S" and "inj_on f (insert r S)"
  shows "newest f n (insert r (newest f n S)) = newest f n (insert r S)"
proof -
  have inj: "inj_on f S" using assms(2) by (rule inj_on_subset) auto
  have r: "card {y \<in> insert r (newest f n S). f r < f y} < n \<longleftrightarrow> card {y \<in> insert r S. f r < f y} < n"
    using card_above_newest [OF assms(1) inj, where x = r] by (simp only: above_insert less_irrefl if_False)
  have x: "x \<in> newest f n S \<and> card {y \<in> insert r (newest f n S). f x < f y} < n
      \<longleftrightarrow> card {y \<in> insert r S. f x < f y} < n" if "x \<in> S" for x
  proof -
    have le: "card {y \<in> S. f x < f y} \<le> card {y \<in> insert r S. f x < f y}"
      using assms(1) by (intro card_mono) auto
    show ?thesis
    proof (cases "card {y \<in> S. f x < f y} < n")
      case True
      with that have "x \<in> newest f n S" by (simp add: newest_def)
      with True above_newest [OF assms(1) True] show ?thesis by (simp only: above_insert) simp
    next
      case False
      with le show ?thesis by (simp add: newest_def)
    qed
  qed
  show ?thesis
    unfolding newest_def [of f n "insert r S"] newest_def [of f n "insert r (newest f n S)"]
    using r x newest_subset [of f n S] by blast
qed

section \<open>The retained set\<close>

definition receipts_ok :: "CompletionReceipts \<Rightarrow> bool" where
  "receipts_ok m \<longleftrightarrow> bt_ok m \<and> length m \<le> MAX_COMPLETION_RECEIPTS \<and>
     (\<forall>(k, r) \<in> set m. rc_upload_id r = k \<and> CompletionReceipt_validate r = Inr ()) \<and>
     inj_on rc_commit_sequence (set (bt_values m))"

definition receipts_keyed :: "CompletionReceipts \<Rightarrow> bool" where
  "receipts_keyed m \<longleftrightarrow> bt_ok m \<and> (\<forall>k r. bt_get m k = Some r \<longrightarrow> rc_upload_id r = k)"

lemma receipts_ok_keyed: "receipts_ok m \<Longrightarrow> receipts_keyed m"
  by (auto simp: receipts_ok_def receipts_keyed_def bt_get_mem)

lemma keyed_insert: "receipts_keyed m \<Longrightarrow> receipts_keyed (bt_insert (rc_upload_id r) r m)"
  by (auto simp: receipts_keyed_def bt_ok_insert bt_get_insert split: if_splits)

lemma keyed_values:
  "receipts_keyed m \<Longrightarrow> r \<in> set (bt_values m) \<longleftrightarrow> bt_get m (rc_upload_id r) = Some r"
  by (auto simp: receipts_keyed_def bt_values_get)

lemma keyed_card: "receipts_keyed m \<Longrightarrow> card (set (bt_values m)) = length m"
proof -
  assume k: "receipts_keyed m"
  have "distinct (bt_values m)"
  proof -
    have "map rc_upload_id (bt_values m) = map fst m"
      using k by (auto simp: receipts_keyed_def bt_values_def bt_get_mem)
    then have "distinct (map rc_upload_id (bt_values m))"
      using bt_ok_distinct [of m] k by (simp add: receipts_keyed_def)
    then show ?thesis by (simp only: distinct_map)
  qed
  then have "card (set (bt_values m)) = length (bt_values m)" by (rule distinct_card)
  then show ?thesis by (simp add: bt_values_def)
qed

lemma receipts_ok_alt:
  "receipts_ok m \<longleftrightarrow> receipts_keyed m \<and> card (set (bt_values m)) \<le> 1024 \<and>
     (\<forall>r \<in> set (bt_values m). CompletionReceipt_validate r = Inr ()) \<and>
     inj_on rc_commit_sequence (set (bt_values m))"
proof (cases "receipts_keyed m")
  case True
  then have "bt_ok m" and "\<forall>p \<in> set m. rc_upload_id (snd p) = fst p"
    by (auto simp: receipts_keyed_def bt_get_mem)
  then have "(\<forall>(k, r) \<in> set m. rc_upload_id r = k \<and> CompletionReceipt_validate r = Inr ())
      \<longleftrightarrow> (\<forall>r \<in> set (bt_values m). CompletionReceipt_validate r = Inr ())"
    by (auto simp: bt_values_def split_beta)
  with True \<open>bt_ok m\<close> show ?thesis
    by (simp add: receipts_ok_def keyed_card MAX_COMPLETION_RECEIPTS_def)
next
  case False
  then show ?thesis using receipts_ok_keyed by blast
qed

lemma keyed_insert_values:
  "receipts_keyed m \<Longrightarrow> (\<forall>x. bt_get m (rc_upload_id r) = Some x \<longrightarrow> x = r) \<Longrightarrow>
   set (bt_values (bt_insert (rc_upload_id r) r m)) = insert r (set (bt_values m))"
  by (rule set_eqI) (auto simp: keyed_values keyed_insert bt_get_insert split: if_splits)

lemma keyed_remove:
  "receipts_keyed m \<Longrightarrow> r \<in> set (bt_values m) \<Longrightarrow> receipts_keyed (bt_remove (rc_upload_id r) m) \<and>
   set (bt_values (bt_remove (rc_upload_id r) m)) = set (bt_values m) - {r}"
proof -
  assume k: "receipts_keyed m" and r: "r \<in> set (bt_values m)"
  then have k': "receipts_keyed (bt_remove (rc_upload_id r) m)"
    by (auto simp: receipts_keyed_def bt_ok_remove bt_get_remove split: if_splits)
  with k r show ?thesis
    by (auto simp: keyed_values bt_get_remove split: if_splits)
qed

lemma validate_insert_iff:
  "receipts_validate_insert m r = Inr u \<longleftrightarrow> CompletionReceipt_validate r = Inr () \<and>
     (\<forall>x. bt_get m (rc_upload_id r) = Some x \<longrightarrow> x = r) \<and>
     (\<forall>x \<in> set (bt_values m). rc_commit_sequence x = rc_commit_sequence r \<longrightarrow> x = r)"
  by (auto simp: receipts_validate_insert_def bindE_eq_Inr list_ex_iff split: option.splits if_splits)

lemma receipts_insert_ok:
  assumes m: "receipts_ok m" and i: "receipts_insert m r = Inr m'"
  shows "receipts_ok m' \<and>
    set (receipts_iter m') = newest rc_commit_sequence 1024 (insert r (set (receipts_iter m)))"
proof -
  let ?m = "bt_insert (rc_upload_id r) r m" let ?S = "set (bt_values ?m)"
  from i have v: "receipts_validate_insert m r = Inr ()" by (auto simp: receipts_insert_def bindE_eq_Inr)
  have k: "receipts_keyed m" "receipts_keyed ?m" using m by (auto intro: keyed_insert receipts_ok_keyed)
  have S: "?S = insert r (set (bt_values m))" using k v by (simp add: keyed_insert_values validate_insert_iff)
  have val: "\<forall>x \<in> ?S. CompletionReceipt_validate x = Inr ()" and inj: "inj_on rc_commit_sequence ?S"
    using v m unfolding S by (auto simp: validate_insert_iff receipts_ok_alt inj_on_def)
  have len: "length ?m = card ?S" "finite ?S" using keyed_card [OF k(2)] by simp_all
  show ?thesis
  proof (cases "length ?m > 1024")
    case False
    with i v have m': "m' = ?m" by (simp add: receipts_insert_def Let_def MAX_COMPLETION_RECEIPTS_def)
    with False len show ?thesis
      unfolding receipts_iter_def S [symmetric] by (simp add: newest_all receipts_ok_alt k inj val)
  next
    case True
    define old where "old = arg_min_list rc_commit_sequence (bt_values ?m)"
    with True i v have m': "m' = bt_remove (rc_upload_id old) ?m"
      by (simp add: receipts_insert_def Let_def MAX_COMPLETION_RECEIPTS_def)
    have ne: "bt_values ?m \<noteq> []" using True by (auto simp: bt_values_def)
    have old: "old \<in> ?S" "\<forall>y \<in> ?S. rc_commit_sequence old \<le> rc_commit_sequence y"
      unfolding old_def using arg_min_list_in [OF ne] f_arg_min_list_f [OF ne, of rc_commit_sequence] by auto
    have "length ?m \<le> Suc (length m)" using k(1) by (simp add: length_bt_insert receipts_keyed_def)
    moreover have "length m \<le> 1024" using m by (simp add: receipts_ok_def MAX_COMPLETION_RECEIPTS_def)
    ultimately have card: "card (?S - {old}) \<le> 1024"
      using len old(1) by simp
    have kr: "receipts_keyed m'" "set (bt_values m') = ?S - {old}"
      using keyed_remove [OF k(2) old(1)] m' by simp_all
    then have "newest rc_commit_sequence 1024 ?S = set (bt_values m')"
      using newest_drop [OF len(2) inj _ old] True len card by (simp add: newest_all)
    with kr card inj val show ?thesis
      unfolding receipts_iter_def S [symmetric]
      by (auto simp: receipts_ok_alt intro: inj_on_subset)
  qed
qed

text \<open>A whole history of inserts, with replays, leaves the newest results of the history.\<close>

lemma receipts_history:
  assumes "\<forall>r \<in> set rs. CompletionReceipt_validate r = Inr ()"
    and "inj_on rc_upload_id (set rs)" and "inj_on rc_commit_sequence (set rs)"
  shows "\<exists>m. foldE receipts_insert [] rs = Inr m \<and> receipts_ok m \<and>
    set (receipts_iter m) = newest rc_commit_sequence 1024 (set rs)"
  using assms
proof (induction rs rule: rev_induct)
  case Nil
  then show ?case by (simp add: receipts_ok_def bt_ok_def bt_values_def receipts_iter_def newest_def)
next
  case (snoc r rs)
  then obtain m where m: "foldE receipts_insert [] rs = Inr m" "receipts_ok m"
    and S: "set (receipts_iter m) = newest rc_commit_sequence 1024 (set rs)"
    by (auto simp: inj_on_insert)
  have sub: "set (bt_values m) \<subseteq> set rs"
    using S newest_subset unfolding receipts_iter_def by fast
  have "receipts_validate_insert m r = Inr ()"
    unfolding validate_insert_iff
  proof (intro conjI ballI allI impI)
    fix x assume "bt_get m (rc_upload_id r) = Some x"
    with receipts_ok_keyed [OF m(2)] have "x \<in> set (bt_values m)" "rc_upload_id x = rc_upload_id r"
      by (auto simp: receipts_keyed_def bt_values_get)
    with sub snoc.prems(2) show "x = r" by (auto simp: inj_on_def)
  next
    fix x assume "x \<in> set (bt_values m)" "rc_commit_sequence x = rc_commit_sequence r"
    with sub snoc.prems(3) show "x = r" by (auto simp: inj_on_def)
  qed (use snoc.prems(1) in simp)
  then obtain m' where m': "receipts_insert m r = Inr m'" by (cases "receipts_insert m r") (auto simp: receipts_insert_def Let_def split: if_splits)
  from receipts_insert_ok [OF m(2) m'] newest_insert [of "set rs" rc_commit_sequence r 1024] snoc.prems(3) S
  show ?case using m(1) m' by (simp add: foldE_append)
qed

section \<open>Snapshots\<close>

lemma bt_insert_last: "\<forall>k' \<in> fst ` set m. k' < k \<Longrightarrow> bt_insert k v m = m @ [(k, v)]"
  by (induction k v m rule: bt_insert.induct) auto

definition snapshot_image ::
  "CompletionReceipt list \<Rightarrow> MultipartUploadId option \<times> Sequence set \<times> CompletionReceipts" where
  "snapshot_image rs = (if rs = [] then None else Some (rc_upload_id (last rs)),
     set (map rc_commit_sequence rs), map (\<lambda>r. (rc_upload_id r, r)) rs)"

lemma snapshot_step_image:
  assumes sorted: "sorted_wrt (<) (map rc_upload_id rs)"
  shows "snapshot_step (snapshot_image rs) r = Inr st \<longleftrightarrow> CompletionReceipt_validate r = Inr () \<and>
    (\<forall>x \<in> set rs. rc_upload_id x < rc_upload_id r) \<and>
    rc_commit_sequence r \<notin> rc_commit_sequence ` set rs \<and> st = snapshot_image (rs @ [r])"
proof -
  have last: "(\<forall>x \<in> set rs. rc_upload_id x < rc_upload_id r) \<longleftrightarrow>
      \<not> (case fst (snapshot_image rs) of Some i \<Rightarrow> i \<ge> rc_upload_id r | None \<Rightarrow> False)"
    using sorted by (induction rs rule: rev_induct)
      (auto simp: sorted_wrt_append snapshot_image_def not_le)
  have "bt_insert (rc_upload_id r) r (map (\<lambda>r. (rc_upload_id r, r)) rs)
      = map (\<lambda>r. (rc_upload_id r, r)) rs @ [(rc_upload_id r, r)]"
    if "\<forall>x \<in> set rs. rc_upload_id x < rc_upload_id r"
    using that by (intro bt_insert_last) auto
  with last show ?thesis
    by (auto simp: snapshot_step_def snapshot_image_def bindE_eq_Inr split: if_splits)
qed

lemma snapshot_fold:
  "foldE snapshot_step (None, {}, []) rs = Inr st \<longleftrightarrow>
     (\<forall>r \<in> set rs. CompletionReceipt_validate r = Inr ()) \<and> sorted_wrt (<) (map rc_upload_id rs) \<and>
     distinct (map rc_commit_sequence rs) \<and> st = snapshot_image rs"
proof (induction rs arbitrary: st rule: rev_induct)
  case (snoc r rs)
  have "foldE snapshot_step (None, {}, []) (rs @ [r]) = Inr st \<longleftrightarrow>
      (\<exists>u. foldE snapshot_step (None, {}, []) rs = Inr u \<and> snapshot_step u r = Inr st)"
    unfolding foldE_append foldE.simps bindE_ret by (simp only: bindE_eq_Inr)
  also have "\<dots> \<longleftrightarrow> (\<forall>r \<in> set rs. CompletionReceipt_validate r = Inr ()) \<and>
      sorted_wrt (<) (map rc_upload_id rs) \<and> distinct (map rc_commit_sequence rs) \<and>
      snapshot_step (snapshot_image rs) r = Inr st"
    unfolding snoc by blast
  finally show ?case
    by (auto simp: snapshot_step_image sorted_wrt_append)
qed (auto simp: snapshot_image_def)

lemma from_snapshot_iff:
  "from_snapshot rs = Inr m \<longleftrightarrow> receipts_ok m \<and> receipts_iter m = rs"
proof -
  have "from_snapshot rs = Inr m \<longleftrightarrow> length rs \<le> 1024 \<and>
     (\<forall>r \<in> set rs. CompletionReceipt_validate r = Inr ()) \<and> sorted_wrt (<) (map rc_upload_id rs) \<and>
     distinct (map rc_commit_sequence rs) \<and> m = map (\<lambda>r. (rc_upload_id r, r)) rs"
    by (auto simp: from_snapshot_def bindE_eq_Inr snapshot_fold snapshot_image_def
        MAX_COMPLETION_RECEIPTS_def)
  also have "\<dots> \<longleftrightarrow> receipts_ok m \<and> receipts_iter m = rs"
  proof
    assume "receipts_ok m \<and> receipts_iter m = rs"
    then have m: "receipts_ok m" and rs: "rs = map snd m" by (auto simp: receipts_iter_def bt_values_def)
    have key: "map (\<lambda>r. (rc_upload_id r, r)) rs = m"
      unfolding rs map_map by (rule map_idI) (use m in \<open>auto simp: receipts_ok_def\<close>)
    have ids: "map rc_upload_id rs = map fst m"
      unfolding rs map_map by (rule map_cong) (use m in \<open>auto simp: receipts_ok_def\<close>)
    then have "distinct (map rc_upload_id rs)"
      using bt_ok_distinct [of m] m by (simp add: receipts_ok_def)
    then have "distinct rs" by (simp only: distinct_map)
    moreover have "inj_on rc_commit_sequence (set rs)"
      using m rs by (simp add: receipts_ok_def bt_values_def)
    moreover have "\<forall>r \<in> set rs. CompletionReceipt_validate r = Inr ()"
      using m rs by (auto simp: receipts_ok_def)
    moreover have "length rs \<le> 1024" using m rs by (simp add: receipts_ok_def MAX_COMPLETION_RECEIPTS_def)
    ultimately show "length rs \<le> 1024 \<and>
     (\<forall>r \<in> set rs. CompletionReceipt_validate r = Inr ()) \<and> sorted_wrt (<) (map rc_upload_id rs) \<and>
     distinct (map rc_commit_sequence rs) \<and> m = map (\<lambda>r. (rc_upload_id r, r)) rs"
      using m key ids by (simp add: receipts_ok_def bt_ok_def distinct_map)
  qed (auto simp: receipts_ok_def MAX_COMPLETION_RECEIPTS_def bt_ok_def bt_values_def receipts_iter_def
      o_def distinct_map)
  finally show ?thesis .
qed

end
