(* ===== verification/RunModel.thy ===== *)
theory RunModel
  imports RunWire Payload Completion
begin

text \<open>
  The logical index run (\<open>rs3-index/src/run.rs\<close>): limits, blind keys, containers, payload
  pointers and mutations, with the checks that the encoder and the decoder share.
\<close>

definition INDEX_PACK_MAX_STORED_BYTES :: u64 where "INDEX_PACK_MAX_STORED_BYTES = 32 * 1024 * 1024"
definition INDEX_PACK_MAX_RECORDS :: u32 where "INDEX_PACK_MAX_RECORDS = 4096"
definition INDEX_PACK_SEGMENT_BYTES :: u64 where "INDEX_PACK_SEGMENT_BYTES = of_nat PAYLOAD_PACK_SEGMENT_BYTES"
definition INDEX_PACK_SEGMENT_TAG_BYTES :: u64 where "INDEX_PACK_SEGMENT_TAG_BYTES = of_nat PAYLOAD_AEAD_TAG_LEN"

record IndexRunLimits =
  max_total_bytes :: nat
  max_frame_bytes :: nat
  max_record_bytes :: nat
  max_containers :: nat
  max_mutations :: nat
  max_path_bytes :: nat
  max_key_id_bytes :: nat
  max_object_id_bytes :: nat
  max_version_id_bytes :: nat

definition IndexRunLimits_default :: IndexRunLimits where
  "IndexRunLimits_default = \<lparr>max_total_bytes = 7 * 1024 * 1024, max_frame_bytes = 1024 * 1024 - 1024,
     max_record_bytes = 16 * 1024, max_containers = 4096, max_mutations = 65536,
     max_path_bytes = 1024, max_key_id_bytes = 256, max_object_id_bytes = 1024,
     max_version_id_bytes = 1024\<rparr>"

section \<open>Blind keys\<close>

type_synonym IndexBlindKey = bytes

definition HEX :: bytes where "HEX = lit ''0123456789abcdef''"

definition hex_byte :: "u8 \<Rightarrow> bytes" where
  "hex_byte b = [HEX ! unat (drop_bit 4 b), HEX ! unat (b AND 0x0f)]"

definition to_blind_index_key :: "IndexBlindKey \<Rightarrow> BlindIndexKey run_result" where
  "to_blind_index_key key =
     map_err (\<lambda>_. InvalidValue ''blind key'') (BlindIndexKey_new (concat (map hex_byte key)))"

definition decode_lower_hex :: "u8 \<Rightarrow> u8 option" where
  "decode_lower_hex b =
     (if 0x30 \<le> b \<and> b \<le> 0x39 then Some (b - 0x30)
      else if 0x61 \<le> b \<and> b \<le> 0x66 then Some (b - 0x61 + 10) else None)"

fun blind_key_pairs :: "bytes \<Rightarrow> bytes run_result" where
  "blind_key_pairs (h # l # rest) =
     bindE (ok_or (InvalidValue ''blind key'') (decode_lower_hex h)) (\<lambda>high.
     bindE (ok_or (InvalidValue ''blind key'') (decode_lower_hex l)) (\<lambda>low.
     bindE (blind_key_pairs rest) (\<lambda>bs. Inr ((push_bit 4 high OR low) # bs))))"
| "blind_key_pairs _ = Inr []"

definition IndexBlindKey_try_from :: "BlindIndexKey \<Rightarrow> IndexBlindKey run_result" where
  "IndexBlindKey_try_from value =
     (if length value \<noteq> 64 then Inl (InvalidValue ''blind key'') else blind_key_pairs value)"

section \<open>The run\<close>

record IndexRunKeyringRef =
  kr_object_id :: BackendObjectId
  kr_digest :: bytes

record IndexRunContainer =
  ct_object_id :: BackendObjectId
  ct_version_id :: "BackendVersionId option"
  ct_stored_len :: u64
  ct_commit_body_digest :: bytes
  ct_keyring_envelope :: IndexRunKeyringRef
  ct_pack_section_offset :: u64
  ct_pack_section_ordinal :: u32
  ct_pack_section_len :: u64
  ct_pack_id :: bytes
  ct_attempt_id :: PayloadAttemptId
  ct_content_key_id :: KeyId
  ct_pack_record_count :: u32

record IndexRunStandaloneStreamContainer =
  sc_object_id :: BackendObjectId
  sc_version_id :: "BackendVersionId option"
  sc_stored_len :: u64
  sc_object_digest :: bytes
  sc_keyring_envelope :: IndexRunKeyringRef
  sc_payload_layout :: PayloadLayout

record IndexRunSelfPack =
  sp_pack_id :: bytes
  sp_attempt_id :: PayloadAttemptId
  sp_content_key_id :: KeyId
  sp_stored_len :: u64
  sp_record_count :: u32

record IndexPackRecordPointer =
  record_ordinal :: u32
  physical_offset :: u32

datatype IndexPayloadPointer =
    EmptyPayload
  | SelfPack IndexPackRecordPointer
  | ExternalPack u32 IndexPackRecordPointer
  | ExternalStandaloneStream u32

record IndexUpsert =
  up_mutation_ordinal :: u32
  up_blind_key :: IndexBlindKey
  up_namespace_key_id :: KeyId
  up_path :: LogicalPath
  up_generation :: Sequence
  up_payload :: IndexPayloadPointer
  up_content_len :: u64
  up_modified_at_ms :: i64
  up_retention :: "RetentionPolicy option"
  up_legal_hold :: "LegalHoldStatus option"
  up_etag :: ObjectEtag
  up_checksum :: "ObjectChecksum option"

record IndexTombstone =
  tb_mutation_ordinal :: u32
  tb_blind_key :: IndexBlindKey
  tb_namespace_key_id :: KeyId
  tb_path :: LogicalPath
  tb_generation :: Sequence

datatype IndexMutation = Upsert IndexUpsert | Tombstone IndexTombstone

fun mutation_ordinal :: "IndexMutation \<Rightarrow> u32" where
  "mutation_ordinal (Upsert u) = up_mutation_ordinal u"
| "mutation_ordinal (Tombstone t) = tb_mutation_ordinal t"

fun mutation_blind_key :: "IndexMutation \<Rightarrow> IndexBlindKey" where
  "mutation_blind_key (Upsert u) = up_blind_key u"
| "mutation_blind_key (Tombstone t) = tb_blind_key t"

fun mutation_namespace_key_id :: "IndexMutation \<Rightarrow> KeyId" where
  "mutation_namespace_key_id (Upsert u) = up_namespace_key_id u"
| "mutation_namespace_key_id (Tombstone t) = tb_namespace_key_id t"

fun mutation_path :: "IndexMutation \<Rightarrow> LogicalPath" where
  "mutation_path (Upsert u) = up_path u"
| "mutation_path (Tombstone t) = tb_path t"

record IndexRun =
  run_completion_receipt :: "CompletionReceipt option"
  run_sequence :: Sequence
  run_self_pack :: "IndexRunSelfPack option"
  run_containers :: "IndexRunContainer list"
  run_standalone :: "IndexRunStandaloneStreamContainer list"
  run_mutations :: "IndexMutation list"

section \<open>Shared checks\<close>

type_synonym ContainerKey = "BackendObjectId \<times> BackendVersionId option"

definition ct_key :: "IndexRunContainer \<Rightarrow> ContainerKey" where
  "ct_key c = (ct_object_id c, ct_version_id c)"

definition sc_key :: "IndexRunStandaloneStreamContainer \<Rightarrow> ContainerKey" where
  "sc_key c = (sc_object_id c, sc_version_id c)"

definition validate_container_order :: "ContainerKey option \<Rightarrow> ContainerKey \<Rightarrow> unit run_result" where
  "validate_container_order previous key =
     (case previous of
        None \<Rightarrow> Inr ()
      | Some p \<Rightarrow> if p = key then Inl DuplicateContainer
                  else if p > key then Inl InvalidContainerOrder else Inr ())"

definition validate_container_range :: "IndexRunContainer \<Rightarrow> unit run_result" where
  "validate_container_range c =
     bindE (ok_or InvalidContainerRange
       (checked_add (ct_pack_section_offset c) (ct_pack_section_len c))) (\<lambda>section_end.
     if ct_pack_section_len c = 0 \<or> ct_pack_section_len c > INDEX_PACK_MAX_STORED_BYTES
        \<or> ct_pack_record_count c = 0 \<or> ct_pack_record_count c > INDEX_PACK_MAX_RECORDS
        \<or> section_end > ct_stored_len c
     then Inl InvalidContainerRange else Inr ())"

definition validate_version_len :: "IndexRunLimits \<Rightarrow> BackendVersionId option \<Rightarrow> unit run_result" where
  "validate_version_len limits v =
     (case v of None \<Rightarrow> Inr ()
      | Some v \<Rightarrow> validate_count ''version id'' (length v) (max_version_id_bytes limits))"

definition validate_container ::
  "IndexRunLimits \<Rightarrow> ContainerKey option \<Rightarrow> IndexRunContainer \<Rightarrow> ContainerKey option run_result" where
  "validate_container limits previous c =
     bindE (validate_count ''object id'' (length (ct_object_id c)) (max_object_id_bytes limits)) (\<lambda>_.
     bindE (validate_version_len limits (ct_version_id c)) (\<lambda>_.
     bindE (validate_count ''keyring envelope object id'' (length (kr_object_id (ct_keyring_envelope c)))
       (max_object_id_bytes limits)) (\<lambda>_.
     bindE (validate_count ''content key id'' (length (ct_content_key_id c)) (max_key_id_bytes limits)) (\<lambda>_.
     bindE (validate_container_range c) (\<lambda>_.
     bindE (validate_container_order previous (ct_key c)) (\<lambda>_.
     Inr (Some (ct_key c))))))))"

definition validate_containers :: "IndexRunContainer list \<Rightarrow> IndexRunLimits \<Rightarrow> unit run_result" where
  "validate_containers cs limits = bindE (foldE (validate_container limits) None cs) (\<lambda>_. Inr ())"

definition validate_exact_container ::
  "BackendObjectId \<Rightarrow> BackendVersionId option \<Rightarrow> IndexRunKeyringRef \<Rightarrow> IndexRunLimits \<Rightarrow> unit run_result" where
  "validate_exact_container oid vid keyring limits =
     bindE (validate_count ''object id'' (length oid) (max_object_id_bytes limits)) (\<lambda>_.
     bindE (validate_version_len limits vid) (\<lambda>_.
     validate_count ''keyring envelope object id'' (length (kr_object_id keyring)) (max_object_id_bytes limits)))"

definition validate_payload_layout :: "PayloadLayout \<Rightarrow> IndexRunLimits \<Rightarrow> unit run_result" where
  "validate_payload_layout header limits =
     bindE (validate_count ''content key id'' (length (pl_key_id header)) (max_key_id_bytes limits)) (\<lambda>_.
     bindE (ok_or InvalidStandaloneStreamContainer (PayloadLayout_stored_len header)) (\<lambda>_. Inr ()))"

definition stream_payload_stored_len :: "PayloadLayout \<Rightarrow> u64 run_result" where
  "stream_payload_stored_len header =
     ok_or InvalidStandaloneStreamContainer (PayloadLayout_stored_len header)"

definition validate_standalone_stream_container ::
  "IndexRunStandaloneStreamContainer \<Rightarrow> IndexRunLimits \<Rightarrow> unit run_result" where
  "validate_standalone_stream_container c limits =
     bindE (map_err (\<lambda>_. InvalidStandaloneStreamContainer)
       (validate_payload_layout (sc_payload_layout c) limits)) (\<lambda>_.
     bindE (map_err (\<lambda>_. InvalidStandaloneStreamContainer)
       (stream_payload_stored_len (sc_payload_layout c))) (\<lambda>n.
     if n \<noteq> sc_stored_len c then Inl InvalidStandaloneStreamContainer else Inr ()))"

definition validate_standalone ::
  "IndexRunLimits \<Rightarrow> ContainerKey option \<Rightarrow> IndexRunStandaloneStreamContainer \<Rightarrow> ContainerKey option run_result" where
  "validate_standalone limits previous c =
     bindE (validate_exact_container (sc_object_id c) (sc_version_id c) (sc_keyring_envelope c) limits) (\<lambda>_.
     bindE (validate_standalone_stream_container c limits) (\<lambda>_.
     bindE (validate_container_order previous (sc_key c)) (\<lambda>_.
     Inr (Some (sc_key c)))))"

definition validate_standalone_stream_containers ::
  "IndexRunStandaloneStreamContainer list \<Rightarrow> IndexRunLimits \<Rightarrow> unit run_result" where
  "validate_standalone_stream_containers cs limits =
     bindE (foldE (validate_standalone limits) None cs) (\<lambda>_. Inr ())"

definition validate_distinct_container_objects ::
  "IndexRunContainer list \<Rightarrow> IndexRunStandaloneStreamContainer list \<Rightarrow> unit run_result" where
  "validate_distinct_container_objects pack standalone =
     bindE (foldE (\<lambda>exact key. if key \<in> exact then Inl DuplicateContainer else Inr (insert key exact))
       ({} :: ContainerKey set) (map ct_key pack @ map sc_key standalone)) (\<lambda>_. Inr ())"

definition validate_self_pack :: "IndexRunSelfPack option \<Rightarrow> IndexRunLimits \<Rightarrow> unit run_result" where
  "validate_self_pack self_pack limits =
     (case self_pack of None \<Rightarrow> Inr ()
      | Some pack \<Rightarrow>
          bindE (validate_count ''content key id'' (length (sp_content_key_id pack)) (max_key_id_bytes limits)) (\<lambda>_.
          if sp_stored_len pack = 0 \<or> sp_stored_len pack > INDEX_PACK_MAX_STORED_BYTES
             \<or> sp_record_count pack = 0 \<or> sp_record_count pack > INDEX_PACK_MAX_RECORDS
          then Inl InvalidPackRecordCount else Inr ()))"

definition run_upserts :: "IndexMutation list \<Rightarrow> IndexUpsert list" where
  "run_upserts ms = concat (map (\<lambda>m. case m of Upsert u \<Rightarrow> [u] | Tombstone _ \<Rightarrow> []) ms)"

definition receipt_tombstone_step ::
  "IndexUpsert \<Rightarrow> KeyId set \<times> IndexBlindKey set \<Rightarrow> IndexMutation \<Rightarrow> (KeyId set \<times> IndexBlindKey set) run_result" where
  "receipt_tombstone_step upsert st m =
     (case (st, m) of ((namespaces, blind_keys), Tombstone t) \<Rightarrow>
        if tb_path t \<noteq> up_path upsert \<or> tb_generation t \<noteq> up_generation upsert
           \<or> tb_namespace_key_id t \<in> namespaces \<or> tb_blind_key t \<in> blind_keys
        then Inl FrameFactsMismatch
        else Inr (insert (tb_namespace_key_id t) namespaces, insert (tb_blind_key t) blind_keys)
      | (st, Upsert _) \<Rightarrow> Inr st)"

definition validate_completion_receipt :: "IndexRun \<Rightarrow> unit run_result" where
  "validate_completion_receipt run =
     (case run_completion_receipt run of None \<Rightarrow> Inr ()
      | Some receipt \<Rightarrow>
          bindE (map_err (\<lambda>_. FrameFactsMismatch) (CompletionReceipt_validate receipt)) (\<lambda>_.
          case run_upserts (run_mutations run) of
            [] \<Rightarrow> Inl FrameFactsMismatch
          | upsert # others \<Rightarrow>
              if others \<noteq> [] \<or> up_path upsert \<noteq> rc_key receipt
                 \<or> up_content_len upsert \<noteq> rc_content_len receipt \<or> up_etag upsert \<noteq> rc_etag receipt
                 \<or> up_checksum upsert \<noteq> rc_checksum receipt
              then Inl FrameFactsMismatch
              else bindE (foldE (receipt_tombstone_step upsert)
                     ({up_namespace_key_id upsert}, {up_blind_key upsert}) (run_mutations run)) (\<lambda>_. Inr ())))"

definition validate_container_ordinal :: "u32 \<Rightarrow> nat \<Rightarrow> unit run_result" where
  "validate_container_ordinal ordinal container_count =
     (if unat ordinal \<ge> container_count then Inl (InvalidContainerOrdinal ordinal) else Inr ())"

definition validate_empty_payload :: "IndexPayloadPointer \<Rightarrow> u64 \<Rightarrow> unit run_result" where
  "validate_empty_payload pointer content_len =
     (case pointer of
        EmptyPayload \<Rightarrow> if content_len = 0 then Inr () else Inl InvalidEmptyPayload
      | ExternalStandaloneStream _ \<Rightarrow> Inr ()
      | _ \<Rightarrow> if content_len \<noteq> 0 then Inr () else Inl InvalidEmptyPayload)"

definition derived_record_stored_len :: "u64 \<Rightarrow> u64 run_result" where
  "derived_record_stored_len content_len =
     (let segment_count = div_ceil content_len INDEX_PACK_SEGMENT_BYTES in
      bindE (ok_or InvalidPackRecordRange (checked_mul segment_count INDEX_PACK_SEGMENT_TAG_BYTES)) (\<lambda>tags.
      ok_or InvalidPackRecordRange (checked_add content_len tags)))"

definition validate_record_range :: "IndexPackRecordPointer \<Rightarrow> u64 \<Rightarrow> u64 \<Rightarrow> unit run_result" where
  "validate_record_range rec pack_stored_len content_len =
     bindE (derived_record_stored_len content_len) (\<lambda>stored_len.
     bindE (ok_or InvalidPackRecordRange (checked_add (ucast (physical_offset rec)) stored_len)) (\<lambda>end.
     if content_len = 0 \<or> end > pack_stored_len then Inl InvalidPackRecordRange else Inr ()))"

definition validate_payload_pointer ::
  "IndexPayloadPointer \<Rightarrow> u64 \<Rightarrow> IndexRunSelfPack option \<Rightarrow> IndexRunContainer list \<Rightarrow>
   IndexRunStandaloneStreamContainer list \<Rightarrow> unit run_result" where
  "validate_payload_pointer pointer content_len self_pack containers standalone =
     (case pointer of
        EmptyPayload \<Rightarrow> Inr ()
      | SelfPack rec \<Rightarrow>
          bindE (ok_or InvalidPackRecordCount (map_option sp_stored_len self_pack)) (\<lambda>n.
          validate_record_range rec n content_len)
      | ExternalPack ordinal rec \<Rightarrow>
          bindE (validate_container_ordinal ordinal (length containers)) (\<lambda>_.
          validate_record_range rec (ct_pack_section_len (containers ! unat ordinal)) content_len)
      | ExternalStandaloneStream ordinal \<Rightarrow>
          bindE (validate_container_ordinal ordinal (length standalone)) (\<lambda>_.
          if pl_plaintext_len (sc_payload_layout (standalone ! unat ordinal)) \<noteq> content_len
          then Inl InvalidStandaloneStreamContainer else Inr ()))"

type_synonym RecordFacts = "u32 \<times> u32 \<rightharpoonup> IndexPackRecordPointer \<times> u64"
type_synonym RecordSpan = "u32 \<times> u32 \<times> u64 \<times> u32"

definition record_source :: "IndexPayloadPointer \<Rightarrow> (u32 \<times> IndexPackRecordPointer) option run_result" where
  "record_source payload =
     (case payload of
        EmptyPayload \<Rightarrow> Inr None
      | ExternalStandaloneStream _ \<Rightarrow> Inr None
      | SelfPack rec \<Rightarrow> Inr (Some (0, rec))
      | ExternalPack ordinal rec \<Rightarrow>
          bindE (ok_or IntegerOverflow (checked_add ordinal 1)) (\<lambda>source. Inr (Some (source, rec))))"

definition record_facts_step ::
  "RecordFacts \<times> RecordSpan list \<Rightarrow> IndexMutation \<Rightarrow> (RecordFacts \<times> RecordSpan list) run_result" where
  "record_facts_step st mutation =
     (case (st, mutation) of
        (_, Tombstone _) \<Rightarrow> Inr st
      | ((facts, spans), Upsert upsert) \<Rightarrow>
          bindE (record_source (up_payload upsert)) (\<lambda>src.
          case src of None \<Rightarrow> Inr (facts, spans)
          | Some (source, rec) \<Rightarrow>
              let key = (source, record_ordinal rec); value = (rec, up_content_len upsert) in
              (case facts key of
                 Some previous \<Rightarrow> if previous \<noteq> value then Inl PackRecordFactsMismatch else Inr (facts, spans)
               | None \<Rightarrow>
                   bindE (derived_record_stored_len (up_content_len upsert)) (\<lambda>n.
                   bindE (ok_or InvalidPackRecordRange (checked_add (ucast (physical_offset rec)) n)) (\<lambda>end.
                   Inr (facts(key \<mapsto> value),
                        spans @ [(source, physical_offset rec, end, record_ordinal rec)]))))))"

fun adjacent_spans_ok :: "RecordSpan list \<Rightarrow> bool" where
  "adjacent_spans_ok (l # r # rest) =
     (case (l, r) of ((ls, _, le, lo), (rs, rstart, _, ro)) \<Rightarrow>
        \<not> (ls = rs \<and> lo \<noteq> ro \<and> ucast rstart < le) \<and> adjacent_spans_ok (r # rest))"
| "adjacent_spans_ok _ = True"

definition validate_repeated_record_facts :: "IndexMutation list \<Rightarrow> unit run_result" where
  "validate_repeated_record_facts ms =
     bindE (foldE record_facts_step (Map.empty, []) ms) (\<lambda>(_, spans).
     if adjacent_spans_ok (sort spans) then Inr () else Inl PackRecordFactsMismatch)"

definition validate_ordinal_use :: "(u32 \<Rightarrow> IndexRunError) \<Rightarrow> nat \<Rightarrow> u32 set \<Rightarrow> unit run_result" where
  "validate_ordinal_use err n used =
     foldE (\<lambda>_ index. if index \<ge> 2 ^ 32 then Inl IntegerOverflow
        else if of_nat index \<notin> used then Inl (err (of_nat index)) else Inr ()) () [0..<n]"

definition validate_container_use ::
  "nat \<Rightarrow> u32 set \<Rightarrow> bool \<Rightarrow> IndexRunSelfPack option \<Rightarrow> unit run_result" where
  "validate_container_use n used uses_self_pack self_pack =
     (if uses_self_pack \<noteq> (self_pack \<noteq> None) \<or> (case self_pack of Some p \<Rightarrow> sp_record_count p = 0 | None \<Rightarrow> False)
      then Inl InvalidPackRecordCount
      else validate_ordinal_use UnusedContainer n used)"

definition validate_standalone_stream_container_use :: "nat \<Rightarrow> u32 set \<Rightarrow> unit run_result" where
  "validate_standalone_stream_container_use n used = validate_ordinal_use UnusedStandaloneStreamContainer n used"

definition validate_namespace_key_use :: "nat \<Rightarrow> u32 set \<Rightarrow> unit run_result" where
  "validate_namespace_key_use n used = validate_ordinal_use UnusedNamespaceKey n used"

type_synonym PointerUse = "u32 set \<times> u32 set \<times> bool"

definition composite_parts_mismatch :: "IndexUpsert \<Rightarrow> bool" where
  "composite_parts_mismatch upsert =
     (case up_checksum upsert of None \<Rightarrow> False
      | Some c \<Rightarrow> (case ck_kind c of FullObject \<Rightarrow> False
                 | Composite parts \<Rightarrow> part_count (up_etag upsert) \<noteq> Some parts))"

definition validate_pointer_use :: "IndexRun \<Rightarrow> PointerUse \<Rightarrow> IndexPayloadPointer \<Rightarrow> PointerUse run_result" where
  "validate_pointer_use run st payload =
     (case st of (used, used_standalone, uses_self) \<Rightarrow>
      case payload of
        EmptyPayload \<Rightarrow> Inr st
      | SelfPack rec \<Rightarrow>
          bindE (ok_or InvalidPackRecordCount (map_option sp_record_count (run_self_pack run))) (\<lambda>count.
          if record_ordinal rec \<ge> count then Inl InvalidPackRecordCount
          else Inr (used, used_standalone, True))
      | ExternalPack ordinal rec \<Rightarrow>
          bindE (validate_container_ordinal ordinal (length (run_containers run))) (\<lambda>_.
          if record_ordinal rec \<ge> ct_pack_record_count (run_containers run ! unat ordinal)
          then Inl InvalidPackRecordCount
          else Inr (insert ordinal used, used_standalone, uses_self))
      | ExternalStandaloneStream ordinal \<Rightarrow>
          bindE (validate_container_ordinal ordinal (length (run_standalone run))) (\<lambda>_.
          Inr (used, insert ordinal used_standalone, uses_self)))"

definition validate_mutation ::
  "IndexRun \<Rightarrow> IndexRunLimits \<Rightarrow> PointerUse \<Rightarrow> nat \<times> IndexMutation \<Rightarrow> PointerUse run_result" where
  "validate_mutation run limits st im =
     (case im of (index, mutation) \<Rightarrow>
      if index \<ge> 2 ^ 32 then Inl IntegerOverflow else
      if mutation_ordinal mutation \<noteq> of_nat index
      then Inl (InvalidMutationOrdinal (of_nat index) (mutation_ordinal mutation)) else
      case mutation of
        Upsert upsert \<Rightarrow>
          bindE (validate_count ''namespace key id'' (length (up_namespace_key_id upsert)) (max_key_id_bytes limits)) (\<lambda>_.
          bindE (validate_count ''logical path'' (length (up_path upsert)) (max_path_bytes limits)) (\<lambda>_.
          bindE (validate_empty_payload (up_payload upsert) (up_content_len upsert)) (\<lambda>_.
          if composite_parts_mismatch upsert then Inl FrameFactsMismatch else
          bindE (validate_payload_pointer (up_payload upsert) (up_content_len upsert) (run_self_pack run)
            (run_containers run) (run_standalone run)) (\<lambda>_.
          validate_pointer_use run st (up_payload upsert)))))
      | Tombstone t \<Rightarrow>
          bindE (validate_count ''namespace key id'' (length (tb_namespace_key_id t)) (max_key_id_bytes limits)) (\<lambda>_.
          bindE (validate_count ''logical path'' (length (tb_path t)) (max_path_bytes limits)) (\<lambda>_.
          Inr st)))"

definition validate_mutations :: "IndexRun \<Rightarrow> IndexRunLimits \<Rightarrow> unit run_result" where
  "validate_mutations run limits =
     bindE (validate_completion_receipt run) (\<lambda>_.
     bindE (foldE (validate_mutation run limits) ({}, {}, False) (enumerate 0 (run_mutations run)))
       (\<lambda>(used, used_standalone, uses_self).
     bindE (validate_container_use (length (run_containers run)) used uses_self (run_self_pack run)) (\<lambda>_.
     bindE (validate_standalone_stream_container_use (length (run_standalone run)) used_standalone) (\<lambda>_.
     validate_repeated_record_facts (run_mutations run)))))"

end
