(* ===== verification/RunEncode.thy ===== *)
theory RunEncode
  imports RunModel
begin

text \<open>
  The encoder of index runs (\<open>rs3-index/src/run.rs\<close>): the records of the metadata table and of
  the namespace and listing projections, and their packing into bounded frames.
\<close>

definition INDEX_RUN_PLAINTEXT_DOMAIN :: bytes where
  "INDEX_RUN_PLAINTEXT_DOMAIN = lit ''rs3:index-run-frame-plaintext:v2'' @ [0x0a]"
definition INDEX_RUN_WIRE_VERSION :: u16 where "INDEX_RUN_WIRE_VERSION = 10"
definition STANDALONE_CONTAINER_MAX_BYTES :: nat where "STANDALONE_CONTAINER_MAX_BYTES = 512 * 1024"

datatype IndexRunFrameRole = Metadata | Namespace | Listing

datatype IndexRunSearchBound =
    NamespaceBound IndexBlindKey u32
  | ListingBound LogicalPath u32

record EncodedIndexRunFrame =
  ef_role :: IndexRunFrameRole
  ef_role_ordinal :: u32
  ef_record_count :: u32
  ef_first_bound :: "IndexRunSearchBound option"
  ef_last_bound :: "IndexRunSearchBound option"
  ef_bytes :: bytes

record PreparedRecord =
  pr_bytes :: bytes
  pr_bound :: "IndexRunSearchBound option"

section \<open>Records\<close>

definition encode_exact_container ::
  "Writer \<Rightarrow> BackendObjectId \<Rightarrow> BackendVersionId option \<Rightarrow> u64 \<Rightarrow> bytes \<Rightarrow> IndexRunKeyringRef \<Rightarrow>
   IndexRunLimits \<Rightarrow> Writer run_result" where
  "encode_exact_container w oid vid stored_len digest keyring limits =
     bindE (Writer_string w oid (max_object_id_bytes limits) ''object id'') (\<lambda>w.
     bindE (case vid of
              None \<Rightarrow> Writer_u8 w 0
            | Some v \<Rightarrow> bindE (Writer_u8 w 1) (\<lambda>w.
                Writer_string w v (max_version_id_bytes limits) ''version id'')) (\<lambda>w.
     bindE (Writer_u64 w stored_len) (\<lambda>w.
     bindE (Writer_bytes w digest) (\<lambda>w.
     bindE (Writer_string w (kr_object_id keyring) (max_object_id_bytes limits) ''keyring envelope object id'') (\<lambda>w.
     Writer_bytes w (kr_digest keyring))))))"

definition encode_payload_part :: "Writer \<Rightarrow> PayloadPart \<Rightarrow> Writer run_result" where
  "encode_payload_part w part =
     bindE (Writer_varint w (ucast (pp_part_number part))) (\<lambda>w.
     bindE (Writer_bytes w (pp_attempt_id part)) (\<lambda>w.
     Writer_varint w (pp_plaintext_len part)))"

definition encode_payload_layout :: "Writer \<Rightarrow> PayloadLayout \<Rightarrow> Writer run_result" where
  "encode_payload_layout w layout =
     bindE (Writer_varint w (pl_chunk_size layout)) (\<lambda>w.
     bindE (Writer_varint w (pl_plaintext_len layout)) (\<lambda>w.
     bindE (Writer_string w (pl_key_id layout) 255 ''content key id'') (\<lambda>w.
     bindE (Writer_bytes w (pl_carrier_id layout)) (\<lambda>w.
     bindE (usize_to_u64 (length (pl_parts layout))) (\<lambda>n.
     bindE (Writer_varint w n) (\<lambda>w.
     foldE encode_payload_part w (pl_parts layout)))))))"

definition encode_container_record :: "IndexRunLimits \<Rightarrow> IndexRunContainer \<Rightarrow> PreparedRecord run_result" where
  "encode_container_record limits c =
     bindE (Writer_u8 (Writer_new (max_record_bytes limits)) 0) (\<lambda>w.
     bindE (encode_exact_container w (ct_object_id c) (ct_version_id c) (ct_stored_len c)
       (ct_commit_body_digest c) (ct_keyring_envelope c) limits) (\<lambda>w.
     bindE (Writer_varint w (ucast (ct_pack_section_ordinal c))) (\<lambda>w.
     bindE (Writer_u64 w (ct_pack_section_offset c)) (\<lambda>w.
     bindE (Writer_u64 w (ct_pack_section_len c)) (\<lambda>w.
     bindE (Writer_bytes w (ct_pack_id c)) (\<lambda>w.
     bindE (Writer_bytes w (ct_attempt_id c)) (\<lambda>w.
     bindE (Writer_string w (ct_content_key_id c) (max_key_id_bytes limits) ''content key id'') (\<lambda>w.
     bindE (Writer_varint w (ucast (ct_pack_record_count c))) (\<lambda>w.
     Inr \<lparr>pr_bytes = Writer_finish w, pr_bound = None\<rparr>)))))))))"

definition encode_standalone_record ::
  "IndexRunLimits \<Rightarrow> IndexRunStandaloneStreamContainer \<Rightarrow> PreparedRecord run_result" where
  "encode_standalone_record limits c =
     bindE (Writer_u8 (Writer_new (min STANDALONE_CONTAINER_MAX_BYTES (max_frame_bytes limits))) 2) (\<lambda>w.
     bindE (encode_exact_container w (sc_object_id c) (sc_version_id c) (sc_stored_len c)
       (sc_object_digest c) (sc_keyring_envelope c) limits) (\<lambda>w.
     bindE (encode_payload_layout w (sc_payload_layout c)) (\<lambda>w.
     Inr \<lparr>pr_bytes = Writer_finish w, pr_bound = None\<rparr>)))"

definition encode_namespace_key_record :: "IndexRunLimits \<Rightarrow> KeyId \<Rightarrow> PreparedRecord run_result" where
  "encode_namespace_key_record limits k =
     bindE (Writer_u8 (Writer_new (max_record_bytes limits)) 3) (\<lambda>w.
     bindE (Writer_string w k (max_key_id_bytes limits) ''namespace key id'') (\<lambda>w.
     Inr \<lparr>pr_bytes = Writer_finish w, pr_bound = None\<rparr>))"

definition encode_receipt_record :: "IndexRunLimits \<Rightarrow> CompletionReceipt \<Rightarrow> PreparedRecord run_result" where
  "encode_receipt_record limits receipt =
     bindE (Writer_u8 (Writer_new (max_record_bytes limits)) 4) (\<lambda>w.
     bindE (map_err (\<lambda>_. FrameFactsMismatch) (CompletionReceipt_encode receipt)) (\<lambda>bs.
     bindE (Writer_bytes w bs) (\<lambda>w.
     Inr \<lparr>pr_bytes = Writer_finish w, pr_bound = None\<rparr>)))"

text \<open>A search of a strictly sorted slice finds the one position of the element.\<close>

definition binary_search :: "'a list \<Rightarrow> 'a \<Rightarrow> nat option" where
  "binary_search xs x = (if x \<in> set xs then Some (length (takeWhile (\<lambda>y. y \<noteq> x) xs)) else None)"

definition namespace_key_ordinal :: "KeyId list \<Rightarrow> KeyId \<Rightarrow> u64 run_result" where
  "namespace_key_ordinal ids k =
     bindE (ok_or (InvalidValue ''namespace key id'') (binary_search ids k)) usize_to_u64"

definition encode_pack_record_pointer :: "Writer \<Rightarrow> IndexPackRecordPointer \<Rightarrow> Writer run_result" where
  "encode_pack_record_pointer w pointer =
     bindE (Writer_varint w (ucast (record_ordinal pointer))) (\<lambda>w.
     Writer_varint w (ucast (physical_offset pointer)))"

definition encode_payload_pointer :: "Writer \<Rightarrow> IndexPayloadPointer \<Rightarrow> Writer run_result" where
  "encode_payload_pointer w pointer =
     (case pointer of
        EmptyPayload \<Rightarrow> Writer_u8 w 0
      | SelfPack rec \<Rightarrow> bindE (Writer_u8 w 1) (\<lambda>w. encode_pack_record_pointer w rec)
      | ExternalPack ordinal rec \<Rightarrow>
          bindE (Writer_u8 w 2) (\<lambda>w.
          bindE (Writer_varint w (ucast ordinal)) (\<lambda>w.
          encode_pack_record_pointer w rec))
      | ExternalStandaloneStream ordinal \<Rightarrow>
          bindE (Writer_u8 w 5) (\<lambda>w. Writer_varint w (ucast ordinal)))"

fun retention_mode_tag :: "RetentionMode \<Rightarrow> u8" where
  "retention_mode_tag NoRetention = 0"
| "retention_mode_tag Governance = 1"
| "retention_mode_tag Compliance = 2"

definition encode_retention :: "Writer \<Rightarrow> RetentionPolicy option \<Rightarrow> Writer run_result" where
  "encode_retention w retention =
     (case retention of
        None \<Rightarrow> Writer_u8 w 0
      | Some r \<Rightarrow>
          bindE (Writer_u8 w 1) (\<lambda>w.
          bindE (Writer_u8 w (retention_mode_tag (mode r))) (\<lambda>w.
          Writer_varint w (ucast (retain_days r)))))"

fun legal_hold_tag :: "LegalHoldStatus option \<Rightarrow> u8" where
  "legal_hold_tag None = 0"
| "legal_hold_tag (Some Off) = 1"
| "legal_hold_tag (Some On) = 2"

definition encode_legal_hold :: "Writer \<Rightarrow> LegalHoldStatus option \<Rightarrow> Writer run_result" where
  "encode_legal_hold w legal_hold = Writer_u8 w (legal_hold_tag legal_hold)"

definition encode_checksum :: "Writer \<Rightarrow> ObjectChecksum option \<Rightarrow> Writer run_result" where
  "encode_checksum w checksum =
     (case checksum of
        None \<Rightarrow> Writer_u8 w 0
      | Some c \<Rightarrow>
          let encoded = ObjectChecksum_encode c in
          bindE (validate_count ''checksum'' (length encoded) CHECKSUM_MAX_ENCODED_BYTES) (\<lambda>_.
          if length encoded \<ge> 256 then Inl IntegerOverflow else
          bindE (Writer_u8 w (of_nat (length encoded))) (\<lambda>w.
          Writer_bytes w encoded)))"

definition encode_namespace_body :: "KeyId list \<Rightarrow> Writer \<Rightarrow> IndexMutation \<Rightarrow> Writer run_result" where
  "encode_namespace_body ids w mutation =
     (case mutation of
        Upsert u \<Rightarrow>
          bindE (Writer_u8 w 0) (\<lambda>w.
          bindE (Writer_bytes w (up_blind_key u)) (\<lambda>w.
          bindE (namespace_key_ordinal ids (up_namespace_key_id u)) (\<lambda>k.
          bindE (Writer_varint w k) (\<lambda>w.
          bindE (Writer_varint w (up_generation u)) (\<lambda>w.
          bindE (encode_payload_pointer w (up_payload u)) (\<lambda>w.
          bindE (Writer_varint w (up_content_len u)) (\<lambda>w.
          bindE (Writer_i64 w (up_modified_at_ms u)) (\<lambda>w.
          bindE (encode_retention w (up_retention u)) (\<lambda>w.
          bindE (encode_legal_hold w (up_legal_hold u)) (\<lambda>w.
          bindE (encode_checksum w (up_checksum u)) (\<lambda>w.
          Writer_bytes w (ObjectEtag_encode (up_etag u)))))))))))))
      | Tombstone t \<Rightarrow>
          bindE (Writer_u8 w 1) (\<lambda>w.
          bindE (Writer_bytes w (tb_blind_key t)) (\<lambda>w.
          bindE (namespace_key_ordinal ids (tb_namespace_key_id t)) (\<lambda>k.
          bindE (Writer_varint w k) (\<lambda>w.
          Writer_varint w (tb_generation t))))))"

definition encode_namespace_record ::
  "IndexRunLimits \<Rightarrow> KeyId list \<Rightarrow> IndexMutation \<Rightarrow> PreparedRecord run_result" where
  "encode_namespace_record limits ids mutation =
     bindE (Writer_varint (Writer_new (max_record_bytes limits)) (ucast (mutation_ordinal mutation))) (\<lambda>w.
     bindE (encode_namespace_body ids w mutation) (\<lambda>w.
     Inr \<lparr>pr_bytes = Writer_finish w,
           pr_bound = Some (NamespaceBound (mutation_blind_key mutation) (mutation_ordinal mutation))\<rparr>))"

definition encode_listing_record :: "IndexRunLimits \<Rightarrow> IndexMutation \<Rightarrow> PreparedRecord run_result" where
  "encode_listing_record limits mutation =
     bindE (Writer_varint (Writer_new (max_record_bytes limits)) (ucast (mutation_ordinal mutation))) (\<lambda>w.
     bindE (case mutation of
              Upsert u \<Rightarrow>
                bindE (Writer_u8 w 0) (\<lambda>w.
                bindE (Writer_varint w (up_generation u)) (\<lambda>w.
                bindE (Writer_varint w (up_content_len u)) (\<lambda>w.
                Writer_i64 w (up_modified_at_ms u))))
            | Tombstone t \<Rightarrow>
                bindE (Writer_u8 w 1) (\<lambda>w. Writer_varint w (tb_generation t))) (\<lambda>w.
     Inr \<lparr>pr_bytes = Writer_finish w,
           pr_bound = Some (ListingBound (mutation_path mutation) (mutation_ordinal mutation))\<rparr>))"

section \<open>Frames\<close>

definition listing_path :: "PreparedRecord \<Rightarrow> bytes option" where
  "listing_path rec =
     (case pr_bound rec of Some (ListingBound path _) \<Rightarrow> Some path | _ \<Rightarrow> None)"

definition listing_path_or_default :: "PreparedRecord \<Rightarrow> bytes" where
  "listing_path_or_default rec = (case listing_path rec of Some p \<Rightarrow> p | None \<Rightarrow> [])"

definition shared_prefix_len :: "bytes \<Rightarrow> bytes \<Rightarrow> nat" where
  "shared_prefix_len previous current = length (takeWhile (\<lambda>(a, b). a = b) (zip previous current))"

definition encoded_len :: "PreparedRecord \<Rightarrow> bytes \<Rightarrow> nat run_result" where
  "encoded_len rec previous_path =
     (case listing_path rec of
        None \<Rightarrow> Inr (length (pr_bytes rec))
      | Some path \<Rightarrow>
          let prefix_len = shared_prefix_len previous_path path;
              suffix_len = length path - prefix_len
          in bindE (usize_to_u64 prefix_len) (\<lambda>p.
             ok_or IntegerOverflow
               (Option.bind (usize_add (length (pr_bytes rec)) (varint_len p)) (\<lambda>n.
                Option.bind (case usize_to_u64 suffix_len of Inl _ \<Rightarrow> None | Inr s \<Rightarrow> usize_add n (varint_len s)) (\<lambda>n.
                usize_add n suffix_len)))))"

definition PreparedRecord_encode :: "PreparedRecord \<Rightarrow> Writer \<Rightarrow> bytes \<Rightarrow> Writer run_result" where
  "PreparedRecord_encode rec w previous_path =
     bindE (case listing_path rec of
              None \<Rightarrow> Inr w
            | Some path \<Rightarrow>
                let prefix_len = shared_prefix_len previous_path path in
                bindE (usize_to_u64 prefix_len) (\<lambda>p.
                bindE (Writer_varint w p) (\<lambda>w.
                bindE (usize_to_u64 (length path - prefix_len)) (\<lambda>s.
                bindE (Writer_varint w s) (\<lambda>w.
                Writer_bytes w (drop prefix_len path)))))) (\<lambda>w.
     Writer_bytes w (pr_bytes rec))"

type_synonym IndexRunSelfPayload = "IndexRunSelfPack option"

fun frame_role_tag :: "IndexRunFrameRole \<Rightarrow> u8" where
  "frame_role_tag Metadata = 0"
| "frame_role_tag Namespace = 1"
| "frame_role_tag Listing = 2"

record FrameEncodingFacts =
  ff_role :: IndexRunFrameRole
  ff_role_ordinal :: u32
  ff_sequence :: Sequence
  ff_mutation_count :: u32
  ff_role_record_count :: nat
  ff_frame_record_count :: nat
  ff_self_payload :: IndexRunSelfPayload
  ff_namespace_key_count :: nat

definition encode_self_payload :: "Writer \<Rightarrow> IndexRunSelfPayload \<Rightarrow> Writer run_result" where
  "encode_self_payload w self =
     (case self of
        None \<Rightarrow> Writer_u8 w 0
      | Some pack \<Rightarrow>
          bindE (Writer_u8 w 1) (\<lambda>w.
          bindE (Writer_bytes w (sp_pack_id pack)) (\<lambda>w.
          bindE (Writer_bytes w (sp_attempt_id pack)) (\<lambda>w.
          bindE (Writer_string w (sp_content_key_id pack) (2 ^ 64 - 1) ''content key id'') (\<lambda>w.
          bindE (Writer_u64 w (sp_stored_len pack)) (\<lambda>w.
          Writer_varint w (ucast (sp_record_count pack))))))))"

definition encode_frame_header :: "Writer \<Rightarrow> FrameEncodingFacts \<Rightarrow> Writer run_result" where
  "encode_frame_header w facts =
     bindE (Writer_bytes w INDEX_RUN_PLAINTEXT_DOMAIN) (\<lambda>w.
     bindE (Writer_u16 w INDEX_RUN_WIRE_VERSION) (\<lambda>w.
     bindE (Writer_u8 w (frame_role_tag (ff_role facts))) (\<lambda>w.
     bindE (Writer_varint w (ucast (ff_role_ordinal facts))) (\<lambda>w.
     bindE (Writer_u64 w (ff_sequence facts)) (\<lambda>w.
     bindE (Writer_varint w (ucast (ff_mutation_count facts))) (\<lambda>w.
     bindE (usize_to_u64 (ff_role_record_count facts)) (\<lambda>n.
     bindE (Writer_varint w n) (\<lambda>w.
     bindE (usize_to_u64 (ff_frame_record_count facts)) (\<lambda>n.
     bindE (Writer_varint w n) (\<lambda>w.
     if ff_role facts = Metadata then
       bindE (encode_self_payload w (ff_self_payload facts)) (\<lambda>w.
       bindE (usize_to_u64 (ff_namespace_key_count facts)) (\<lambda>n.
       Writer_varint w n))
     else Inr w))))))))))"

definition frame_header_len ::
  "IndexRunFrameRole \<Rightarrow> u32 \<Rightarrow> u32 \<Rightarrow> nat \<Rightarrow> nat \<Rightarrow> IndexRunSelfPayload \<Rightarrow> nat \<Rightarrow> nat run_result" where
  "frame_header_len role role_ordinal mutation_count role_record_count frame_record_count self ns_count =
     (let base = length INDEX_RUN_PLAINTEXT_DOMAIN + 2 + 1 + varint_len (ucast role_ordinal) + 8
            + varint_len (ucast mutation_count)
      in bindE (usize_to_u64 role_record_count) (\<lambda>rc.
         bindE (ok_or IntegerOverflow
           (Option.bind (usize_add base (varint_len rc)) (\<lambda>v.
            case usize_to_u64 frame_record_count of Inl _ \<Rightarrow> None | Inr fc \<Rightarrow> usize_add v (varint_len fc)))) (\<lambda>len.
         if role \<noteq> Metadata then Inr len else
         bindE (ok_or IntegerOverflow (usize_add len 1)) (\<lambda>len.
         bindE (case self of
                  None \<Rightarrow> Inr len
                | Some pack \<Rightarrow> ok_or IntegerOverflow
                    (Option.bind (usize_add len 64) (\<lambda>v.
                     Option.bind (case usize_to_u64 (length (sp_content_key_id pack)) of
                                    Inl _ \<Rightarrow> None | Inr k \<Rightarrow> usize_add v (varint_len k)) (\<lambda>v.
                     Option.bind (usize_add v (length (sp_content_key_id pack))) (\<lambda>v.
                     Option.bind (usize_add v 8) (\<lambda>v.
                     usize_add v (varint_len (ucast (sp_record_count pack))))))))) (\<lambda>len.
         bindE (usize_to_u64 ns_count) (\<lambda>n.
         ok_or IntegerOverflow (usize_add len (varint_len n))))))))"

definition record_limit :: "IndexRunFrameRole \<Rightarrow> u8 option \<Rightarrow> IndexRunLimits \<Rightarrow> nat" where
  "record_limit role tag limits =
     (if role = Metadata \<and> tag = Some 2 then min STANDALONE_CONTAINER_MAX_BYTES (max_frame_bytes limits)
      else max_record_bytes limits)"

definition first_byte :: "bytes \<Rightarrow> u8 option" where
  "first_byte bs = (case bs of [] \<Rightarrow> None | b # _ \<Rightarrow> Some b)"

text \<open>
  The inner loop of \<open>pack_prepared_frames\<close>: how many of the records that remain fit into the
  next frame, where \<open>hdr\<close> gives the header length for a number of records.
\<close>

fun pack_scan ::
  "(nat \<Rightarrow> nat run_result) \<Rightarrow> IndexRunLimits \<Rightarrow> PreparedRecord list \<Rightarrow> nat \<Rightarrow> nat \<Rightarrow> bytes \<Rightarrow> nat run_result" where
  "pack_scan hdr limits [] count payload_len previous_path = Inr count"
| "pack_scan hdr limits (rec # rest) count payload_len previous_path =
     bindE (encoded_len rec previous_path) (\<lambda>record_len.
     bindE (usize_to_u64 record_len) (\<lambda>v.
     bindE (ok_or IntegerOverflow (usize_add (varint_len v) record_len)) (\<lambda>framed_len.
     bindE (ok_or IntegerOverflow (usize_add payload_len framed_len)) (\<lambda>candidate_payload.
     bindE (hdr (count + 1)) (\<lambda>h.
     bindE (ok_or IntegerOverflow (usize_add h candidate_payload)) (\<lambda>total.
     if total > max_frame_bytes limits then Inr count
     else pack_scan hdr limits rest (count + 1) candidate_payload (listing_path_or_default rec)))))))"

definition encode_frame_record ::
  "IndexRunFrameRole \<Rightarrow> IndexRunLimits \<Rightarrow> Writer \<times> bytes \<Rightarrow> PreparedRecord \<Rightarrow> (Writer \<times> bytes) run_result" where
  "encode_frame_record role limits st rec =
     (case st of (w, previous_path) \<Rightarrow>
      bindE (PreparedRecord_encode rec (Writer_new (record_limit role (first_byte (pr_bytes rec)) limits))
        previous_path) (\<lambda>encoded.
      bindE (Writer_record w encoded) (\<lambda>w.
      Inr (w, listing_path_or_default rec))))"

definition encode_frame ::
  "FrameEncodingFacts \<Rightarrow> IndexRunLimits \<Rightarrow> PreparedRecord list \<Rightarrow> EncodedIndexRunFrame run_result" where
  "encode_frame facts limits frame_records =
     bindE (encode_frame_header (Writer_new (max_frame_bytes limits)) facts) (\<lambda>w.
     bindE (foldE (encode_frame_record (ff_role facts) limits) (w, []) frame_records) (\<lambda>(w, _).
     if length frame_records \<ge> 2 ^ 32 then Inl IntegerOverflow else
     Inr \<lparr>ef_role = ff_role facts, ef_role_ordinal = ff_role_ordinal facts,
           ef_record_count = of_nat (length frame_records),
           ef_first_bound = (if frame_records = [] then None else pr_bound (hd frame_records)),
           ef_last_bound = (if frame_records = [] then None else pr_bound (last frame_records)),
           ef_bytes = Writer_finish w\<rparr>))"

lemma pack_scan_bounds:
  "pack_scan hdr limits recs count p prev = Inr n \<Longrightarrow> count \<le> n \<and> n \<le> count + length recs"
  by (induction recs arbitrary: count p prev) (fastforce simp: bindE_eq_Inr split: if_splits)+

text \<open>
  The outer loop, on the records that remain. The table of all records is empty exactly when
  none remain at the start of a turn, so its emptiness is tested on the remaining ones.
\<close>

function pack_loop ::
  "FrameEncodingFacts \<Rightarrow> IndexRunLimits \<Rightarrow> nat \<Rightarrow> PreparedRecord list \<Rightarrow> EncodedIndexRunFrame list run_result" where
  "pack_loop facts limits done remaining =
     (if done \<ge> 2 ^ 32 then Inl IntegerOverflow else
      bindE (pack_scan (\<lambda>n. frame_header_len (ff_role facts) (of_nat done) (ff_mutation_count facts)
          (ff_role_record_count facts) n (ff_self_payload facts) (ff_namespace_key_count facts))
        limits remaining 0 0 []) (\<lambda>n.
      if n = 0 \<and> remaining \<noteq> []
      then Inl (LimitExceeded ''frame bytes'' (min (max_frame_bytes limits + 1) (2 ^ 64 - 1)) (max_frame_bytes limits))
      else
        bindE (encode_frame (facts\<lparr>ff_role_ordinal := of_nat done, ff_frame_record_count := n\<rparr>)
          limits (take n remaining)) (\<lambda>frame.
        if n = length remaining then Inr [frame]
        else bindE (pack_loop facts limits (done + 1) (drop n remaining)) (\<lambda>frames. Inr (frame # frames)))))"
  by pat_completeness auto
termination
  by (relation "measure (\<lambda>(_, _, _, remaining). length remaining)") (auto dest!: pack_scan_bounds)

declare pack_loop.simps [simp del]

definition pack_prepared_frames ::
  "IndexRunFrameRole \<Rightarrow> Sequence \<Rightarrow> u32 \<Rightarrow> IndexRunSelfPayload \<Rightarrow> nat \<Rightarrow> PreparedRecord list \<Rightarrow>
   IndexRunLimits \<Rightarrow> EncodedIndexRunFrame list run_result" where
  "pack_prepared_frames role seq mutation_count self ns_count records limits =
     (if records = [] \<and> role \<noteq> Metadata then Inr []
      else pack_loop \<lparr>ff_role = role, ff_role_ordinal = 0, ff_sequence = seq,
             ff_mutation_count = mutation_count, ff_role_record_count = length records,
             ff_frame_record_count = 0, ff_self_payload = self, ff_namespace_key_count = ns_count\<rparr>
           limits 0 records)"

section \<open>The run\<close>

definition run_namespace_key_ids :: "IndexRun \<Rightarrow> KeyId list" where
  "run_namespace_key_ids run = sorted_list_of_set (set (map mutation_namespace_key_id (run_mutations run)))"

definition encode_validate :: "IndexRun \<Rightarrow> IndexRunLimits \<Rightarrow> unit run_result" where
  "encode_validate run limits =
     bindE (ok_or IntegerOverflow (usize_add (length (run_containers run)) (length (run_standalone run)))) (\<lambda>container_count.
     bindE (validate_count ''container count'' container_count (max_containers limits)) (\<lambda>_.
     bindE (validate_count ''mutation count'' (length (run_mutations run)) (max_mutations limits)) (\<lambda>_.
     bindE (validate_self_pack (run_self_pack run) limits) (\<lambda>_.
     bindE (validate_containers (run_containers run) limits) (\<lambda>_.
     bindE (validate_standalone_stream_containers (run_standalone run) limits) (\<lambda>_.
     bindE (validate_distinct_container_objects (run_containers run) (run_standalone run)) (\<lambda>_.
     bindE (validate_mutations run limits) (\<lambda>_.
     bindE (validate_count ''namespace key count'' (length (run_namespace_key_ids run)) (max_mutations limits)) (\<lambda>_.
     bindE (ok_or IntegerOverflow (Option.bind (usize_add container_count (length (run_namespace_key_ids run)))
       (\<lambda>n. usize_add n (if run_completion_receipt run \<noteq> None then 1 else 0)))) (\<lambda>_.
     Inr ()))))))))))"

definition encode_metadata_records :: "IndexRun \<Rightarrow> IndexRunLimits \<Rightarrow> PreparedRecord list run_result" where
  "encode_metadata_records run limits =
     bindE (collectE (encode_container_record limits) (run_containers run)) (\<lambda>packs.
     bindE (collectE (encode_standalone_record limits) (run_standalone run)) (\<lambda>streams.
     bindE (collectE (encode_namespace_key_record limits) (run_namespace_key_ids run)) (\<lambda>keys.
     bindE (case run_completion_receipt run of None \<Rightarrow> Inr []
            | Some receipt \<Rightarrow> bindE (encode_receipt_record limits receipt) (\<lambda>r. Inr [r])) (\<lambda>receipt.
     Inr (packs @ streams @ keys @ receipt)))))"

definition namespace_order :: "IndexMutation list \<Rightarrow> IndexMutation list" where
  "namespace_order ms = sort_key (\<lambda>m. (mutation_blind_key m, mutation_ordinal m)) ms"

definition listing_order :: "IndexMutation list \<Rightarrow> IndexMutation list" where
  "listing_order ms = sort_key (\<lambda>m. (mutation_path m, mutation_ordinal m)) ms"

definition frames_total :: "nat list \<Rightarrow> nat run_result" where
  "frames_total lens = foldE (\<lambda>total n. ok_or IntegerOverflow (usize_add total n)) 0 lens"

definition encode_index_run_frames :: "IndexRun \<Rightarrow> IndexRunLimits \<Rightarrow> EncodedIndexRunFrame list run_result" where
  "encode_index_run_frames run limits =
     bindE (encode_validate run limits) (\<lambda>_.
     let ids = run_namespace_key_ids run in
     bindE (encode_metadata_records run limits) (\<lambda>metadata.
     bindE (collectE (encode_namespace_record limits ids) (namespace_order (run_mutations run))) (\<lambda>namespace.
     bindE (collectE (encode_listing_record limits) (listing_order (run_mutations run))) (\<lambda>listing.
     if length (run_mutations run) \<ge> 2 ^ 32 then Inl IntegerOverflow else
     let mutation_count = of_nat (length (run_mutations run)) in
     bindE (pack_prepared_frames Metadata (run_sequence run) mutation_count (run_self_pack run)
       (length ids) metadata limits) (\<lambda>fm.
     bindE (pack_prepared_frames Namespace (run_sequence run) mutation_count (run_self_pack run)
       (length ids) namespace limits) (\<lambda>fn.
     bindE (pack_prepared_frames Listing (run_sequence run) mutation_count (run_self_pack run)
       (length ids) listing limits) (\<lambda>fl.
     bindE (frames_total (map (\<lambda>f. length (ef_bytes f)) (fm @ fn @ fl))) (\<lambda>total.
     bindE (validate_count ''total frame bytes'' total (max_total_bytes limits)) (\<lambda>_.
     Inr (fm @ fn @ fl))))))))))"

definition encode_bundle_frame :: "IndexRunLimits \<Rightarrow> Writer \<Rightarrow> EncodedIndexRunFrame \<Rightarrow> Writer run_result" where
  "encode_bundle_frame limits w frame =
     bindE (Writer_bytes (Writer_new (max_frame_bytes limits)) (ef_bytes frame)) (\<lambda>rec. Writer_record w rec)"

definition encode_index_run :: "IndexRun \<Rightarrow> IndexRunLimits \<Rightarrow> bytes run_result" where
  "encode_index_run run limits =
     bindE (encode_index_run_frames run limits) (\<lambda>frames.
     bindE (usize_to_u64 (length frames)) (\<lambda>n.
     bindE (Writer_varint (Writer_new (max_total_bytes limits)) n) (\<lambda>w.
     bindE (foldE (encode_bundle_frame limits) w frames) (\<lambda>w.
     Inr (Writer_finish w)))))"

end
