(* ===== verification/RunDecode.thy ===== *)
theory RunDecode
  imports RunEncode
begin

text \<open>
  The decoder of index runs (\<open>rs3-index/src/run.rs\<close>): frame headers, the records of each role,
  the pairing of the two projections and the checks on the assembled run.
\<close>

record DecodedFrameHeader =
  dh_role :: IndexRunFrameRole
  dh_role_ordinal :: u32
  dh_sequence :: Sequence
  dh_mutation_count :: u32
  dh_role_record_count :: nat
  dh_frame_record_count :: nat
  dh_self_pack :: "IndexRunSelfPack option option"
  dh_namespace_key_count :: "nat option"

definition decode_attempt_id :: "RunReader \<Rightarrow> (PayloadAttemptId \<times> RunReader) run_result" where
  "decode_attempt_id r = rd_bytes r 32"

definition decode_frame_role :: "u8 \<Rightarrow> IndexRunFrameRole run_result" where
  "decode_frame_role tag =
     (if tag = 0 then Inr Metadata else if tag = 1 then Inr Namespace else if tag = 2 then Inr Listing
      else Inl (InvalidTag ''frame role'' tag))"

definition decode_self_payload ::
  "IndexRunLimits \<Rightarrow> RunReader \<Rightarrow> (IndexRunSelfPack option \<times> RunReader) run_result" where
  "decode_self_payload limits r =
     bindE (rd_u8 r) (\<lambda>(tag, r).
     if tag = 0 then Inr (None, r)
     else if tag = 1 then
       bindE (rd_bytes r 32) (\<lambda>(pack_id, r).
       bindE (decode_attempt_id r) (\<lambda>(attempt_id, r).
       bindE (rd_typed_string ''content key id'' (max_key_id_bytes limits) KeyId_new r) (\<lambda>(key_id, r).
       bindE (rd_u64 r) (\<lambda>(stored_len, r).
       bindE (rd_u32_varint r) (\<lambda>(record_count, r).
       let pack = \<lparr>sp_pack_id = pack_id, sp_attempt_id = attempt_id, sp_content_key_id = key_id,
             sp_stored_len = stored_len, sp_record_count = record_count\<rparr>
       in bindE (validate_self_pack (Some pack) limits) (\<lambda>_. Inr (Some pack, r)))))))
     else Inl (InvalidTag ''self payload option'' tag))"

definition decode_frame_header ::
  "bytes \<Rightarrow> IndexRunLimits \<Rightarrow> (DecodedFrameHeader \<times> RunReader) run_result" where
  "decode_frame_header encoded limits =
     bindE (rd_bytes encoded (length INDEX_RUN_PLAINTEXT_DOMAIN)) (\<lambda>(domain, r).
     if domain \<noteq> INDEX_RUN_PLAINTEXT_DOMAIN then Inl InvalidDomain else
     bindE (rd_u16 r) (\<lambda>(version, r).
     if version \<noteq> INDEX_RUN_WIRE_VERSION then Inl (UnsupportedVersion version) else
     bindE (rd_u8 r) (\<lambda>(tag, r).
     bindE (decode_frame_role tag) (\<lambda>role.
     bindE (rd_u32_varint r) (\<lambda>(role_ordinal, r).
     bindE (rd_u64 r) (\<lambda>(seq, r).
     bindE (rd_u32_varint r) (\<lambda>(mutation_count, r).
     bindE (if role = Metadata
            then ok_or IntegerOverflow (Option.bind (usize_add (max_containers limits) (max_mutations limits))
                   (\<lambda>n. usize_add n 1))
            else Inr (max_mutations limits)) (\<lambda>role_record_limit.
     bindE (rd_bounded_count ''role record count'' role_record_limit r) (\<lambda>(role_record_count, r).
     bindE (rd_bounded_count ''frame record count'' role_record_limit r) (\<lambda>(frame_record_count, r).
     bindE (if role = Metadata
            then bindE (decode_self_payload limits r) (\<lambda>(self_pack, r).
                 bindE (rd_bounded_count ''namespace key count'' (max_mutations limits) r) (\<lambda>(n, r).
                 Inr ((Some self_pack, Some n), r)))
            else Inr ((None, None), r)) (\<lambda>((self_pack, ns_count), r).
     Inr (\<lparr>dh_role = role, dh_role_ordinal = role_ordinal, dh_sequence = seq,
            dh_mutation_count = mutation_count, dh_role_record_count = role_record_count,
            dh_frame_record_count = frame_record_count, dh_self_pack = self_pack,
            dh_namespace_key_count = ns_count\<rparr>, r))))))))))))"

section \<open>Containers\<close>

record DecodedExactContainer =
  dx_object_id :: BackendObjectId
  dx_version_id :: "BackendVersionId option"
  dx_stored_len :: u64
  dx_object_digest :: bytes
  dx_keyring_envelope :: IndexRunKeyringRef

definition decode_version_option ::
  "IndexRunLimits \<Rightarrow> RunReader \<Rightarrow> (BackendVersionId option \<times> RunReader) run_result" where
  "decode_version_option limits r =
     bindE (rd_u8 r) (\<lambda>(tag, r).
     if tag = 0 then Inr (None, r)
     else if tag = 1 then
       bindE (rd_typed_string ''version id'' (max_version_id_bytes limits) BackendVersionId_new r) (\<lambda>(v, r).
       Inr (Some v, r))
     else Inl (InvalidTag ''version option'' tag))"

definition decode_exact_container ::
  "RunReader \<Rightarrow> IndexRunLimits \<Rightarrow> (DecodedExactContainer \<times> RunReader) run_result" where
  "decode_exact_container r limits =
     bindE (rd_typed_string ''object id'' (max_object_id_bytes limits) BackendObjectId_new r) (\<lambda>(oid, r).
     bindE (decode_version_option limits r) (\<lambda>(vid, r).
     bindE (rd_u64 r) (\<lambda>(stored_len, r).
     bindE (rd_bytes r 32) (\<lambda>(digest, r).
     bindE (rd_typed_string ''keyring envelope object id'' (max_object_id_bytes limits) BackendObjectId_new r) (\<lambda>(koid, r).
     bindE (rd_bytes r 32) (\<lambda>(kdigest, r).
     Inr (\<lparr>dx_object_id = oid, dx_version_id = vid, dx_stored_len = stored_len, dx_object_digest = digest,
            dx_keyring_envelope = \<lparr>kr_object_id = koid, kr_digest = kdigest\<rparr>\<rparr>, r)))))))"

definition decode_container :: "RunReader \<Rightarrow> IndexRunLimits \<Rightarrow> (IndexRunContainer \<times> RunReader) run_result" where
  "decode_container r limits =
     bindE (decode_exact_container r limits) (\<lambda>(exact, r).
     bindE (rd_u32_varint r) (\<lambda>(section_ordinal, r).
     bindE (rd_u64 r) (\<lambda>(section_offset, r).
     bindE (rd_u64 r) (\<lambda>(section_len, r).
     bindE (rd_bytes r 32) (\<lambda>(pack_id, r).
     bindE (decode_attempt_id r) (\<lambda>(attempt_id, r).
     bindE (rd_typed_string ''content key id'' (max_key_id_bytes limits) KeyId_new r) (\<lambda>(key_id, r).
     bindE (rd_u32_varint r) (\<lambda>(record_count, r).
     let c = \<lparr>ct_object_id = dx_object_id exact, ct_version_id = dx_version_id exact,
           ct_stored_len = dx_stored_len exact, ct_commit_body_digest = dx_object_digest exact,
           ct_keyring_envelope = dx_keyring_envelope exact, ct_pack_section_offset = section_offset,
           ct_pack_section_ordinal = section_ordinal, ct_pack_section_len = section_len,
           ct_pack_id = pack_id, ct_attempt_id = attempt_id, ct_content_key_id = key_id,
           ct_pack_record_count = record_count\<rparr>
     in bindE (validate_container_range c) (\<lambda>_. Inr (c, r))))))))))"

definition decode_payload_part :: "RunReader \<Rightarrow> (PayloadPart \<times> RunReader) run_result" where
  "decode_payload_part r =
     bindE (rd_u32_varint r) (\<lambda>(part_number, r).
     bindE (decode_attempt_id r) (\<lambda>(attempt_id, r).
     bindE (rd_varint r) (\<lambda>(plaintext_len, r).
     Inr (\<lparr>pp_part_number = part_number, pp_attempt_id = attempt_id, pp_plaintext_len = plaintext_len\<rparr>, r))))"

definition decode_payload_layout :: "RunReader \<Rightarrow> IndexRunLimits \<Rightarrow> (PayloadLayout \<times> RunReader) run_result" where
  "decode_payload_layout r limits =
     bindE (rd_varint r) (\<lambda>(chunk_size, r).
     bindE (rd_varint r) (\<lambda>(plaintext_len, r).
     bindE (rd_typed_string ''content key id'' (max_key_id_bytes limits) KeyId_new r) (\<lambda>(key_id, r).
     bindE (rd_bytes r 32) (\<lambda>(carrier_id, r).
     bindE (rd_bounded_count ''payload part count'' MAX_PAYLOAD_PARTS r) (\<lambda>(count, r).
     if count > length r div 34 then Inl InvalidStandaloneStreamContainer else
     bindE (repeatE decode_payload_part count r) (\<lambda>(parts, r).
     let layout = \<lparr>pl_chunk_size = chunk_size, pl_plaintext_len = plaintext_len, pl_key_id = key_id,
           pl_carrier_id = carrier_id, pl_parts = parts\<rparr>
     in bindE (validate_payload_layout layout limits) (\<lambda>_. Inr (layout, r))))))))"

definition decode_standalone_stream_container ::
  "RunReader \<Rightarrow> IndexRunLimits \<Rightarrow> (IndexRunStandaloneStreamContainer \<times> RunReader) run_result" where
  "decode_standalone_stream_container r limits =
     bindE (decode_exact_container r limits) (\<lambda>(exact, r).
     bindE (decode_payload_layout r limits) (\<lambda>(layout, r).
     let c = \<lparr>sc_object_id = dx_object_id exact, sc_version_id = dx_version_id exact,
           sc_stored_len = dx_stored_len exact, sc_object_digest = dx_object_digest exact,
           sc_keyring_envelope = dx_keyring_envelope exact, sc_payload_layout = layout\<rparr>
     in bindE (validate_standalone_stream_container c limits) (\<lambda>_. Inr (c, r))))"

section \<open>Projections\<close>

datatype NamespaceProjection =
    NsUpsert (ns_blind_key: IndexBlindKey) (ns_key_id: KeyId) (ns_generation: Sequence) IndexPayloadPointer
      u64 i64 "RetentionPolicy option" "LegalHoldStatus option" "ObjectChecksum option" ObjectEtag
  | NsTombstone (ns_blind_key: IndexBlindKey) (ns_key_id: KeyId) (ns_generation: Sequence)

datatype ListingProjection =
    LsUpsert (ls_path: LogicalPath) (ls_generation: Sequence) u64 i64
  | LsTombstone (ls_path: LogicalPath) (ls_generation: Sequence)

definition decode_pack_record_pointer :: "RunReader \<Rightarrow> (IndexPackRecordPointer \<times> RunReader) run_result" where
  "decode_pack_record_pointer r =
     bindE (rd_u32_varint r) (\<lambda>(ordinal, r).
     bindE (rd_u32_varint r) (\<lambda>(offset, r).
     Inr (\<lparr>record_ordinal = ordinal, physical_offset = offset\<rparr>, r)))"

definition decode_payload_pointer ::
  "RunReader \<Rightarrow> IndexRunContainer list \<Rightarrow> IndexRunSelfPack option \<Rightarrow> IndexRunStandaloneStreamContainer list \<Rightarrow>
   (IndexPayloadPointer \<times> RunReader) run_result" where
  "decode_payload_pointer r containers self_pack standalone =
     bindE (rd_u8 r) (\<lambda>(tag, r).
     if tag = 0 then Inr (EmptyPayload, r)
     else if tag = 1 then
       bindE (decode_pack_record_pointer r) (\<lambda>(rec, r).
       if (case self_pack of None \<Rightarrow> True | Some p \<Rightarrow> record_ordinal rec \<ge> sp_record_count p)
       then Inl InvalidPackRecordCount else Inr (SelfPack rec, r))
     else if tag = 2 then
       bindE (rd_u32_varint r) (\<lambda>(ordinal, r).
       bindE (validate_container_ordinal ordinal (length containers)) (\<lambda>_.
       bindE (decode_pack_record_pointer r) (\<lambda>(rec, r).
       if record_ordinal rec \<ge> ct_pack_record_count (containers ! unat ordinal)
       then Inl InvalidPackRecordCount else Inr (ExternalPack ordinal rec, r))))
     else if tag = 5 then
       bindE (rd_u32_varint r) (\<lambda>(ordinal, r).
       bindE (validate_container_ordinal ordinal (length standalone)) (\<lambda>_.
       Inr (ExternalStandaloneStream ordinal, r)))
     else Inl (InvalidTag ''payload pointer'' tag))"

definition decode_retention_mode :: "u8 \<Rightarrow> RetentionMode run_result" where
  "decode_retention_mode v =
     (if v = 0 then Inr NoRetention else if v = 1 then Inr Governance else if v = 2 then Inr Compliance
      else Inl (InvalidTag ''retention mode'' v))"

definition decode_retention :: "RunReader \<Rightarrow> (RetentionPolicy option \<times> RunReader) run_result" where
  "decode_retention r =
     bindE (rd_u8 r) (\<lambda>(tag, r).
     if tag = 0 then Inr (None, r)
     else if tag = 1 then
       bindE (rd_u8 r) (\<lambda>(v, r).
       bindE (decode_retention_mode v) (\<lambda>m.
       bindE (rd_u32_varint r) (\<lambda>(days, r).
       Inr (Some (RetentionPolicy_new m days), r))))
     else Inl (InvalidTag ''retention option'' tag))"

definition decode_legal_hold :: "RunReader \<Rightarrow> (LegalHoldStatus option \<times> RunReader) run_result" where
  "decode_legal_hold r =
     bindE (rd_u8 r) (\<lambda>(v, r).
     if v = 0 then Inr (None, r) else if v = 1 then Inr (Some Off, r) else if v = 2 then Inr (Some On, r)
     else Inl (InvalidTag ''legal hold'' v))"

definition decode_checksum :: "RunReader \<Rightarrow> (ObjectChecksum option \<times> RunReader) run_result" where
  "decode_checksum r =
     bindE (rd_u8 r) (\<lambda>(n, r).
     if unat n = 0 then Inr (None, r) else
     bindE (validate_count ''checksum'' (unat n) CHECKSUM_MAX_ENCODED_BYTES) (\<lambda>_.
     bindE (rd_bytes r (unat n)) (\<lambda>(bs, r).
     bindE (map_err (\<lambda>_. InvalidValue ''checksum'') (ObjectChecksum_decode bs)) (\<lambda>c.
     Inr (Some c, r)))))"

definition decode_etag :: "RunReader \<Rightarrow> (ObjectEtag \<times> RunReader) run_result" where
  "decode_etag r =
     bindE (rd_bytes r ETAG_ENCODED_BYTES) (\<lambda>(bs, r).
     bindE (map_err (\<lambda>_. InvalidValue ''etag'') (ObjectEtag_decode bs)) (\<lambda>e. Inr (e, r)))"

definition decode_blind_key :: "RunReader \<Rightarrow> (IndexBlindKey \<times> RunReader) run_result" where
  "decode_blind_key r = rd_bytes r 32"

definition decode_namespace_key_reference ::
  "RunReader \<Rightarrow> KeyId list \<Rightarrow> ((u32 \<times> KeyId) \<times> RunReader) run_result" where
  "decode_namespace_key_reference r ids =
     bindE (rd_u32_varint r) (\<lambda>(ordinal, r).
     if unat ordinal \<ge> length ids then Inl (InvalidNamespaceKeyOrdinal ordinal)
     else Inr ((ordinal, ids ! unat ordinal), r))"

definition decode_namespace_projection ::
  "RunReader \<Rightarrow> KeyId list \<Rightarrow> IndexRunContainer list \<Rightarrow> IndexRunSelfPack option \<Rightarrow>
   IndexRunStandaloneStreamContainer list \<Rightarrow> ((NamespaceProjection \<times> u32) \<times> RunReader) run_result" where
  "decode_namespace_projection r ids containers self_pack standalone =
     bindE (rd_u8 r) (\<lambda>(tag, r).
     if tag = 0 then
       bindE (decode_blind_key r) (\<lambda>(blind_key, r).
       bindE (decode_namespace_key_reference r ids) (\<lambda>((key_ordinal, key_id), r).
       bindE (rd_varint r) (\<lambda>(generation, r).
       bindE (decode_payload_pointer r containers self_pack standalone) (\<lambda>(payload, r).
       bindE (rd_varint r) (\<lambda>(content_len, r).
       bindE (validate_empty_payload payload content_len) (\<lambda>_.
       bindE (validate_payload_pointer payload content_len self_pack containers standalone) (\<lambda>_.
       bindE (rd_i64 r) (\<lambda>(modified_at_ms, r).
       bindE (decode_retention r) (\<lambda>(retention, r).
       bindE (decode_legal_hold r) (\<lambda>(legal_hold, r).
       bindE (decode_checksum r) (\<lambda>(checksum, r).
       bindE (decode_etag r) (\<lambda>(etag, r).
       Inr ((NsUpsert blind_key key_id generation payload content_len modified_at_ms retention legal_hold
              checksum etag, key_ordinal), r)))))))))))))
     else if tag = 1 then
       bindE (decode_blind_key r) (\<lambda>(blind_key, r).
       bindE (decode_namespace_key_reference r ids) (\<lambda>((key_ordinal, key_id), r).
       bindE (rd_varint r) (\<lambda>(generation, r).
       Inr ((NsTombstone blind_key key_id generation, key_ordinal), r))))
     else Inl (InvalidTag ''namespace mutation'' tag))"

definition decode_listing_path :: "RunReader \<Rightarrow> bytes \<Rightarrow> IndexRunLimits \<Rightarrow> (LogicalPath \<times> RunReader) run_result" where
  "decode_listing_path r previous limits =
     bindE (rd_bounded_count ''logical path'' (max_path_bytes limits) r) (\<lambda>(prefix_len, r).
     if prefix_len > length previous then Inl InvalidPathPrefix else
     bindE (rd_bounded_count ''logical path'' (max_path_bytes limits) r) (\<lambda>(suffix_len, r).
     bindE (ok_or IntegerOverflow (usize_add prefix_len suffix_len)) (\<lambda>path_len.
     bindE (validate_count ''logical path'' path_len (max_path_bytes limits)) (\<lambda>_.
     bindE (rd_bytes r suffix_len) (\<lambda>(suffix, r).
     if prefix_len < length previous \<and> suffix \<noteq> [] \<and> previous ! prefix_len = hd suffix
     then Inl InvalidPathPrefix else
     let path = take prefix_len previous @ suffix in
     if \<not> from_utf8_ok path then Inl (InvalidUtf8 ''logical path'') else
     bindE (map_err (\<lambda>_. InvalidValue ''logical path'') (LogicalPath_new path)) (\<lambda>p. Inr (p, r)))))))"

definition decode_listing_projection :: "RunReader \<Rightarrow> LogicalPath \<Rightarrow> (ListingProjection \<times> RunReader) run_result" where
  "decode_listing_projection r path =
     bindE (rd_u8 r) (\<lambda>(tag, r).
     bindE (rd_varint r) (\<lambda>(generation, r).
     if tag = 0 then
       bindE (rd_varint r) (\<lambda>(content_len, r).
       bindE (rd_i64 r) (\<lambda>(modified_at_ms, r).
       Inr (LsUpsert path generation content_len modified_at_ms, r)))
     else if tag = 1 then Inr (LsTombstone path generation, r)
     else Inl (InvalidTag ''listing mutation'' tag)))"

fun pair_projections :: "u32 \<Rightarrow> NamespaceProjection \<Rightarrow> ListingProjection \<Rightarrow> IndexMutation run_result" where
  "pair_projections ordinal
     (NsUpsert blind_key key_id ns_gen payload ns_len ns_modified retention legal_hold checksum etag)
     (LsUpsert path gen len modified) =
     (if ns_gen = gen \<and> ns_len = len \<and> ns_modified = modified
      then Inr (Upsert \<lparr>up_mutation_ordinal = ordinal, up_blind_key = blind_key,
             up_namespace_key_id = key_id, up_path = path, up_generation = gen, up_payload = payload,
             up_content_len = len, up_modified_at_ms = modified, up_retention = retention,
             up_legal_hold = legal_hold, up_etag = etag, up_checksum = checksum\<rparr>)
      else Inl (ProjectionMismatch ordinal))"
| "pair_projections ordinal (NsTombstone blind_key key_id ns_gen) (LsTombstone path gen) =
     (if ns_gen = gen
      then Inr (Tombstone \<lparr>tb_mutation_ordinal = ordinal, tb_blind_key = blind_key,
             tb_namespace_key_id = key_id, tb_path = path, tb_generation = gen\<rparr>)
      else Inl (ProjectionMismatch ordinal))"
| "pair_projections ordinal _ _ = Inl (ProjectionMismatch ordinal)"

section \<open>The frame decoder\<close>

record IndexRunFrameDecoder =
  fd_completion_receipt :: "CompletionReceipt option"
  fd_self_pack :: "IndexRunSelfPack option"
  fd_saw_self_payload_fact :: bool
  fd_containers :: "IndexRunContainer list"
  fd_standalone :: "IndexRunStandaloneStreamContainer list"
  fd_namespace_key_ids :: "KeyId list"
  fd_declared_namespace_key_count :: "nat option"
  fd_namespace :: "NamespaceProjection option list"
  fd_mutations :: "IndexMutation option list"
  fd_saw_standalone :: bool
  fd_saw_namespace_key_id :: bool
  fd_previous_namespace_key :: "(IndexBlindKey \<times> u32) option"
  fd_previous_listing_key :: "(LogicalPath \<times> u32) option"
  fd_used_containers :: "u32 set"
  fd_used_standalone :: "u32 set"
  fd_used_namespace_key_ids :: "u32 set"
  fd_uses_self_pack :: bool
  fd_saw_namespace :: bool
  fd_saw_listing :: bool

definition IndexRunFrameDecoder_default :: IndexRunFrameDecoder where
  "IndexRunFrameDecoder_default = \<lparr>fd_completion_receipt = None, fd_self_pack = None,
     fd_saw_self_payload_fact = False, fd_containers = [], fd_standalone = [], fd_namespace_key_ids = [],
     fd_declared_namespace_key_count = None, fd_namespace = [], fd_mutations = [], fd_saw_standalone = False,
     fd_saw_namespace_key_id = False, fd_previous_namespace_key = None, fd_previous_listing_key = None,
     fd_used_containers = {}, fd_used_standalone = {}, fd_used_namespace_key_ids = {},
     fd_uses_self_pack = False, fd_saw_namespace = False, fd_saw_listing = False\<rparr>"

definition last_opt :: "'a list \<Rightarrow> 'a option" where
  "last_opt xs = (if xs = [] then None else Some (last xs))"

definition validate_next_container_count ::
  "IndexRunContainer list \<Rightarrow> IndexRunStandaloneStreamContainer list \<Rightarrow> IndexRunLimits \<Rightarrow> unit run_result" where
  "validate_next_container_count containers standalone limits =
     bindE (ok_or IntegerOverflow (Option.bind (usize_add (length containers) (length standalone))
       (\<lambda>n. usize_add n 1))) (\<lambda>actual.
     validate_count ''container count'' actual (max_containers limits))"

definition decode_metadata_pack ::
  "IndexRunLimits \<Rightarrow> IndexRunFrameDecoder \<Rightarrow> RunReader \<Rightarrow> (IndexRunFrameDecoder \<times> RunReader) run_result" where
  "decode_metadata_pack limits st rec =
     (if fd_saw_standalone st \<or> fd_saw_namespace_key_id st then Inl InvalidContainerOrder else
      bindE (validate_next_container_count (fd_containers st) (fd_standalone st) limits) (\<lambda>_.
      bindE (decode_container rec limits) (\<lambda>(c, rec).
      bindE (validate_container_order (map_option ct_key (last_opt (fd_containers st))) (ct_key c)) (\<lambda>_.
      Inr (st\<lparr>fd_containers := fd_containers st @ [c]\<rparr>, rec)))))"

definition decode_metadata_standalone ::
  "IndexRunLimits \<Rightarrow> IndexRunFrameDecoder \<Rightarrow> RunReader \<Rightarrow> (IndexRunFrameDecoder \<times> RunReader) run_result" where
  "decode_metadata_standalone limits st rec =
     (if fd_saw_namespace_key_id st then Inl InvalidContainerOrder else
      bindE (validate_next_container_count (fd_containers st) (fd_standalone st) limits) (\<lambda>_.
      let st = st\<lparr>fd_saw_standalone := True\<rparr> in
      bindE (decode_standalone_stream_container rec limits) (\<lambda>(c, rec).
      bindE (validate_container_order (map_option sc_key (last_opt (fd_standalone st))) (sc_key c)) (\<lambda>_.
      Inr (st\<lparr>fd_standalone := fd_standalone st @ [c]\<rparr>, rec)))))"

definition decode_metadata_namespace_key ::
  "IndexRunLimits \<Rightarrow> IndexRunFrameDecoder \<Rightarrow> RunReader \<Rightarrow> (IndexRunFrameDecoder \<times> RunReader) run_result" where
  "decode_metadata_namespace_key limits st rec =
     (let st = st\<lparr>fd_saw_namespace_key_id := True\<rparr> in
      bindE (ok_or FrameFactsMismatch (fd_declared_namespace_key_count st)) (\<lambda>declared.
      if length (fd_namespace_key_ids st) \<ge> declared then Inl FrameFactsMismatch else
      bindE (rd_typed_string ''namespace key id'' (max_key_id_bytes limits) KeyId_new rec) (\<lambda>(k, rec).
      case last_opt (fd_namespace_key_ids st) of
        None \<Rightarrow> Inr (st\<lparr>fd_namespace_key_ids := fd_namespace_key_ids st @ [k]\<rparr>, rec)
      | Some previous \<Rightarrow>
          if previous = k then Inl DuplicateNamespaceKey
          else if previous > k then Inl InvalidNamespaceKeyOrder
          else Inr (st\<lparr>fd_namespace_key_ids := fd_namespace_key_ids st @ [k]\<rparr>, rec))))"

definition decode_metadata_receipt ::
  "IndexRunFrameDecoder \<Rightarrow> RunReader \<Rightarrow> (IndexRunFrameDecoder \<times> RunReader) run_result" where
  "decode_metadata_receipt st rec =
     bindE (map_err (\<lambda>_. FrameFactsMismatch) (CompletionReceipt_decode rec)) (\<lambda>receipt.
     Inr (st\<lparr>fd_completion_receipt := Some receipt\<rparr>, []))"

definition decode_metadata_body ::
  "IndexRunLimits \<Rightarrow> IndexRunFrameDecoder \<Rightarrow> RunReader \<Rightarrow> IndexRunFrameDecoder run_result" where
  "decode_metadata_body limits st rec =
     bindE (validate_count ''metadata record bytes'' (length rec)
       (record_limit Metadata (first_byte rec) limits)) (\<lambda>_.
     bindE (rd_u8 rec) (\<lambda>(tag, rec).
     bindE (if tag = 0 then decode_metadata_pack limits st rec
            else if tag = 2 then decode_metadata_standalone limits st rec
            else if tag = 3 then decode_metadata_namespace_key limits st rec
            else if tag = 4 then decode_metadata_receipt st rec
            else Inl (InvalidTag ''container type'' tag)) (\<lambda>(st, rec).
     bindE (rd_finish_record rec) (\<lambda>_. Inr st))))"

definition decode_metadata_record ::
  "IndexRunLimits \<Rightarrow> IndexRunFrameDecoder \<times> RunReader \<Rightarrow> (IndexRunFrameDecoder \<times> RunReader) run_result" where
  "decode_metadata_record limits st =
     (case st of (st, r) \<Rightarrow>
      if fd_completion_receipt st \<noteq> None then Inl InvalidContainerOrder else
      bindE (rd_record (max (min STANDALONE_CONTAINER_MAX_BYTES (max_frame_bytes limits)) (max_record_bytes limits)) r)
        (\<lambda>(rec, r).
      bindE (decode_metadata_body limits st rec) (\<lambda>st. Inr (st, r))))"

definition decode_metadata_facts ::
  "DecodedFrameHeader \<Rightarrow> IndexRunFrameDecoder \<Rightarrow> IndexRunFrameDecoder run_result" where
  "decode_metadata_facts header st =
     bindE (ok_or FrameFactsMismatch (dh_namespace_key_count header)) (\<lambda>n.
     if n > dh_role_record_count header \<or> n > unat (dh_mutation_count header) then Inl FrameFactsMismatch else
     bindE (case fd_declared_namespace_key_count st of
              None \<Rightarrow> Inr (st\<lparr>fd_declared_namespace_key_count := Some n, fd_namespace_key_ids := []\<rparr>)
            | Some count \<Rightarrow> if count = n then Inr st else Inl FrameFactsMismatch) (\<lambda>st.
     bindE (ok_or FrameFactsMismatch (dh_self_pack header)) (\<lambda>frame_self_pack.
     if fd_saw_self_payload_fact st \<and> fd_self_pack st \<noteq> frame_self_pack then Inl FrameFactsMismatch else
     Inr (st\<lparr>fd_self_pack := frame_self_pack, fd_saw_self_payload_fact := True\<rparr>))))"

definition decode_metadata ::
  "DecodedFrameHeader \<Rightarrow> IndexRunLimits \<Rightarrow> IndexRunFrameDecoder \<times> RunReader \<Rightarrow>
   (IndexRunFrameDecoder \<times> RunReader) run_result" where
  "decode_metadata header limits st =
     (case st of (st, r) \<Rightarrow>
      bindE (decode_metadata_facts header st) (\<lambda>st.
      loopE (dh_frame_record_count header) (decode_metadata_record limits) (st, r)))"

definition projection_slot :: "'a option list \<Rightarrow> string \<Rightarrow> u32 \<Rightarrow> ('a option) run_result" where
  "projection_slot projection name ordinal =
     (if unat ordinal < length projection then Inr (projection ! unat ordinal)
      else Inl (InvalidProjectionOrdinal name ordinal))"

definition note_payload_use :: "NamespaceProjection \<Rightarrow> IndexRunFrameDecoder \<Rightarrow> IndexRunFrameDecoder" where
  "note_payload_use projection st =
     (case projection of
        NsUpsert _ _ _ payload _ _ _ _ _ _ \<Rightarrow>
          (case payload of
             EmptyPayload \<Rightarrow> st
           | SelfPack _ \<Rightarrow> st\<lparr>fd_uses_self_pack := True\<rparr>
           | ExternalPack ordinal _ \<Rightarrow> st\<lparr>fd_used_containers := insert ordinal (fd_used_containers st)\<rparr>
           | ExternalStandaloneStream ordinal \<Rightarrow>
               st\<lparr>fd_used_standalone := insert ordinal (fd_used_standalone st)\<rparr>)
      | NsTombstone _ _ _ \<Rightarrow> st)"

definition decode_namespace_body ::
  "IndexRunFrameDecoder \<Rightarrow> RunReader \<Rightarrow> IndexRunFrameDecoder run_result" where
  "decode_namespace_body st rec =
     bindE (rd_u32_varint rec) (\<lambda>(ordinal, rec).
     bindE (decode_namespace_projection rec (fd_namespace_key_ids st) (fd_containers st) (fd_self_pack st)
       (fd_standalone st)) (\<lambda>((projection, key_ordinal), rec).
     let st = note_payload_use projection
           (st\<lparr>fd_used_namespace_key_ids := insert key_ordinal (fd_used_namespace_key_ids st)\<rparr>) in
     bindE (rd_finish_record rec) (\<lambda>_.
     let sort_key = (ns_blind_key projection, ordinal) in
     if (case fd_previous_namespace_key st of Some previous \<Rightarrow> previous \<ge> sort_key | None \<Rightarrow> False)
     then Inl (InvalidProjectionOrder ''namespace'') else
     let st = st\<lparr>fd_previous_namespace_key := Some sort_key\<rparr> in
     bindE (projection_slot (fd_namespace st) ''namespace'' ordinal) (\<lambda>slot.
     if slot \<noteq> None then Inl (DuplicateProjectionOrdinal ''namespace'' ordinal)
     else Inr (st\<lparr>fd_namespace := (fd_namespace st)[unat ordinal := Some projection]\<rparr>)))))"

definition decode_namespace_record ::
  "IndexRunLimits \<Rightarrow> IndexRunFrameDecoder \<times> RunReader \<Rightarrow> (IndexRunFrameDecoder \<times> RunReader) run_result" where
  "decode_namespace_record limits st =
     (case st of (st, r) \<Rightarrow>
      bindE (rd_record (max_record_bytes limits) r) (\<lambda>(rec, r).
      bindE (decode_namespace_body st rec) (\<lambda>st. Inr (st, r))))"

definition resize_none :: "nat \<Rightarrow> 'a option list \<Rightarrow> 'a option list" where
  "resize_none n xs = take n xs @ replicate (n - length xs) None"

definition decode_namespace_facts ::
  "DecodedFrameHeader \<Rightarrow> IndexRunFrameDecoder \<Rightarrow> IndexRunFrameDecoder run_result" where
  "decode_namespace_facts header st =
     bindE (ok_or FrameFactsMismatch (fd_declared_namespace_key_count st)) (\<lambda>declared.
     if length (fd_namespace_key_ids st) \<noteq> declared then Inl FrameFactsMismatch else
     if dh_role_record_count header \<noteq> unat (dh_mutation_count header) then Inl FrameFactsMismatch else
     Inr (if fd_saw_namespace st then st
          else let count = unat (dh_mutation_count header) in
            st\<lparr>fd_namespace := resize_none count (fd_namespace st),
               fd_mutations := resize_none count (fd_mutations st), fd_saw_namespace := True\<rparr>))"

definition decode_namespace ::
  "DecodedFrameHeader \<Rightarrow> IndexRunLimits \<Rightarrow> IndexRunFrameDecoder \<times> RunReader \<Rightarrow>
   (IndexRunFrameDecoder \<times> RunReader) run_result" where
  "decode_namespace header limits st =
     (case st of (st, r) \<Rightarrow>
      bindE (decode_namespace_facts header st) (\<lambda>st.
      loopE (dh_frame_record_count header) (decode_namespace_record limits) (st, r)))"

definition decode_listing_body ::
  "IndexRunLimits \<Rightarrow> IndexRunFrameDecoder \<times> LogicalPath option \<Rightarrow> RunReader \<Rightarrow>
   (IndexRunFrameDecoder \<times> LogicalPath option) run_result" where
  "decode_listing_body limits st rec =
     (case st of (st, previous_path) \<Rightarrow>
      bindE (decode_listing_path rec (case previous_path of None \<Rightarrow> [] | Some p \<Rightarrow> p) limits) (\<lambda>(path, rec).
      bindE (rd_u32_varint rec) (\<lambda>(ordinal, rec).
      bindE (decode_listing_projection rec path) (\<lambda>(listing, rec).
      bindE (rd_finish_record rec) (\<lambda>_.
      let sort_key = (ls_path listing, ordinal) in
      if (case fd_previous_listing_key st of Some previous \<Rightarrow> previous \<ge> sort_key | None \<Rightarrow> False)
      then Inl (InvalidProjectionOrder ''listing'') else
      let st = st\<lparr>fd_previous_listing_key := Some sort_key\<rparr> in
      bindE (projection_slot (fd_mutations st) ''listing'' ordinal) (\<lambda>mutation_slot.
      if mutation_slot \<noteq> None then Inl (DuplicateProjectionOrdinal ''listing'' ordinal) else
      bindE (projection_slot (fd_namespace st) ''namespace'' ordinal) (\<lambda>slot.
      let st = st\<lparr>fd_namespace := (fd_namespace st)[unat ordinal := None]\<rparr> in
      bindE (ok_or (ProjectionMismatch ordinal) slot) (\<lambda>projection.
      bindE (pair_projections ordinal projection listing) (\<lambda>mutation.
      Inr (st\<lparr>fd_mutations := (fd_mutations st)[unat ordinal := Some mutation]\<rparr>, Some path))))))))))"

definition decode_listing_record ::
  "IndexRunLimits \<Rightarrow> (IndexRunFrameDecoder \<times> LogicalPath option) \<times> RunReader \<Rightarrow>
   ((IndexRunFrameDecoder \<times> LogicalPath option) \<times> RunReader) run_result" where
  "decode_listing_record limits st =
     (case st of (st, r) \<Rightarrow>
      bindE (rd_record (max_record_bytes limits) r) (\<lambda>(rec, r).
      bindE (decode_listing_body limits st rec) (\<lambda>st. Inr (st, r))))"

definition decode_listing ::
  "DecodedFrameHeader \<Rightarrow> IndexRunLimits \<Rightarrow> IndexRunFrameDecoder \<times> RunReader \<Rightarrow>
   (IndexRunFrameDecoder \<times> RunReader) run_result" where
  "decode_listing header limits st =
     (case st of (st, r) \<Rightarrow>
      let st = st\<lparr>fd_saw_listing := True\<rparr> in
      if dh_role_record_count header \<noteq> unat (dh_mutation_count header) then Inl FrameFactsMismatch else
      bindE (loopE (dh_frame_record_count header) (decode_listing_record limits) ((st, None), r)) (\<lambda>((st, _), r).
      Inr (st, r)))"

definition order_mutations :: "IndexMutation option list \<Rightarrow> IndexMutation list run_result" where
  "order_mutations ms =
     foldE (\<lambda>acc (index, m). if index \<ge> 2 ^ 32 then Inl IntegerOverflow
        else bindE (ok_or (ProjectionMismatch (of_nat index)) m) (\<lambda>m. Inr (acc @ [m]))) [] (enumerate 0 ms)"

definition decoder_finish ::
  "IndexRunFrameDecoder \<Rightarrow> Sequence \<Rightarrow> nat \<Rightarrow> nat option \<Rightarrow> IndexRun run_result" where
  "decoder_finish st seq count metadata_total =
     (if count > 0 \<and> (\<not> fd_saw_namespace st \<or> \<not> fd_saw_listing st) then Inl InvalidFrameOrder else
      if count = 0 \<and> (fd_saw_namespace st \<or> fd_saw_listing st) then Inl FrameFactsMismatch else
      bindE (ok_or FrameFactsMismatch (fd_declared_namespace_key_count st)) (\<lambda>declared.
      if length (fd_namespace_key_ids st) \<noteq> declared then Inl FrameFactsMismatch else
      bindE (ok_or IntegerOverflow
        (Option.bind (usize_add (length (fd_containers st)) (length (fd_standalone st))) (\<lambda>n.
         Option.bind (usize_add n (length (fd_namespace_key_ids st))) (\<lambda>n.
         usize_add n (if fd_completion_receipt st \<noteq> None then 1 else 0))))) (\<lambda>total.
      bindE (ok_or InvalidFrameOrder metadata_total) (\<lambda>metadata_total.
      if total \<noteq> metadata_total then Inl FrameFactsMismatch else
      bindE (validate_distinct_container_objects (fd_containers st) (fd_standalone st)) (\<lambda>_.
      bindE (validate_container_use (length (fd_containers st)) (fd_used_containers st)
        (fd_uses_self_pack st) (fd_self_pack st)) (\<lambda>_.
      bindE (validate_standalone_stream_container_use (length (fd_standalone st)) (fd_used_standalone st)) (\<lambda>_.
      bindE (validate_namespace_key_use (length (fd_namespace_key_ids st)) (fd_used_namespace_key_ids st)) (\<lambda>_.
      bindE (order_mutations (fd_mutations st)) (\<lambda>ordered.
      bindE (validate_repeated_record_facts ordered) (\<lambda>_.
      let run = \<lparr>run_completion_receipt = fd_completion_receipt st, run_sequence = seq,
            run_self_pack = fd_self_pack st, run_containers = fd_containers st,
            run_standalone = fd_standalone st, run_mutations = ordered\<rparr>
      in bindE (validate_completion_receipt run) (\<lambda>_. Inr run)))))))))))"

section \<open>The frame sequence\<close>

record FrameLoop =
  fl_decoder :: IndexRunFrameDecoder
  fl_metadata_total :: "nat option"
  fl_sequence :: "Sequence option"
  fl_mutation_count :: "u32 option"
  fl_expected_role :: IndexRunFrameRole
  fl_expected_role_ordinal :: u32
  fl_role_total :: "nat option"
  fl_role_seen :: nat

definition FrameLoop_init :: FrameLoop where
  "FrameLoop_init = \<lparr>fl_decoder = IndexRunFrameDecoder_default, fl_metadata_total = None,
     fl_sequence = None, fl_mutation_count = None, fl_expected_role = Metadata,
     fl_expected_role_ordinal = 0, fl_role_total = None, fl_role_seen = 0\<rparr>"

definition frame_enter_role :: "DecodedFrameHeader \<Rightarrow> FrameLoop \<Rightarrow> FrameLoop run_result" where
  "frame_enter_role header st =
     bindE (if dh_role header \<noteq> fl_expected_role st \<or> dh_role_ordinal header \<noteq> fl_expected_role_ordinal st
            then if frame_role_tag (dh_role header) \<noteq> frame_role_tag (fl_expected_role st) + 1
                    \<or> dh_role_ordinal header \<noteq> 0
                 then Inl InvalidFrameOrder
                 else bindE (ok_or InvalidFrameOrder (fl_role_total st)) (\<lambda>total.
                   if fl_role_seen st \<noteq> total then Inl InvalidFrameOrder
                   else Inr (st\<lparr>fl_expected_role := dh_role header, fl_expected_role_ordinal := 0,
                          fl_role_seen := 0, fl_role_total := None\<rparr>))
            else Inr st) (\<lambda>st.
     if dh_role header \<noteq> fl_expected_role st \<or> dh_role_ordinal header \<noteq> fl_expected_role_ordinal st
     then Inl InvalidFrameOrder else
     bindE (ok_or IntegerOverflow (checked_add (fl_expected_role_ordinal st) 1)) (\<lambda>next.
     Inr (st\<lparr>fl_expected_role_ordinal := next\<rparr>)))"

definition frame_same_facts :: "DecodedFrameHeader \<Rightarrow> IndexRunLimits \<Rightarrow> FrameLoop \<Rightarrow> FrameLoop run_result" where
  "frame_same_facts header limits st =
     bindE (case fl_sequence st of
              None \<Rightarrow> Inr (st\<lparr>fl_sequence := Some (dh_sequence header)\<rparr>)
            | Some v \<Rightarrow> if v = dh_sequence header then Inr st else Inl FrameFactsMismatch) (\<lambda>st.
     bindE (case fl_mutation_count st of
              None \<Rightarrow> bindE (validate_count ''mutation count'' (unat (dh_mutation_count header)) (max_mutations limits)) (\<lambda>_.
                Inr (st\<lparr>fl_mutation_count := Some (dh_mutation_count header)\<rparr>))
            | Some v \<Rightarrow> if v = dh_mutation_count header then Inr st else Inl FrameFactsMismatch) (\<lambda>st.
     bindE (case fl_role_total st of
              None \<Rightarrow> Inr (st\<lparr>fl_role_total := Some (dh_role_record_count header)\<rparr>)
            | Some v \<Rightarrow> if v = dh_role_record_count header then Inr st else Inl FrameFactsMismatch) (\<lambda>st.
     bindE (ok_or IntegerOverflow (usize_add (fl_role_seen st) (dh_frame_record_count header))) (\<lambda>seen.
     if seen > dh_role_record_count header then Inl FrameFactsMismatch
     else Inr (st\<lparr>fl_role_seen := seen\<rparr>)))))"

definition decode_frame_records ::
  "DecodedFrameHeader \<Rightarrow> IndexRunLimits \<Rightarrow> FrameLoop \<Rightarrow> RunReader \<Rightarrow> (FrameLoop \<times> RunReader) run_result" where
  "decode_frame_records header limits st r =
     (case dh_role header of
        Metadata \<Rightarrow>
          (let st = st\<lparr>fl_metadata_total := Some (dh_role_record_count header)\<rparr> in
           bindE (decode_metadata header limits (fl_decoder st, r)) (\<lambda>(d, r). Inr (st\<lparr>fl_decoder := d\<rparr>, r)))
      | Namespace \<Rightarrow>
          bindE (decode_namespace header limits (fl_decoder st, r)) (\<lambda>(d, r). Inr (st\<lparr>fl_decoder := d\<rparr>, r))
      | Listing \<Rightarrow>
          bindE (decode_listing header limits (fl_decoder st, r)) (\<lambda>(d, r). Inr (st\<lparr>fl_decoder := d\<rparr>, r)))"

definition decode_frame :: "IndexRunLimits \<Rightarrow> FrameLoop \<Rightarrow> bytes \<Rightarrow> FrameLoop run_result" where
  "decode_frame limits st encoded =
     bindE (validate_count ''frame bytes'' (length encoded) (max_frame_bytes limits)) (\<lambda>_.
     bindE (decode_frame_header encoded limits) (\<lambda>(header, r).
     bindE (frame_enter_role header st) (\<lambda>st.
     bindE (frame_same_facts header limits st) (\<lambda>st.
     bindE (decode_frame_records header limits st r) (\<lambda>(st, r).
     if r \<noteq> [] then Inl TrailingBytes else Inr st)))))"

definition decode_index_run_frames :: "bytes list \<Rightarrow> IndexRunLimits \<Rightarrow> IndexRun run_result" where
  "decode_index_run_frames frames limits =
     (if frames = [] then Inl InvalidFrameOrder else
      bindE (frames_total (map length frames)) (\<lambda>total.
      bindE (validate_count ''total frame bytes'' total (max_total_bytes limits)) (\<lambda>_.
      bindE (foldE (decode_frame limits) FrameLoop_init frames) (\<lambda>st.
      bindE (ok_or InvalidFrameOrder (fl_role_total st)) (\<lambda>total.
      if fl_role_seen st \<noteq> total then Inl InvalidFrameOrder else
      bindE (ok_or InvalidFrameOrder (fl_mutation_count st)) (\<lambda>count.
      bindE (ok_or InvalidFrameOrder (fl_sequence st)) (\<lambda>seq.
      decoder_finish (fl_decoder st) seq (unat count) (fl_metadata_total st))))))))"

definition decode_index_run :: "bytes \<Rightarrow> IndexRunLimits \<Rightarrow> IndexRun run_result" where
  "decode_index_run encoded limits =
     bindE (validate_count ''total bytes'' (length encoded) (max_total_bytes limits)) (\<lambda>_.
     bindE (ok_or IntegerOverflow
       (Option.bind (usize_mul (max_mutations limits) 3) (\<lambda>n.
        Option.bind (usize_add n (max_containers limits)) (\<lambda>n. usize_add n 1)))) (\<lambda>maximum_frames.
     bindE (rd_bounded_count ''frame count'' maximum_frames encoded) (\<lambda>(frame_count, bundle).
     bindE (repeatE (rd_record (max_frame_bytes limits)) frame_count bundle) (\<lambda>(frames, bundle).
     if bundle \<noteq> [] then Inl TrailingBytes else decode_index_run_frames frames limits))))"

end
