(* ===== verification/RunFields.thy ===== *)
theory RunFields
  imports RunDecode
begin

text \<open>
  The wire image of every record of an index run, with the encoder and the decoder of each
  record: the encoder appends the image, and the decoder reads the value back from the image.
\<close>

section \<open>Encoders\<close>

text \<open>
  \<open>emits w m bs\<close>: if the writer action \<open>m\<close> on a writer \<open>w\<close> within its bound succeeds, it
  appended \<open>bs\<close> and the bound still holds.
\<close>

definition writer_ok :: "Writer \<Rightarrow> bool" where
  "writer_ok w \<longleftrightarrow> length (wbytes w) \<le> maximum w \<and> length (wbytes w) < 2 ^ 64"

definition emits :: "Writer \<Rightarrow> Writer run_result \<Rightarrow> bytes \<Rightarrow> bool" where
  "emits w m bs \<longleftrightarrow> (\<forall>w'. writer_ok w \<longrightarrow> m = Inr w' \<longrightarrow> appends w w' bs)"

lemma appends_ok: "appends w w' bs \<Longrightarrow> writer_ok w'"
  by (auto simp: appends_def writer_ok_def)

lemma appends_fields:
  "appends w v a \<Longrightarrow> wbytes v = wbytes w @ a \<and> maximum v = maximum w \<and>
     length (wbytes w @ a) \<le> maximum w \<and> length (wbytes w @ a) < 2 ^ 64"
  by (auto simp: appends_def)

lemma writer_ok_new: "writer_ok (Writer_new m)"
  by (simp add: writer_ok_def Writer_new_def)

lemma emits_new:
  "emits (Writer_new m) a bs \<Longrightarrow> a = Inr w \<Longrightarrow> wbytes w = bs \<and> length bs \<le> m \<and> length bs < 2 ^ 64"
  by (auto simp: emits_def writer_ok_new dest!: appends_new)

named_theorems emits_intros \<open>what each writer action appends\<close>

lemma emits_bind [emits_intros]:
  "emits w m a \<Longrightarrow> (\<And>v. emits v (f v) b) \<Longrightarrow> emits w (bindE m f) (a @ b)"
  by (auto simp: emits_def bindE_eq_Inr intro: appends_trans dest: appends_ok)

lemma emits_prims [emits_intros]:
  "emits w (Writer_bytes w bs) bs"
  "emits w (Writer_u8 w b) [b]"
  "emits w (Writer_u16 w c) (u16_to_be_bytes c)"
  "emits w (Writer_u64 w v) (u64_to_be_bytes v)"
  "emits w (Writer_i64 w v) (u64_to_be_bytes v)"
  "emits w (Writer_varint w v) (varint_wire v)"
  "emits w (Writer_string w s m f) (record_wire s)"
  "emits w (Writer_record w r) (record_wire (wbytes r))"
  by (simp_all add: emits_def Writer_bytes_iff Writer_fixed_iff Writer_varint_appends
      Writer_string_appends Writer_record_appends)

lemma emits_u32 [emits_intros]: "emits w (Writer_varint w (ucast v)) (u32_wire v)"
  unfolding u32_wire_def by (rule emits_prims)

lemma emits_count [emits_intros]:
  "(\<And>v. emits v (f v) b) \<Longrightarrow>
   emits w (bindE (usize_to_u64 n) (\<lambda>k. bindE (Writer_varint w k) f)) (count_wire n @ b)"
  by (auto simp: emits_def bindE_eq_Inr count_wire_def intro: appends_trans dest: appends_ok dest!: Writer_varint_appends)

lemma emits_last_count [emits_intros]:
  "emits w (bindE (usize_to_u64 n) (Writer_varint w)) (count_wire n)"
  by (auto simp: emits_def bindE_eq_Inr count_wire_def dest!: Writer_varint_appends)

lemma emits_ret: "emits w (Inr w) []"
  by (simp add: emits_def appends_def writer_ok_def)

lemma emits_fold:
  "(\<And>v x. emits v (f v x) (g x)) \<Longrightarrow> emits w (foldE f w xs) (concat (map g xs))"
proof (induction xs arbitrary: w)
  case (Cons x xs)
  then show ?case by (simp add: emits_bind)
qed (simp add: emits_ret)

section \<open>Containers\<close>

fun version_wire :: "BackendVersionId option \<Rightarrow> bytes" where
  "version_wire None = [0]"
| "version_wire (Some v) = [1] @ record_wire v"

definition exact_wire :: "BackendObjectId \<Rightarrow> BackendVersionId option \<Rightarrow> u64 \<Rightarrow> bytes \<Rightarrow> IndexRunKeyringRef \<Rightarrow> bytes" where
  "exact_wire oid vid n digest keyring =
     record_wire oid @ version_wire vid @ u64_to_be_bytes n @ digest @ record_wire (kr_object_id keyring) @
     kr_digest keyring"

definition container_wire :: "IndexRunContainer \<Rightarrow> bytes" where
  "container_wire c =
     exact_wire (ct_object_id c) (ct_version_id c) (ct_stored_len c) (ct_commit_body_digest c) (ct_keyring_envelope c) @
     u32_wire (ct_pack_section_ordinal c) @ u64_to_be_bytes (ct_pack_section_offset c) @
     u64_to_be_bytes (ct_pack_section_len c) @ ct_pack_id c @ ct_attempt_id c @
     record_wire (ct_content_key_id c) @ u32_wire (ct_pack_record_count c)"

definition part_wire :: "PayloadPart \<Rightarrow> bytes" where
  "part_wire p = u32_wire (pp_part_number p) @ pp_attempt_id p @ varint_wire (pp_plaintext_len p)"

definition layout_wire :: "PayloadLayout \<Rightarrow> bytes" where
  "layout_wire l = varint_wire (pl_chunk_size l) @ varint_wire (pl_plaintext_len l) @ record_wire (pl_key_id l) @
     pl_carrier_id l @ count_wire (length (pl_parts l)) @ concat (map part_wire (pl_parts l))"

definition standalone_wire :: "IndexRunStandaloneStreamContainer \<Rightarrow> bytes" where
  "standalone_wire c =
     exact_wire (sc_object_id c) (sc_version_id c) (sc_stored_len c) (sc_object_digest c) (sc_keyring_envelope c) @
     layout_wire (sc_payload_layout c)"

lemma emits_version [emits_intros]:
  "emits w (case vid of None \<Rightarrow> Writer_u8 w 0
     | Some v \<Rightarrow> bindE (Writer_u8 w 1) (\<lambda>w. Writer_string w v m f)) (version_wire vid)"
  by (cases vid) (simp_all only: option.case version_wire.simps, (intro emits_intros)+)

lemma emits_exact [emits_intros]:
  "emits w (encode_exact_container w oid vid n d k limits) (exact_wire oid vid n d k)"
  unfolding encode_exact_container_def exact_wire_def
  by (intro emits_intros)

lemma emits_part: "emits w (encode_payload_part w p) (part_wire p)"
  unfolding encode_payload_part_def part_wire_def by (intro emits_intros)

lemma emits_layout [emits_intros]: "emits w (encode_payload_layout w l) (layout_wire l)"
  unfolding encode_payload_layout_def layout_wire_def
  by (intro emits_intros emits_fold emits_part)

text \<open>The same for a prepared record, which is finished at the end of the chain.\<close>

definition prepares ::
  "Writer \<Rightarrow> PreparedRecord run_result \<Rightarrow> IndexRunSearchBound option \<Rightarrow> bytes \<Rightarrow> bool" where
  "prepares w m b bs \<longleftrightarrow> (\<forall>r. writer_ok w \<longrightarrow> m = Inr r \<longrightarrow> r = \<lparr>pr_bytes = wbytes w @ bs, pr_bound = b\<rparr> \<and>
     length (wbytes w @ bs) \<le> maximum w \<and> length (wbytes w @ bs) < 2 ^ 64)"

lemma prepares_bind:
  assumes "emits w m a" and "\<And>v. prepares v (f v) b bs"
  shows "prepares w (bindE m f) b (a @ bs)"
  unfolding prepares_def
proof (intro allI impI)
  fix r
  assume ok: "writer_ok w" and r: "bindE m f = Inr r"
  from r obtain v where v: "m = Inr v" and fv: "f v = Inr r" by (auto simp: bindE_eq_Inr)
  with assms(1) ok have ap: "appends w v a" by (simp add: emits_def)
  from assms(2) [of v] appends_ok [OF ap] fv
  have "r = \<lparr>pr_bytes = wbytes v @ bs, pr_bound = b\<rparr> \<and> length (wbytes v @ bs) \<le> maximum v \<and>
      length (wbytes v @ bs) < 2 ^ 64" by (simp add: prepares_def)
  moreover have "wbytes v = wbytes w @ a" and "maximum v = maximum w" using ap by (simp_all add: appends_def)
  ultimately show "r = \<lparr>pr_bytes = wbytes w @ a @ bs, pr_bound = b\<rparr> \<and>
      length (wbytes w @ a @ bs) \<le> maximum w \<and> length (wbytes w @ a @ bs) < 2 ^ 64"
    by simp
qed

lemma prepares_last:
  "emits w m a \<Longrightarrow> prepares w (bindE m (\<lambda>w. Inr \<lparr>pr_bytes = Writer_finish w, pr_bound = b\<rparr>)) b a"
  unfolding prepares_def emits_def bindE_eq_Inr Writer_finish_def by (auto dest!: appends_fields)

lemma prepares_new:
  "prepares (Writer_new n) m b bs \<Longrightarrow> m = Inr r \<Longrightarrow>
   r = \<lparr>pr_bytes = bs, pr_bound = b\<rparr> \<and> length bs \<le> n \<and> length bs < 2 ^ 64"
  by (auto simp: prepares_def writer_ok_new) (simp_all add: Writer_new_def)

lemmas prepares_intros = prepares_last prepares_bind

lemma encode_container_wire:
  "encode_container_record limits c = Inr r \<Longrightarrow> r = \<lparr>pr_bytes = [0] @ container_wire c, pr_bound = None\<rparr> \<and>
    length ([0] @ container_wire c) \<le> max_record_bytes limits \<and> length ([0] @ container_wire c) < 2 ^ 64"
  unfolding encode_container_record_def container_wire_def
  by (erule prepares_new [rotated]) (intro prepares_intros emits_intros)

lemma encode_standalone_wire:
  "encode_standalone_record limits c = Inr r \<Longrightarrow> r = \<lparr>pr_bytes = [2] @ standalone_wire c, pr_bound = None\<rparr> \<and>
    length ([2] @ standalone_wire c) \<le> min STANDALONE_CONTAINER_MAX_BYTES (max_frame_bytes limits) \<and>
    length ([2] @ standalone_wire c) < 2 ^ 64"
  unfolding encode_standalone_record_def standalone_wire_def
  by (erule prepares_new [rotated]) (intro prepares_intros emits_intros)

lemma encode_namespace_key_wire:
  "encode_namespace_key_record limits k = Inr r \<Longrightarrow> r = \<lparr>pr_bytes = [3] @ record_wire k, pr_bound = None\<rparr> \<and>
    length ([3] @ record_wire k) \<le> max_record_bytes limits \<and> length ([3] @ record_wire k) < 2 ^ 64"
  unfolding encode_namespace_key_record_def
  by (erule prepares_new [rotated]) (intro prepares_intros emits_intros)

lemma encode_receipt_wire:
  assumes "encode_receipt_record limits rc = Inr r"
  shows "\<exists>bs. CompletionReceipt_encode rc = Inr bs \<and> r = \<lparr>pr_bytes = [4] @ bs, pr_bound = None\<rparr> \<and>
    length ([4] @ bs) \<le> max_record_bytes limits \<and> length ([4] @ bs) < 2 ^ 64"
proof -
  obtain bs where bs: "CompletionReceipt_encode rc = Inr bs"
    using assms by (auto simp: encode_receipt_record_def bindE_eq_Inr)
  with assms have "bindE (Writer_u8 (Writer_new (max_record_bytes limits)) 4) (\<lambda>w.
      bindE (Writer_bytes w bs) (\<lambda>w. Inr \<lparr>pr_bytes = Writer_finish w, pr_bound = None\<rparr>)) = Inr r"
    by (simp add: encode_receipt_record_def)
  then have "r = \<lparr>pr_bytes = [4] @ bs, pr_bound = None\<rparr> \<and>
      length ([4] @ bs) \<le> max_record_bytes limits \<and> length ([4] @ bs) < 2 ^ 64"
    by (rule prepares_new [rotated]) (intro prepares_intros emits_intros)
  with bs show ?thesis by blast
qed

section \<open>Projection records\<close>

lemma emits_guard [emits_intros]: "emits w m b \<Longrightarrow> emits w (if c then Inl e else m) b"
  by (simp add: emits_def)

lemma emits_check [emits_intros]:
  "emits w m b \<Longrightarrow> emits w (bindE (validate_count f n k) (\<lambda>_. m)) b"
  by (auto simp: emits_def bindE_eq_Inr)

definition record_pointer_wire :: "IndexPackRecordPointer \<Rightarrow> bytes" where
  "record_pointer_wire p = u32_wire (record_ordinal p) @ u32_wire (physical_offset p)"

fun pointer_wire :: "IndexPayloadPointer \<Rightarrow> bytes" where
  "pointer_wire EmptyPayload = [0]"
| "pointer_wire (SelfPack rec) = [1] @ record_pointer_wire rec"
| "pointer_wire (ExternalPack n rec) = [2] @ u32_wire n @ record_pointer_wire rec"
| "pointer_wire (ExternalStandaloneStream n) = [5] @ u32_wire n"

fun retention_wire :: "RetentionPolicy option \<Rightarrow> bytes" where
  "retention_wire None = [0]"
| "retention_wire (Some r) = [1] @ [retention_mode_tag (mode r)] @ u32_wire (retain_days r)"

fun checksum_wire :: "ObjectChecksum option \<Rightarrow> bytes" where
  "checksum_wire None = [0]"
| "checksum_wire (Some c) = [of_nat (length (ObjectChecksum_encode c))] @ ObjectChecksum_encode c"

definition key_index :: "KeyId list \<Rightarrow> KeyId \<Rightarrow> nat" where
  "key_index ids k = length (takeWhile (\<lambda>y. y \<noteq> k) ids)"

fun ns_body_wire :: "KeyId list \<Rightarrow> IndexMutation \<Rightarrow> bytes" where
  "ns_body_wire ids (Upsert u) = [0] @ up_blind_key u @ count_wire (key_index ids (up_namespace_key_id u)) @
     varint_wire (up_generation u) @ pointer_wire (up_payload u) @ varint_wire (up_content_len u) @
     u64_to_be_bytes (up_modified_at_ms u) @ retention_wire (up_retention u) @ [legal_hold_tag (up_legal_hold u)] @
     checksum_wire (up_checksum u) @ ObjectEtag_encode (up_etag u)"
| "ns_body_wire ids (Tombstone t) = [1] @ tb_blind_key t @ count_wire (key_index ids (tb_namespace_key_id t)) @
     varint_wire (tb_generation t)"

definition ns_wire :: "KeyId list \<Rightarrow> IndexMutation \<Rightarrow> bytes" where
  "ns_wire ids m = u32_wire (mutation_ordinal m) @ ns_body_wire ids m"

fun ls_body_wire :: "IndexMutation \<Rightarrow> bytes" where
  "ls_body_wire (Upsert u) = [0] @ varint_wire (up_generation u) @ varint_wire (up_content_len u) @
     u64_to_be_bytes (up_modified_at_ms u)"
| "ls_body_wire (Tombstone t) = [1] @ varint_wire (tb_generation t)"

definition ls_wire :: "IndexMutation \<Rightarrow> bytes" where
  "ls_wire m = u32_wire (mutation_ordinal m) @ ls_body_wire m"

lemma emits_record_pointer [emits_intros]:
  "emits w (encode_pack_record_pointer w p) (record_pointer_wire p)"
  unfolding encode_pack_record_pointer_def record_pointer_wire_def by (intro emits_intros)

lemma emits_pointer [emits_intros]: "emits w (encode_payload_pointer w p) (pointer_wire p)"
  unfolding encode_payload_pointer_def
  by (cases p) (simp_all only: IndexPayloadPointer.case pointer_wire.simps, (intro emits_intros)+)

lemma emits_retention [emits_intros]: "emits w (encode_retention w r) (retention_wire r)"
  unfolding encode_retention_def
  by (cases r) (simp_all only: option.case retention_wire.simps, (intro emits_intros)+)

lemma emits_legal_hold [emits_intros]: "emits w (encode_legal_hold w h) [legal_hold_tag h]"
  unfolding encode_legal_hold_def by (intro emits_intros)

lemma emits_checksum [emits_intros]: "emits w (encode_checksum w c) (checksum_wire c)"
  unfolding encode_checksum_def
  by (cases c) (simp_all only: option.case checksum_wire.simps Let_def, (intro emits_intros)+)

lemma emits_key [emits_intros]:
  "(\<And>v. emits v (f v) b) \<Longrightarrow>
   emits w (bindE (namespace_key_ordinal ids k) (\<lambda>n. bindE (Writer_varint w n) f)) (count_wire (key_index ids k) @ b)"
  "emits w (bindE (namespace_key_ordinal ids k) (Writer_varint w)) (count_wire (key_index ids k))"
  by (auto simp: emits_def bindE_eq_Inr namespace_key_ordinal_def binary_search_def key_index_def count_wire_def
      intro: appends_trans dest: appends_ok dest!: Writer_varint_appends split: if_splits)

lemma emits_ns_body [emits_intros]: "emits w (encode_namespace_body ids w m) (ns_body_wire ids m)"
  unfolding encode_namespace_body_def
  by (cases m) (simp_all only: IndexMutation.case ns_body_wire.simps, (intro emits_intros)+)

lemma encode_namespace_wire:
  "encode_namespace_record limits ids m = Inr r \<Longrightarrow>
   r = \<lparr>pr_bytes = ns_wire ids m, pr_bound = Some (NamespaceBound (mutation_blind_key m) (mutation_ordinal m))\<rparr> \<and>
   length (ns_wire ids m) \<le> max_record_bytes limits \<and> length (ns_wire ids m) < 2 ^ 64"
  unfolding encode_namespace_record_def ns_wire_def
  by (erule prepares_new [rotated]) (intro prepares_intros emits_intros)

lemma emits_ls_body [emits_intros]:
  "emits w (case m of
        Upsert u \<Rightarrow> bindE (Writer_u8 w 0) (\<lambda>w. bindE (Writer_varint w (up_generation u)) (\<lambda>w.
          bindE (Writer_varint w (up_content_len u)) (\<lambda>w. Writer_i64 w (up_modified_at_ms u))))
      | Tombstone t \<Rightarrow> bindE (Writer_u8 w 1) (\<lambda>w. Writer_varint w (tb_generation t))) (ls_body_wire m)"
  by (cases m) (simp_all only: IndexMutation.case ls_body_wire.simps, (intro emits_intros)+)

lemma encode_listing_wire:
  "encode_listing_record limits m = Inr r \<Longrightarrow>
   r = \<lparr>pr_bytes = ls_wire m, pr_bound = Some (ListingBound (mutation_path m) (mutation_ordinal m))\<rparr> \<and>
   length (ls_wire m) \<le> max_record_bytes limits \<and> length (ls_wire m) < 2 ^ 64"
  unfolding encode_listing_record_def ls_wire_def
  by (erule prepares_new [rotated]) (intro prepares_intros emits_intros)

section \<open>Decoders\<close>

text \<open>
  What the types of the source promise about the values of a run: identifiers are names, and
  keys, digests and attempts are arrays of 32 bytes.
\<close>

definition keyring_typed :: "IndexRunKeyringRef \<Rightarrow> bool" where
  "keyring_typed k \<longleftrightarrow> valid_name (kr_object_id k) \<and> length (kr_digest k) = 32"

definition container_typed :: "IndexRunContainer \<Rightarrow> bool" where
  "container_typed c \<longleftrightarrow> valid_name (ct_object_id c) \<and> (\<forall>v. ct_version_id c = Some v \<longrightarrow> valid_name v) \<and>
     length (ct_commit_body_digest c) = 32 \<and> keyring_typed (ct_keyring_envelope c) \<and>
     length (ct_pack_id c) = 32 \<and> length (ct_attempt_id c) = 32 \<and> valid_name (ct_content_key_id c)"

definition layout_typed :: "PayloadLayout \<Rightarrow> bool" where
  "layout_typed l \<longleftrightarrow> valid_name (pl_key_id l) \<and> length (pl_carrier_id l) = 32 \<and>
     (\<forall>p \<in> set (pl_parts l). length (pp_attempt_id p) = 32)"

definition standalone_typed :: "IndexRunStandaloneStreamContainer \<Rightarrow> bool" where
  "standalone_typed c \<longleftrightarrow> valid_name (sc_object_id c) \<and> (\<forall>v. sc_version_id c = Some v \<longrightarrow> valid_name v) \<and>
     length (sc_object_digest c) = 32 \<and> keyring_typed (sc_keyring_envelope c) \<and> layout_typed (sc_payload_layout c)"

definition self_pack_typed :: "IndexRunSelfPack \<Rightarrow> bool" where
  "self_pack_typed p \<longleftrightarrow> length (sp_pack_id p) = 32 \<and> length (sp_attempt_id p) = 32 \<and> valid_name (sp_content_key_id p)"

fun mutation_typed :: "IndexMutation \<Rightarrow> bool" where
  "mutation_typed (Upsert u) \<longleftrightarrow> length (up_blind_key u) = 32 \<and> valid_name (up_namespace_key_id u) \<and>
     valid_name (up_path u) \<and> valid_etag (up_etag u) \<and> (\<forall>c. up_checksum u = Some c \<longrightarrow> valid_checksum c)"
| "mutation_typed (Tombstone t) \<longleftrightarrow> length (tb_blind_key t) = 32 \<and> valid_name (tb_namespace_key_id t) \<and>
     valid_name (tb_path t)"

definition limits_typed :: "IndexRunLimits \<Rightarrow> bool" where
  "limits_typed l \<longleftrightarrow> max_total_bytes l < 2 ^ 64 \<and> max_frame_bytes l < 2 ^ 64 \<and> max_record_bytes l < 2 ^ 64 \<and>
     max_containers l + max_mutations l + 1 < 2 ^ 32 \<and> max_path_bytes l < 2 ^ 64 \<and>
     max_key_id_bytes l < 2 ^ 64 \<and> max_object_id_bytes l < 2 ^ 64 \<and> max_version_id_bytes l < 2 ^ 64"

lemma version_read:
  "(\<forall>v. vid = Some v \<longrightarrow> valid_name v) \<Longrightarrow> validate_version_len limits vid = Inr () \<Longrightarrow> limits_typed limits \<Longrightarrow>
   decode_version_option limits (version_wire vid @ s) = Inr (vid, s)"
  by (cases vid) (simp_all add: decode_version_option_def typed_string_wire validate_version_len_def limits_typed_def)

lemma exact_read:
  assumes "valid_name oid" and "\<forall>v. vid = Some v \<longrightarrow> valid_name v" and "length d = 32" and "keyring_typed k"
    and "validate_exact_container oid vid k limits = Inr ()" and "limits_typed limits"
  shows "decode_exact_container (exact_wire oid vid n d k @ s) limits =
    Inr (\<lparr>dx_object_id = oid, dx_version_id = vid, dx_stored_len = n, dx_object_digest = d, dx_keyring_envelope = k\<rparr>, s)"
proof -
  have "length oid \<le> max_object_id_bytes limits" "length (kr_object_id k) \<le> max_object_id_bytes limits"
    "validate_version_len limits vid = Inr ()"
    using assms(5) by (auto simp: validate_exact_container_def bindE_eq_Inr)
  with assms version_read [OF assms(2)] show ?thesis
    by (cases k) (simp add: decode_exact_container_def exact_wire_def typed_string_wire keyring_typed_def
        limits_typed_def rw_u64.read_wire)
qed

lemma container_exact:
  "validate_container limits p c = Inr q \<Longrightarrow>
   validate_exact_container (ct_object_id c) (ct_version_id c) (ct_keyring_envelope c) limits = Inr () \<and>
   length (ct_content_key_id c) \<le> max_key_id_bytes limits \<and> validate_container_range c = Inr () \<and>
   validate_container_order p (ct_key c) = Inr () \<and> q = Some (ct_key c)"
  by (auto simp: validate_container_def validate_exact_container_def bindE_eq_Inr)

lemma container_read:
  assumes "container_typed c" and "limits_typed limits"
    and "validate_exact_container (ct_object_id c) (ct_version_id c) (ct_keyring_envelope c) limits = Inr ()"
    and "length (ct_content_key_id c) \<le> max_key_id_bytes limits" and "validate_container_range c = Inr ()"
  shows "decode_container (container_wire c @ s) limits = Inr (c, s)"
  using assms
  by (cases c) (simp add: decode_container_def container_wire_def exact_read container_typed_def decode_attempt_id_def
      rw_u32.read_wire rw_u64.read_wire typed_string_wire limits_typed_def)

lemma part_read: "length (pp_attempt_id p) = 32 \<Longrightarrow> decode_payload_part (part_wire p @ s) = Inr (p, s)"
  by (cases p) (simp add: decode_payload_part_def part_wire_def rw_u32.read_wire rw_varint.read_wire decode_attempt_id_def)

lemma parts_read:
  "\<forall>p \<in> set ps. length (pp_attempt_id p) = 32 \<Longrightarrow>
   repeatE decode_payload_part (length ps) (concat (map part_wire ps) @ s) = Inr (ps, s)"
  by (induction ps) (simp_all add: part_read)

lemma length_part_wire: "length (pp_attempt_id p) = 32 \<Longrightarrow> 34 \<le> length (part_wire p)"
  using varint_wire_nonempty [of "ucast (pp_part_number p)"] varint_wire_nonempty [of "pp_plaintext_len p"]
  by (simp add: part_wire_def u32_wire_def del: length_greater_0_conv)

lemma length_parts_wire:
  "\<forall>p \<in> set ps. length (pp_attempt_id p) = 32 \<Longrightarrow> 34 * length ps \<le> length (concat (map part_wire ps))"
proof (induction ps)
  case (Cons p ps)
  then show ?case using length_part_wire [of p] by simp
qed simp

lemma layout_read:
  assumes "layout_typed l" and "validate_payload_layout l limits = Inr ()" and "limits_typed limits"
  shows "decode_payload_layout (layout_wire l @ s) limits = Inr (l, s)"
proof -
  have k: "length (pl_key_id l) \<le> max_key_id_bytes limits"
    using assms(2) by (auto simp: validate_payload_layout_def bindE_eq_Inr)
  obtain n where n: "PayloadLayout_stored_len l = Some n"
    using assms(2) by (auto simp: validate_payload_layout_def bindE_eq_Inr)
  then have parts: "length (pl_parts l) \<le> MAX_PAYLOAD_PARTS" "length (pl_parts l) < 2 ^ 64"
    by (auto simp: PayloadLayout_stored_len_def layout_bounds_ok_def MAX_PAYLOAD_PARTS_def split: if_splits)
  have typed: "\<forall>p \<in> set (pl_parts l). length (pp_attempt_id p) = 32" using assms(1) by (simp add: layout_typed_def)
  have "length (pl_parts l) \<le> (length (concat (map part_wire (pl_parts l)) @ s)) div 34"
    using length_parts_wire [OF typed] by (simp add: less_eq_div_iff_mult_less_eq)
  then have "\<not> (length (concat (map part_wire (pl_parts l)) @ s)) div 34 < length (pl_parts l)" by simp
  with assms k parts parts_read [OF typed] show ?thesis
    by (cases l) (simp add: decode_payload_layout_def layout_wire_def rw_varint.read_wire typed_string_wire
        layout_typed_def limits_typed_def rw_count.read_wire del: length_concat)
qed

lemma standalone_read:
  assumes "standalone_typed c" and "limits_typed limits"
    and "validate_exact_container (sc_object_id c) (sc_version_id c) (sc_keyring_envelope c) limits = Inr ()"
    and "validate_standalone_stream_container c limits = Inr ()"
  shows "decode_standalone_stream_container (standalone_wire c @ s) limits = Inr (c, s)"
proof -
  have "validate_payload_layout (sc_payload_layout c) limits = Inr ()"
    using assms(4) by (auto simp: validate_standalone_stream_container_def bindE_eq_Inr)
  with assms show ?thesis
    by (cases c) (simp add: decode_standalone_stream_container_def standalone_wire_def exact_read layout_read
        standalone_typed_def)
qed

subsection \<open>Projections\<close>

fun ns_proj :: "IndexMutation \<Rightarrow> NamespaceProjection" where
  "ns_proj (Upsert u) = NsUpsert (up_blind_key u) (up_namespace_key_id u) (up_generation u) (up_payload u)
     (up_content_len u) (up_modified_at_ms u) (up_retention u) (up_legal_hold u) (up_checksum u) (up_etag u)"
| "ns_proj (Tombstone t) = NsTombstone (tb_blind_key t) (tb_namespace_key_id t) (tb_generation t)"

fun ls_proj :: "IndexMutation \<Rightarrow> ListingProjection" where
  "ls_proj (Upsert u) = LsUpsert (up_path u) (up_generation u) (up_content_len u) (up_modified_at_ms u)"
| "ls_proj (Tombstone t) = LsTombstone (tb_path t) (tb_generation t)"

lemma pair_proj: "pair_projections (mutation_ordinal m) (ns_proj m) (ls_proj m) = Inr m"
  by (cases m) simp_all

lemma ns_proj_key [simp]: "ns_blind_key (ns_proj m) = mutation_blind_key m"
  by (cases m) simp_all

lemma ls_proj_path [simp]: "ls_path (ls_proj m) = mutation_path m"
  by (cases m) simp_all

lemma record_pointer_read: "decode_pack_record_pointer (record_pointer_wire p @ s) = Inr (p, s)"
  by (cases p) (simp add: decode_pack_record_pointer_def record_pointer_wire_def rw_u32.read_wire)

lemma pointer_read:
  assumes "validate_pointer_use run st p = Inr st'"
  shows "decode_payload_pointer (pointer_wire p @ s) (run_containers run) (run_self_pack run) (run_standalone run)
    = Inr (p, s)"
  using assms
  by (cases p) (auto simp: decode_payload_pointer_def validate_pointer_use_def bindE_eq_Inr record_pointer_read
      rw_u32.read_wire split: prod.splits if_splits)

lemma retention_read: "decode_retention (retention_wire r @ s) = Inr (r, s)"
proof (cases r)
  case (Some p)
  have "decode_retention_mode (retention_mode_tag (mode p)) = Inr (mode p)"
    by (cases "mode p") (simp_all add: decode_retention_mode_def)
  with Some show ?thesis
    by (cases p) (simp add: decode_retention_def rw_u32.read_wire RetentionPolicy_new_def)
qed (simp add: decode_retention_def)

lemma legal_hold_read: "decode_legal_hold (legal_hold_tag h # s) = Inr (h, s)"
  by (cases h rule: legal_hold_tag.cases) (simp_all add: decode_legal_hold_def)

lemma checksum_read:
  assumes "\<forall>c. x = Some c \<longrightarrow> valid_checksum c"
  shows "decode_checksum (checksum_wire x @ s) = Inr (x, s)"
proof (cases x)
  case (Some c)
  with assms have c: "valid_checksum c" by simp
  let ?n = "length (ObjectChecksum_encode c)"
  have n: "0 < ?n" "?n \<le> 48" using length_ObjectChecksum_encode [OF c] by simp_all
  then have "unat (of_nat ?n :: u8) = ?n" by (simp add: unat_u8_of_nat)
  moreover have "ObjectChecksum_encode c \<noteq> []" using n by auto
  ultimately show ?thesis using Some c n
    by (simp add: decode_checksum_def CHECKSUM_MAX_ENCODED_BYTES_def ObjectChecksum_decode_iff [THEN iffD2])
qed (simp add: decode_checksum_def)

lemma etag_read: "valid_etag e \<Longrightarrow> decode_etag (ObjectEtag_encode e @ s) = Inr (e, s)"
  by (simp add: decode_etag_def ETAG_ENCODED_BYTES_def length_ObjectEtag_encode ObjectEtag_decode_iff [THEN iffD2])

lemma key_index_nth: "k \<in> set ids \<Longrightarrow> key_index ids k < length ids \<and> ids ! key_index ids k = k"
  unfolding key_index_def by (induction ids) auto

lemma key_read:
  assumes "k \<in> set ids" and "length ids \<le> 2 ^ 32"
  shows "decode_namespace_key_reference (count_wire (key_index ids k) @ s) ids
    = Inr ((of_nat (key_index ids k), k), s)"
proof -
  let ?i = "key_index ids k"
  have i: "?i < length ids" "ids ! ?i = k" using key_index_nth [OF assms(1)] by simp_all
  have u: "unat (of_nat ?i :: u32) = ?i" using i(1) assms(2) by (intro unat_of_nat_small) simp
  have "unat (ucast (of_nat ?i :: u32) :: u64) = unat (of_nat ?i :: u64)"
    using i(1) assms(2) by (simp add: unat_ucast_up u) (simp add: unat_of_nat_small)
  then have "count_wire ?i = u32_wire (of_nat ?i)"
    unfolding count_wire_def u32_wire_def varint_wire_def by simp
  with i u show ?thesis by (simp add: decode_namespace_key_reference_def rw_u32.read_wire)
qed

lemma ns_body_read:
  assumes "mutation_typed m" and "mutation_namespace_key_id m \<in> set ids" and "length ids \<le> 2 ^ 32"
    and "validate_mutation run limits st (i, m) = Inr st'"
  shows "decode_namespace_projection (ns_body_wire ids m) ids (run_containers run) (run_self_pack run) (run_standalone run)
    = Inr ((ns_proj m, of_nat (key_index ids (mutation_namespace_key_id m))), [])"
proof (cases m)
  case (Upsert u)
  have p: "validate_empty_payload (up_payload u) (up_content_len u) = Inr ()"
    "validate_payload_pointer (up_payload u) (up_content_len u) (run_self_pack run) (run_containers run) (run_standalone run) = Inr ()"
    "validate_pointer_use run st (up_payload u) = Inr st'"
    using assms(4) Upsert by (auto simp: validate_mutation_def bindE_eq_Inr split: if_splits)
  show ?thesis
    using assms(1-3) p Upsert etag_read [of "up_etag u" "[]"]
    by (simp add: decode_namespace_projection_def decode_blind_key_def key_read rw_varint.read_wire
        pointer_read [OF p(3)] rw_i64.read_wire retention_read legal_hold_read checksum_read)
next
  case (Tombstone t)
  then show ?thesis
    using assms(1-3) rw_varint.read_wire [of "tb_generation t" "[]"]
    by (simp add: decode_namespace_projection_def decode_blind_key_def key_read)
qed

lemma ls_body_read: "decode_listing_projection (ls_body_wire m) (mutation_path m) = Inr (ls_proj m, [])"
proof (cases m)
  case (Upsert u)
  then show ?thesis using rw_i64.read_wire [of "up_modified_at_ms u" "[]"]
    by (simp add: decode_listing_projection_def rw_varint.read_wire)
next
  case (Tombstone t)
  then show ?thesis using rw_varint.read_wire [of "tb_generation t" "[]"]
    by (simp add: decode_listing_projection_def)
qed

subsection \<open>Compressed paths\<close>

definition path_wire :: "bytes \<Rightarrow> bytes \<Rightarrow> bytes" where
  "path_wire previous path = (let n = shared_prefix_len previous path in
     count_wire n @ count_wire (length path - n) @ drop n path)"

lemma shared_prefix_le: "shared_prefix_len a b \<le> length a \<and> shared_prefix_len a b \<le> length b"
  using length_takeWhile_le [of "\<lambda>(a, b). a = b" "zip a b"] by (simp add: shared_prefix_len_def)

lemma shared_prefix_take: "take (shared_prefix_len a b) a = take (shared_prefix_len a b) b"
  unfolding shared_prefix_len_def by (induction a b rule: list_induct2') auto

lemma shared_prefix_longest:
  "shared_prefix_len a b < length a \<Longrightarrow> shared_prefix_len a b < length b \<Longrightarrow>
   a ! shared_prefix_len a b \<noteq> b ! shared_prefix_len a b"
  unfolding shared_prefix_len_def by (induction a b rule: list_induct2') auto

lemma path_read:
  assumes "valid_name path" and "length path \<le> max_path_bytes limits" and "limits_typed limits"
  shows "decode_listing_path (path_wire previous path @ s) previous limits = Inr (path, s)"
proof -
  let ?n = "shared_prefix_len previous path"
  have n: "?n \<le> length previous" "?n \<le> length path" using shared_prefix_le [of previous path] by simp_all
  have lim: "length path < 2 ^ 64" using assms(2,3) by (simp add: limits_typed_def)
  have whole: "take ?n previous @ drop ?n path = path" using shared_prefix_take [of previous path] by simp
  have "drop ?n path \<noteq> [] \<Longrightarrow> hd (drop ?n path) = path ! ?n" by (simp add: hd_drop_conv_nth)
  then have longest: "\<not> (?n < length previous \<and> drop ?n path \<noteq> [] \<and> previous ! ?n = hd (drop ?n path))"
    using shared_prefix_longest [of previous path] by auto
  have name: "from_utf8_ok path" "LogicalPath_new path = Inr path"
    using assms(1) by (auto simp: valid_name_def LogicalPath_new_iff)
  have "rd_bytes (drop ?n path @ s) (length path - ?n) = Inr (drop ?n path, s)" by simp
  moreover have "rd_bounded_count ''logical path'' (max_path_bytes limits) (count_wire (length path - ?n) @ t)
      = Inr (length path - ?n, t)" for t
    using assms(2) lim by (intro rw_count.read_wire) linarith
  ultimately show ?thesis using n lim whole longest name assms(2)
    by (simp add: decode_listing_path_def path_wire_def Let_def rw_count.read_wire usize_add_def
        del: rd_bytes_append drop_eq_Nil)
qed

end
