(* ===== verification/RunFrames.thy ===== *)
theory RunFrames
  imports RunFields
begin

text \<open>
  Frames of an index run: the header and the record images of one frame, how the packing loop
  cuts the records of a role into consecutive groups, and how the decoder walks the frames of a
  role when each group is decoded as it should be.
\<close>

section \<open>Frame headers\<close>

fun self_wire :: "IndexRunSelfPayload \<Rightarrow> bytes" where
  "self_wire None = [0]"
| "self_wire (Some p) = [1] @ sp_pack_id p @ sp_attempt_id p @ record_wire (sp_content_key_id p) @
     u64_to_be_bytes (sp_stored_len p) @ u32_wire (sp_record_count p)"

definition header_wire :: "FrameEncodingFacts \<Rightarrow> bytes" where
  "header_wire f = INDEX_RUN_PLAINTEXT_DOMAIN @ u16_to_be_bytes INDEX_RUN_WIRE_VERSION @
     [frame_role_tag (ff_role f)] @ u32_wire (ff_role_ordinal f) @ u64_to_be_bytes (ff_sequence f) @
     u32_wire (ff_mutation_count f) @ count_wire (ff_role_record_count f) @ count_wire (ff_frame_record_count f) @
     (if ff_role f = Metadata then self_wire (ff_self_payload f) @ count_wire (ff_namespace_key_count f) else [])"

lemma emits_self [emits_intros]: "emits w (encode_self_payload w p) (self_wire p)"
  unfolding encode_self_payload_def
  by (cases p) (simp_all only: option.case self_wire.simps, (intro emits_intros)+)

lemma emits_header_tail [emits_intros]:
  "emits w (if c then bindE (encode_self_payload w p) (\<lambda>w. bindE (usize_to_u64 n) (Writer_varint w)) else Inr w)
     (if c then self_wire p @ count_wire n else [])"
  by (cases c) (simp_all only: if_True if_False emits_ret, intro emits_intros)

lemma emits_header: "emits w (encode_frame_header w f) (header_wire f)"
  unfolding encode_frame_header_def header_wire_def by (intro emits_intros)

definition header_of :: "FrameEncodingFacts \<Rightarrow> DecodedFrameHeader" where
  "header_of f = \<lparr>dh_role = ff_role f, dh_role_ordinal = ff_role_ordinal f, dh_sequence = ff_sequence f,
     dh_mutation_count = ff_mutation_count f, dh_role_record_count = ff_role_record_count f,
     dh_frame_record_count = ff_frame_record_count f,
     dh_self_pack = (if ff_role f = Metadata then Some (ff_self_payload f) else None),
     dh_namespace_key_count = (if ff_role f = Metadata then Some (ff_namespace_key_count f) else None)\<rparr>"

definition role_limit :: "IndexRunLimits \<Rightarrow> IndexRunFrameRole \<Rightarrow> nat" where
  "role_limit limits role = (if role = Metadata then max_containers limits + max_mutations limits + 1
     else max_mutations limits)"

definition header_fits :: "IndexRunLimits \<Rightarrow> FrameEncodingFacts \<Rightarrow> bool" where
  "header_fits limits f \<longleftrightarrow> ff_role_record_count f \<le> role_limit limits (ff_role f) \<and>
     ff_frame_record_count f \<le> role_limit limits (ff_role f) \<and> ff_namespace_key_count f \<le> max_mutations limits \<and>
     (\<forall>p. ff_self_payload f = Some p \<longrightarrow> self_pack_typed p \<and> validate_self_pack (Some p) limits = Inr ())"

lemma self_read:
  assumes "\<forall>p. self = Some p \<longrightarrow> self_pack_typed p \<and> validate_self_pack (Some p) limits = Inr ()"
    and "limits_typed limits"
  shows "decode_self_payload limits (self_wire self @ s) = Inr (self, s)"
proof (cases self)
  case (Some p)
  have "length (sp_content_key_id p) \<le> max_key_id_bytes limits"
    using assms Some by (auto simp: validate_self_pack_def bindE_eq_Inr)
  with Some assms show ?thesis
    by (cases p) (simp add: decode_self_payload_def decode_attempt_id_def self_pack_typed_def typed_string_wire
        rw_u64.read_wire rw_u32.read_wire limits_typed_def)
qed (simp add: decode_self_payload_def)

lemma header_read:
  assumes "header_fits limits f" and "limits_typed limits"
  shows "decode_frame_header (header_wire f @ s) limits = Inr (header_of f, s)"
proof -
  let ?role = "ff_role f"
  have "role_limit limits ?role < 2 ^ 64" using assms(2) by (simp add: role_limit_def limits_typed_def)
  with assms(1) have counts: "ff_role_record_count f < 2 ^ 64" "ff_frame_record_count f < 2 ^ 64"
    by (auto simp: header_fits_def)
  have ns: "ff_namespace_key_count f \<le> max_mutations limits" "ff_namespace_key_count f < 2 ^ 64"
    using assms by (auto simp: header_fits_def limits_typed_def)
  have self: "decode_self_payload limits (self_wire (ff_self_payload f) @ t) = Inr (ff_self_payload f, t)" for t
    using assms by (intro self_read) (simp_all add: header_fits_def)
  note read = decode_frame_header_def header_wire_def header_of_def decode_frame_role_def rw_u16.read_wire
    rw_u64.read_wire rw_u32.read_wire rw_count.read_wire self
  show ?thesis
    using assms counts ns by (cases ?role) (simp_all add: read header_fits_def role_limit_def
      usize_add_def limits_typed_def)
qed

section \<open>Records in a frame\<close>

definition record_image :: "bytes \<Rightarrow> PreparedRecord \<Rightarrow> bytes" where
  "record_image previous rec =
     (case listing_path rec of None \<Rightarrow> pr_bytes rec | Some path \<Rightarrow> path_wire previous path @ pr_bytes rec)"

fun records_image :: "bytes \<Rightarrow> PreparedRecord list \<Rightarrow> bytes list" where
  "records_image previous [] = []"
| "records_image previous (rec # recs) = record_image previous rec # records_image (listing_path_or_default rec) recs"

definition body_image :: "PreparedRecord list \<Rightarrow> bytes" where
  "body_image g = concat (map record_wire (records_image [] g))"

lemma length_records_image [simp]: "length (records_image p g) = length g"
  by (induction g arbitrary: p) simp_all

lemma emits_prepared: "emits w (PreparedRecord_encode rec w previous) (record_image previous rec)"
proof (cases "listing_path rec")
  case None
  then show ?thesis unfolding PreparedRecord_encode_def record_image_def
    by (simp add: emits_prims)
next
  case (Some path)
  show ?thesis
    unfolding PreparedRecord_encode_def record_image_def Some option.case path_wire_def Let_def
    by (intro emits_intros)
qed

definition record_max :: "IndexRunLimits \<Rightarrow> IndexRunFrameRole \<Rightarrow> nat" where
  "record_max limits role = (if role = Metadata
     then max (min STANDALONE_CONTAINER_MAX_BYTES (max_frame_bytes limits)) (max_record_bytes limits)
     else max_record_bytes limits)"

lemma record_limit_max: "record_limit role tag limits \<le> record_max limits role"
  by (simp add: record_limit_def record_max_def)

lemma encode_frame_record_Inr:
  "encode_frame_record role limits (w, previous) rec = Inr st \<longleftrightarrow>
   (\<exists>e v. PreparedRecord_encode rec (Writer_new (record_limit role (first_byte (pr_bytes rec)) limits)) previous = Inr e \<and>
     Writer_record w e = Inr v \<and> st = (v, listing_path_or_default rec))"
  by (auto simp: encode_frame_record_def bindE_eq_Inr)

lemma encode_frame_records:
  assumes "foldE (encode_frame_record role limits) (w, previous) g = Inr (w', p')" and "writer_ok w"
  shows "appends w w' (concat (map record_wire (records_image previous g))) \<and>
    (\<forall>b \<in> set (records_image previous g). length b \<le> record_max limits role \<and> length b < 2 ^ 64)"
  using assms
proof (induction g arbitrary: w previous)
  case Nil
  then show ?case by (simp add: appends_def writer_ok_def)
next
  case (Cons rec g)
  then obtain e v where e: "PreparedRecord_encode rec (Writer_new (record_limit role (first_byte (pr_bytes rec)) limits)) previous = Inr e"
    and v: "Writer_record w e = Inr v"
    and rest: "foldE (encode_frame_record role limits) (v, listing_path_or_default rec) g = Inr (w', p')"
    by (auto simp: encode_frame_record_Inr elim!: bindE_elim)
  from emits_new [OF emits_prepared e] have img: "wbytes e = record_image previous rec"
    "length (record_image previous rec) \<le> record_limit role (first_byte (pr_bytes rec)) limits"
    "length (record_image previous rec) < 2 ^ 64" by simp_all
  from Writer_record_appends [OF v] img have a: "appends w v (record_wire (record_image previous rec))" by simp
  from Cons.IH [OF rest appends_ok [OF a]] appends_trans [OF a] img
    order_trans [OF img(2) record_limit_max] show ?case by auto
qed

definition frame_image :: "FrameEncodingFacts \<Rightarrow> PreparedRecord list \<Rightarrow> bytes" where
  "frame_image facts g = header_wire facts @ body_image g"

definition records_fit :: "IndexRunLimits \<Rightarrow> IndexRunFrameRole \<Rightarrow> PreparedRecord list \<Rightarrow> bool" where
  "records_fit limits role g \<longleftrightarrow>
     (\<forall>b \<in> set (records_image [] g). length b \<le> record_max limits role \<and> length b < 2 ^ 64)"

definition group_fits :: "IndexRunLimits \<Rightarrow> FrameEncodingFacts \<Rightarrow> PreparedRecord list \<Rightarrow> bool" where
  "group_fits limits facts g \<longleftrightarrow> length (frame_image facts g) \<le> max_frame_bytes limits \<and>
     records_fit limits (ff_role facts) g"

lemma encode_frame_image:
  assumes "encode_frame facts limits g = Inr f"
  shows "ef_bytes f = frame_image facts g \<and> group_fits limits facts g"
proof -
  obtain w v p where w: "encode_frame_header (Writer_new (max_frame_bytes limits)) facts = Inr w"
    and v: "foldE (encode_frame_record (ff_role facts) limits) (w, []) g = Inr (v, p)"
    and f: "ef_bytes f = wbytes v"
    using assms by (auto simp: encode_frame_def bindE_eq_Inr Writer_finish_def split: if_splits)
  have aw: "appends (Writer_new (max_frame_bytes limits)) w (header_wire facts)"
    using emits_header [of "Writer_new (max_frame_bytes limits)" facts] w writer_ok_new by (simp add: emits_def)
  from encode_frame_records [OF v appends_ok [OF aw]]
  have av: "appends w v (body_image g)"
    and fit: "records_fit limits (ff_role facts) g"
    by (simp_all add: body_image_def records_fit_def)
  from appends_new [OF appends_trans [OF aw av]] f fit show ?thesis
    by (simp add: frame_image_def group_fits_def)
qed

section \<open>Groups\<close>

text \<open>The frames of one role: consecutive groups of its records, numbered from \<open>i\<close>.\<close>

definition group_facts :: "FrameEncodingFacts \<Rightarrow> nat \<Rightarrow> PreparedRecord list \<Rightarrow> FrameEncodingFacts" where
  "group_facts facts i g = facts\<lparr>ff_role_ordinal := of_nat i, ff_frame_record_count := length g\<rparr>"

fun groups_image :: "FrameEncodingFacts \<Rightarrow> nat \<Rightarrow> PreparedRecord list list \<Rightarrow> bytes list" where
  "groups_image facts i [] = []"
| "groups_image facts i (g # gs) = frame_image (group_facts facts i g) g # groups_image facts (Suc i) gs"

fun groups_fit :: "IndexRunLimits \<Rightarrow> FrameEncodingFacts \<Rightarrow> nat \<Rightarrow> PreparedRecord list list \<Rightarrow> bool" where
  "groups_fit limits facts i [] \<longleftrightarrow> True"
| "groups_fit limits facts i (g # gs) \<longleftrightarrow> i < 2 ^ 32 \<and> group_fits limits (group_facts facts i g) g \<and>
     groups_fit limits facts (Suc i) gs"

lemma pack_loop_groups:
  "pack_loop facts limits i recs = Inr frames \<Longrightarrow>
   \<exists>gs. gs \<noteq> [] \<and> concat gs = recs \<and> map ef_bytes frames = groups_image facts i gs \<and> groups_fit limits facts i gs \<and>
     (recs = [] \<and> gs = [[]] \<or> [] \<notin> set gs)"
proof (induction facts limits i recs arbitrary: frames rule: pack_loop.induct)
  case (1 facts limits i recs)
  from 1(2) obtain n f where i: "i < 2 ^ 32"
    and n: "pack_scan (\<lambda>n. frame_header_len (ff_role facts) (of_nat i) (ff_mutation_count facts)
          (ff_role_record_count facts) n (ff_self_payload facts) (ff_namespace_key_count facts)) limits recs 0 0 [] = Inr n"
    and ne: "\<not> (n = 0 \<and> recs \<noteq> [])"
    and f: "encode_frame (facts\<lparr>ff_role_ordinal := of_nat i, ff_frame_record_count := n\<rparr>) limits (take n recs) = Inr f"
    and rest: "n = length recs \<and> frames = [f] \<or>
      n \<noteq> length recs \<and> (\<exists>fs. pack_loop facts limits (i + 1) (drop n recs) = Inr fs \<and> frames = f # fs)"
    by (subst (asm) pack_loop.simps) (auto simp: bindE_eq_Inr split: if_splits)
  have "n \<le> length recs" using pack_scan_bounds [OF n] by simp
  then have gf: "group_facts facts i (take n recs) = facts\<lparr>ff_role_ordinal := of_nat i, ff_frame_record_count := n\<rparr>"
    by (simp add: group_facts_def)
  have img: "ef_bytes f = frame_image (group_facts facts i (take n recs)) (take n recs)"
    "group_fits limits (group_facts facts i (take n recs)) (take n recs)"
    using encode_frame_image [OF f] unfolding gf by simp_all
  show ?case
  proof (cases "n = length recs")
    case True
    then show ?thesis using rest img i by (intro exI [of _ "[recs]"]) auto
  next
    case False
    then obtain fs where fs: "pack_loop facts limits (i + 1) (drop n recs) = Inr fs" and frames: "frames = f # fs"
      using rest by blast
    have "\<exists>gs. gs \<noteq> [] \<and> concat gs = drop n recs \<and> map ef_bytes fs = groups_image facts (i + 1) gs \<and>
        groups_fit limits facts (i + 1) gs \<and> (drop n recs = [] \<and> gs = [[]] \<or> [] \<notin> set gs)"
      using i by (intro 1(1) [OF _ n ne f False fs]) simp
    then obtain gs where "concat gs = drop n recs" "map ef_bytes fs = groups_image facts (Suc i) gs"
      "groups_fit limits facts (Suc i) gs" "[] \<notin> set gs" using False \<open>n \<le> length recs\<close> by auto
    moreover have "n \<noteq> 0" "recs \<noteq> []" using ne False \<open>n \<le> length recs\<close> by auto
    ultimately show ?thesis using img i frames by (intro exI [of _ "take n recs # gs"]) simp
  qed
qed

lemma length_groups: "[] \<notin> set gs \<Longrightarrow> length gs \<le> length (concat gs)"
proof (induction gs)
  case (Cons g gs)
  then have "0 < length g" by auto
  with Cons show ?case by (simp del: length_greater_0_conv)
qed simp

section \<open>Walking the frames of a role\<close>

lemma loop_records:
  assumes "\<And>st rec st' r. rec \<in> set recs \<Longrightarrow> step st rec = Inr st' \<Longrightarrow> body (st, record_wire rec @ r) = Inr (st', r)"
    and "foldE step st recs = Inr st'"
  shows "loopE (length recs) body (st, concat (map record_wire recs) @ s) = Inr (st', s)"
  using assms by (induction recs arbitrary: st) (auto elim!: bindE_elim)

definition role_decode ::
  "IndexRunLimits \<Rightarrow> DecodedFrameHeader \<Rightarrow> IndexRunFrameDecoder \<times> RunReader \<Rightarrow> (IndexRunFrameDecoder \<times> RunReader) run_result" where
  "role_decode limits header = (case dh_role header of
     Metadata \<Rightarrow> decode_metadata header limits | Namespace \<Rightarrow> decode_namespace header limits
   | Listing \<Rightarrow> decode_listing header limits)"

definition decodes ::
  "IndexRunLimits \<Rightarrow> FrameEncodingFacts \<Rightarrow> IndexRunFrameDecoder \<Rightarrow> PreparedRecord list \<Rightarrow> IndexRunFrameDecoder \<Rightarrow> bool" where
  "decodes limits facts d g d' \<longleftrightarrow> records_fit limits (ff_role facts) g \<longrightarrow>
     (\<forall>i. role_decode limits (header_of (group_facts facts i g)) (d, body_image g) = Inr (d', []))"

definition at_frame ::
  "FrameEncodingFacts \<Rightarrow> IndexRunFrameDecoder \<Rightarrow> nat option \<Rightarrow> nat \<Rightarrow> nat \<Rightarrow> FrameLoop" where
  "at_frame facts d mt i seen = \<lparr>fl_decoder = d, fl_metadata_total = mt, fl_sequence = Some (ff_sequence facts),
     fl_mutation_count = Some (ff_mutation_count facts), fl_expected_role = ff_role facts,
     fl_expected_role_ordinal = of_nat i, fl_role_total = Some (ff_role_record_count facts), fl_role_seen = seen\<rparr>"

definition enters :: "IndexRunLimits \<Rightarrow> FrameEncodingFacts \<Rightarrow> FrameLoop \<Rightarrow> nat \<Rightarrow> nat \<Rightarrow> FrameLoop \<Rightarrow> bool" where
  "enters limits facts st i n st' \<longleftrightarrow> (\<forall>g. length g = n \<longrightarrow>
     bindE (frame_enter_role (header_of (group_facts facts i g)) st)
       (frame_same_facts (header_of (group_facts facts i g)) limits) = Inr st')"

lemma header_of_group [simp]:
  "dh_role (header_of (group_facts facts i g)) = ff_role facts"
  "dh_role_ordinal (header_of (group_facts facts i g)) = of_nat i"
  "dh_sequence (header_of (group_facts facts i g)) = ff_sequence facts"
  "dh_mutation_count (header_of (group_facts facts i g)) = ff_mutation_count facts"
  "dh_role_record_count (header_of (group_facts facts i g)) = ff_role_record_count facts"
  "dh_frame_record_count (header_of (group_facts facts i g)) = length g"
  "dh_self_pack (header_of (group_facts facts i g)) = (if ff_role facts = Metadata then Some (ff_self_payload facts) else None)"
  "dh_namespace_key_count (header_of (group_facts facts i g)) =
     (if ff_role facts = Metadata then Some (ff_namespace_key_count facts) else None)"
  by (simp_all add: header_of_def group_facts_def)

lemma ordinal_next:
  assumes "Suc i < 2 ^ 32"
  shows "checked_add (of_nat i :: u32) 1 = Some (of_nat (Suc i))"
proof -
  have "unat (of_nat i :: u32) = i" "unat (of_nat (Suc i) :: u32) = Suc i"
    using assms by (intro unat_of_nat_small; simp)+
  then show ?thesis by (simp only: checked_add_Some) simp
qed

lemma enters_next:
  assumes "Suc i < 2 ^ 32" and "seen + n \<le> ff_role_record_count facts" and "ff_role_record_count facts < 2 ^ 64"
  shows "enters limits facts (at_frame facts d mt i seen) i n (at_frame facts d mt (Suc i) (seen + n))"
  using assms ordinal_next [OF assms(1)]
  by (simp add: enters_def frame_enter_role_def frame_same_facts_def at_frame_def usize_add_def del: of_nat_Suc)

lemma enters_role:
  assumes "frame_role_tag (ff_role facts) = frame_role_tag (ff_role prev) + 1" and "n \<le> ff_role_record_count facts"
    and "ff_role_record_count facts < 2 ^ 64" and "ff_sequence facts = ff_sequence prev"
    and "ff_mutation_count facts = ff_mutation_count prev" and "seen = ff_role_record_count prev"
  shows "enters limits facts (at_frame prev d mt j seen) 0 n (at_frame facts d mt 1 n)"
proof -
  have "ff_role facts \<noteq> ff_role prev" using assms(1) by (cases "ff_role prev") auto
  with assms ordinal_next [of 0] show ?thesis
    by (simp add: enters_def frame_enter_role_def frame_same_facts_def at_frame_def usize_add_def)
qed

lemma enters_init:
  assumes "ff_role facts = Metadata" and "n \<le> ff_role_record_count facts" and "ff_role_record_count facts < 2 ^ 64"
    and "unat (ff_mutation_count facts) \<le> max_mutations limits"
  shows "enters limits facts FrameLoop_init 0 n (at_frame facts IndexRunFrameDecoder_default None 1 n)"
  using assms ordinal_next [of 0]
  by (simp add: enters_def frame_enter_role_def frame_same_facts_def at_frame_def FrameLoop_init_def usize_add_def)

lemma frame_step:
  assumes "enters limits facts st i (length g) (at_frame facts d mt k seen)" and "decodes limits facts d g d'"
    and "header_fits limits (group_facts facts i g)" and "group_fits limits (group_facts facts i g) g"
    and "limits_typed limits" and "mt' = (if ff_role facts = Metadata then Some (ff_role_record_count facts) else mt)"
  shows "decode_frame limits st (frame_image (group_facts facts i g) g) = Inr (at_frame facts d' mt' k seen)"
proof -
  let ?h = "header_of (group_facts facts i g)"
  obtain st1 where st1: "frame_enter_role ?h st = Inr st1" "frame_same_facts ?h limits st1 = Inr (at_frame facts d mt k seen)"
    using assms(1) by (auto simp: enters_def elim!: bindE_elim)
  have d: "role_decode limits ?h (d, body_image g) = Inr (d', [])" using assms(2,4) by (simp add: decodes_def group_fits_def group_facts_def)
  have "decode_frame_records ?h limits (at_frame facts d mt k seen) (body_image g) = Inr (at_frame facts d' mt' k seen, [])"
    using d assms(6) by (cases "ff_role facts") (simp_all add: decode_frame_records_def role_decode_def at_frame_def Let_def)
  with st1 assms(3-5) show ?thesis
    by (simp add: decode_frame_def frame_image_def header_read group_fits_def)
qed

lemma frames_next:
  assumes walk: "\<And>xs g ys. recs = xs @ g @ ys \<Longrightarrow> decodes limits facts (E (length xs)) g (E (length xs + length g))"
    and facts: "limits_typed limits" "ff_role_record_count facts = length recs" "length recs \<le> role_limit limits (ff_role facts)"
      "ff_namespace_key_count facts \<le> max_mutations limits"
      "\<forall>p. ff_self_payload facts = Some p \<longrightarrow> self_pack_typed p \<and> validate_self_pack (Some p) limits = Inr ()"
    and mt: "mt = (if ff_role facts = Metadata then Some (length recs) else mt)"
    and "recs = xs @ concat gs" and "groups_fit limits facts i gs" and "i + length gs < 2 ^ 32"
  shows "foldE (decode_frame limits) (at_frame facts (E (length xs)) mt i (length xs)) (groups_image facts i gs)
    = Inr (at_frame facts (E (length recs)) mt (i + length gs) (length recs))"
  using assms(8-)
proof (induction gs arbitrary: xs i)
  case (Cons g gs)
  have rl: "role_limit limits (ff_role facts) < 2 ^ 32" using facts(1) by (simp add: role_limit_def limits_typed_def)
  have "decode_frame limits (at_frame facts (E (length xs)) mt i (length xs)) (frame_image (group_facts facts i g) g)
      = Inr (at_frame facts (E (length xs + length g)) mt (Suc i) (length xs + length g))"
  proof (rule frame_step [OF enters_next])
    show "decodes limits facts (E (length xs)) g (E (length xs + length g))" using Cons.prems(1) by (intro walk) simp
    show "header_fits limits (group_facts facts i g)"
      using facts Cons.prems(1) by (simp add: header_fits_def group_facts_def)
  qed (use facts mt Cons.prems rl in \<open>auto\<close>)
  with Cons.IH [of "xs @ g" "Suc i"] Cons.prems show ?case by simp
qed simp

lemma role_frames:
  assumes "\<And>n. n \<le> length recs \<Longrightarrow> enters limits facts st 0 n (at_frame facts d mt 1 n)"
    and first: "\<And>g ys. recs = g @ ys \<Longrightarrow> decodes limits facts d g (E (length g))"
    and walk: "\<And>xs g ys. recs = xs @ g @ ys \<Longrightarrow> decodes limits facts (E (length xs)) g (E (length xs + length g))"
    and facts: "limits_typed limits" "ff_role_record_count facts = length recs" "length recs \<le> role_limit limits (ff_role facts)"
      "ff_namespace_key_count facts \<le> max_mutations limits"
      "\<forall>p. ff_self_payload facts = Some p \<longrightarrow> self_pack_typed p \<and> validate_self_pack (Some p) limits = Inr ()"
    and mt: "mt' = (if ff_role facts = Metadata then Some (length recs) else mt)"
    and gs: "gs \<noteq> []" "concat gs = recs" "groups_fit limits facts 0 gs" "recs = [] \<and> gs = [[]] \<or> [] \<notin> set gs"
  shows "foldE (decode_frame limits) st (groups_image facts 0 gs)
    = Inr (at_frame facts (E (length recs)) mt' (length gs) (length recs))"
proof -
  obtain g hs where g: "gs = g # hs" using gs(1) by (cases gs) auto
  have rl: "role_limit limits (ff_role facts) < 2 ^ 32" using facts(1) by (simp add: role_limit_def limits_typed_def)
  have "length gs \<le> max 1 (length recs)" using gs(2,4) length_groups [of gs] by auto
  with rl facts(3) have len: "length gs < 2 ^ 32" by (simp add: max_def split: if_splits)
  have fits: "header_fits limits (group_facts facts 0 g)"
    using facts gs(2) g by (auto simp: header_fits_def group_facts_def)
  have "decode_frame limits st (frame_image (group_facts facts 0 g) g)
      = Inr (at_frame facts (E (length g)) mt' 1 (length g))"
    by (rule frame_step [OF assms(1) first [of g "concat hs"] fits])
      (use gs g facts mt in \<open>auto\<close>)
  moreover have "foldE (decode_frame limits) (at_frame facts (E (length g)) mt' 1 (length g)) (groups_image facts 1 hs)
      = Inr (at_frame facts (E (length recs)) mt' (1 + length hs) (length recs))"
    by (rule frames_next [OF walk facts]) (use mt gs g len in \<open>auto\<close>)
  ultimately show ?thesis using g by simp
qed

end
