(* ===== verification/RunTables.thy ===== *)
theory RunTables
  imports RunFrames
begin

text \<open>
  The tables of an index run. For each role, the records that the encoder writes take the
  decoder from the state before the role to the state after it, whatever the frame boundaries.
\<close>

definition run_typed :: "IndexRun \<Rightarrow> bool" where
  "run_typed run \<longleftrightarrow> (\<forall>p. run_self_pack run = Some p \<longrightarrow> self_pack_typed p) \<and>
     (\<forall>c \<in> set (run_containers run). container_typed c) \<and> (\<forall>c \<in> set (run_standalone run). standalone_typed c) \<and>
     (\<forall>m \<in> set (run_mutations run). mutation_typed m) \<and>
     (\<forall>r. run_completion_receipt run = Some r \<longrightarrow> receipt_typed r)"

section \<open>Folds\<close>

lemma foldE_prefix:
  "foldE f s (xs @ ys) = Inr t \<Longrightarrow> \<exists>u. foldE f s xs = Inr u \<and> foldE f u ys = Inr t"
  by (auto simp: foldE_append bindE_eq_Inr)

text \<open>The state that a successful loop has reached after its first turns.\<close>

definition after :: "('s \<Rightarrow> 'a \<Rightarrow> 'e + 's) \<Rightarrow> 's \<Rightarrow> 'a list \<Rightarrow> nat \<Rightarrow> 's" where
  "after f s xs k = (case foldE f s (take k xs) of Inr u \<Rightarrow> u | Inl _ \<Rightarrow> s)"

lemma after_segment:
  assumes "foldE f s (xs @ g @ ys) = Inr t"
  shows "foldE f (after f s (xs @ g @ ys) (length xs)) g = Inr (after f s (xs @ g @ ys) (length xs + length g))"
proof -
  from foldE_prefix [OF assms] obtain u where u: "foldE f s xs = Inr u" "foldE f u (g @ ys) = Inr t" by blast
  from foldE_prefix [OF u(2)] obtain v where v: "foldE f u g = Inr v" by blast
  with u(1) have "foldE f s (xs @ g) = Inr v" by (simp add: foldE_append)
  with u(1) v show ?thesis by (simp add: after_def)
qed

lemma after_all: "foldE f s xs = Inr t \<Longrightarrow> after f s xs (length xs) = t"
  by (simp add: after_def)

lemma after_inv:
  assumes "foldE f s xs = Inr t" and "P s" and "\<And>u x v. P u \<Longrightarrow> f u x = Inr v \<Longrightarrow> P v"
  shows "P (after f s xs k)"
proof -
  from foldE_prefix [of f s "take k xs" "drop k xs"] assms(1) obtain u where "foldE f s (take k xs) = Inr u" by auto
  then show ?thesis using foldE_inv [of f s "take k xs" u P] assms(2,3) by (auto simp: after_def)
qed

lemma collectE_map:
  assumes "collectE f xs = Inr ys" and "\<And>x y. x \<in> set xs \<Longrightarrow> f x = Inr y \<Longrightarrow> y = g x \<and> P x"
  shows "ys = map g xs \<and> (\<forall>x \<in> set xs. P x)"
  using assms unfolding collectE_iff
proof (induction rule: list_all2_induct)
  case (Cons x xs y ys)
  then show ?case by force
qed simp

lemma last_opt_snoc [simp]: "last_opt (xs @ [x]) = Some x"
  by (simp add: last_opt_def)

lemma last_opt_Nil [simp]: "last_opt [] = None"
  by (simp add: last_opt_def)

section \<open>Metadata\<close>

lemma rd_finish_record_Nil [simp]: "rd_finish_record [] = Inr ()"
  by simp

definition meta_step :: "IndexRunLimits \<Rightarrow> IndexRunFrameDecoder \<Rightarrow> bytes \<Rightarrow> IndexRunFrameDecoder run_result" where
  "meta_step limits st rec =
     (if fd_completion_receipt st \<noteq> None then Inl InvalidContainerOrder else decode_metadata_body limits st rec)"

lemma record_limit_pack [simp]: "record_limit Metadata (first_byte (0 # b)) limits = max_record_bytes limits"
  "record_limit Metadata (first_byte (2 # b)) limits = min STANDALONE_CONTAINER_MAX_BYTES (max_frame_bytes limits)"
  "record_limit Metadata (first_byte (3 # b)) limits = max_record_bytes limits"
  "record_limit Metadata (first_byte (4 # b)) limits = max_record_bytes limits"
  by (simp_all add: record_limit_def first_byte_def)

lemma meta_packs:
  assumes "foldE (validate_container limits) (map_option ct_key (last_opt (fd_containers st))) cs = Inr q"
    and "length (fd_containers st @ cs) + length (fd_standalone st) \<le> max_containers limits"
    and "fd_completion_receipt st = None" "\<not> fd_saw_standalone st" "\<not> fd_saw_namespace_key_id st"
    and "\<forall>c \<in> set cs. container_typed c \<and> length ([0] @ container_wire c) \<le> max_record_bytes limits"
    and "limits_typed limits"
  shows "foldE (meta_step limits) st (map (\<lambda>c. [0] @ container_wire c) cs)
    = Inr (st\<lparr>fd_containers := fd_containers st @ cs\<rparr>)"
  using assms(1-6)
proof (induction cs arbitrary: st)
  case (Cons c cs)
  let ?st = "st\<lparr>fd_containers := fd_containers st @ [c]\<rparr>"
  from Cons.prems(1) obtain p where v: "validate_container limits (map_option ct_key (last_opt (fd_containers st))) c = Inr p"
    and rest: "foldE (validate_container limits) p cs = Inr q" by (auto elim!: bindE_elim)
  note c = container_exact [OF v]
  have "max_containers limits < 2 ^ 64" using assms(7) by (simp add: limits_typed_def)
  then have "validate_next_container_count (fd_containers st) (fd_standalone st) limits = Inr ()"
    using Cons.prems(2) by (simp add: validate_next_container_count_def usize_add_def)
  moreover have "decode_container (container_wire c) limits = Inr (c, [])"
    using container_read [of c limits "[]"] c Cons.prems(6) assms(7) by simp
  ultimately have "meta_step limits st ([0] @ container_wire c) = Inr ?st"
    using Cons.prems(3-6) c
    by (simp add: meta_step_def decode_metadata_body_def decode_metadata_pack_def)
  moreover have "foldE (meta_step limits) ?st (map (\<lambda>c. [0] @ container_wire c) cs)
      = Inr (?st\<lparr>fd_containers := fd_containers ?st @ cs\<rparr>)"
    using Cons.prems c rest by (intro Cons.IH) simp_all
  ultimately show ?case by simp
qed simp

lemma meta_streams:
  assumes "foldE (validate_standalone limits) (map_option sc_key (last_opt (fd_standalone st))) cs = Inr q"
    and "length (fd_containers st) + length (fd_standalone st @ cs) \<le> max_containers limits"
    and "fd_completion_receipt st = None" "\<not> fd_saw_namespace_key_id st"
    and "\<forall>c \<in> set cs. standalone_typed c \<and>
      length ([2] @ standalone_wire c) \<le> min STANDALONE_CONTAINER_MAX_BYTES (max_frame_bytes limits)"
    and "limits_typed limits"
  shows "foldE (meta_step limits) st (map (\<lambda>c. [2] @ standalone_wire c) cs)
    = Inr (st\<lparr>fd_standalone := fd_standalone st @ cs, fd_saw_standalone := fd_saw_standalone st \<or> cs \<noteq> []\<rparr>)"
  using assms(1-5)
proof (induction cs arbitrary: st)
  case (Cons c cs)
  let ?st = "st\<lparr>fd_standalone := fd_standalone st @ [c], fd_saw_standalone := True\<rparr>"
  from Cons.prems(1) obtain p where v: "validate_standalone limits (map_option sc_key (last_opt (fd_standalone st))) c = Inr p"
    and rest: "foldE (validate_standalone limits) p cs = Inr q" by (auto elim!: bindE_elim)
  from v have c: "validate_exact_container (sc_object_id c) (sc_version_id c) (sc_keyring_envelope c) limits = Inr ()"
    "validate_standalone_stream_container c limits = Inr ()" "p = Some (sc_key c)"
    "validate_container_order (map_option sc_key (last_opt (fd_standalone st))) (sc_key c) = Inr ()"
    by (auto simp: validate_standalone_def bindE_eq_Inr)
  have "max_containers limits < 2 ^ 64" using assms(6) by (simp add: limits_typed_def)
  then have "validate_next_container_count (fd_containers st) (fd_standalone st) limits = Inr ()"
    using Cons.prems(2) by (simp add: validate_next_container_count_def usize_add_def)
  moreover have "decode_standalone_stream_container (standalone_wire c) limits = Inr (c, [])"
    using standalone_read [of c limits "[]"] c Cons.prems(5) assms(6) by simp
  ultimately have "meta_step limits st ([2] @ standalone_wire c) = Inr ?st"
    using Cons.prems(3-5) c
    by (simp add: meta_step_def decode_metadata_body_def decode_metadata_standalone_def Let_def)
  moreover have "foldE (meta_step limits) ?st (map (\<lambda>c. [2] @ standalone_wire c) cs)
      = Inr (?st\<lparr>fd_standalone := fd_standalone ?st @ cs, fd_saw_standalone := fd_saw_standalone ?st \<or> cs \<noteq> []\<rparr>)"
    using Cons.prems c rest by (intro Cons.IH) simp_all
  ultimately show ?case by simp
qed simp

lemma meta_keys:
  assumes "sorted_wrt (<) (fd_namespace_key_ids st @ ks)"
    and "fd_declared_namespace_key_count st = Some n" "length (fd_namespace_key_ids st @ ks) \<le> n"
    and "fd_completion_receipt st = None"
    and "\<forall>k \<in> set ks. valid_name k \<and> length k \<le> max_key_id_bytes limits \<and> length ([3] @ record_wire k) \<le> max_record_bytes limits"
    and "limits_typed limits"
  shows "foldE (meta_step limits) st (map (\<lambda>k. [3] @ record_wire k) ks)
    = Inr (st\<lparr>fd_namespace_key_ids := fd_namespace_key_ids st @ ks,
        fd_saw_namespace_key_id := fd_saw_namespace_key_id st \<or> ks \<noteq> []\<rparr>)"
  using assms(1-5)
proof (induction ks arbitrary: st)
  case (Cons k ks)
  let ?ids = "fd_namespace_key_ids st"
  let ?st = "st\<lparr>fd_namespace_key_ids := ?ids @ [k], fd_saw_namespace_key_id := True\<rparr>"
  have "length k < 2 ^ 64" using Cons.prems(5) assms(6) by (auto simp: limits_typed_def)
  then have read: "rd_typed_string ''namespace key id'' (max_key_id_bytes limits) KeyId_new (record_wire k) = Inr (k, [])"
    using typed_string_wire [of KeyId_new k "max_key_id_bytes limits" "''namespace key id''" "[]"] Cons.prems(5) by simp
  have less: "last ?ids < k" if "?ids \<noteq> []" using Cons.prems(1) that by (simp add: sorted_wrt_append)
  have "meta_step limits st ([3] @ record_wire k) = Inr ?st"
  proof (cases "?ids = []")
    case True
    then show ?thesis using Cons.prems read
      by (simp add: meta_step_def decode_metadata_body_def decode_metadata_namespace_key_def Let_def)
  next
    case False
    with less have "last ?ids \<noteq> k" "\<not> k < last ?ids" by auto
    with False show ?thesis using Cons.prems read
      by (simp add: meta_step_def decode_metadata_body_def decode_metadata_namespace_key_def Let_def last_opt_def)
  qed
  moreover have "foldE (meta_step limits) ?st (map (\<lambda>k. [3] @ record_wire k) ks)
      = Inr (?st\<lparr>fd_namespace_key_ids := fd_namespace_key_ids ?st @ ks,
        fd_saw_namespace_key_id := fd_saw_namespace_key_id ?st \<or> ks \<noteq> []\<rparr>)"
    using Cons.prems by (intro Cons.IH) simp_all
  ultimately show ?case by simp
qed simp

lemma meta_receipt:
  assumes "CompletionReceipt_encode r = Inr bs" and "receipt_typed r" and "length ([4] @ bs) \<le> max_record_bytes limits"
    and "fd_completion_receipt st = None"
  shows "meta_step limits st ([4] @ bs) = Inr (st\<lparr>fd_completion_receipt := Some r\<rparr>)"
proof -
  have "CompletionReceipt_decode bs = Inr r" using assms(1,2) by (simp add: CompletionReceipt_decode_iff)
  with assms(3,4) show ?thesis
    by (simp add: meta_step_def decode_metadata_body_def decode_metadata_receipt_def)
qed

definition receipt_wires :: "IndexRun \<Rightarrow> bytes list" where
  "receipt_wires run = (case run_completion_receipt run of None \<Rightarrow> [] | Some r \<Rightarrow> [[4] @ receipt_wire r])"

definition meta_wires :: "IndexRun \<Rightarrow> bytes list" where
  "meta_wires run = map (\<lambda>c. [0] @ container_wire c) (run_containers run) @
     map (\<lambda>c. [2] @ standalone_wire c) (run_standalone run) @
     map (\<lambda>k. [3] @ record_wire k) (run_namespace_key_ids run) @ receipt_wires run"

definition meta_prepared :: "bytes \<Rightarrow> PreparedRecord" where
  "meta_prepared b = \<lparr>pr_bytes = b, pr_bound = None\<rparr>"

definition meta_fits :: "IndexRunLimits \<Rightarrow> IndexRun \<Rightarrow> bool" where
  "meta_fits limits run \<longleftrightarrow>
     (\<forall>c \<in> set (run_containers run). length ([0] @ container_wire c) \<le> max_record_bytes limits) \<and>
     (\<forall>c \<in> set (run_standalone run).
        length ([2] @ standalone_wire c) \<le> min STANDALONE_CONTAINER_MAX_BYTES (max_frame_bytes limits)) \<and>
     (\<forall>k \<in> set (run_namespace_key_ids run). length ([3] @ record_wire k) \<le> max_record_bytes limits) \<and>
     (\<forall>b \<in> set (receipt_wires run). length b \<le> max_record_bytes limits)"

lemma encode_metadata_wires:
  assumes "encode_metadata_records run limits = Inr recs" and "run_typed run"
  shows "recs = map meta_prepared (meta_wires run) \<and> meta_fits limits run"
proof -
  from assms(1) obtain ps ss ks rs where
    ps: "collectE (encode_container_record limits) (run_containers run) = Inr ps" and
    ss: "collectE (encode_standalone_record limits) (run_standalone run) = Inr ss" and
    ks: "collectE (encode_namespace_key_record limits) (run_namespace_key_ids run) = Inr ks" and
    rs: "(case run_completion_receipt run of None \<Rightarrow> Inr []
            | Some receipt \<Rightarrow> bindE (encode_receipt_record limits receipt) (\<lambda>r. Inr [r])) = Inr rs" and
    recs: "recs = ps @ ss @ ks @ rs"
    by (auto simp: encode_metadata_records_def elim!: bindE_elim)
  have P: "ps = map (\<lambda>c. meta_prepared ([0] @ container_wire c)) (run_containers run) \<and>
      (\<forall>c \<in> set (run_containers run). length ([0] @ container_wire c) \<le> max_record_bytes limits)"
    by (rule collectE_map [OF ps]) (auto simp: meta_prepared_def dest!: encode_container_wire)
  have S: "ss = map (\<lambda>c. meta_prepared ([2] @ standalone_wire c)) (run_standalone run) \<and>
      (\<forall>c \<in> set (run_standalone run).
        length ([2] @ standalone_wire c) \<le> min STANDALONE_CONTAINER_MAX_BYTES (max_frame_bytes limits))"
    by (rule collectE_map [OF ss]) (auto simp: meta_prepared_def dest!: encode_standalone_wire)
  have K: "ks = map (\<lambda>k. meta_prepared ([3] @ record_wire k)) (run_namespace_key_ids run) \<and>
      (\<forall>k \<in> set (run_namespace_key_ids run). length ([3] @ record_wire k) \<le> max_record_bytes limits)"
    by (rule collectE_map [OF ks]) (auto simp: meta_prepared_def dest!: encode_namespace_key_wire)
  have R: "rs = map meta_prepared (receipt_wires run) \<and> (\<forall>b \<in> set (receipt_wires run). length b \<le> max_record_bytes limits)"
  proof (cases "run_completion_receipt run")
    case None
    with rs show ?thesis by (simp add: receipt_wires_def)
  next
    case (Some r)
    with assms(2) have t: "receipt_typed r" by (simp add: run_typed_def)
    from rs Some obtain e where e: "encode_receipt_record limits r = Inr e" and rse: "rs = [e]"
      by (auto elim!: bindE_elim)
    from encode_receipt_wire [OF e] receipt_encode_total [OF t] rse Some show ?thesis
      by (auto simp: receipt_wires_def meta_prepared_def bindE_eq_Inr)
  qed
  from P S K R recs show ?thesis by (auto simp: meta_wires_def meta_fits_def comp_def)
qed

definition meta_start :: "IndexRun \<Rightarrow> IndexRunFrameDecoder" where
  "meta_start run = IndexRunFrameDecoder_default\<lparr>fd_self_pack := run_self_pack run, fd_saw_self_payload_fact := True,
     fd_declared_namespace_key_count := Some (length (run_namespace_key_ids run))\<rparr>"

definition meta_final :: "IndexRun \<Rightarrow> IndexRunFrameDecoder" where
  "meta_final run = (meta_start run)\<lparr>fd_containers := run_containers run, fd_standalone := run_standalone run,
     fd_namespace_key_ids := run_namespace_key_ids run, fd_saw_standalone := run_standalone run \<noteq> [],
     fd_saw_namespace_key_id := run_namespace_key_ids run \<noteq> [], fd_completion_receipt := run_completion_receipt run\<rparr>"

lemma encode_validate_facts:
  assumes "encode_validate run limits = Inr u"
  shows "length (run_containers run) + length (run_standalone run) \<le> max_containers limits \<and>
    length (run_mutations run) \<le> max_mutations limits \<and> validate_self_pack (run_self_pack run) limits = Inr () \<and>
    validate_containers (run_containers run) limits = Inr () \<and>
    validate_standalone_stream_containers (run_standalone run) limits = Inr () \<and>
    validate_distinct_container_objects (run_containers run) (run_standalone run) = Inr () \<and>
    validate_mutations run limits = Inr () \<and>
    length (run_namespace_key_ids run) \<le> max_mutations limits"
  using assms by (auto simp: encode_validate_def elim!: bindE_elim)

lemma run_key_ids_set: "set (run_namespace_key_ids run) = mutation_namespace_key_id ` set (run_mutations run)"
  by (simp add: run_namespace_key_ids_def)

lemma run_key_ids_sorted: "sorted_wrt (<) (run_namespace_key_ids run)"
  unfolding run_namespace_key_ids_def by (rule strict_sorted_list_of_set)

lemma run_key_ids_length: "length (run_namespace_key_ids run) \<le> length (run_mutations run)"
  unfolding run_namespace_key_ids_def
  by (metis List.finite_set card_length length_map length_sorted_list_of_set)

lemma mutation_validated:
  assumes "foldE (validate_mutation run limits) s (enumerate j ms) = Inr t" and "m \<in> set ms"
  shows "\<exists>i st st'. validate_mutation run limits st (i, m) = Inr st'"
proof -
  obtain i where "i < length ms" "m = ms ! i" using assms(2) by (auto simp: in_set_conv_nth)
  then have "(j + i, m) \<in> set (enumerate j ms)" by (simp add: in_set_enumerate_eq)
  then obtain xs ys where e: "enumerate j ms = xs @ (j + i, m) # ys" by (auto dest: split_list)
  from foldE_prefix [OF assms(1) [unfolded e]] obtain u
    where "bindE (validate_mutation run limits u (j + i, m)) (\<lambda>s. foldE (validate_mutation run limits) s ys) = Inr t"
    by auto
  then show ?thesis by (elim bindE_elim) blast
qed

lemma run_mutation_validated:
  assumes "validate_mutations run limits = Inr ()" and "m \<in> set (run_mutations run)"
  shows "\<exists>i st st'. validate_mutation run limits st (i, m) = Inr st'"
proof -
  from assms(1) obtain t where "foldE (validate_mutation run limits) ({}, {}, False) (enumerate 0 (run_mutations run)) = Inr t"
    by (auto simp: validate_mutations_def elim!: bindE_elim)
  from mutation_validated [OF this assms(2)] show ?thesis .
qed

lemma mutation_lengths:
  assumes "validate_mutation run limits st (i, m) = Inr st'"
  shows "length (mutation_namespace_key_id m) \<le> max_key_id_bytes limits \<and>
    length (mutation_path m) \<le> max_path_bytes limits \<and> i < 2 ^ 32 \<and> mutation_ordinal m = of_nat i"
  using assms by (cases m) (auto simp: validate_mutation_def bindE_eq_Inr split: if_splits)

lemma mutation_typed_names:
  "mutation_typed m \<Longrightarrow> valid_name (mutation_namespace_key_id m) \<and> valid_name (mutation_path m) \<and>
   length (mutation_blind_key m) = 32"
  by (cases m) simp_all

lemma meta_fold:
  assumes "encode_validate run limits = Inr ()" and "run_typed run" and "meta_fits limits run" and "limits_typed limits"
  shows "foldE (meta_step limits) (meta_start run) (meta_wires run) = Inr (meta_final run)"
proof -
  note v = encode_validate_facts [OF assms(1)]
  obtain p q where p: "foldE (validate_container limits) None (run_containers run) = Inr p"
    and q: "foldE (validate_standalone limits) None (run_standalone run) = Inr q"
    using v by (auto simp: validate_containers_def validate_standalone_stream_containers_def elim!: bindE_elim)
  let ?s1 = "(meta_start run)\<lparr>fd_containers := run_containers run\<rparr>"
  let ?s2 = "?s1\<lparr>fd_standalone := run_standalone run, fd_saw_standalone := run_standalone run \<noteq> []\<rparr>"
  let ?s3 = "?s2\<lparr>fd_namespace_key_ids := run_namespace_key_ids run, fd_saw_namespace_key_id := run_namespace_key_ids run \<noteq> []\<rparr>"
  note start = meta_start_def IndexRunFrameDecoder_default_def
  have 1: "foldE (meta_step limits) (meta_start run) (map (\<lambda>c. [0] @ container_wire c) (run_containers run)) = Inr ?s1"
    using meta_packs [of limits "meta_start run" "run_containers run" p] p v assms(2-4)
    by (simp add: start run_typed_def meta_fits_def)
  have 2: "foldE (meta_step limits) ?s1 (map (\<lambda>c. [2] @ standalone_wire c) (run_standalone run)) = Inr ?s2"
    using meta_streams [of limits ?s1 "run_standalone run" q] q v assms(2-4)
    by (simp add: start run_typed_def meta_fits_def)
  have names: "\<forall>k \<in> set (run_namespace_key_ids run). valid_name k \<and> length k \<le> max_key_id_bytes limits"
  proof
    fix k assume "k \<in> set (run_namespace_key_ids run)"
    then obtain m where m: "m \<in> set (run_mutations run)" "k = mutation_namespace_key_id m"
      by (auto simp: run_key_ids_set)
    obtain i st st' where "validate_mutation run limits st (i, m) = Inr st'"
      using run_mutation_validated [OF _ m(1)] v by blast
    from mutation_lengths [OF this] mutation_typed_names [of m] assms(2) m
    show "valid_name k \<and> length k \<le> max_key_id_bytes limits" by (simp add: run_typed_def)
  qed
  have 3: "foldE (meta_step limits) ?s2 (map (\<lambda>k. [3] @ record_wire k) (run_namespace_key_ids run)) = Inr ?s3"
    using meta_keys [of ?s2 "run_namespace_key_ids run" "length (run_namespace_key_ids run)" limits] names
      assms(3,4) run_key_ids_sorted
    by (simp add: start meta_fits_def)
  have 4: "foldE (meta_step limits) ?s3 (receipt_wires run) = Inr (meta_final run)"
  proof (cases "run_completion_receipt run")
    case None
    then show ?thesis by (simp add: receipt_wires_def meta_final_def start)
  next
    case (Some r)
    have t: "receipt_typed r" using Some assms(2) by (simp add: run_typed_def)
    have "CompletionReceipt_validate r = Inr ()"
      using v Some by (auto simp: validate_mutations_def validate_completion_receipt_def elim!: bindE_elim)
    with t have "CompletionReceipt_encode r = Inr (receipt_wire r)" by (simp add: receipt_encode_total)
    with meta_receipt [OF this t, of limits ?s3] Some assms(3) show ?thesis
      by (simp add: receipt_wires_def meta_final_def start meta_fits_def)
  qed
  show ?thesis unfolding meta_wires_def foldE_append 1 2 3 4 bindE_Inr by (rule refl)
qed

lemma map_split3:
  assumes "map f ws = xs @ g @ ys"
  obtains xw gw yw where "ws = xw @ gw @ yw" "xs = map f xw" "g = map f gw" "ys = map f yw"
proof -
  obtain xw zw where "ws = xw @ zw" "xs = map f xw" "map f zw = g @ ys"
    using assms by (metis map_eq_append_conv)
  moreover from this obtain gw yw where "zw = gw @ yw" "g = map f gw" "ys = map f yw"
    by (metis map_eq_append_conv)
  ultimately show thesis
    using that by simp
qed

lemma records_image_meta [simp]: "records_image p (map meta_prepared ws) = ws"
  by (induction ws arbitrary: p) (simp_all add: record_image_def meta_prepared_def listing_path_def)

text \<open>The facts that every metadata frame repeats, once the first frame has recorded them.\<close>

definition meta_known :: "IndexRun \<Rightarrow> IndexRunFrameDecoder \<Rightarrow> bool" where
  "meta_known run d \<longleftrightarrow> fd_declared_namespace_key_count d = Some (length (run_namespace_key_ids run)) \<and>
     fd_self_pack d = run_self_pack run \<and> fd_saw_self_payload_fact d"

lemma meta_step_known:
  assumes "meta_known run u" and "meta_step limits u b = Inr v"
  shows "meta_known run v"
  using assms
  by (auto simp: meta_known_def meta_step_def decode_metadata_body_def decode_metadata_pack_def
      decode_metadata_standalone_def decode_metadata_namespace_key_def decode_metadata_receipt_def Let_def
      bindE_eq_Inr split: if_splits option.splits)

definition run_facts :: "IndexRun \<Rightarrow> IndexRunFrameRole \<Rightarrow> nat \<Rightarrow> FrameEncodingFacts" where
  "run_facts run role n = \<lparr>ff_role = role, ff_role_ordinal = 0, ff_sequence = run_sequence run,
     ff_mutation_count = of_nat (length (run_mutations run)), ff_role_record_count = n,
     ff_frame_record_count = 0, ff_self_payload = run_self_pack run,
     ff_namespace_key_count = length (run_namespace_key_ids run)\<rparr>"

lemma run_facts_simps [simp]:
  "ff_role (run_facts run role n) = role" "ff_sequence (run_facts run role n) = run_sequence run"
  "ff_mutation_count (run_facts run role n) = of_nat (length (run_mutations run))"
  "ff_role_record_count (run_facts run role n) = n" "ff_self_payload (run_facts run role n) = run_self_pack run"
  "ff_namespace_key_count (run_facts run role n) = length (run_namespace_key_ids run)"
  by (simp_all add: run_facts_def)

lemma length_meta_wires: "length (run_namespace_key_ids run) \<le> length (meta_wires run)"
  by (simp add: meta_wires_def)

lemma meta_record_step:
  assumes "length b \<le> record_max limits Metadata \<and> length b < 2 ^ 64" and "meta_step limits d b = Inr d'"
  shows "decode_metadata_record limits (d, record_wire b @ r) = Inr (d', r)"
  using assms rw_record.read_wire [of b "record_max limits Metadata" r]
  by (auto simp: decode_metadata_record_def meta_step_def record_max_def split: if_splits)

lemma meta_group:
  assumes "foldE (meta_step limits) d1 ws = Inr d'"
    and "\<And>i. decode_metadata_facts (header_of (group_facts facts i (map meta_prepared ws))) d = Inr d1"
    and "ff_role facts = Metadata"
  shows "decodes limits facts d (map meta_prepared ws) d'"
proof -
  have "records_fit limits Metadata (map meta_prepared ws) \<Longrightarrow>
      loopE (length ws) (decode_metadata_record limits) (d1, concat (map record_wire ws) @ []) = Inr (d', [])"
    by (rule loop_records [OF _ assms(1)]) (auto simp: records_fit_def intro: meta_record_step)
  then show ?thesis
    using assms(2,3) by (simp add: decodes_def role_decode_def decode_metadata_def body_image_def)
qed

lemma meta_decodes:
  assumes "encode_validate run limits = Inr ()" and "run_typed run" and "meta_fits limits run" and "limits_typed limits"
    and facts: "facts = run_facts run Metadata (length (meta_wires run))"
  defines "E \<equiv> after (meta_step limits) (meta_start run) (meta_wires run)"
  shows "map meta_prepared (meta_wires run) = g @ ys \<Longrightarrow> decodes limits facts IndexRunFrameDecoder_default g (E (length g))"
    and "map meta_prepared (meta_wires run) = xs @ g @ ys \<Longrightarrow> decodes limits facts (E (length xs)) g (E (length xs + length g))"
proof -
  note fold = meta_fold [OF assms(1-4)]
  have n: "length (run_mutations run) < 2 ^ 32"
    using encode_validate_facts [OF assms(1)] assms(4) by (simp add: limits_typed_def)
  have mc: "length (run_namespace_key_ids run) \<le> unat (of_nat (length (run_mutations run)) :: u32)"
    using run_key_ids_length [of run] n by (simp add: unat_of_nat_small)
  {
    assume "map meta_prepared (meta_wires run) = g @ ys"
    then obtain gw yw where w: "meta_wires run = gw @ yw" and g: "g = map meta_prepared gw"
      by (auto simp: map_eq_append_conv)
    show "decodes limits facts IndexRunFrameDecoder_default g (E (length g))"
      unfolding g length_map
    proof (rule meta_group)
      show "foldE (meta_step limits) (meta_start run) gw = Inr (E (length gw))"
        using after_segment [of "meta_step limits" "meta_start run" "[]" gw yw] fold w by (simp add: E_def after_def)
      show "decode_metadata_facts (header_of (group_facts facts i (map meta_prepared gw))) IndexRunFrameDecoder_default
          = Inr (meta_start run)" for i
        using mc length_meta_wires [of run]
        by (simp add: decode_metadata_facts_def facts meta_start_def IndexRunFrameDecoder_default_def)
    qed (use facts in simp)
  }
  {
    assume "map meta_prepared (meta_wires run) = xs @ g @ ys"
    then obtain xw gw yw where w: "meta_wires run = xw @ gw @ yw" and g: "g = map meta_prepared gw" and x: "xs = map meta_prepared xw"
      by (elim map_split3)
    have "meta_known run (E (length xw))"
      unfolding E_def
      by (rule after_inv [OF fold]) (auto intro: meta_step_known, simp add: meta_known_def meta_start_def)
    then have known: "decode_metadata_facts (header_of (group_facts facts i (map meta_prepared gw))) (E (length xw))
        = Inr (E (length xw))" for i
      using mc length_meta_wires [of run] by (simp add: decode_metadata_facts_def facts meta_known_def)
    show "decodes limits facts (E (length xs)) g (E (length xs + length g))"
      unfolding g x length_map
    proof (rule meta_group [OF _ known])
      show "foldE (meta_step limits) (E (length xw)) gw = Inr (E (length xw + length gw))"
        using after_segment [of "meta_step limits" "meta_start run" xw gw yw] fold w by (simp add: E_def)
    qed (use facts in simp)
  }
qed

end
