(* ===== verification/RunProjections.thy ===== *)
theory RunProjections
  imports RunTables
begin

text \<open>
  The namespace and listing projections of an index run. Both carry every mutation, each in its own
  order. The decoder's state after a prefix of either projection has a closed form, and after both
  it holds the mutations in their original order.
\<close>

section \<open>Mutations in their order\<close>

definition run_ready :: "IndexRunLimits \<Rightarrow> IndexRun \<Rightarrow> bool" where
  "run_ready limits run \<longleftrightarrow> encode_validate run limits = Inr () \<and> run_typed run \<and> limits_typed limits"

lemma run_ready_length:
  assumes "run_ready limits run"
  shows "length (run_mutations run) < 2 ^ 32"
  using encode_validate_facts [of run limits] assms by (simp add: run_ready_def limits_typed_def)

lemma validate_mutation_ordinal:
  assumes "foldE (validate_mutation run limits) s (enumerate j ms) = Inr t" and "i < length ms"
  shows "mutation_ordinal (ms ! i) = of_nat (j + i)"
  using assms
proof (induction ms arbitrary: s j i)
  case (Cons m ms)
  from Cons.prems(1) obtain u where u: "validate_mutation run limits s (j, m) = Inr u"
    and rest: "foldE (validate_mutation run limits) u (enumerate (Suc j) ms) = Inr t" by (auto elim!: bindE_elim)
  show ?case
  proof (cases i)
    case 0
    then show ?thesis using mutation_lengths [OF u] by simp
  next
    case (Suc k)
    then show ?thesis using Cons.IH [OF rest, of k] Cons.prems(2) by simp
  qed
qed simp

lemma validated_fold:
  assumes "run_ready limits run"
  obtains t where "foldE (validate_mutation run limits) ({}, {}, False) (enumerate 0 (run_mutations run)) = Inr t"
  using encode_validate_facts [of run limits] assms
  by (auto simp: run_ready_def validate_mutations_def elim!: bindE_elim)

lemma mutation_at:
  assumes "run_ready limits run" and "i < length (run_mutations run)"
  shows "unat (mutation_ordinal (run_mutations run ! i)) = i"
proof -
  obtain t where "foldE (validate_mutation run limits) ({}, {}, False) (enumerate 0 (run_mutations run)) = Inr t"
    using validated_fold [OF assms(1)] by blast
  from validate_mutation_ordinal [OF this assms(2)] run_ready_length [OF assms(1)] assms(2)
  show ?thesis by (simp add: unat_of_nat_small)
qed

lemma mutation_slot:
  assumes "run_ready limits run" and "m \<in> set (run_mutations run)"
  shows "unat (mutation_ordinal m) < length (run_mutations run) \<and> run_mutations run ! unat (mutation_ordinal m) = m"
  using assms mutation_at [OF assms(1)] by (auto simp: in_set_conv_nth)

lemma mutations_distinct:
  assumes "run_ready limits run"
  shows "distinct (map mutation_ordinal (run_mutations run))"
  unfolding distinct_conv_nth
  by (metis assms length_map mutation_at nth_map)

lemma slot_update:
  assumes "distinct ms" and "i < length ms" and "f' (ms ! i) = v" and "\<And>m. m \<in> set ms \<Longrightarrow> m \<noteq> ms ! i \<Longrightarrow> f' m = f m"
  shows "(map f ms)[i := v] = map f' ms"
  using assms by (intro nth_equalityI) (auto simp: nth_list_update nth_eq_iff_index_eq)

lemma sort_key_next:
  fixes k :: "'a \<Rightarrow> 'b::linorder"
  assumes "sort_key k ms = xs @ m # ys" and "distinct (map k ms)" and "xs \<noteq> []"
  shows "k (last xs) < k m"
proof -
  have "sorted (map k (xs @ m # ys))" by (metis assms(1) sorted_sort_key)
  then have "k (last xs) \<le> k m" using assms(3) by (simp add: sorted_append)
  moreover have "distinct (map k (xs @ m # ys))"
    using assms(2) unfolding assms(1) [symmetric] by (simp add: distinct_map)
  then have "k (last xs) \<noteq> k m" using last_in_set [OF assms(3)] by (auto simp: image_iff)
  ultimately show ?thesis by simp
qed

lemma order_kept:
  fixes k :: "'a \<Rightarrow> 'b::linorder"
  assumes "xs \<noteq> [] \<longrightarrow> k (last xs) < k m"
  shows "\<not> (case map_option k (last_opt xs) of Some previous \<Rightarrow> previous \<ge> k m | None \<Rightarrow> False)"
  using assms by (auto simp: last_opt_def not_le)

section \<open>What the payload pointers use\<close>

definition pack_uses :: "IndexMutation set \<Rightarrow> u32 set" where
  "pack_uses M = {ord. \<exists>u r. Upsert u \<in> M \<and> up_payload u = ExternalPack ord r}"

definition stream_uses :: "IndexMutation set \<Rightarrow> u32 set" where
  "stream_uses M = {ord. \<exists>u. Upsert u \<in> M \<and> up_payload u = ExternalStandaloneStream ord}"

definition self_used :: "IndexMutation set \<Rightarrow> bool" where
  "self_used M \<longleftrightarrow> (\<exists>u r. Upsert u \<in> M \<and> up_payload u = SelfPack r)"

lemmas uses_defs = pack_uses_def stream_uses_def self_used_def

lemma uses_empty [simp]: "pack_uses {} = {}" "stream_uses {} = {}" "\<not> self_used {}"
  by (simp_all add: uses_defs)

lemma uses_insert_tombstone [simp]:
  "pack_uses (insert (Tombstone t) M) = pack_uses M" "stream_uses (insert (Tombstone t) M) = stream_uses M"
  "self_used (insert (Tombstone t) M) = self_used M"
  by (simp_all add: uses_defs)

lemma uses_insert_upsert:
  "pack_uses (insert (Upsert u) M) = (case up_payload u of ExternalPack ord r \<Rightarrow> insert ord (pack_uses M) | _ \<Rightarrow> pack_uses M)"
  "stream_uses (insert (Upsert u) M) =
     (case up_payload u of ExternalStandaloneStream ord \<Rightarrow> insert ord (stream_uses M) | _ \<Rightarrow> stream_uses M)"
  "self_used (insert (Upsert u) M) = (case up_payload u of SelfPack r \<Rightarrow> True | _ \<Rightarrow> self_used M)"
  by (auto simp: uses_defs split: IndexPayloadPointer.splits)

lemma validate_mutation_uses:
  assumes "validate_mutation run limits (pack_uses M, stream_uses M, self_used M) (i, m) = Inr t"
  shows "t = (pack_uses (insert m M), stream_uses (insert m M), self_used (insert m M))"
proof (cases m)
  case (Upsert u)
  with assms have "validate_pointer_use run (pack_uses M, stream_uses M, self_used M) (up_payload u) = Inr t"
    by (auto simp: validate_mutation_def bindE_eq_Inr split: if_splits)
  then show ?thesis unfolding Upsert uses_insert_upsert
    by (auto simp: validate_pointer_use_def bindE_eq_Inr split: IndexPayloadPointer.splits if_splits)
next
  case (Tombstone t')
  with assms show ?thesis by (auto simp: validate_mutation_def bindE_eq_Inr split: if_splits)
qed

lemma validate_mutations_uses:
  assumes "foldE (validate_mutation run limits) (pack_uses M, stream_uses M, self_used M) (enumerate j ms) = Inr t"
  shows "t = (pack_uses (M \<union> set ms), stream_uses (M \<union> set ms), self_used (M \<union> set ms))"
  using assms
proof (induction ms arbitrary: M j)
  case (Cons m ms)
  from Cons.prems obtain u where u: "validate_mutation run limits (pack_uses M, stream_uses M, self_used M) (j, m) = Inr u"
    and rest: "foldE (validate_mutation run limits) u (enumerate (Suc j) ms) = Inr t" by (auto elim!: bindE_elim)
  from Cons.IH [OF rest [unfolded validate_mutation_uses [OF u]]] show ?case by simp
qed simp

section \<open>The namespace projection\<close>

definition key_use :: "IndexRun \<Rightarrow> IndexMutation \<Rightarrow> u32" where
  "key_use run m = of_nat (key_index (run_namespace_key_ids run) (mutation_namespace_key_id m))"

abbreviation ns_key :: "IndexMutation \<Rightarrow> IndexBlindKey \<times> u32" where
  "ns_key m \<equiv> (mutation_blind_key m, mutation_ordinal m)"

definition ns_state :: "IndexRun \<Rightarrow> IndexMutation list \<Rightarrow> IndexRunFrameDecoder" where
  "ns_state run xs = (meta_final run)\<lparr>
     fd_namespace := map (\<lambda>m. if m \<in> set xs then Some (ns_proj m) else None) (run_mutations run),
     fd_mutations := map (\<lambda>m. None) (run_mutations run), fd_saw_namespace := True,
     fd_previous_namespace_key := map_option ns_key (last_opt xs),
     fd_used_namespace_key_ids := key_use run ` set xs, fd_used_containers := pack_uses (set xs),
     fd_used_standalone := stream_uses (set xs), fd_uses_self_pack := self_used (set xs)\<rparr>"

definition ns_prepared :: "IndexRun \<Rightarrow> IndexMutation \<Rightarrow> PreparedRecord" where
  "ns_prepared run m = \<lparr>pr_bytes = ns_wire (run_namespace_key_ids run) m,
     pr_bound = Some (NamespaceBound (mutation_blind_key m) (mutation_ordinal m))\<rparr>"

lemma meta_final_fields [simp]:
  "fd_namespace_key_ids (meta_final run) = run_namespace_key_ids run" "fd_containers (meta_final run) = run_containers run"
  "fd_standalone (meta_final run) = run_standalone run" "fd_self_pack (meta_final run) = run_self_pack run"
  "fd_declared_namespace_key_count (meta_final run) = Some (length (run_namespace_key_ids run))"
  "fd_completion_receipt (meta_final run) = run_completion_receipt run"
  "fd_namespace (meta_final run) = []" "fd_mutations (meta_final run) = []"
  "\<not> fd_saw_namespace (meta_final run)" "\<not> fd_saw_listing (meta_final run)"
  "fd_previous_namespace_key (meta_final run) = None" "fd_previous_listing_key (meta_final run) = None"
  "fd_used_namespace_key_ids (meta_final run) = {}" "fd_used_containers (meta_final run) = {}"
  "fd_used_standalone (meta_final run) = {}" "\<not> fd_uses_self_pack (meta_final run)"
  by (simp_all add: meta_final_def meta_start_def IndexRunFrameDecoder_default_def)

lemma ns_state_fields [simp]:
  "fd_namespace_key_ids (ns_state run xs) = run_namespace_key_ids run" "fd_containers (ns_state run xs) = run_containers run"
  "fd_standalone (ns_state run xs) = run_standalone run" "fd_self_pack (ns_state run xs) = run_self_pack run"
  "fd_declared_namespace_key_count (ns_state run xs) = Some (length (run_namespace_key_ids run))"
  "fd_saw_namespace (ns_state run xs)"
  by (simp_all add: ns_state_def)

lemma note_payload_use_state:
  "note_payload_use (ns_proj m) ((ns_state run xs)\<lparr>fd_used_namespace_key_ids := K\<rparr>) = (ns_state run xs)\<lparr>fd_used_namespace_key_ids := K,
     fd_used_containers := pack_uses (insert m (set xs)), fd_used_standalone := stream_uses (insert m (set xs)),
     fd_uses_self_pack := self_used (insert m (set xs))\<rparr>"
  by (cases m) (auto simp: note_payload_use_def ns_state_def uses_insert_upsert split: IndexPayloadPointer.splits)

lemma ns_ordered:
  assumes "run_ready limits run" and "namespace_order (run_mutations run) = xs @ m # ys"
  shows "m \<in> set (run_mutations run) \<and> m \<notin> set xs \<and> (xs \<noteq> [] \<longrightarrow> ns_key (last xs) < ns_key m)"
proof -
  have d: "distinct (map mutation_ordinal (run_mutations run))" by (rule mutations_distinct [OF assms(1)])
  then have "distinct (map ns_key (run_mutations run))" by (auto simp: distinct_map inj_on_def)
  from sort_key_next [OF assms(2) [unfolded namespace_order_def] this]
  have less: "xs \<noteq> [] \<Longrightarrow> ns_key (last xs) < ns_key m" .
  have "distinct (namespace_order (run_mutations run))" using d by (simp add: namespace_order_def distinct_map)
  moreover have "set (namespace_order (run_mutations run)) = set (run_mutations run)" by (simp add: namespace_order_def)
  ultimately show ?thesis using less assms(2) by auto
qed

lemma ns_step:
  assumes "run_ready limits run" and "namespace_order (run_mutations run) = xs @ m # ys"
  shows "decode_namespace_body (ns_state run xs) (ns_wire (run_namespace_key_ids run) m) = Inr (ns_state run (xs @ [m]))"
proof -
  let ?ms = "run_mutations run"
  note o = ns_ordered [OF assms]
  note slot = mutation_slot [OF assms(1) conjunct1 [OF o]]
  have dist: "distinct ?ms" using mutations_distinct [OF assms(1)] by (simp add: distinct_map)
  have typed: "mutation_typed m" using assms(1) o by (simp add: run_ready_def run_typed_def)
  have ids: "mutation_namespace_key_id m \<in> set (run_namespace_key_ids run)" using o by (simp add: run_key_ids_set)
  have n: "length (run_namespace_key_ids run) \<le> 2 ^ 32"
    using run_key_ids_length [of run] run_ready_length [OF assms(1)] by simp
  obtain i st st' where v: "validate_mutation run limits st (i, m) = Inr st'"
    using run_mutation_validated [of run limits m] encode_validate_facts [of run limits] assms(1) o
    by (auto simp: run_ready_def)
  note read = ns_body_read [OF typed ids n v]
  have upd: "(map (\<lambda>m. if m \<in> set xs then Some (ns_proj m) else None) ?ms)[unat (mutation_ordinal m) := Some (ns_proj m)]
      = map (\<lambda>m'. if m' \<in> set (xs @ [m]) then Some (ns_proj m') else None) ?ms"
    using slot by (intro slot_update [OF dist]) auto
  have order: "\<not> (case fd_previous_namespace_key (ns_state run xs) of Some previous \<Rightarrow> previous \<ge> (ns_blind_key (ns_proj m), mutation_ordinal m) | None \<Rightarrow> False)"
    unfolding ns_proj_key using order_kept [of xs ns_key m] o by (simp add: ns_state_def)
  show ?thesis
    using read slot o order
    by (simp add: decode_namespace_body_def ns_wire_def rw_u32.read_wire Let_def note_payload_use_state)
      (simp add: ns_state_def projection_slot_def key_use_def upd)
qed

lemma ns_group:
  assumes "run_ready limits run" and "namespace_order (run_mutations run) = xs @ g @ ys"
  shows "foldE decode_namespace_body (ns_state run xs) (map (ns_wire (run_namespace_key_ids run)) g) = Inr (ns_state run (xs @ g))"
  using assms(2)
proof (induction g arbitrary: xs)
  case (Cons m g)
  then show ?case using ns_step [OF assms(1), of xs m "g @ ys"] Cons.IH [of "xs @ [m]"] by simp
qed simp

lemma records_image_ns [simp]:
  "records_image p (map (ns_prepared run) ms) = map (ns_wire (run_namespace_key_ids run)) ms"
  by (induction ms arbitrary: p) (simp_all add: record_image_def ns_prepared_def listing_path_def)

lemma ns_record_step:
  assumes "length b \<le> max_record_bytes limits \<and> length b < 2 ^ 64" and "decode_namespace_body d b = Inr d'"
  shows "decode_namespace_record limits (d, record_wire b @ r) = Inr (d', r)"
  using assms rw_record.read_wire [of b "max_record_bytes limits" r] by (simp add: decode_namespace_record_def)

lemma ns_frame:
  assumes "run_ready limits run" and "namespace_order (run_mutations run) = xs @ g @ ys"
    and "\<And>i. decode_namespace_facts (header_of (group_facts facts i (map (ns_prepared run) g))) d = Inr (ns_state run xs)"
    and "ff_role facts = Namespace"
  shows "decodes limits facts d (map (ns_prepared run) g) (ns_state run (xs @ g))"
proof -
  let ?w = "map (ns_wire (run_namespace_key_ids run)) g"
  have "records_fit limits Namespace (map (ns_prepared run) g) \<Longrightarrow>
      loopE (length ?w) (decode_namespace_record limits) (ns_state run xs, concat (map record_wire ?w) @ [])
      = Inr (ns_state run (xs @ g), [])"
    by (rule loop_records [OF ns_record_step ns_group [OF assms(1,2)]]) (auto simp: records_fit_def record_max_def)
  then show ?thesis
    using assms(3,4) by (simp add: decodes_def role_decode_def decode_namespace_def body_image_def)
qed

lemma ns_decodes:
  assumes "run_ready limits run" and "n = length (run_mutations run)"
  defines "E \<equiv> \<lambda>k. ns_state run (take k (namespace_order (run_mutations run)))"
  shows "map (ns_prepared run) (namespace_order (run_mutations run)) = g @ ys \<Longrightarrow>
      decodes limits (run_facts run Namespace n) (meta_final run) g (E (length g))"
    and "map (ns_prepared run) (namespace_order (run_mutations run)) = xs @ g @ ys \<Longrightarrow>
      decodes limits (run_facts run Namespace n) (E (length xs)) g (E (length xs + length g))"
proof -
  have n: "unat (of_nat (length (run_mutations run)) :: u32) = length (run_mutations run)"
    using run_ready_length [OF assms(1)] by (simp add: unat_of_nat_small)
  have start: "decode_namespace_facts (header_of (group_facts (run_facts run Namespace n) i g)) (meta_final run)
      = Inr (ns_state run [])" for i g
    using n assms(2)
    by (simp add: decode_namespace_facts_def Let_def resize_none_def ns_state_def map_replicate_const)
  have again: "decode_namespace_facts (header_of (group_facts (run_facts run Namespace n) i g)) (ns_state run xs)
      = Inr (ns_state run xs)" for i g xs
    using n assms(2) by (simp add: decode_namespace_facts_def)
  show "decodes limits (run_facts run Namespace n) (meta_final run) g (E (length g))"
    if split: "map (ns_prepared run) (namespace_order (run_mutations run)) = g @ ys"
  proof -
    obtain gw yw where "namespace_order (run_mutations run) = gw @ yw" "g = map (ns_prepared run) gw"
      using split by (auto simp: map_eq_append_conv)
    then show ?thesis
      using ns_frame [OF assms(1), of "[]" gw yw "run_facts run Namespace n" "meta_final run"] start by (simp add: E_def)
  qed
  show "decodes limits (run_facts run Namespace n) (E (length xs)) g (E (length xs + length g))"
    if split: "map (ns_prepared run) (namespace_order (run_mutations run)) = xs @ g @ ys"
  proof -
    obtain xw gw yw where "namespace_order (run_mutations run) = xw @ gw @ yw" "g = map (ns_prepared run) gw"
      "xs = map (ns_prepared run) xw"
      using split by (elim map_split3)
    then show ?thesis
      using ns_frame [OF assms(1), of xw gw yw "run_facts run Namespace n" "ns_state run xw"] again by (simp add: E_def)
  qed
qed

section \<open>The listing projection\<close>

abbreviation ls_key :: "IndexMutation \<Rightarrow> LogicalPath \<times> u32" where
  "ls_key m \<equiv> (mutation_path m, mutation_ordinal m)"

definition ls_state :: "IndexRun \<Rightarrow> IndexMutation list \<Rightarrow> IndexRunFrameDecoder" where
  "ls_state run xs = (ns_state run (namespace_order (run_mutations run)))\<lparr>fd_saw_listing := True,
     fd_namespace := map (\<lambda>m. if m \<in> set xs then None else Some (ns_proj m)) (run_mutations run),
     fd_mutations := map (\<lambda>m. if m \<in> set xs then Some m else None) (run_mutations run),
     fd_previous_listing_key := map_option ls_key (last_opt xs)\<rparr>"

definition ls_prepared :: "IndexMutation \<Rightarrow> PreparedRecord" where
  "ls_prepared m = \<lparr>pr_bytes = ls_wire m, pr_bound = Some (ListingBound (mutation_path m) (mutation_ordinal m))\<rparr>"

definition path_bytes :: "LogicalPath option \<Rightarrow> bytes" where
  "path_bytes p = (case p of None \<Rightarrow> [] | Some path \<Rightarrow> path)"

lemma path_bytes_simps [simp]: "path_bytes None = []" "path_bytes (Some p) = p"
  by (simp_all add: path_bytes_def)

lemma ls_ordered:
  assumes "run_ready limits run" and "listing_order (run_mutations run) = xs @ m # ys"
  shows "m \<in> set (run_mutations run) \<and> m \<notin> set xs \<and> (xs \<noteq> [] \<longrightarrow> ls_key (last xs) < ls_key m)"
proof -
  have d: "distinct (map mutation_ordinal (run_mutations run))" by (rule mutations_distinct [OF assms(1)])
  then have "distinct (map ls_key (run_mutations run))" by (auto simp: distinct_map inj_on_def)
  from sort_key_next [OF assms(2) [unfolded listing_order_def] this]
  have less: "xs \<noteq> [] \<Longrightarrow> ls_key (last xs) < ls_key m" .
  have "distinct (listing_order (run_mutations run))" using d by (simp add: listing_order_def distinct_map)
  moreover have "set (listing_order (run_mutations run)) = set (run_mutations run)" by (simp add: listing_order_def)
  ultimately show ?thesis using less assms(2) by auto
qed

lemma ls_step:
  assumes "run_ready limits run" and "listing_order (run_mutations run) = xs @ m # ys"
  shows "decode_listing_body limits (ls_state run xs, p) (path_wire (path_bytes p) (mutation_path m) @ ls_wire m)
    = Inr (ls_state run (xs @ [m]), Some (mutation_path m))"
proof -
  let ?ms = "run_mutations run" and ?i = "unat (mutation_ordinal m)"
  note o = ls_ordered [OF assms]
  note slot = mutation_slot [OF assms(1) conjunct1 [OF o]]
  have dist: "distinct ?ms" using mutations_distinct [OF assms(1)] by (simp add: distinct_map)
  have name: "valid_name (mutation_path m)"
    using assms(1) o mutation_typed_names [of m] by (simp add: run_ready_def run_typed_def)
  obtain i st st' where v: "validate_mutation run limits st (i, m) = Inr st'"
    using run_mutation_validated [of run limits m] encode_validate_facts [of run limits] assms(1) o
    by (auto simp: run_ready_def)
  have path: "decode_listing_path (path_wire (path_bytes p) (mutation_path m) @ ls_wire m) (path_bytes p) limits
      = Inr (mutation_path m, ls_wire m)"
    using path_read [OF name, of limits] mutation_lengths [OF v] assms(1) by (simp add: run_ready_def)
  have upd: "(map (\<lambda>m. if m \<in> set xs then None else Some (ns_proj m)) ?ms)[?i := None]
      = map (\<lambda>m'. if m' \<in> set (xs @ [m]) then None else Some (ns_proj m')) ?ms"
    "(map (\<lambda>m. if m \<in> set xs then Some m else None) ?ms)[?i := Some m]
      = map (\<lambda>m'. if m' \<in> set (xs @ [m]) then Some m' else None) ?ms"
    using slot by (intro slot_update [OF dist]; auto)+
  have order: "\<not> (case fd_previous_listing_key (ls_state run xs) of
      Some previous \<Rightarrow> previous \<ge> (ls_path (ls_proj m), mutation_ordinal m) | None \<Rightarrow> False)"
    unfolding ls_proj_path using order_kept [of xs ls_key m] o by (simp add: ls_state_def)
  show ?thesis
    using path slot o order
    by (simp add: decode_listing_body_def path_bytes_def [symmetric] ls_wire_def rw_u32.read_wire ls_body_read Let_def)
      (simp add: ls_state_def projection_slot_def pair_proj upd)
qed

lemma ls_record_step:
  assumes "length b \<le> max_record_bytes limits \<and> length b < 2 ^ 64" and "decode_listing_body limits d b = Inr d'"
  shows "decode_listing_record limits (d, record_wire b @ r) = Inr (d', r)"
  using assms rw_record.read_wire [of b "max_record_bytes limits" r] by (simp add: decode_listing_record_def)

lemma ls_group:
  assumes "run_ready limits run" and "listing_order (run_mutations run) = xs @ g @ ys"
    and "\<forall>b \<in> set (records_image (path_bytes p) (map ls_prepared g)). length b \<le> max_record_bytes limits \<and> length b < 2 ^ 64"
  shows "\<exists>q. loopE (length g) (decode_listing_record limits)
      ((ls_state run xs, p), concat (map record_wire (records_image (path_bytes p) (map ls_prepared g))))
    = Inr ((ls_state run (xs @ g), q), [])"
  using assms(2,3)
proof (induction g arbitrary: xs p)
  case (Cons m g)
  have img: "record_image (path_bytes p) (ls_prepared m) = path_wire (path_bytes p) (mutation_path m) @ ls_wire m"
    "listing_path_or_default (ls_prepared m) = path_bytes (Some (mutation_path m))"
    by (simp_all add: record_image_def ls_prepared_def listing_path_def listing_path_or_default_def)
  have "decode_listing_record limits ((ls_state run xs, p), record_wire (record_image (path_bytes p) (ls_prepared m)) @ r)
      = Inr ((ls_state run (xs @ [m]), Some (mutation_path m)), r)" for r
    by (rule ls_record_step) (use Cons.prems ls_step [OF assms(1), of xs m "g @ ys" p] img in auto)
  moreover have "\<exists>q. loopE (length g) (decode_listing_record limits)
      ((ls_state run (xs @ [m]), Some (mutation_path m)),
        concat (map record_wire (records_image (path_bytes (Some (mutation_path m))) (map ls_prepared g))))
      = Inr ((ls_state run ((xs @ [m]) @ g), q), [])"
    using Cons.prems by (intro Cons.IH) (simp_all add: img del: path_bytes_simps)
  ultimately show ?case by (simp add: img del: path_bytes_simps)
qed simp

lemma ls_frame:
  assumes "run_ready limits run" and "listing_order (run_mutations run) = xs @ g @ ys"
    and "d\<lparr>fd_saw_listing := True\<rparr> = ls_state run xs" and "n = length (run_mutations run)"
  shows "decodes limits (run_facts run Listing n) d (map ls_prepared g) (ls_state run (xs @ g))"
proof -
  have n: "unat (of_nat (length (run_mutations run)) :: u32) = length (run_mutations run)"
    using run_ready_length [OF assms(1)] by (simp add: unat_of_nat_small)
  have "records_fit limits Listing (map ls_prepared g) \<Longrightarrow> \<exists>q. loopE (length g) (decode_listing_record limits)
      ((ls_state run xs, None), body_image (map ls_prepared g)) = Inr ((ls_state run (xs @ g), q), [])"
    using ls_group [OF assms(1,2), of None] by (simp add: body_image_def records_fit_def record_max_def)
  then show ?thesis
    using assms(3,4) n by (auto simp: decodes_def role_decode_def decode_listing_def Let_def)
qed

lemma ls_decodes:
  assumes "run_ready limits run" and "n = length (run_mutations run)"
  defines "E \<equiv> \<lambda>k. ls_state run (take k (listing_order (run_mutations run)))"
  shows "map ls_prepared (listing_order (run_mutations run)) = g @ ys \<Longrightarrow>
      decodes limits (run_facts run Listing n) (ns_state run (namespace_order (run_mutations run))) g (E (length g))"
    and "map ls_prepared (listing_order (run_mutations run)) = xs @ g @ ys \<Longrightarrow>
      decodes limits (run_facts run Listing n) (E (length xs)) g (E (length xs + length g))"
proof -
  have start: "(ns_state run (namespace_order (run_mutations run)))\<lparr>fd_saw_listing := True\<rparr> = ls_state run []"
    by (simp add: ls_state_def ns_state_def namespace_order_def)
  have again: "(ls_state run xs)\<lparr>fd_saw_listing := True\<rparr> = ls_state run xs" for xs
    by (simp add: ls_state_def)
  show "decodes limits (run_facts run Listing n) (ns_state run (namespace_order (run_mutations run))) g (E (length g))"
    if split: "map ls_prepared (listing_order (run_mutations run)) = g @ ys"
  proof -
    obtain gw yw where "listing_order (run_mutations run) = gw @ yw" "g = map ls_prepared gw"
      using split by (auto simp: map_eq_append_conv)
    then show ?thesis using ls_frame [OF assms(1) _ start assms(2), of gw yw] by (simp add: E_def)
  qed
  show "decodes limits (run_facts run Listing n) (E (length xs)) g (E (length xs + length g))"
    if split: "map ls_prepared (listing_order (run_mutations run)) = xs @ g @ ys"
  proof -
    obtain xw gw yw where "listing_order (run_mutations run) = xw @ gw @ yw" "g = map ls_prepared gw" "xs = map ls_prepared xw"
      using split by (elim map_split3)
    then show ?thesis using ls_frame [OF assms(1) _ again assms(2), of xw gw yw] by (simp add: E_def)
  qed
qed

end
