(* ===== verification/RunRoundtrip.thy ===== *)
theory RunRoundtrip
  imports RunProjections
begin

text \<open>
  Decoding the frames of an encoded index run gives the run back. The three roles are walked one
  after the other; what the encoder validated is what the decoder validates at the end.
\<close>

section \<open>The three roles\<close>

abbreviation meta_facts :: "IndexRun \<Rightarrow> FrameEncodingFacts" where
  "meta_facts run \<equiv> run_facts run Metadata (length (meta_wires run))"

abbreviation ns_facts :: "IndexRun \<Rightarrow> FrameEncodingFacts" where
  "ns_facts run \<equiv> run_facts run Namespace (length (run_mutations run))"

abbreviation ls_facts :: "IndexRun \<Rightarrow> FrameEncodingFacts" where
  "ls_facts run \<equiv> run_facts run Listing (length (run_mutations run))"

abbreviation ns_final :: "IndexRun \<Rightarrow> IndexRunFrameDecoder" where
  "ns_final run \<equiv> ns_state run (namespace_order (run_mutations run))"

abbreviation ls_final :: "IndexRun \<Rightarrow> IndexRunFrameDecoder" where
  "ls_final run \<equiv> ls_state run (listing_order (run_mutations run))"

definition grouped :: "IndexRunLimits \<Rightarrow> FrameEncodingFacts \<Rightarrow> PreparedRecord list \<Rightarrow> PreparedRecord list list \<Rightarrow> bool" where
  "grouped limits facts recs gs \<longleftrightarrow> gs \<noteq> [] \<and> concat gs = recs \<and> groups_fit limits facts 0 gs \<and>
     (recs = [] \<and> gs = [[]] \<or> [] \<notin> set gs)"

lemma run_self_ready:
  assumes "run_ready limits run"
  shows "\<forall>p. run_self_pack run = Some p \<longrightarrow> self_pack_typed p \<and> validate_self_pack (Some p) limits = Inr ()"
  using encode_validate_facts [of run limits] assms by (auto simp: run_ready_def run_typed_def)

lemma length_meta_limit:
  assumes "run_ready limits run"
  shows "length (meta_wires run) \<le> max_containers limits + max_mutations limits + 1"
  using encode_validate_facts [of run limits] assms
  by (auto simp: run_ready_def meta_wires_def receipt_wires_def split: option.splits)

lemma meta_role:
  assumes "run_ready limits run" and "meta_fits limits run"
    and "grouped limits (meta_facts run) (map meta_prepared (meta_wires run)) gs"
  shows "foldE (decode_frame limits) FrameLoop_init (groups_image (meta_facts run) 0 gs)
    = Inr (at_frame (meta_facts run) (meta_final run) (Some (length (meta_wires run))) (length gs) (length (meta_wires run)))"
proof -
  let ?E = "after (meta_step limits) (meta_start run) (meta_wires run)"
  have r: "encode_validate run limits = Inr ()" "run_typed run" "limits_typed limits"
    using assms(1) by (simp_all add: run_ready_def)
  note d = meta_decodes [OF r(1,2) assms(2) r(3) refl]
  note v = encode_validate_facts [OF r(1)]
  have n: "unat (of_nat (length (run_mutations run)) :: u32) = length (run_mutations run)"
    using run_ready_length [OF assms(1)] by (simp add: unat_of_nat_small)
  note m = length_meta_limit [OF assms(1)]
  have "foldE (decode_frame limits) FrameLoop_init (groups_image (meta_facts run) 0 gs)
    = Inr (at_frame (meta_facts run) (?E (length (map meta_prepared (meta_wires run)))) (Some (length (meta_wires run)))
        (length gs) (length (map meta_prepared (meta_wires run))))"
  proof (rule role_frames [OF _ d])
    fix k assume "k \<le> length (map meta_prepared (meta_wires run))"
    then show "enters limits (meta_facts run) FrameLoop_init 0 k (at_frame (meta_facts run) IndexRunFrameDecoder_default None 1 k)"
      using n v m r(3) by (intro enters_init) (simp_all add: limits_typed_def)
  qed (use r(3) v m run_self_ready [OF assms(1)] assms(3) in \<open>auto simp: role_limit_def grouped_def\<close>)
  then show ?thesis using meta_fold [OF r(1,2) assms(2) r(3)] by (simp add: after_all)
qed

lemma mutation_role:
  assumes "run_ready limits run" and "recs = map prep ms" and "length ms = length (run_mutations run)"
    and "frame_role_tag role = frame_role_tag (ff_role prev) + 1" and "role \<noteq> Metadata"
    and "ff_sequence prev = run_sequence run" "ff_mutation_count prev = of_nat (length (run_mutations run))"
    and "facts = run_facts run role (length (run_mutations run))"
    and first: "\<And>g ys. recs = g @ ys \<Longrightarrow> decodes limits facts d g (E (length g))"
    and walk: "\<And>xs g ys. recs = xs @ g @ ys \<Longrightarrow> decodes limits facts (E (length xs)) g (E (length xs + length g))"
    and "grouped limits facts recs gs"
  shows "foldE (decode_frame limits) (at_frame prev d mt j (ff_role_record_count prev)) (groups_image facts 0 gs)
    = Inr (at_frame facts (E (length ms)) mt (length gs) (length ms))"
proof -
  have r: "encode_validate run limits = Inr ()" "limits_typed limits" using assms(1) by (simp_all add: run_ready_def)
  note v = encode_validate_facts [OF r(1)]
  have "foldE (decode_frame limits) (at_frame prev d mt j (ff_role_record_count prev)) (groups_image facts 0 gs)
    = Inr (at_frame facts (E (length recs)) mt (length gs) (length recs))"
  proof (rule role_frames [OF _ first walk])
    fix k assume "k \<le> length recs"
    then show "enters limits facts (at_frame prev d mt j (ff_role_record_count prev)) 0 k (at_frame facts d mt 1 k)"
      using assms(2-8) run_ready_length [OF assms(1)] by (intro enters_role) simp_all
  qed (use r(2) v assms(2,3,5,8,11) run_self_ready [OF assms(1)] in \<open>auto simp: role_limit_def grouped_def\<close>)
  then show ?thesis using assms(2) by simp
qed

lemma ns_role:
  assumes "run_ready limits run"
    and "grouped limits (ns_facts run) (map (ns_prepared run) (namespace_order (run_mutations run))) gs"
  shows "foldE (decode_frame limits) (at_frame (meta_facts run) (meta_final run) mt j (length (meta_wires run)))
      (groups_image (ns_facts run) 0 gs)
    = Inr (at_frame (ns_facts run) (ns_final run) mt (length gs) (length (run_mutations run)))"
  using mutation_role [OF assms(1) refl, of "namespace_order (run_mutations run)" Namespace "meta_facts run" "ns_facts run"
      "ns_prepared run" "meta_final run", OF _ _ _ _ _ refl ns_decodes [OF assms(1) refl] assms(2)]
  by (simp add: namespace_order_def)

lemma ls_role:
  assumes "run_ready limits run"
    and "grouped limits (ls_facts run) (map ls_prepared (listing_order (run_mutations run))) gs"
  shows "foldE (decode_frame limits) (at_frame (ns_facts run) (ns_final run) mt j (length (run_mutations run)))
      (groups_image (ls_facts run) 0 gs)
    = Inr (at_frame (ls_facts run) (ls_final run) mt (length gs) (length (run_mutations run)))"
  using mutation_role [OF assms(1) refl, of "listing_order (run_mutations run)" Listing "ns_facts run" "ls_facts run"
      ls_prepared "ns_final run", OF _ _ _ _ _ refl ls_decodes [OF assms(1) refl] assms(2)]
  by (simp add: listing_order_def)

section \<open>Finishing\<close>

definition holds_run :: "IndexRun \<Rightarrow> IndexRunFrameDecoder \<Rightarrow> bool" where
  "holds_run run d \<longleftrightarrow> fd_containers d = run_containers run \<and> fd_standalone d = run_standalone run \<and>
     fd_namespace_key_ids d = run_namespace_key_ids run \<and> fd_self_pack d = run_self_pack run \<and>
     fd_completion_receipt d = run_completion_receipt run \<and>
     fd_declared_namespace_key_count d = Some (length (run_namespace_key_ids run)) \<and>
     fd_used_containers d = pack_uses (set (run_mutations run)) \<and>
     fd_used_standalone d = stream_uses (set (run_mutations run)) \<and>
     fd_uses_self_pack d = self_used (set (run_mutations run)) \<and>
     fd_used_namespace_key_ids d = key_use run ` set (run_mutations run) \<and>
     fd_mutations d = map Some (run_mutations run) \<and>
     fd_saw_namespace d = (run_mutations run \<noteq> []) \<and> fd_saw_listing d = (run_mutations run \<noteq> [])"

lemma meta_final_holds: "run_mutations run = [] \<Longrightarrow> holds_run run (meta_final run)"
  by (simp add: holds_run_def)

lemma ls_final_holds: "run_mutations run \<noteq> [] \<Longrightarrow> holds_run run (ls_final run)"
  by (simp add: holds_run_def ls_state_def ns_state_def listing_order_def namespace_order_def)

lemma order_mutations_all: "length ms \<le> 2 ^ 32 \<Longrightarrow> order_mutations (map Some ms) = Inr ms"
proof -
  have "j + length ms \<le> 2 ^ 32 \<Longrightarrow>
    foldE (\<lambda>acc (index, m). if index \<ge> 2 ^ 32 then Inl IntegerOverflow
        else bindE (ok_or (ProjectionMismatch (of_nat index)) m) (\<lambda>m. Inr (acc @ [m]))) acc (enumerate j (map Some ms))
    = Inr (acc @ ms)" for acc j
    by (induction ms arbitrary: acc j) simp_all
  from this [of 0 "[]"] show "length ms \<le> 2 ^ 32 \<Longrightarrow> order_mutations (map Some ms) = Inr ms"
    by (simp add: order_mutations_def)
qed

lemma validate_ordinal_use_iff:
  "validate_ordinal_use err n used = Inr () \<longleftrightarrow> n \<le> 2 ^ 32 \<and> of_nat ` {0..<n} \<subseteq> used"
proof -
  have "foldE (\<lambda>_ index. if index \<ge> 2 ^ 32 then Inl IntegerOverflow
        else if of_nat index \<notin> used then Inl (err (of_nat index)) else Inr ()) () xs = Inr () \<longleftrightarrow>
      (\<forall>i \<in> set xs. i < 2 ^ 32 \<and> of_nat i \<in> used)" for xs
    by (induction xs) auto
  then have "validate_ordinal_use err n used = Inr () \<longleftrightarrow> (\<forall>i < n. i < 2 ^ 32 \<and> of_nat i \<in> used)"
    by (auto simp: validate_ordinal_use_def)
  moreover have "n \<le> 2 ^ 32" if "\<forall>i < n. i < 2 ^ 32"
  proof (rule ccontr)
    assume "\<not> n \<le> 2 ^ 32"
    with that have "(2::nat) ^ 32 < 2 ^ 32" by (intro that [rule_format]) simp
    then show False by simp
  qed
  ultimately show ?thesis by fastforce
qed

lemma key_use_all:
  assumes "run_ready limits run"
  shows "validate_namespace_key_use (length (run_namespace_key_ids run)) (key_use run ` set (run_mutations run)) = Inr ()"
proof -
  have "of_nat i \<in> key_use run ` set (run_mutations run)" if i: "i < length (run_namespace_key_ids run)" for i
  proof -
    let ?k = "run_namespace_key_ids run ! i"
    have k: "?k \<in> set (run_namespace_key_ids run)" using i by simp
    have "distinct (run_namespace_key_ids run)" by (simp add: run_namespace_key_ids_def)
    with key_index_nth [OF k] i have "key_index (run_namespace_key_ids run) ?k = i"
      by (metis nth_eq_iff_index_eq)
    moreover obtain m where "m \<in> set (run_mutations run)" "mutation_namespace_key_id m = ?k"
      using k by (auto simp: run_key_ids_set)
    ultimately show ?thesis by (force simp: key_use_def)
  qed
  moreover have "length (run_namespace_key_ids run) \<le> 2 ^ 32"
    using run_key_ids_length [of run] run_ready_length [OF assms] by simp
  ultimately show ?thesis by (auto simp: validate_namespace_key_use_def validate_ordinal_use_iff)
qed

lemma run_ready_uses:
  assumes "run_ready limits run"
  shows "validate_container_use (length (run_containers run)) (pack_uses (set (run_mutations run)))
      (self_used (set (run_mutations run))) (run_self_pack run) = Inr () \<and>
    validate_standalone_stream_container_use (length (run_standalone run)) (stream_uses (set (run_mutations run))) = Inr () \<and>
    validate_repeated_record_facts (run_mutations run) = Inr () \<and> validate_completion_receipt run = Inr ()"
proof -
  have v: "validate_mutations run limits = Inr ()"
    using encode_validate_facts [of run limits] assms by (simp add: run_ready_def)
  obtain t where t: "foldE (validate_mutation run limits) ({}, {}, False) (enumerate 0 (run_mutations run)) = Inr t"
    using validated_fold [OF assms] by blast
  from validate_mutations_uses [of run limits "{}" 0 "run_mutations run" t] t
  have "t = (pack_uses (set (run_mutations run)), stream_uses (set (run_mutations run)), self_used (set (run_mutations run)))"
    by simp
  with v t show ?thesis by (auto simp: validate_mutations_def elim!: bindE_elim)
qed

lemma meta_total:
  assumes "run_ready limits run"
  shows "Option.bind (usize_add (length (run_containers run)) (length (run_standalone run))) (\<lambda>n.
         Option.bind (usize_add n (length (run_namespace_key_ids run))) (\<lambda>n.
         usize_add n (if run_completion_receipt run \<noteq> None then 1 else 0))) = Some (length (meta_wires run))"
proof -
  have "length (meta_wires run) < 2 ^ 64"
    using length_meta_limit [OF assms] assms by (simp add: run_ready_def limits_typed_def)
  then show ?thesis
    by (cases "run_completion_receipt run") (simp_all add: usize_add_def meta_wires_def receipt_wires_def)
qed

lemma finish_run:
  assumes "run_ready limits run" and "holds_run run d"
  shows "decoder_finish d (run_sequence run) (length (run_mutations run)) (Some (length (meta_wires run))) = Inr run"
proof -
  have eta: "\<lparr>run_completion_receipt = run_completion_receipt run, run_sequence = run_sequence run,
      run_self_pack = run_self_pack run, run_containers = run_containers run,
      run_standalone = run_standalone run, run_mutations = run_mutations run\<rparr> = run"
    by simp
  have "validate_distinct_container_objects (run_containers run) (run_standalone run) = Inr ()"
    using encode_validate_facts [of run limits] assms(1) by (simp add: run_ready_def)
  with assms(2) run_ready_uses [OF assms(1)] key_use_all [OF assms(1)] meta_total [OF assms(1)]
    order_mutations_all [OF less_imp_le [OF run_ready_length [OF assms(1)]]]
  show ?thesis by (simp add: decoder_finish_def holds_run_def Let_def eta)
qed

section \<open>The round trip\<close>

lemma pack_prepared_groups:
  assumes "pack_prepared_frames role (run_sequence run) (of_nat (length (run_mutations run))) (run_self_pack run)
      (length (run_namespace_key_ids run)) recs limits = Inr frames"
    and "facts = run_facts run role (length recs)"
  shows "if recs = [] \<and> role \<noteq> Metadata then frames = []
    else \<exists>gs. grouped limits facts recs gs \<and> map ef_bytes frames = groups_image facts 0 gs"
proof (cases "recs = [] \<and> role \<noteq> Metadata")
  case False
  with assms have "pack_loop facts limits 0 recs = Inr frames"
    by (auto simp: pack_prepared_frames_def run_facts_def split: if_splits)
  from pack_loop_groups [OF this] False show ?thesis by (auto simp: grouped_def)
qed (use assms in \<open>simp add: pack_prepared_frames_def\<close>)

lemma frames_decoded:
  assumes "run_ready limits run" and "meta_fits limits run"
    and m: "grouped limits (meta_facts run) (map meta_prepared (meta_wires run)) gm" "map ef_bytes fm = groups_image (meta_facts run) 0 gm"
    and n: "if run_mutations run = [] then fn = [] else \<exists>gn.
      grouped limits (ns_facts run) (map (ns_prepared run) (namespace_order (run_mutations run))) gn \<and>
      map ef_bytes fn = groups_image (ns_facts run) 0 gn"
    and l: "if run_mutations run = [] then fl = [] else \<exists>gl.
      grouped limits (ls_facts run) (map ls_prepared (listing_order (run_mutations run))) gl \<and>
      map ef_bytes fl = groups_image (ls_facts run) 0 gl"
  shows "\<exists>facts d k. foldE (decode_frame limits) FrameLoop_init (map ef_bytes (fm @ fn @ fl))
      = Inr (at_frame facts d (Some (length (meta_wires run))) k (ff_role_record_count facts)) \<and> holds_run run d \<and>
    ff_sequence facts = run_sequence run \<and> ff_mutation_count facts = of_nat (length (run_mutations run))"
proof (cases "run_mutations run = []")
  case True
  then show ?thesis
    using n l m(2) meta_role [OF assms(1,2) m(1)] meta_final_holds [OF True]
    by (intro exI [of _ "meta_facts run"] exI [of _ "meta_final run"] exI [of _ "length gm"]) simp
next
  case False
  then obtain gn gl where
    gn: "grouped limits (ns_facts run) (map (ns_prepared run) (namespace_order (run_mutations run))) gn"
      "map ef_bytes fn = groups_image (ns_facts run) 0 gn"
    and gl: "grouped limits (ls_facts run) (map ls_prepared (listing_order (run_mutations run))) gl"
      "map ef_bytes fl = groups_image (ls_facts run) 0 gl"
    using n l by auto
  have "foldE (decode_frame limits) FrameLoop_init (map ef_bytes (fm @ fn @ fl))
      = Inr (at_frame (ls_facts run) (ls_final run) (Some (length (meta_wires run))) (length gl) (length (run_mutations run)))"
    unfolding map_append foldE_append m(2) gn(2) gl(2) meta_role [OF assms(1,2) m(1)] bindE_Inr
      ns_role [OF assms(1) gn(1)] ls_role [OF assms(1) gl(1)] by (rule refl)
  then show ?thesis
    using ls_final_holds [OF False]
    by (intro exI [of _ "ls_facts run"] exI [of _ "ls_final run"] exI [of _ "length gl"]) simp
qed

lemma encode_frames_parts:
  assumes "encode_index_run_frames run limits = Inr frames" and "run_typed run" and "limits_typed limits"
  obtains fm fn fl gm total where "frames = fm @ fn @ fl" "run_ready limits run" "meta_fits limits run"
    "grouped limits (meta_facts run) (map meta_prepared (meta_wires run)) gm" "map ef_bytes fm = groups_image (meta_facts run) 0 gm"
    "if run_mutations run = [] then fn = [] else \<exists>gn.
      grouped limits (ns_facts run) (map (ns_prepared run) (namespace_order (run_mutations run))) gn \<and>
      map ef_bytes fn = groups_image (ns_facts run) 0 gn"
    "if run_mutations run = [] then fl = [] else \<exists>gl.
      grouped limits (ls_facts run) (map ls_prepared (listing_order (run_mutations run))) gl \<and>
      map ef_bytes fl = groups_image (ls_facts run) 0 gl"
    "frames_total (map (\<lambda>f. length (ef_bytes f)) frames) = Inr total" "total \<le> max_total_bytes limits"
proof -
  let ?ids = "run_namespace_key_ids run" and ?n = "of_nat (length (run_mutations run)) :: u32"
  from assms(1) obtain metas ns ls fm fn fl total where
    v: "encode_validate run limits = Inr ()" and
    metas: "encode_metadata_records run limits = Inr metas" and
    ns: "collectE (encode_namespace_record limits ?ids) (namespace_order (run_mutations run)) = Inr ns" and
    ls: "collectE (encode_listing_record limits) (listing_order (run_mutations run)) = Inr ls" and
    fm: "pack_prepared_frames Metadata (run_sequence run) ?n (run_self_pack run) (length ?ids) metas limits = Inr fm" and
    fn: "pack_prepared_frames Namespace (run_sequence run) ?n (run_self_pack run) (length ?ids) ns limits = Inr fn" and
    fl: "pack_prepared_frames Listing (run_sequence run) ?n (run_self_pack run) (length ?ids) ls limits = Inr fl" and
    total: "frames_total (map (\<lambda>f. length (ef_bytes f)) (fm @ fn @ fl)) = Inr total" "total \<le> max_total_bytes limits" and
    frames: "frames = fm @ fn @ fl"
    by (auto simp: encode_index_run_frames_def Let_def elim!: bindE_elim split: if_splits)
  have M: "metas = map meta_prepared (meta_wires run)" "meta_fits limits run"
    using encode_metadata_wires [OF metas assms(2)] by simp_all
  have N: "ns = map (ns_prepared run) (namespace_order (run_mutations run))"
    using collectE_map [OF ns, of "ns_prepared run" "\<lambda>_. True"] encode_namespace_wire [of limits ?ids]
    by (simp add: ns_prepared_def)
  have L: "ls = map ls_prepared (listing_order (run_mutations run))"
    using collectE_map [OF ls, of ls_prepared "\<lambda>_. True"] encode_listing_wire [of limits] by (simp add: ls_prepared_def)
  have lens: "length (namespace_order (run_mutations run)) = length (run_mutations run)"
    "length (listing_order (run_mutations run)) = length (run_mutations run)"
    "namespace_order (run_mutations run) = [] \<longleftrightarrow> run_mutations run = []"
    "listing_order (run_mutations run) = [] \<longleftrightarrow> run_mutations run = []"
    by (simp_all add: namespace_order_def listing_order_def flip: length_0_conv)
  obtain gm where "grouped limits (meta_facts run) metas gm" "map ef_bytes fm = groups_image (meta_facts run) 0 gm"
    using pack_prepared_groups [OF fm refl] M by auto
  with that [OF frames _ M(2), of gm total] show thesis
    using pack_prepared_groups [OF fn refl] pack_prepared_groups [OF fl refl] v assms(2,3) M N L lens total frames
    by (auto simp: run_ready_def)
qed

lemma index_run_frames_roundtrip:
  assumes "encode_index_run_frames run limits = Inr frames" and "run_typed run" and "limits_typed limits"
  shows "decode_index_run_frames (map ef_bytes frames) limits = Inr run"
  using assms
proof (rule encode_frames_parts)
  fix fm fn fl gm total
  assume frames: "frames = fm @ fn @ fl" and ready: "run_ready limits run" and fits: "meta_fits limits run"
    and gm: "grouped limits (meta_facts run) (map meta_prepared (meta_wires run)) gm" "map ef_bytes fm = groups_image (meta_facts run) 0 gm"
    and fn: "if run_mutations run = [] then fn = [] else \<exists>gn.
      grouped limits (ns_facts run) (map (ns_prepared run) (namespace_order (run_mutations run))) gn \<and>
      map ef_bytes fn = groups_image (ns_facts run) 0 gn"
    and fl: "if run_mutations run = [] then fl = [] else \<exists>gl.
      grouped limits (ls_facts run) (map ls_prepared (listing_order (run_mutations run))) gl \<and>
      map ef_bytes fl = groups_image (ls_facts run) 0 gl"
    and total: "frames_total (map (\<lambda>f. length (ef_bytes f)) frames) = Inr total" "total \<le> max_total_bytes limits"
  from frames_decoded [OF ready fits gm fn fl] obtain facts d k where
    fold: "foldE (decode_frame limits) FrameLoop_init (map ef_bytes frames)
      = Inr (at_frame facts d (Some (length (meta_wires run))) k (ff_role_record_count facts))" and
    d: "holds_run run d" "ff_sequence facts = run_sequence run" "ff_mutation_count facts = of_nat (length (run_mutations run))"
    unfolding frames by blast
  have n: "unat (of_nat (length (run_mutations run)) :: u32) = length (run_mutations run)"
    using run_ready_length [OF ready] by (simp add: unat_of_nat_small)
  have "frames \<noteq> []" using frames gm by (cases gm) (auto simp: grouped_def)
  with fold d n total finish_run [OF ready d(1)] show ?thesis
    by (simp add: decode_index_run_frames_def at_frame_def comp_def)
qed

section \<open>The bundle\<close>

lemma bundle_frame:
  assumes "encode_bundle_frame limits w f = Inr w'"
  shows "appends w w' (record_wire (ef_bytes f)) \<and> length (ef_bytes f) \<le> max_frame_bytes limits \<and> length (ef_bytes f) < 2 ^ 64"
proof -
  from assms obtain v where v: "Writer_bytes (Writer_new (max_frame_bytes limits)) (ef_bytes f) = Inr v"
    and w: "Writer_record w v = Inr w'"
    by (auto simp: encode_bundle_frame_def elim!: bindE_elim)
  from appends_new [OF v [unfolded Writer_bytes_iff]] Writer_record_appends [OF w] show ?thesis by auto
qed

lemma bundle_frames:
  assumes "foldE (encode_bundle_frame limits) w fs = Inr w'"
  shows "(writer_ok w \<longrightarrow> appends w w' (concat (map record_wire (map ef_bytes fs)))) \<and>
    list_all (\<lambda>b. length b \<le> max_frame_bytes limits \<and> length b < 2 ^ 64) (map ef_bytes fs)"
  using assms
proof (induction fs arbitrary: w)
  case Nil
  then show ?case by (simp add: appends_def writer_ok_def)
next
  case (Cons f fs)
  from Cons.prems obtain v where v: "encode_bundle_frame limits w f = Inr v"
    and rest: "foldE (encode_bundle_frame limits) v fs = Inr w'" by (auto elim!: bindE_elim)
  note f = bundle_frame [OF v]
  with Cons.IH [OF rest] appends_ok [of w v] show ?case by (auto intro: appends_trans)
qed

lemma grouped_length: "grouped limits facts recs gs \<Longrightarrow> length (groups_image facts 0 gs) \<le> max 1 (length recs)"
proof -
  have "length (groups_image facts i gs) = length gs" for i by (induction gs arbitrary: i) simp_all
  then show "grouped limits facts recs gs \<Longrightarrow> length (groups_image facts 0 gs) \<le> max 1 (length recs)"
    using length_groups [of gs] by (auto simp: grouped_def)
qed

lemma frame_count:
  assumes "encode_index_run_frames run limits = Inr frames" and "run_typed run" and "limits_typed limits"
  shows "length frames \<le> max_mutations limits * 3 + max_containers limits + 1"
  using assms
proof (rule encode_frames_parts)
  fix fm fn fl gm total
  let ?n = "length (run_mutations run)"
  assume frames: "frames = fm @ fn @ fl" and ready: "run_ready limits run"
    and gm: "grouped limits (meta_facts run) (map meta_prepared (meta_wires run)) gm" "map ef_bytes fm = groups_image (meta_facts run) 0 gm"
    and fn: "if run_mutations run = [] then fn = [] else \<exists>gn.
      grouped limits (ns_facts run) (map (ns_prepared run) (namespace_order (run_mutations run))) gn \<and>
      map ef_bytes fn = groups_image (ns_facts run) 0 gn"
    and fl: "if run_mutations run = [] then fl = [] else \<exists>gl.
      grouped limits (ls_facts run) (map ls_prepared (listing_order (run_mutations run))) gl \<and>
      map ef_bytes fl = groups_image (ls_facts run) 0 gl"
  have "length fm \<le> max 1 (length (meta_wires run))"
    using grouped_length [OF gm(1)] unfolding gm(2) [symmetric] by simp
  moreover have "length fn \<le> ?n"
  proof (cases "run_mutations run = []")
    case False
    with fn obtain gn where gn: "grouped limits (ns_facts run) (map (ns_prepared run) (namespace_order (run_mutations run))) gn"
      "map ef_bytes fn = groups_image (ns_facts run) 0 gn" by auto
    have "0 < ?n" using False by simp
    with grouped_length [OF gn(1)] show ?thesis
      unfolding gn(2) [symmetric] by (simp add: namespace_order_def max_def del: length_greater_0_conv split: if_splits)
  qed (use fn in simp)
  moreover have "length fl \<le> ?n"
  proof (cases "run_mutations run = []")
    case False
    with fl obtain gl where gl: "grouped limits (ls_facts run) (map ls_prepared (listing_order (run_mutations run))) gl"
      "map ef_bytes fl = groups_image (ls_facts run) 0 gl" by auto
    have "0 < ?n" using False by simp
    with grouped_length [OF gl(1)] show ?thesis
      unfolding gl(2) [symmetric] by (simp add: listing_order_def max_def del: length_greater_0_conv split: if_splits)
  qed (use fl in simp)
  moreover have "?n \<le> max_mutations limits"
    using encode_validate_facts [of run limits] ready by (simp add: run_ready_def)
  ultimately show ?thesis using length_meta_limit [OF ready] unfolding frames by simp
qed

lemma index_run_roundtrip:
  assumes "encode_index_run run limits = Inr bs" and "run_typed run" and "limits_typed limits"
  shows "decode_index_run bs limits = Inr run"
proof -
  from assms(1) obtain frames w w' where
    frames: "encode_index_run_frames run limits = Inr frames" and n: "length frames < 2 ^ 64" and
    w: "Writer_varint (Writer_new (max_total_bytes limits)) (of_nat (length frames)) = Inr w" and
    w': "foldE (encode_bundle_frame limits) w frames = Inr w'" and bs: "bs = wbytes w'"
    by (auto simp: encode_index_run_def Writer_finish_def elim!: bindE_elim)
  let ?fs = "map ef_bytes frames"
  have "appends (Writer_new (max_total_bytes limits)) w (count_wire (length ?fs))"
    using Writer_varint_appends [OF w] by (simp add: count_wire_def)
  with bundle_frames [OF w'] appends_ok [of "Writer_new (max_total_bytes limits)" w]
  have "appends (Writer_new (max_total_bytes limits)) w' (count_wire (length ?fs) @ concat (map record_wire ?fs))"
    by (blast intro: appends_trans)
  from appends_new [OF this] have out: "bs = count_wire (length ?fs) @ concat (map record_wire ?fs)"
    "length bs \<le> max_total_bytes limits" using bs by simp_all
  let ?max = "max_mutations limits * 3 + max_containers limits + 1"
  have max: "?max < 2 ^ 64" using assms(3) by (simp add: limits_typed_def)
  have count: "rd_bounded_count ''frame count'' ?max bs = Inr (length ?fs, concat (map record_wire ?fs))"
    unfolding out(1) using frame_count [OF frames assms(2,3)] max by (intro rw_count.read_wire) simp
  have recs: "repeatE (rd_record (max_frame_bytes limits)) (length ?fs) (concat (map record_wire ?fs) @ []) = Inr (?fs, [])"
    using bundle_frames [OF w'] by (intro rw_record.many_wire) blast
  show ?thesis
    using out(2) max count recs index_run_frames_roundtrip [OF frames assms(2,3)]
    by (simp add: decode_index_run_def usize_mul_def usize_add_def)
qed

end
