(* ===== verification/RunExample.thy ===== *)
theory RunExample
  imports RunRoundtrip
begin

text \<open>
  A concrete index run: a pack carried by the run itself, a tombstone, and an object in the pack
  under the same namespace key. It is evaluated through the encoder by rewriting.
\<close>

definition example_limits :: IndexRunLimits where
  "example_limits = \<lparr>max_total_bytes = 4096, max_frame_bytes = 256, max_record_bytes = 200, max_containers = 2,
     max_mutations = 4, max_path_bytes = 16, max_key_id_bytes = 8, max_object_id_bytes = 8, max_version_id_bytes = 8\<rparr>"

definition example_pack :: IndexRunSelfPack where
  "example_pack = \<lparr>sp_pack_id = replicate 32 1, sp_attempt_id = replicate 32 2, sp_content_key_id = [99],
     sp_stored_len = 64, sp_record_count = 1\<rparr>"

definition example_tombstone :: IndexTombstone where
  "example_tombstone = \<lparr>tb_mutation_ordinal = 0, tb_blind_key = replicate 32 9, tb_namespace_key_id = [107],
     tb_path = [97, 98], tb_generation = 3\<rparr>"

definition example_upsert :: IndexUpsert where
  "example_upsert = \<lparr>up_mutation_ordinal = 1, up_blind_key = replicate 32 5, up_namespace_key_id = [107],
     up_path = [97, 99], up_generation = 4, up_payload = SelfPack \<lparr>record_ordinal = 0, physical_offset = 0\<rparr>,
     up_content_len = 10, up_modified_at_ms = 1, up_retention = None, up_legal_hold = None,
     up_etag = \<lparr>etag_digest = replicate 16 6, etag_parts = 0\<rparr>, up_checksum = None\<rparr>"

definition example_run :: IndexRun where
  "example_run = \<lparr>run_completion_receipt = None, run_sequence = 7, run_self_pack = Some example_pack,
     run_containers = [], run_standalone = [], run_mutations = [Tombstone example_tombstone, Upsert example_upsert]\<rparr>"

lemma example_fields [simp]:
  "run_completion_receipt example_run = None" "run_sequence example_run = 7" "run_self_pack example_run = Some example_pack"
  "run_containers example_run = []" "run_standalone example_run = []"
  "run_mutations example_run = [Tombstone example_tombstone, Upsert example_upsert]"
  by (simp_all add: example_run_def)

lemma example_limit_fields [simp]:
  "max_total_bytes example_limits = 4096" "max_frame_bytes example_limits = 256" "max_record_bytes example_limits = 200"
  "max_containers example_limits = 2" "max_mutations example_limits = 4" "max_path_bytes example_limits = 16"
  "max_key_id_bytes example_limits = 8" "max_object_id_bytes example_limits = 8" "max_version_id_bytes example_limits = 8"
  by (simp_all add: example_limits_def)

lemmas example_values = example_pack_def example_tombstone_def example_upsert_def

lemmas eval_validate = encode_validate_def usize_add_def validate_self_pack_def validate_containers_def
  validate_standalone_stream_containers_def validate_distinct_container_objects_def validate_mutations_def
  validate_completion_receipt_def validate_mutation_def validate_empty_payload_def composite_parts_mismatch_def
  validate_payload_pointer_def validate_record_range_def derived_record_stored_len_def validate_pointer_use_def
  validate_container_use_def validate_ordinal_use_def validate_standalone_stream_container_use_def
  validate_repeated_record_facts_def Let_def run_namespace_key_ids_def record_source_def record_facts_step_def
  INDEX_PACK_MAX_STORED_BYTES_def INDEX_PACK_MAX_RECORDS_def INDEX_PACK_SEGMENT_BYTES_def INDEX_PACK_SEGMENT_TAG_BYTES_def
  PAYLOAD_PACK_SEGMENT_BYTES_def PAYLOAD_AEAD_TAG_LEN_def div_ceil_def checked_mul_def checked_add_def

lemmas eval_writer = Writer_new_def Writer_finish_def Writer_u8_def Writer_u16_def Writer_u64_def Writer_i64_def
  Writer_bytes_def Writer_reserve_def Writer_string_def Writer_record_def Writer_varint.simps usize_add_def Let_def
  drop_bit_eq_div usize_to_u64_def validate_count_def varint_len.simps

lemmas eval_encode = encode_index_run_frames_def encode_metadata_records_def run_namespace_key_ids_def
  encode_namespace_key_record_def encode_namespace_record_def encode_namespace_body_def namespace_key_ordinal_def
  encode_payload_pointer_def encode_pack_record_pointer_def encode_retention_def encode_legal_hold_def
  encode_checksum_def ObjectEtag_encode_def encode_listing_record_def pack_prepared_frames_def pack_loop.simps
  encoded_len_def listing_path_def listing_path_or_default_def shared_prefix_len_def frame_header_len_def
  encode_frame_def encode_frame_header_def encode_self_payload_def encode_frame_record_def PreparedRecord_encode_def
  record_limit_def first_byte_def frames_total_def INDEX_RUN_WIRE_VERSION_def STANDALONE_CONTAINER_MAX_BYTES_def

lemma example_validates: "encode_validate example_run example_limits = Inr ()"
  by (simp add: eval_validate example_values cong: bindE_weak_cong)

lemma replicate_less: "a < b \<Longrightarrow> replicate (Suc n) (a :: 'a::order) < replicate (Suc n) b"
  by simp

lemma example_orders:
  "namespace_order [Tombstone example_tombstone, Upsert example_upsert] = [Upsert example_upsert, Tombstone example_tombstone]"
  "listing_order [Tombstone example_tombstone, Upsert example_upsert] = [Tombstone example_tombstone, Upsert example_upsert]"
  using replicate_less [of "5 :: u8" 9 31]
  by (simp_all add: namespace_order_def listing_order_def example_values not_le not_less less_imp_le del: replicate_Suc)

lemma domain_length: "length INDEX_RUN_PLAINTEXT_DOMAIN = 33"
  by (simp add: INDEX_RUN_PLAINTEXT_DOMAIN_def lit_def)

lemma example_key: "binary_search [[107]] [107 :: u8] = Some 0"
  by (simp add: binary_search_def)

lemma example_frames: "\<not> isl (encode_index_run_frames example_run example_limits)"
  by (simp add: eval_encode eval_writer example_validates example_orders [unfolded example_values] domain_length example_key example_values
      cong: bindE_weak_cong)

lemma example_bundle: "\<not> isl (encode_index_run example_run example_limits)"
  by (simp add: encode_index_run_def encode_bundle_frame_def eval_encode eval_writer example_validates example_orders [unfolded example_values]
      domain_length example_key example_values cong: bindE_weak_cong)

lemma example_typed: "run_typed example_run \<and> limits_typed example_limits"
  by (simp add: run_typed_def limits_typed_def self_pack_typed_def valid_name_def from_utf8_ok_def trim_is_empty_def
      is_whitespace_def utf8_chars.simps valid_etag_def example_values)

end
