(* ===== verification/Lru.thy ===== *)
theory Lru
  imports Prelude
begin

text \<open>
  The least-recently-used cache of \<open>rs3-repository/src/lru.rs\<close>: a hash map whose entries are the
  nodes of a doubly linked list from the least to the most recently used key. The abstract cache
  is the list of its key-value pairs in that order.
\<close>

section \<open>The cache\<close>

record ('k, 'v) LruEntry =
  le_value :: 'v
  le_previous :: "'k option"
  le_next :: "'k option"

record ('k, 'v) LruCache =
  lc_entries :: "'k \<rightharpoonup> ('k, 'v) LruEntry"
  lc_head :: "'k option"
  lc_tail :: "'k option"

definition LruCache_new :: "('k, 'v) LruCache" where
  "LruCache_new = \<lparr>lc_entries = Map.empty, lc_head = None, lc_tail = None\<rparr>"

definition lru_len :: "('k, 'v) LruCache \<Rightarrow> nat" where
  "lru_len c = card (dom (lc_entries c))"

definition peek_cloned :: "('k, 'v) LruCache \<Rightarrow> 'k \<Rightarrow> 'v option" where
  "peek_cloned c key = map_option le_value (lc_entries c key)"

text \<open>Updates through \<open>get_mut\<close>: nothing happens when the key is absent.\<close>

definition set_next :: "'k \<Rightarrow> 'k option \<Rightarrow> ('k, 'v) LruCache \<Rightarrow> ('k, 'v) LruCache" where
  "set_next key n c = (case lc_entries c key of None \<Rightarrow> c
     | Some e \<Rightarrow> c\<lparr>lc_entries := (lc_entries c)(key \<mapsto> e\<lparr>le_next := n\<rparr>)\<rparr>)"

definition set_previous :: "'k \<Rightarrow> 'k option \<Rightarrow> ('k, 'v) LruCache \<Rightarrow> ('k, 'v) LruCache" where
  "set_previous key p c = (case lc_entries c key of None \<Rightarrow> c
     | Some e \<Rightarrow> c\<lparr>lc_entries := (lc_entries c)(key \<mapsto> e\<lparr>le_previous := p\<rparr>)\<rparr>)"

definition detach :: "'k \<Rightarrow> ('k, 'v) LruCache \<Rightarrow> ('k, 'v) LruCache" where
  "detach key c =
     (case lc_entries c key of
        None \<Rightarrow> c
      | Some entry \<Rightarrow>
          (let previous = le_previous entry; following = le_next entry;
               c = (case previous of Some p \<Rightarrow> set_next p following c | None \<Rightarrow> c\<lparr>lc_head := following\<rparr>);
               c = (case following of Some n \<Rightarrow> set_previous n previous c | None \<Rightarrow> c\<lparr>lc_tail := previous\<rparr>)
           in set_next key None (set_previous key None c)))"

definition push_back_existing :: "'k \<Rightarrow> ('k, 'v) LruCache \<Rightarrow> ('k, 'v) LruCache" where
  "push_back_existing key c =
     (let previous = lc_tail c;
          c = (case previous of Some p \<Rightarrow> set_next p (Some key) c | None \<Rightarrow> c\<lparr>lc_head := Some key\<rparr>);
          c = set_next key None (set_previous key previous c)
      in c\<lparr>lc_tail := Some key\<rparr>)"

definition touch :: "'k \<Rightarrow> ('k, 'v) LruCache \<Rightarrow> ('k, 'v) LruCache" where
  "touch key c = (if lc_entries c key = None then c
     else if lc_tail c = Some key then c else push_back_existing key (detach key c))"

definition lru_insert :: "'k \<Rightarrow> 'v \<Rightarrow> ('k, 'v) LruCache \<Rightarrow> 'v option \<times> ('k, 'v) LruCache" where
  "lru_insert key value c =
     (case lc_entries c key of
        Some entry \<Rightarrow> (Some (le_value entry), touch key (c\<lparr>lc_entries := (lc_entries c)(key \<mapsto> entry\<lparr>le_value := value\<rparr>)\<rparr>))
      | None \<Rightarrow>
          (let previous = lc_tail c;
               entry = \<lparr>le_value = value, le_previous = previous, le_next = None\<rparr>;
               c = (case previous of Some p \<Rightarrow> set_next p (Some key) c | None \<Rightarrow> c\<lparr>lc_head := Some key\<rparr>);
               c = c\<lparr>lc_tail := Some key\<rparr>
           in (None, c\<lparr>lc_entries := (lc_entries c)(key \<mapsto> entry)\<rparr>)))"

definition pop_lru :: "('k, 'v) LruCache \<Rightarrow> ('k \<times> 'v) option \<times> ('k, 'v) LruCache" where
  "pop_lru c =
     (case lc_head c of
        None \<Rightarrow> (None, c)
      | Some key \<Rightarrow>
          (let c = detach key c in
           (map_option (\<lambda>entry. (key, le_value entry)) (lc_entries c key),
            c\<lparr>lc_entries := (lc_entries c)(key := None)\<rparr>)))"

section \<open>Neighbours in a list\<close>

fun next_in :: "'k list \<Rightarrow> 'k \<Rightarrow> 'k option" where
  "next_in (a # b # ks) k = (if a = k then Some b else next_in (b # ks) k)"
| "next_in ks k = None"

definition prev_in :: "'k list \<Rightarrow> 'k \<Rightarrow> 'k option" where
  "prev_in ks k = next_in (rev ks) k"

definition first_of :: "'k list \<Rightarrow> 'k option" where
  "first_of ks = (case ks of [] \<Rightarrow> None | k # _ \<Rightarrow> Some k)"

definition last_of :: "'k list \<Rightarrow> 'k option" where
  "last_of ks = first_of (rev ks)"

lemma first_of_simps [simp]: "first_of [] = None" "first_of (k # ks) = Some k" "first_of ks = None \<longleftrightarrow> ks = []"
  by (simp_all add: first_of_def split: list.splits)

lemma last_of_simps [simp]: "last_of [] = None" "last_of (ks @ [k]) = Some k" "last_of ks = None \<longleftrightarrow> ks = []"
  by (simp_all add: last_of_def)

lemma first_of_append: "first_of (xs @ ys) = (if xs = [] then first_of ys else first_of xs)"
  by (cases xs) simp_all

lemma last_of_append: "last_of (xs @ ys) = (if ys = [] then last_of xs else last_of ys)"
  by (simp add: last_of_def first_of_append)

lemma last_of_Cons [simp]: "last_of (k # ks) = (if ks = [] then Some k else last_of ks)"
  using last_of_append [of "[k]" ks] by (simp add: last_of_def)

lemma last_of_Some: "last_of xs = Some k \<longleftrightarrow> (\<exists>as. xs = as @ [k])"
  by (cases xs rule: rev_cases) auto

lemma first_of_Some: "first_of xs = Some k \<longleftrightarrow> (\<exists>bs. xs = k # bs)"
  by (cases xs) auto

lemma next_in_absent: "k \<notin> set ks \<Longrightarrow> next_in ks k = None"
  by (induction ks k rule: next_in.induct) auto

lemma next_in_at: "k \<notin> set as \<Longrightarrow> next_in (as @ k # bs) k = first_of bs"
proof (induction as)
  case Nil
  then show ?case by (cases bs) simp_all
next
  case (Cons a as)
  then show ?case by (cases as) auto
qed

lemma prev_in_absent: "k \<notin> set ks \<Longrightarrow> prev_in ks k = None"
  by (simp add: prev_in_def next_in_absent)

lemma prev_in_at: "k \<notin> set bs \<Longrightarrow> prev_in (as @ k # bs) k = last_of as"
  by (simp add: prev_in_def last_of_def next_in_at)

lemma next_in_drop:
  assumes "distinct (as @ k # bs)" and "j \<noteq> k"
  shows "next_in (as @ bs) j = (if last_of as = Some j then first_of bs else next_in (as @ k # bs) j)"
proof (cases "j \<in> set as")
  case True
  then obtain us vs where as: "as = us @ j # vs" by (auto dest: split_list)
  have "j \<notin> set us" using assms(1) as by simp
  then have "next_in (as @ bs) j = first_of (vs @ bs)" "next_in (as @ k # bs) j = first_of (vs @ k # bs)"
    unfolding as using next_in_at [of j us "vs @ bs"] next_in_at [of j us "vs @ k # bs"] by simp_all
  moreover have "last_of as = Some j \<longleftrightarrow> vs = []"
    using assms(1) as by (cases vs rule: rev_cases) (auto simp: last_of_append simp flip: append_Cons)
  ultimately show ?thesis by (simp add: first_of_append)
next
  case False
  then have l: "last_of as \<noteq> Some j" by (auto simp: last_of_Some)
  show ?thesis
  proof (cases "j \<in> set bs")
    case True
    then obtain us vs where bs: "bs = us @ j # vs" by (auto dest: split_list)
    have "j \<notin> set (as @ us)" "j \<notin> set (as @ k # us)" using assms bs False by auto
    from next_in_at [OF this(1), of vs] next_in_at [OF this(2), of vs] l show ?thesis by (simp add: bs)
  next
    case absent: False
    then have "next_in (as @ bs) j = None" "next_in (as @ k # bs) j = None"
      using False assms(2) by (simp_all add: next_in_absent)
    with l show ?thesis by simp
  qed
qed

lemma prev_in_drop:
  assumes "distinct (as @ k # bs)" and "j \<noteq> k"
  shows "prev_in (as @ bs) j = (if first_of bs = Some j then last_of as else prev_in (as @ k # bs) j)"
proof -
  have "distinct (rev bs @ k # rev as)" using assms(1) by auto
  from next_in_drop [OF this assms(2)] show ?thesis by (simp add: prev_in_def last_of_def)
qed

lemma next_in_snoc:
  assumes "distinct (ks @ [k])" and "j \<noteq> k"
  shows "next_in (ks @ [k]) j = (if last_of ks = Some j then Some k else next_in ks j)"
  using next_in_drop [of ks k "[]" j] assms
  by (cases ks rule: rev_cases) (auto simp: next_in_at next_in_absent)

lemma prev_in_snoc:
  assumes "distinct (ks @ [k])" and "j \<noteq> k"
  shows "prev_in (ks @ [k]) j = prev_in ks j"
  using prev_in_drop [of ks k "[]" j] assms by simp

section \<open>Representation\<close>

text \<open>
  \<open>linked c vm ks\<close>: the entries of the cache hold the values \<open>vm\<close>, and the keys \<open>ks\<close> are chained from
  head to tail. A detached entry has a value but no neighbours.
\<close>

definition linked :: "('k, 'v) LruCache \<Rightarrow> ('k \<rightharpoonup> 'v) \<Rightarrow> 'k list \<Rightarrow> bool" where
  "linked c vm ks \<longleftrightarrow> distinct ks \<and> set ks \<subseteq> dom vm \<and> lc_head c = first_of ks \<and> lc_tail c = last_of ks \<and>
     lc_entries c = (\<lambda>k. map_option (\<lambda>v. \<lparr>le_value = v, le_previous = prev_in ks k, le_next = next_in ks k\<rparr>) (vm k))"

lemma set_fields [simp]:
  "lc_head (set_next k n c) = lc_head c" "lc_tail (set_next k n c) = lc_tail c"
  "lc_head (set_previous k n c) = lc_head c" "lc_tail (set_previous k n c) = lc_tail c"
  by (simp_all add: set_next_def set_previous_def split: option.splits)

lemma set_next_entries:
  "lc_entries (set_next k n c) = (\<lambda>j. if j = k then map_option (\<lambda>e. e\<lparr>le_next := n\<rparr>) (lc_entries c j) else lc_entries c j)"
  by (auto simp: set_next_def fun_eq_iff split: option.splits)

lemma set_previous_entries:
  "lc_entries (set_previous k n c) = (\<lambda>j. if j = k then map_option (\<lambda>e. e\<lparr>le_previous := n\<rparr>) (lc_entries c j) else lc_entries c j)"
  by (auto simp: set_previous_def fun_eq_iff split: option.splits)

lemmas set_entries = set_next_entries set_previous_entries

lemma detach_linked:
  assumes "linked c vm (as @ k # bs)"
  shows "linked (detach k c) vm (as @ bs)"
proof -
  from assms have d: "distinct (as @ k # bs)" and sub: "set (as @ k # bs) \<subseteq> dom vm"
    and h: "lc_head c = first_of (as @ k # bs)" "lc_tail c = last_of (as @ k # bs)"
    and e: "lc_entries c = (\<lambda>j. map_option (\<lambda>v. \<lparr>le_value = v, le_previous = prev_in (as @ k # bs) j,
        le_next = next_in (as @ k # bs) j\<rparr>) (vm j))"
    by (simp_all only: linked_def)
  obtain v where v: "vm k = Some v" using sub by auto
  have at: "prev_in (as @ k # bs) k = last_of as" "next_in (as @ k # bs) k = first_of bs"
    using d by (simp_all add: prev_in_at next_in_at)
  have gone: "prev_in (as @ bs) k = None" "next_in (as @ bs) k = None"
    using d by (simp_all add: prev_in_absent next_in_absent)
  have dt: "detach k c = set_next k None (set_previous k None
      (case first_of bs of Some n \<Rightarrow> set_previous n (last_of as) (case last_of as of Some p \<Rightarrow> set_next p (first_of bs) c
         | None \<Rightarrow> c\<lparr>lc_head := first_of bs\<rparr>)
       | None \<Rightarrow> (case last_of as of Some p \<Rightarrow> set_next p (first_of bs) c
         | None \<Rightarrow> c\<lparr>lc_head := first_of bs\<rparr>)\<lparr>lc_tail := last_of as\<rparr>))"
    using v at by (simp add: detach_def e Let_def)
  have ends: "lc_head (detach k c) = first_of (as @ bs)" "lc_tail (detach k c) = last_of (as @ bs)"
    using h unfolding dt by (auto simp: first_of_append last_of_append split: option.splits)
  have nk: "last_of as \<noteq> Some k" "first_of bs \<noteq> Some k"
    using d by (auto simp: last_of_Some first_of_Some)
  have "lc_entries (detach k c) j =
      map_option (\<lambda>v. \<lparr>le_value = v, le_previous = prev_in (as @ bs) j, le_next = next_in (as @ bs) j\<rparr>) (vm j)" for j
  proof (cases "j = k")
    case True
    then show ?thesis using gone nk v
      by (cases "last_of as"; cases "first_of bs") (simp_all add: dt set_entries e)
  next
    case False
    with next_in_drop [OF d False] prev_in_drop [OF d False] show ?thesis
      by (cases "last_of as"; cases "first_of bs"; cases "vm j") (auto simp: dt set_entries e)
  qed
  with d sub ends show ?thesis by (auto simp: linked_def fun_eq_iff)
qed

lemma push_back_linked:
  assumes "linked c vm ks" and "k \<notin> set ks" and "k \<in> dom vm"
  shows "linked (push_back_existing k c) vm (ks @ [k])"
proof -
  from assms have d: "distinct (ks @ [k])" and sub: "set (ks @ [k]) \<subseteq> dom vm"
    and h: "lc_head c = first_of ks" "lc_tail c = last_of ks"
    and e: "lc_entries c = (\<lambda>j. map_option (\<lambda>v. \<lparr>le_value = v, le_previous = prev_in ks j, le_next = next_in ks j\<rparr>) (vm j))"
    by (simp_all add: linked_def)
  have at: "prev_in (ks @ [k]) k = last_of ks" "next_in (ks @ [k]) k = None"
    using assms(2) prev_in_at [of k "[]" ks] next_in_at [of k ks "[]"] by simp_all
  have nk: "last_of ks \<noteq> Some k" using assms(2) by (auto simp: last_of_Some)
  have ends: "lc_head (push_back_existing k c) = first_of (ks @ [k])" "lc_tail (push_back_existing k c) = Some k"
    using h by (auto simp: push_back_existing_def Let_def first_of_append split: option.splits)
  have "lc_entries (push_back_existing k c) j =
      map_option (\<lambda>v. \<lparr>le_value = v, le_previous = prev_in (ks @ [k]) j, le_next = next_in (ks @ [k]) j\<rparr>) (vm j)" for j
  proof (cases "j = k")
    case True
    then show ?thesis using at nk h
      by (cases "last_of ks"; cases "vm j") (auto simp: push_back_existing_def Let_def set_entries e)
  next
    case False
    with next_in_snoc [OF d False] prev_in_snoc [OF d False] h show ?thesis
      by (cases "last_of ks"; cases "vm j") (auto simp: push_back_existing_def Let_def set_entries e)
  qed
  with d sub ends show ?thesis by (auto simp: linked_def fun_eq_iff)
qed

text \<open>The cache stands for the list of its pairs, least recently used first.\<close>

definition lru_rep :: "('k, 'v) LruCache \<Rightarrow> ('k \<times> 'v) list \<Rightarrow> bool" where
  "lru_rep c xs \<longleftrightarrow> distinct (map fst xs) \<and> linked c (map_of xs) (map fst xs)"

definition used_last :: "'k \<Rightarrow> 'v \<Rightarrow> ('k \<times> 'v) list \<Rightarrow> ('k \<times> 'v) list" where
  "used_last k v xs = filter (\<lambda>p. fst p \<noteq> k) xs @ [(k, v)]"

lemma used_last_keys: "map fst (used_last k v xs) = filter (\<lambda>j. j \<noteq> k) (map fst xs) @ [k]"
  by (simp add: used_last_def filter_map comp_def)

lemma used_last_distinct: "distinct (map fst xs) \<Longrightarrow> distinct (map fst (used_last k v xs))"
  unfolding used_last_keys by simp

lemma used_last_map: "map_of (used_last k v xs) = (map_of xs)(k \<mapsto> v)"
proof
  fix j
  have "map_of (filter (\<lambda>p. fst p \<noteq> k) xs) j = (if j = k then None else map_of xs j)"
    by (induction xs) auto
  then show "map_of (used_last k v xs) j = ((map_of xs)(k \<mapsto> v)) j"
    by (auto simp: used_last_def map_add_def split: option.splits)
qed

lemma split_at_key:
  assumes "distinct (map fst xs)" and "map_of xs k = Some v"
  obtains as bs where "xs = as @ (k, v) # bs" "k \<notin> fst ` set as" "k \<notin> fst ` set bs"
proof -
  have "(k, v) \<in> set xs" using assms by simp
  then obtain as bs where xs: "xs = as @ (k, v) # bs" by (auto dest: split_list)
  moreover have "k \<notin> fst ` set as" "k \<notin> fst ` set bs" using assms(1) by (auto simp: xs)
  ultimately show thesis by (rule that)
qed

lemma filter_other: "k \<notin> fst ` set xs \<Longrightarrow> filter (\<lambda>p. fst p \<noteq> k) xs = xs"
  by (induction xs) auto

lemma lru_rep_new: "lru_rep LruCache_new []"
  by (simp add: lru_rep_def linked_def LruCache_new_def)

lemma lru_rep_len: "lru_rep c xs \<Longrightarrow> lru_len c = length xs"
proof -
  assume c: "lru_rep c xs"
  then have "dom (lc_entries c) = set (map fst xs)"
    by (auto simp: lru_rep_def linked_def dom_map_of_conv_image_fst rev_image_eqI)
  then show ?thesis using c distinct_card [of "map fst xs"] by (simp add: lru_len_def lru_rep_def)
qed

lemma lru_rep_peek: "lru_rep c xs \<Longrightarrow> peek_cloned c k = map_of xs k"
  by (auto simp: lru_rep_def linked_def peek_cloned_def option.map_comp comp_def option.map_ident)

lemma lru_rep_has: "lru_rep c xs \<Longrightarrow> lc_entries c k = None \<longleftrightarrow> map_of xs k = None"
  by (simp add: lru_rep_def linked_def)

lemma linked_touch:
  assumes "linked c vm (as @ k # bs)"
  shows "linked (touch k c) vm ((as @ bs) @ [k])"
proof (cases "bs = []")
  case True
  with assms have "lc_tail c = Some k" by (simp add: linked_def)
  then show ?thesis using assms True by (simp add: touch_def)
next
  case False
  from assms have d: "distinct (as @ k # bs)" and sub: "k \<in> dom vm" by (auto simp: linked_def)
  have "lc_tail c \<noteq> Some k" using assms False d by (auto simp: linked_def last_of_append last_of_Some)
  moreover have "lc_entries c k \<noteq> None" using assms sub by (auto simp: linked_def)
  ultimately have "touch k c = push_back_existing k (detach k c)" by (auto simp: touch_def)
  with push_back_linked [OF detach_linked [OF assms]] d sub show ?thesis by simp
qed

lemma lru_rep_touch:
  assumes "lru_rep c xs"
  shows "lru_rep (touch k c) (case map_of xs k of None \<Rightarrow> xs | Some v \<Rightarrow> used_last k v xs)"
proof (cases "map_of xs k")
  case None
  then show ?thesis using assms by (simp add: touch_def lru_rep_has)
next
  case (Some v)
  have d: "distinct (map fst xs)" and l: "linked c (map_of xs) (map fst xs)" using assms by (simp_all add: lru_rep_def)
  obtain as bs where xs: "xs = as @ (k, v) # bs" "k \<notin> fst ` set as" "k \<notin> fst ` set bs"
    using split_at_key [OF d Some] .
  have u: "used_last k v xs = (as @ bs) @ [(k, v)]" using xs by (simp add: used_last_def filter_other)
  have "map_of (used_last k v xs) = map_of xs" unfolding used_last_map using Some by auto
  moreover have "linked (touch k c) (map_of xs) ((map fst as @ map fst bs) @ [k])"
    using l by (intro linked_touch) (simp add: xs(1))
  ultimately show ?thesis
    using Some used_last_distinct [OF d, of k v] by (simp add: lru_rep_def u)
qed

lemma lru_rep_insert:
  assumes "lru_rep c xs"
  shows "fst (lru_insert k v c) = map_of xs k \<and> lru_rep (snd (lru_insert k v c)) (used_last k v xs)"
proof (cases "map_of xs k")
  case None
  have l: "linked c (map_of xs) (map fst xs)" and k: "k \<notin> set (map fst xs)"
    using assms None by (auto simp: lru_rep_def map_of_eq_None_iff)
  have d: "distinct (map fst xs @ [k])" using assms k by (simp add: lru_rep_def)
  have at: "prev_in (map fst xs @ [k]) k = last_of (map fst xs)" "next_in (map fst xs @ [k]) k = None"
    using k prev_in_at [of k "[]" "map fst xs"] next_in_at [of k "map fst xs" "[]"] by simp_all
  let ?c = "snd (lru_insert k v c)"
  have e: "lc_entries ?c j = map_option (\<lambda>w. \<lparr>le_value = w, le_previous = prev_in (map fst xs @ [k]) j,
      le_next = next_in (map fst xs @ [k]) j\<rparr>) (((map_of xs)(k \<mapsto> v)) j)" for j
  proof (cases "j = k")
    case True
    then show ?thesis using l None at by (simp add: lru_insert_def linked_def Let_def)
  next
    case False
    with next_in_snoc [OF d False] prev_in_snoc [OF d False] l None show ?thesis
      by (cases "last_of (map fst xs)"; cases "map_of xs j")
        (auto simp: lru_insert_def linked_def Let_def set_entries)
  qed
  have "lc_head ?c = first_of (map fst xs @ [k])" "lc_tail ?c = Some k"
    using l None by (auto simp: lru_insert_def linked_def Let_def first_of_append split: option.splits)
  moreover have "used_last k v xs = xs @ [(k, v)]" using k by (simp add: used_last_def filter_other)
  moreover have "map_of (used_last k v xs) = (map_of xs)(k \<mapsto> v)" by (rule used_last_map)
  moreover have "fst (lru_insert k v c) = None" using l None by (simp add: lru_insert_def linked_def Let_def)
  ultimately show ?thesis using d e None by (auto simp: lru_rep_def linked_def fun_eq_iff dom_map_of_conv_image_fst)
next
  case (Some w)
  have d: "distinct (map fst xs)" and l: "linked c (map_of xs) (map fst xs)" using assms by (simp_all add: lru_rep_def)
  obtain as bs where xs: "xs = as @ (k, w) # bs" "k \<notin> fst ` set as" "k \<notin> fst ` set bs"
    using split_at_key [OF d Some] .
  obtain e where e: "lc_entries c k = Some e" "le_value e = w" using l Some by (simp add: linked_def)
  let ?c = "c\<lparr>lc_entries := (lc_entries c)(k \<mapsto> e\<lparr>le_value := v\<rparr>)\<rparr>"
  have "linked ?c ((map_of xs)(k \<mapsto> v)) (map fst as @ k # map fst bs)"
    using l e by (auto simp: linked_def xs(1) fun_eq_iff)
  from linked_touch [OF this] have "linked (touch k ?c) ((map_of xs)(k \<mapsto> v)) ((map fst as @ map fst bs) @ [k])" .
  moreover have "used_last k v xs = (as @ bs) @ [(k, v)]" using xs by (simp add: used_last_def filter_other)
  ultimately show ?thesis
    using e Some used_last_distinct [OF d, of k v] used_last_map [of k v xs]
    by (simp add: lru_rep_def lru_insert_def)
qed

lemma lru_rep_pop:
  assumes "lru_rep c xs"
  shows "fst (pop_lru c) = (case xs of [] \<Rightarrow> None | p # _ \<Rightarrow> Some p) \<and> lru_rep (snd (pop_lru c)) (tl xs)"
proof (cases xs)
  case Nil
  then show ?thesis using assms by (simp add: pop_lru_def lru_rep_def linked_def)
next
  case (Cons p ys)
  obtain k v where p: "p = (k, v)" by (cases p)
  have d: "k \<notin> fst ` set ys" "distinct (map fst ys)" and l: "linked c (map_of xs) (k # map fst ys)"
    using assms Cons p by (simp_all add: lru_rep_def)
  have l': "linked (detach k c) (map_of xs) (map fst ys)" using detach_linked [of c "map_of xs" "[]"] l by simp
  have e: "lc_entries (detach k c) = (\<lambda>j. map_option (\<lambda>v. \<lparr>le_value = v, le_previous = prev_in (map fst ys) j,
      le_next = next_in (map fst ys) j\<rparr>) (map_of xs j))" using l' by (simp add: linked_def)
  have m: "map_of ys = (map_of xs)(k := None)" using Cons p d by (auto simp: fun_eq_iff map_of_eq_None_iff)
  have "linked (snd (pop_lru c)) (map_of ys) (map fst ys)"
    using l l' d unfolding linked_def m
    by (auto simp: pop_lru_def Let_def e fun_eq_iff dom_map_of_conv_image_fst map_of_eq_None_iff Cons p)
  moreover have "fst (pop_lru c) = Some (k, v)" using l Cons p by (simp add: pop_lru_def linked_def Let_def e)
  ultimately show ?thesis using Cons p d by (simp add: lru_rep_def)
qed

section \<open>The interface\<close>

text \<open>
  What the caches built on it rely on: a cache is its list of pairs in order of use, an insert and
  a touch move a key to the end, and \<open>pop\<close> takes the first pair.
\<close>

locale lru_order =
  fixes rep :: "'c \<Rightarrow> ('k \<times> 'v) list \<Rightarrow> bool"
    and new :: 'c
    and insert :: "'k \<Rightarrow> 'v \<Rightarrow> 'c \<Rightarrow> 'v option \<times> 'c"
    and pop :: "'c \<Rightarrow> ('k \<times> 'v) option \<times> 'c"
    and touch :: "'k \<Rightarrow> 'c \<Rightarrow> 'c"
    and peek :: "'c \<Rightarrow> 'k \<Rightarrow> 'v option"
    and len :: "'c \<Rightarrow> nat"
  assumes rep_distinct: "rep c xs \<Longrightarrow> distinct (map fst xs)"
    and rep_new: "rep new []"
    and rep_insert: "rep c xs \<Longrightarrow> fst (insert k v c) = map_of xs k \<and> rep (snd (insert k v c)) (used_last k v xs)"
    and rep_pop: "rep c xs \<Longrightarrow> fst (pop c) = (case xs of [] \<Rightarrow> None | p # _ \<Rightarrow> Some p) \<and> rep (snd (pop c)) (tl xs)"
    and rep_touch: "rep c xs \<Longrightarrow> rep (touch k c) (case map_of xs k of None \<Rightarrow> xs | Some v \<Rightarrow> used_last k v xs)"
    and rep_peek: "rep c xs \<Longrightarrow> peek c k = map_of xs k"
    and rep_len: "rep c xs \<Longrightarrow> len c = length xs"
begin

lemma pop_Cons:
  assumes "rep c ((k, v) # xs)"
  obtains c' where "pop c = (Some (k, v), c')" "rep c' xs"
  using rep_pop [OF assms] that by (cases "pop c") auto

lemma insert_case:
  assumes "rep c xs"
  obtains c' where "insert k v c = (map_of xs k, c')" "rep c' (used_last k v xs)"
  using rep_insert [OF assms, of k v] that by (cases "insert k v c") auto

lemma peek_insert: "rep c xs \<Longrightarrow> peek (snd (insert k v c)) j = (if j = k then Some v else peek c j)"
  using rep_insert [of c xs k v] rep_peek [of "snd (insert k v c)" "used_last k v xs" j]
  by (simp add: used_last_map rep_peek)

lemma peek_touch: "rep c xs \<Longrightarrow> peek (touch k c) j = peek c j"
  using rep_touch [of c xs k] rep_peek [of "touch k c" _ j]
  by (cases "map_of xs k") (auto simp: used_last_map rep_peek)

end

interpretation lru: lru_order lru_rep LruCache_new lru_insert pop_lru touch peek_cloned lru_len
  by unfold_locales (fact lru_rep_new lru_rep_insert lru_rep_pop lru_rep_touch lru_rep_peek lru_rep_len
    | simp add: lru_rep_def)+

end
