(* ===== verification/SegmentCache.thy ===== *)
theory SegmentCache
  imports Lru Types
begin

text \<open>
  The two byte-bounded caches of the repository, both over the least-recently-used cache of
  \<open>rs3-repository/src/lru.rs\<close>: decrypted payload segments (\<open>rs3-repository/src/service.rs\<close>,
  \<open>DecryptedSegmentCache\<close>) and payload sections (\<open>rs3-repository/src/v3/service.rs\<close>,
  \<open>V3PayloadSectionCache\<close>). An eviction loop may run forever for a cache whose counters are
  wrong, so it is a partial function and its result \<open>None\<close> stands for no return; the lemmas show
  that it returns for every cache the operations can build.
\<close>

section \<open>The caches\<close>

record PayloadCacheObjectKey =
  pc_object_id :: BackendObjectId
  pc_version_id :: "BackendVersionId option"

record DecryptedSegmentCacheKey =
  dk_object :: PayloadCacheObjectKey
  dk_segment_index :: nat

definition PayloadCacheObjectKey_from :: "BackendObjectRef \<Rightarrow> PayloadCacheObjectKey" where
  "PayloadCacheObjectKey_from r = \<lparr>pc_object_id = ref_object_id r, pc_version_id = ref_version_id r\<rparr>"

definition DecryptedSegmentCacheKey_new :: "BackendObjectRef \<Rightarrow> nat \<Rightarrow> DecryptedSegmentCacheKey" where
  "DecryptedSegmentCacheKey_new r i = \<lparr>dk_object = PayloadCacheObjectKey_from r, dk_segment_index = i\<rparr>"

text \<open>Both caches have the same fields: the entries, their two limits and the bytes held.\<close>

record 'k byte_cache =
  bc_entries :: "('k, bytes) LruCache"
  bc_max_entries :: nat
  bc_max_bytes :: u64
  bc_current_bytes :: u64

type_synonym DecryptedSegmentCache = "DecryptedSegmentCacheKey byte_cache"

datatype V3PayloadSectionCarrierCacheKey =
  Standalone BackendObjectId "BackendVersionId option" bytes

record V3PayloadSectionCacheKey =
  sk_carrier :: V3PayloadSectionCarrierCacheKey
  sk_payload_id :: BackendObjectId
  sk_offset :: u64
  sk_length :: u64

type_synonym V3PayloadSectionCache = "V3PayloadSectionCacheKey byte_cache"

record DecryptedSegmentCacheEviction =
  ev_entries :: u64
  ev_bytes :: u64

datatype DecryptedSegmentCacheInsert =
    Inserted u64 u64 u64
  | SkippedTooLarge u64

definition DecryptedSegmentCache_with_max_bytes :: "u64 \<Rightarrow> DecryptedSegmentCache" where
  "DecryptedSegmentCache_with_max_bytes m =
     \<lparr>bc_entries = LruCache_new, bc_max_entries = 65536, bc_max_bytes = m, bc_current_bytes = 0\<rparr>"

definition segment_cache_peek :: "DecryptedSegmentCache \<Rightarrow> BackendObjectRef \<Rightarrow> nat \<Rightarrow> bytes option" where
  "segment_cache_peek c r i = peek_cloned (bc_entries c) (DecryptedSegmentCacheKey_new r i)"

definition segment_cache_touch :: "BackendObjectRef \<Rightarrow> nat \<Rightarrow> DecryptedSegmentCache \<Rightarrow> DecryptedSegmentCache" where
  "segment_cache_touch r i c = c\<lparr>bc_entries := touch (DecryptedSegmentCacheKey_new r i) (bc_entries c)\<rparr>"

definition over_limits :: "'k byte_cache \<Rightarrow> bool" where
  "over_limits c \<longleftrightarrow> lru_len (bc_entries c) > bc_max_entries c \<or> bc_current_bytes c > bc_max_bytes c"

partial_function (option) evict_over_limits ::
  "DecryptedSegmentCacheEviction \<Rightarrow> 'k byte_cache \<Rightarrow> (DecryptedSegmentCacheEviction \<times> 'k byte_cache) option" where
  "evict_over_limits evicted c =
     (if \<not> over_limits c then Some (evicted, c)
      else case pop_lru (bc_entries c) of
        (None, es) \<Rightarrow> Some (evicted, c\<lparr>bc_entries := es\<rparr>)
      | (Some (evicted_key, plaintext), es) \<Rightarrow>
          evict_over_limits
            (evicted\<lparr>ev_entries := saturating_add (ev_entries evicted) 1,
               ev_bytes := saturating_add (ev_bytes evicted) (u64_len plaintext)\<rparr>)
            (c\<lparr>bc_entries := es, bc_current_bytes := saturating_sub (bc_current_bytes c) (u64_len plaintext)\<rparr>))"

text \<open>The bytes held after a value took the place of the one that was there.\<close>

definition account_insert :: "bytes option \<Rightarrow> u64 \<Rightarrow> u64 \<Rightarrow> u64" where
  "account_insert previous len current =
     (case previous of
        Some old \<Rightarrow> saturating_add (saturating_sub current (u64_len old)) len
      | None \<Rightarrow> saturating_add current len)"

definition segment_cache_insert ::
  "BackendObjectRef \<Rightarrow> nat \<Rightarrow> bytes \<Rightarrow> DecryptedSegmentCache \<Rightarrow>
    (DecryptedSegmentCacheInsert \<times> DecryptedSegmentCache) option" where
  "segment_cache_insert r i plaintext c =
     (let len = u64_len plaintext in
      if len > bc_max_bytes c then Some (SkippedTooLarge len, c)
      else
        (let (previous, es) = lru_insert (DecryptedSegmentCacheKey_new r i) plaintext (bc_entries c) in
         Option.bind (evict_over_limits \<lparr>ev_entries = 0, ev_bytes = 0\<rparr>
             (c\<lparr>bc_entries := es, bc_current_bytes := account_insert previous len (bc_current_bytes c)\<rparr>))
           (\<lambda>(evicted, c). Some (Inserted len (ev_entries evicted) (ev_bytes evicted), c))))"

definition V3PayloadSectionCache_with_max_bytes :: "u64 \<Rightarrow> V3PayloadSectionCache" where
  "V3PayloadSectionCache_with_max_bytes m =
     \<lparr>bc_entries = LruCache_new, bc_max_entries = 4096, bc_max_bytes = m, bc_current_bytes = 0\<rparr>"

definition section_cache_peek :: "V3PayloadSectionCache \<Rightarrow> V3PayloadSectionCacheKey \<Rightarrow> bytes option" where
  "section_cache_peek c key = peek_cloned (bc_entries c) key"

definition section_cache_touch :: "V3PayloadSectionCacheKey \<Rightarrow> V3PayloadSectionCache \<Rightarrow> V3PayloadSectionCache" where
  "section_cache_touch key c = c\<lparr>bc_entries := touch key (bc_entries c)\<rparr>"

partial_function (option) section_evict_over_limits :: "'k byte_cache \<Rightarrow> 'k byte_cache option" where
  "section_evict_over_limits c =
     (if \<not> over_limits c then Some c
      else case pop_lru (bc_entries c) of
        (None, es) \<Rightarrow> Some (c\<lparr>bc_entries := es\<rparr>)
      | (Some (evicted_key, payload), es) \<Rightarrow>
          section_evict_over_limits
            (c\<lparr>bc_entries := es, bc_current_bytes := saturating_sub (bc_current_bytes c) (u64_len payload)\<rparr>))"

definition section_cache_insert ::
  "V3PayloadSectionCacheKey \<Rightarrow> bytes \<Rightarrow> V3PayloadSectionCache \<Rightarrow> V3PayloadSectionCache option" where
  "section_cache_insert key payload c =
     (let len = u64_len payload in
      if bc_max_bytes c = 0 \<or> len > bc_max_bytes c then Some c
      else
        (let (previous, es) = lru_insert key payload (bc_entries c) in
         section_evict_over_limits
           (c\<lparr>bc_entries := es, bc_current_bytes := account_insert previous len (bc_current_bytes c)\<rparr>)))"

section \<open>What a cache holds\<close>

text \<open>
  The specification: a cache is the list of its pairs in order of use, and an insert cuts from
  the old end until both limits hold.
\<close>

definition held_bytes :: "('k \<times> bytes) list \<Rightarrow> nat" where
  "held_bytes xs = (\<Sum>p \<leftarrow> xs. length (snd p))"

fun trim :: "nat \<Rightarrow> nat \<Rightarrow> ('k \<times> bytes) list \<Rightarrow> ('k \<times> bytes) list" where
  "trim n m [] = []"
| "trim n m (p # xs) = (if length (p # xs) > n \<or> held_bytes (p # xs) > m then trim n m xs else p # xs)"

definition cache_rep :: "'k byte_cache \<Rightarrow> ('k \<times> bytes) list \<Rightarrow> bool" where
  "cache_rep c xs \<longleftrightarrow> lru_rep (bc_entries c) xs \<and> unat (bc_current_bytes c) = held_bytes xs"

text \<open>The invariant between calls: the counter is exact and both limits hold.\<close>

definition cache_ok :: "'k byte_cache \<Rightarrow> ('k \<times> bytes) list \<Rightarrow> bool" where
  "cache_ok c xs \<longleftrightarrow> cache_rep c xs \<and> length xs \<le> bc_max_entries c \<and> held_bytes xs \<le> unat (bc_max_bytes c)"

text \<open>A configuration whose byte limit leaves the counter room for one more value.\<close>

definition limits_ok :: "'k byte_cache \<Rightarrow> bool" where
  "limits_ok c \<longleftrightarrow> 0 < bc_max_entries c \<and> bc_max_entries c < 2 ^ 63 \<and> unat (bc_max_bytes c) < 2 ^ 63"

definition same_limits :: "'k byte_cache \<Rightarrow> 'k byte_cache \<Rightarrow> bool" where
  "same_limits c c' \<longleftrightarrow> bc_max_entries c' = bc_max_entries c \<and> bc_max_bytes c' = bc_max_bytes c"

lemma held_bytes_simps [simp]:
  "held_bytes [] = 0" "held_bytes (p # xs) = length (snd p) + held_bytes xs"
  "held_bytes (xs @ ys) = held_bytes xs + held_bytes ys"
  by (simp_all add: held_bytes_def)

lemma trim_suffix: "\<exists>ys. xs = ys @ trim n m xs"
proof (induction xs)
  case (Cons p xs)
  then obtain ys where "xs = ys @ trim n m xs" by blast
  then show ?case by (cases "trim n m (p # xs) = p # xs") (auto intro: exI [of _ "p # ys"])
qed simp

lemma trim_bounds: "length (trim n m xs) \<le> n" "held_bytes (trim n m xs) \<le> m"
  by (induction xs) auto

lemma trim_keeps_last: "0 < n \<Longrightarrow> length (snd p) \<le> m \<Longrightarrow> \<exists>ys. trim n m (xs @ [p]) = ys @ [p]"
  by (induction xs) auto

lemma trim_id: "length xs \<le> n \<Longrightarrow> held_bytes xs \<le> m \<Longrightarrow> trim n m xs = xs"
  by (cases xs) auto

lemma trim_keeps_suffix: "length ys \<le> n \<Longrightarrow> held_bytes ys \<le> m \<Longrightarrow> \<exists>zs. trim n m (xs @ ys) = zs @ ys"
proof (induction xs)
  case Nil
  then show ?case by (simp add: trim_id)
next
  case (Cons x xs)
  then show ?case by (cases "trim n m (x # xs @ ys) = x # xs @ ys") (auto split: if_splits)
qed

text \<open>Nothing more than needed goes: with one more of the old pairs a limit would be exceeded.\<close>

lemma trim_maximal: "xs = ys @ p # trim n m xs \<Longrightarrow> length (p # trim n m xs) > n \<or> held_bytes (p # trim n m xs) > m"
proof (induction xs arbitrary: ys)
  case (Cons q xs)
  show ?case
  proof (cases "length (q # xs) > n \<or> held_bytes (q # xs) > m")
    case True
    then have t: "trim n m (q # xs) = trim n m xs" by simp
    show ?thesis
    proof (cases ys)
      case Nil
      then show ?thesis using Cons.prems True unfolding t by simp
    next
      case (Cons q' ys')
      then have "xs = ys' @ p # trim n m xs" using Cons.prems unfolding t by simp
      then show ?thesis using Cons.IH unfolding t by blast
    qed
  next
    case False
    then have "trim n m (q # xs) = q # xs" by simp
    with Cons.prems have "length (q # xs) = length (ys @ p # q # xs)" by metis
    then show ?thesis by simp
  qed
qed simp

lemma held_filter_le: "held_bytes (filter P xs) \<le> held_bytes xs"
  by (induction xs) auto

lemma held_used_last:
  "distinct (map fst xs) \<Longrightarrow>
   held_bytes (used_last k v xs) = held_bytes xs - (case map_of xs k of None \<Rightarrow> 0 | Some w \<Rightarrow> length w) + length v"
proof (cases "map_of xs k")
  case None
  then have "k \<notin> fst ` set xs" by (auto simp: map_of_eq_None_iff)
  with None show ?thesis by (simp add: used_last_def filter_other)
next
  case (Some w)
  assume "distinct (map fst xs)"
  from split_at_key [OF this Some] obtain as bs where
    "xs = as @ (k, w) # bs" "k \<notin> fst ` set as" "k \<notin> fst ` set bs" .
  with Some show ?thesis by (simp add: used_last_def filter_other)
qed

lemma held_value_le: "map_of xs k = Some w \<Longrightarrow> length w \<le> held_bytes xs"
  by (induction xs) (auto split: if_splits)

lemma cache_rep_bound: "cache_rep c xs \<Longrightarrow> held_bytes xs < 2 ^ 64"
  using unat_less_2p [of "bc_current_bytes c"] by (simp add: cache_rep_def)

lemma u64_len_exact: "length v < 2 ^ 64 \<Longrightarrow> unat (u64_len v) = length v"
  by (simp add: unat_u64_len)

lemma over_limits_rep:
  "cache_rep c xs \<Longrightarrow> over_limits c \<longleftrightarrow> length xs > bc_max_entries c \<or> held_bytes xs > unat (bc_max_bytes c)"
  using lru.rep_len [of "bc_entries c" xs] by (simp add: over_limits_def cache_rep_def word_less_nat_alt)

section \<open>Eviction\<close>

text \<open>One turn of either loop on a cache that holds at least one pair.\<close>

lemma pop_rep:
  assumes "cache_rep c ((k, v) # xs)"
  obtains es where "pop_lru (bc_entries c) = (Some (k, v), es)"
    and "cache_rep (c\<lparr>bc_entries := es, bc_current_bytes := saturating_sub (bc_current_bytes c) (u64_len v)\<rparr>) xs"
proof -
  have "length v < 2 ^ 64" using cache_rep_bound [OF assms] by simp
  then have "unat (saturating_sub (bc_current_bytes c) (u64_len v)) = held_bytes xs"
    using assms by (simp add: unat_saturating_sub u64_len_exact cache_rep_def)
  moreover from assms have "lru_rep (bc_entries c) ((k, v) # xs)" by (simp add: cache_rep_def)
  then obtain es where "pop_lru (bc_entries c) = (Some (k, v), es)" "lru_rep es xs" by (rule lru.pop_Cons)
  ultimately show thesis using that by (simp add: cache_rep_def)
qed

lemma pop_empty:
  assumes "cache_rep c []"
  obtains es where "pop_lru (bc_entries c) = (None, es)" and "cache_rep (c\<lparr>bc_entries := es\<rparr>) []"
  using lru.rep_pop [of "bc_entries c" "[]"] assms that [of "snd (pop_lru (bc_entries c))"]
  by (auto simp: cache_rep_def prod_eq_iff)

lemma evict_over_limits_rep:
  assumes "cache_rep c xs" and "unat (ev_entries e) + length xs < 2 ^ 64" and "unat (ev_bytes e) + held_bytes xs < 2 ^ 64"
  shows "\<exists>e' c'. evict_over_limits e c = Some (e', c') \<and> same_limits c c' \<and>
    cache_rep c' (trim (bc_max_entries c) (unat (bc_max_bytes c)) xs) \<and>
    unat (ev_entries e') + length (trim (bc_max_entries c) (unat (bc_max_bytes c)) xs) = unat (ev_entries e) + length xs \<and>
    unat (ev_bytes e') + held_bytes (trim (bc_max_entries c) (unat (bc_max_bytes c)) xs) = unat (ev_bytes e) + held_bytes xs"
  using assms
proof (induction xs arbitrary: c e)
  case Nil
  obtain es where "pop_lru (bc_entries c) = (None, es)" "cache_rep (c\<lparr>bc_entries := es\<rparr>) []" by (rule pop_empty [OF Nil(1)])
  with Nil(1) show ?case by (subst evict_over_limits.simps) (simp add: same_limits_def)
next
  case (Cons p xs)
  obtain k v where p: "p = (k, v)" by (cases p)
  show ?case
  proof (cases "over_limits c")
    case False
    then show ?thesis using Cons.prems over_limits_rep [OF Cons.prems(1)]
      by (subst evict_over_limits.simps) (simp add: same_limits_def)
  next
    case True
    obtain es where es: "pop_lru (bc_entries c) = (Some (k, v), es)"
      and r: "cache_rep (c\<lparr>bc_entries := es, bc_current_bytes := saturating_sub (bc_current_bytes c) (u64_len v)\<rparr>) xs"
      (is "cache_rep ?c xs") by (rule pop_rep [OF Cons.prems(1) [unfolded p]])
    let ?e = "e\<lparr>ev_entries := saturating_add (ev_entries e) 1, ev_bytes := saturating_add (ev_bytes e) (u64_len v)\<rparr>"
    have v: "unat (u64_len v) = length v"
      using cache_rep_bound [OF Cons.prems(1)] by (intro u64_len_exact) (simp add: p)
    have e: "unat (ev_entries ?e) = unat (ev_entries e) + 1" "unat (ev_bytes ?e) = unat (ev_bytes e) + length v"
      using Cons.prems p v by (simp_all add: unat_saturating_add)
    have eq: "evict_over_limits e c = evict_over_limits ?e ?c"
      using True es by (subst evict_over_limits.simps) simp
    have t: "trim (bc_max_entries c) (unat (bc_max_bytes c)) (p # xs) = trim (bc_max_entries c) (unat (bc_max_bytes c)) xs"
      using True over_limits_rep [OF Cons.prems(1)] by simp
    show ?thesis using Cons.IH [OF r, of ?e] Cons.prems(2,3) e p unfolding eq t by (simp add: same_limits_def add.assoc)
  qed
qed

lemma section_evict_over_limits_rep:
  assumes "cache_rep c xs"
  shows "\<exists>c'. section_evict_over_limits c = Some c' \<and> same_limits c c' \<and>
    cache_rep c' (trim (bc_max_entries c) (unat (bc_max_bytes c)) xs)"
  using assms
proof (induction xs arbitrary: c)
  case Nil
  obtain es where "pop_lru (bc_entries c) = (None, es)" "cache_rep (c\<lparr>bc_entries := es\<rparr>) []" by (rule pop_empty [OF Nil])
  with Nil show ?case by (subst section_evict_over_limits.simps) (simp add: same_limits_def)
next
  case (Cons p xs)
  obtain k v where p: "p = (k, v)" by (cases p)
  show ?case
  proof (cases "over_limits c")
    case False
    then show ?thesis using Cons.prems over_limits_rep [OF Cons.prems(1)]
      by (subst section_evict_over_limits.simps) (simp add: same_limits_def)
  next
    case True
    obtain es where es: "pop_lru (bc_entries c) = (Some (k, v), es)"
      and r: "cache_rep (c\<lparr>bc_entries := es, bc_current_bytes := saturating_sub (bc_current_bytes c) (u64_len v)\<rparr>) xs"
      (is "cache_rep ?c xs") by (rule pop_rep [OF Cons.prems(1) [unfolded p]])
    have eq: "section_evict_over_limits c = section_evict_over_limits ?c"
      using True es by (subst section_evict_over_limits.simps) simp
    have t: "trim (bc_max_entries c) (unat (bc_max_bytes c)) (p # xs) = trim (bc_max_entries c) (unat (bc_max_bytes c)) xs"
      using True over_limits_rep [OF Cons.prems(1)] by simp
    show ?thesis using Cons.IH [OF r] unfolding eq t by (simp add: same_limits_def)
  qed
qed

section \<open>Inserts\<close>

text \<open>The state between the insert and the eviction: the counter never saturates.\<close>

lemma account_rep:
  assumes "cache_ok c xs" and "limits_ok c" and "u64_len v \<le> bc_max_bytes c"
  shows "fst (lru_insert k v (bc_entries c)) = map_of xs k"
    and "cache_rep (c\<lparr>bc_entries := snd (lru_insert k v (bc_entries c)),
      bc_current_bytes := account_insert (map_of xs k) (u64_len v) (bc_current_bytes c)\<rparr>) (used_last k v xs)"
    and "held_bytes (used_last k v xs) < 2 ^ 64" and "length v \<le> unat (bc_max_bytes c)"
proof -
  have r: "lru_rep (bc_entries c) xs" "unat (bc_current_bytes c) = held_bytes xs" "held_bytes xs \<le> unat (bc_max_bytes c)"
    using assms(1) by (simp_all add: cache_ok_def cache_rep_def)
  show "fst (lru_insert k v (bc_entries c)) = map_of xs k" using lru.rep_insert [OF r(1)] by blast
  have m: "unat (u64_len v) \<le> unat (bc_max_bytes c)" "unat (bc_max_bytes c) < 2 ^ 63"
    using assms by (simp_all add: word_le_nat_alt limits_ok_def)
  then show v: "length v \<le> unat (bc_max_bytes c)" by (simp add: unat_u64_len min_def split: if_splits)
  then have len: "unat (u64_len v) = length v" using m(2) by (intro u64_len_exact) simp
  have d: "distinct (map fst xs)" using lru.rep_distinct [OF r(1)] .
  have "held_bytes (used_last k v xs) \<le> held_bytes xs + length v" unfolding held_used_last [OF d] by simp
  then show "held_bytes (used_last k v xs) < 2 ^ 64" using r(3) v m(2) by simp
  have "unat (account_insert (map_of xs k) (u64_len v) (bc_current_bytes c)) = held_bytes (used_last k v xs)"
  proof (cases "map_of xs k")
    case None
    then show ?thesis using len r(2,3) v m(2)
      by (simp add: account_insert_def held_used_last [OF d] unat_saturating_add)
  next
    case (Some w)
    then have "unat (u64_len w) = length w"
      using held_value_le [OF Some] r(3) m(2) by (intro u64_len_exact) simp
    with Some show ?thesis using len r(2,3) v m(2)
      by (simp add: account_insert_def held_used_last [OF d] unat_saturating_add unat_saturating_sub)
  qed
  then show "cache_rep (c\<lparr>bc_entries := snd (lru_insert k v (bc_entries c)),
      bc_current_bytes := account_insert (map_of xs k) (u64_len v) (bc_current_bytes c)\<rparr>) (used_last k v xs)"
    using lru.rep_insert [OF r(1), of k v] by (simp add: cache_rep_def)
qed

text \<open>The pairs after an insert that fits.\<close>

definition stored :: "'k byte_cache \<Rightarrow> 'k \<Rightarrow> bytes \<Rightarrow> ('k \<times> bytes) list \<Rightarrow> ('k \<times> bytes) list" where
  "stored c k v xs = trim (bc_max_entries c) (unat (bc_max_bytes c)) (used_last k v xs)"

lemma stored_ok: "cache_rep c' (stored c k v xs) \<Longrightarrow> same_limits c c' \<Longrightarrow> cache_ok c' (stored c k v xs)"
  by (simp add: cache_ok_def same_limits_def stored_def trim_bounds)

lemma stored_keeps_suffix:
  assumes "length (ys @ [(k, v)]) \<le> bc_max_entries c" and "held_bytes (ys @ [(k, v)]) \<le> unat (bc_max_bytes c)"
    and "k \<notin> fst ` set ys"
  shows "\<exists>zs'. stored c k v (zs @ ys) = zs' @ ys @ [(k, v)]"
proof -
  have "filter (\<lambda>p. fst p \<noteq> k) ys = ys" using assms(3) by (intro filter_True) auto
  then show ?thesis
    using trim_keeps_suffix [OF assms(1,2), of "filter (\<lambda>p. fst p \<noteq> k) zs"] by (simp add: stored_def used_last_def)
qed

lemma stored_last:
  assumes "limits_ok c" and "length v \<le> unat (bc_max_bytes c)"
  obtains ys where "stored c k v xs = ys @ [(k, v)]"
  using trim_keeps_last [of "bc_max_entries c" "(k, v)" "unat (bc_max_bytes c)"] assms that
  unfolding stored_def used_last_def limits_ok_def by fastforce

lemma map_of_suffix: "distinct (map fst (ys @ zs)) \<Longrightarrow> map_of zs k = Some v \<Longrightarrow> map_of (ys @ zs) k = Some v"
proof -
  assume d: "distinct (map fst (ys @ zs))" and k: "map_of zs k = Some v"
  from map_of_SomeD [OF k] have "k \<in> fst ` set zs" by force
  with d have "k \<notin> fst ` set ys" by auto
  with k show ?thesis by (simp add: map_add_def map_of_eq_None_iff [THEN iffD2])
qed

lemma stored_sub:
  assumes "distinct (map fst xs)" and "map_of (stored c k v xs) j = Some w"
  shows "((map_of xs)(k \<mapsto> v)) j = Some w"
proof -
  obtain ys where "used_last k v xs = ys @ stored c k v xs" using trim_suffix unfolding stored_def by blast
  then show ?thesis using assms map_of_suffix used_last_distinct [OF assms(1), of k v]
    by (metis used_last_map)
qed

lemma segment_cache_insert_stored:
  assumes "cache_ok c xs" and "limits_ok c" and "u64_len v \<le> bc_max_bytes c"
  shows "\<exists>n b c'. segment_cache_insert r i v c = Some (Inserted (u64_len v) n b, c') \<and> same_limits c c' \<and>
    cache_ok c' (stored c (DecryptedSegmentCacheKey_new r i) v xs) \<and>
    unat n + length (stored c (DecryptedSegmentCacheKey_new r i) v xs) = length (used_last (DecryptedSegmentCacheKey_new r i) v xs) \<and>
    unat b + held_bytes (stored c (DecryptedSegmentCacheKey_new r i) v xs) = held_bytes (used_last (DecryptedSegmentCacheKey_new r i) v xs)"
proof -
  let ?k = "DecryptedSegmentCacheKey_new r i"
  note a = account_rep(1-3) [OF assms, of ?k]
  have len: "length (used_last ?k v xs) < 2 ^ 64"
  proof -
    have "length (used_last ?k v xs) \<le> Suc (length xs)" by (simp add: used_last_def)
    also have "\<dots> \<le> Suc (bc_max_entries c)" using assms(1) by (simp add: cache_ok_def)
    also have "\<dots> < 2 ^ 64" using assms(2) by (simp add: limits_ok_def)
    finally show ?thesis .
  qed
  from evict_over_limits_rep [OF a(2), of "\<lparr>ev_entries = 0, ev_bytes = 0\<rparr>"] len a(3)
  obtain e' c' where e: "evict_over_limits \<lparr>ev_entries = 0, ev_bytes = 0\<rparr> (c\<lparr>bc_entries := snd (lru_insert ?k v (bc_entries c)),
        bc_current_bytes := account_insert (map_of xs ?k) (u64_len v) (bc_current_bytes c)\<rparr>) = Some (e', c')"
      "same_limits c c'" "cache_rep c' (stored c ?k v xs)"
      "unat (ev_entries e') + length (stored c ?k v xs) = length (used_last ?k v xs)"
      "unat (ev_bytes e') + held_bytes (stored c ?k v xs) = held_bytes (used_last ?k v xs)"
    by (auto simp: stored_def same_limits_def)
  have "segment_cache_insert r i v c = Some (Inserted (u64_len v) (ev_entries e') (ev_bytes e'), c')"
    using assms(3) e(1) a(1) by (simp add: segment_cache_insert_def Let_def case_prod_beta)
  with e stored_ok [OF e(3,2)] show ?thesis by blast
qed

lemma section_cache_insert_stored:
  assumes "cache_ok c xs" and "limits_ok c" and "u64_len v \<le> bc_max_bytes c" and "bc_max_bytes c \<noteq> 0"
  shows "\<exists>c'. section_cache_insert k v c = Some c' \<and> same_limits c c' \<and> cache_ok c' (stored c k v xs)"
proof -
  note a = account_rep(1-3) [OF assms(1-3), of k]
  obtain c' where "section_evict_over_limits (c\<lparr>bc_entries := snd (lru_insert k v (bc_entries c)),
        bc_current_bytes := account_insert (map_of xs k) (u64_len v) (bc_current_bytes c)\<rparr>) = Some c'"
      "same_limits c c'" "cache_rep c' (stored c k v xs)"
    using section_evict_over_limits_rep [OF a(2)] by (auto simp: stored_def same_limits_def)
  with stored_ok assms(3,4) a(1) show ?thesis
    by (auto simp: section_cache_insert_def Let_def case_prod_beta)
qed

lemma segment_cache_insert_skipped:
  "bc_max_bytes c < u64_len v \<Longrightarrow> segment_cache_insert r i v c = Some (SkippedTooLarge (u64_len v), c)"
  by (simp add: segment_cache_insert_def Let_def)

lemma section_cache_insert_skipped:
  "bc_max_bytes c < u64_len v \<or> bc_max_bytes c = 0 \<Longrightarrow> section_cache_insert k v c = Some c"
  by (auto simp: section_cache_insert_def Let_def)

lemma cache_ok_touch:
  "cache_ok c xs \<Longrightarrow> \<exists>ys. cache_ok (c\<lparr>bc_entries := touch k (bc_entries c)\<rparr>) ys \<and> map_of ys = map_of xs"
proof -
  assume "cache_ok c xs"
  then have r: "lru_rep (bc_entries c) xs" and d: "distinct (map fst xs)"
    using lru.rep_distinct by (auto simp: cache_ok_def cache_rep_def)
  let ?ys = "case map_of xs k of None \<Rightarrow> xs | Some v \<Rightarrow> used_last k v xs"
  have "held_bytes ?ys = held_bytes xs"
    by (cases "map_of xs k") (simp_all add: held_used_last [OF d] held_value_le)
  moreover have "length ?ys = length xs"
  proof (cases "map_of xs k")
    case (Some v)
    from split_at_key [OF d Some] obtain as bs where "xs = as @ (k, v) # bs" "k \<notin> fst ` set as" "k \<notin> fst ` set bs" .
    then show ?thesis using Some by (simp add: used_last_def filter_other)
  qed simp
  moreover have "map_of ?ys = map_of xs" by (auto simp: used_last_map split: option.splits)
  ultimately show ?thesis
    using lru.rep_touch [OF r, of k] \<open>cache_ok c xs\<close>
    by (intro exI [of _ ?ys]) (simp add: cache_ok_def cache_rep_def)
qed

lemma cache_ok_new:
  "cache_ok (DecryptedSegmentCache_with_max_bytes m) []" "cache_ok (V3PayloadSectionCache_with_max_bytes m) []"
  by (simp_all add: cache_ok_def cache_rep_def DecryptedSegmentCache_with_max_bytes_def
      V3PayloadSectionCache_with_max_bytes_def lru.rep_new)

lemma segment_cache_peek_rep: "cache_ok c xs \<Longrightarrow> segment_cache_peek c r i = map_of xs (DecryptedSegmentCacheKey_new r i)"
  using lru.rep_peek [of "bc_entries c" xs] by (simp add: cache_ok_def cache_rep_def segment_cache_peek_def)

lemma section_cache_peek_rep: "cache_ok c xs \<Longrightarrow> section_cache_peek c k = map_of xs k"
  using lru.rep_peek [of "bc_entries c" xs] by (simp add: cache_ok_def cache_rep_def section_cache_peek_def)

section \<open>Inserts on the recency list\<close>

lemma held_bytes_append [simp]: "held_bytes (xs @ ys) = held_bytes xs + held_bytes ys"
  by (simp add: held_bytes_def)

text \<open>What an insert keeps and what it lets go, on the list of entries in order of use.\<close>

lemma stored_split:
  assumes "limits_ok c" and "length v \<le> unat (bc_max_bytes c)"
  obtains gone kept where "filter (\<lambda>p. fst p \<noteq> k) xs = gone @ kept" and "stored c k v xs = kept @ [(k, v)]"
    and "gone = [] \<or> bc_max_entries c < length kept + 2 \<or>
      unat (bc_max_bytes c) < held_bytes [last gone] + held_bytes kept + length v"
proof -
  obtain kept where kept: "stored c k v xs = kept @ [(k, v)]" using stored_last [OF assms] by blast
  obtain gone where gone: "used_last k v xs = gone @ stored c k v xs"
    using trim_suffix [of "used_last k v xs"] by (auto simp: stored_def)
  have F: "filter (\<lambda>p. fst p \<noteq> k) xs = gone @ kept" using gone kept by (simp add: used_last_def)
  have "bc_max_entries c < length kept + 2 \<or> unat (bc_max_bytes c) < held_bytes [last gone] + held_bytes kept + length v"
    if "gone \<noteq> []"
  proof -
    have "used_last k v xs = butlast gone @ last gone # trim (bc_max_entries c) (unat (bc_max_bytes c)) (used_last k v xs)"
      using gone that unfolding stored_def [symmetric] by simp
    from trim_maximal [OF this] show ?thesis unfolding stored_def [symmetric] kept by (simp add: held_bytes_def add.assoc)
  qed
  with that F kept show thesis by blast
qed

lemma segment_cache_insert_exact:
  assumes "cache_ok c xs" and "limits_ok c" and "length v \<le> unat (bc_max_bytes c)"
  shows "\<exists>n b c' kept gone. segment_cache_insert r i v c = Some (Inserted (of_nat (length v)) n b, c') \<and>
    filter (\<lambda>p. fst p \<noteq> DecryptedSegmentCacheKey_new r i) xs = gone @ kept \<and>
    cache_ok c' (kept @ [(DecryptedSegmentCacheKey_new r i, v)]) \<and> same_limits c c' \<and>
    unat n = length gone \<and> unat b = held_bytes gone \<and>
    (gone = [] \<or> bc_max_entries c < length kept + 2 \<or>
      unat (bc_max_bytes c) < held_bytes [last gone] + held_bytes kept + length v)"
proof -
  let ?k = "DecryptedSegmentCacheKey_new r i"
  have "length v < 2 ^ 64" using assms(3) unat_less_2p [of "bc_max_bytes c"] by simp
  then have "u64_len v \<le> bc_max_bytes c" and len: "u64_len v = of_nat (length v)"
    using assms(3) by (simp_all add: word_le_nat_alt unat_u64_len) (simp add: u64_len_def)
  from segment_cache_insert_stored [OF assms(1,2) this(1), of r i] obtain n b c' where
    ins: "segment_cache_insert r i v c = Some (Inserted (of_nat (length v)) n b, c')" "same_limits c c'"
      "cache_ok c' (stored c ?k v xs)" "unat n + length (stored c ?k v xs) = length (used_last ?k v xs)"
      "unat b + held_bytes (stored c ?k v xs) = held_bytes (used_last ?k v xs)" unfolding len by blast
  obtain gone kept where g: "filter (\<lambda>p. fst p \<noteq> ?k) xs = gone @ kept" "stored c ?k v xs = kept @ [(?k, v)]"
    "gone = [] \<or> bc_max_entries c < length kept + 2 \<or>
      unat (bc_max_bytes c) < held_bytes [last gone] + held_bytes kept + length v"
    by (rule stored_split [OF assms(2,3)])
  have "unat n = length gone" "unat b = held_bytes gone" using ins(4,5) g(1,2) by (simp_all add: used_last_def)
  with ins(1-3) g show ?thesis by (intro exI [of _ n] exI [of _ b] exI [of _ c'] exI [of _ kept] exI [of _ gone]) simp
qed

lemma section_cache_insert_total:
  assumes "cache_ok c xs" and "limits_ok c"
  shows "\<exists>c' ys. section_cache_insert k v c = Some c' \<and> cache_ok c' ys \<and> same_limits c c' \<and>
    (if bc_max_bytes c = 0 \<or> bc_max_bytes c < u64_len v then c' = c else \<exists>zs. ys = zs @ [(k, v)])"
proof (cases "bc_max_bytes c = 0 \<or> bc_max_bytes c < u64_len v")
  case True
  then show ?thesis using section_cache_insert_skipped [of c v k] assms(1) by (auto simp: same_limits_def)
next
  case False
  then have fit: "u64_len v \<le> bc_max_bytes c" "bc_max_bytes c \<noteq> 0" by auto
  have "length v \<le> unat (bc_max_bytes c)" by (rule account_rep(4) [OF assms fit(1)])
  then obtain zs where "stored c k v xs = zs @ [(k, v)]" using stored_last [OF assms(2)] by blast
  with section_cache_insert_stored [OF assms fit, of k] False show ?thesis by auto
qed

end
