(* ===== verification/CryptoLib.thy ===== *)
theory CryptoLib
  imports Types
begin

text \<open>
  The boundary of \<open>rs3-crypto\<close>: the cryptographic packages it calls (HMAC-SHA-256,
  XChaCha20-Poly1305, AES-256-GCM-SIV, Ed25519, hex, constant-time comparison) are the fields of
  one record that every definition takes as an argument, and what their documentation promises is
  stated in the predicates at the end. Random bytes are arguments too; \<open>None\<close> stands for a
  system source that failed. The errors, the secret container and the keyed hash with a domain
  (\<open>rs3-crypto/src/error.rs\<close>, \<open>secret.rs\<close>, \<open>constant_time.rs\<close>, \<open>primitives.rs\<close>) are here.
\<close>

record crypto_lib =
  hmac_sha256 :: "bytes \<Rightarrow> bytes \<Rightarrow> bytes option"
  xchacha_key :: "bytes \<Rightarrow> bool"
  xchacha_encrypt :: "bytes \<Rightarrow> bytes \<Rightarrow> bytes \<Rightarrow> bytes \<Rightarrow> bytes option"
  xchacha_decrypt :: "bytes \<Rightarrow> bytes \<Rightarrow> bytes \<Rightarrow> bytes \<Rightarrow> bytes option"
  gcm_siv_key :: "bytes \<Rightarrow> bool"
  gcm_siv_encrypt :: "bytes \<Rightarrow> bytes \<Rightarrow> bytes \<Rightarrow> bytes \<Rightarrow> (bytes \<times> bytes) option"
  gcm_siv_decrypt :: "bytes \<Rightarrow> bytes \<Rightarrow> bytes \<Rightarrow> bytes \<Rightarrow> bytes \<Rightarrow> bytes option"
  ed25519_public :: "bytes \<Rightarrow> bytes option"
  ed25519_sign :: "bytes \<Rightarrow> bytes \<Rightarrow> bytes"
  ed25519_verify :: "bytes \<Rightarrow> bytes \<Rightarrow> bytes \<Rightarrow> bool"
  hex_encode :: "bytes \<Rightarrow> str"
  hex_decode :: "str \<Rightarrow> bytes option"
  subtle_ct_eq :: "bytes \<Rightarrow> bytes \<Rightarrow> bool"

section \<open>Errors and secrets\<close>

datatype CryptoError =
    SecretTooShort nat
  | InvalidHmacKey
  | CryptoType TypeError
  | RepositorySaltTooShort nat
  | NoPrimaryKey KeyPurpose
  | MultiplePrimaryKeys KeyPurpose
  | NoEnabledKeys KeyPurpose
  | DuplicateKeyId KeyId
  | MissingKey KeyId
  | KeyPurposeMismatch KeyId KeyPurpose KeyPurpose
  | InactiveKey KeyId KeyStatus
  | SignatureMismatch
  | CheckpointSigningKeyRejected
  | CheckpointPublicKeyMalformed
  | CheckpointPublicKeyMismatch
  | RecoveryPublicKeyMalformed
  | AeadOperationFailed
  | InvalidRepositoryEnvelope string
  | RandomnessUnavailable

type_synonym SecretBytes = bytes

definition MIN_SECRET_LEN :: nat where "MIN_SECRET_LEN = 32"

definition SecretBytes_new :: "bytes \<Rightarrow> CryptoError + SecretBytes" where
  "SecretBytes_new bs = (if length bs < MIN_SECRET_LEN then Inl (SecretTooShort MIN_SECRET_LEN) else Inr bs)"

definition ct_eq :: "crypto_lib \<Rightarrow> bytes \<Rightarrow> bytes \<Rightarrow> bool" where
  "ct_eq lib left right = (if length left \<noteq> length right then False else subtle_ct_eq lib left right)"

definition derive_hmac :: "crypto_lib \<Rightarrow> SecretBytes \<Rightarrow> bytes \<Rightarrow> bytes \<Rightarrow> CryptoError + bytes" where
  "derive_hmac lib secret domain material =
     ok_or InvalidHmacKey (hmac_sha256 lib secret (domain @ [0] @ material))"

definition random_bytes :: "bytes option \<Rightarrow> CryptoError + bytes" where
  "random_bytes source = ok_or RandomnessUnavailable source"

section \<open>What the packages promise\<close>

text \<open>HMAC-SHA-256 takes a key of any length and returns thirty-two bytes.\<close>

definition hmac_law :: "crypto_lib \<Rightarrow> bool" where
  "hmac_law lib \<longleftrightarrow> (\<forall>k m. \<exists>d. hmac_sha256 lib k m = Some d \<and> length d = 32)"

text \<open>
  XChaCha20-Poly1305 takes a key of thirty-two bytes, appends a tag of sixteen bytes, and
  decryption under the same key, nonce and associated data returns the message.
\<close>

definition xchacha_law :: "crypto_lib \<Rightarrow> bool" where
  "xchacha_law lib \<longleftrightarrow> (\<forall>k. length k = 32 \<longrightarrow> xchacha_key lib k) \<and>
     (\<forall>k n a m. length k = 32 \<longrightarrow> length n = 24 \<longrightarrow> length m \<le> 2 ^ 32 \<longrightarrow>
        (\<exists>c. xchacha_encrypt lib k n a m = Some c \<and> length c = length m + 16 \<and> xchacha_decrypt lib k n a c = Some m))"

text \<open>
  Its decryption recomputes the tag over the associated data and the ciphertext and fails when it
  differs, and the stream cipher is its own inverse: what decrypts is what encryption gives.
\<close>

definition xchacha_auth_law :: "crypto_lib \<Rightarrow> bool" where
  "xchacha_auth_law lib \<longleftrightarrow> (\<forall>k n a m c.
     (xchacha_decrypt lib k n a c = Some m \<longrightarrow> xchacha_encrypt lib k n a m = Some c) \<and>
     (xchacha_encrypt lib k n a m = Some c \<longrightarrow> length c = length m + 16))"

text \<open>AES-256-GCM-SIV with its tag detached, for messages and associated data in its limits.\<close>

definition gcm_siv_law :: "crypto_lib \<Rightarrow> bool" where
  "gcm_siv_law lib \<longleftrightarrow> (\<forall>k. length k = 32 \<longrightarrow> gcm_siv_key lib k) \<and>
     (\<forall>k n a m. length k = 32 \<longrightarrow> length n = 12 \<longrightarrow> length m \<le> 2 ^ 32 \<longrightarrow> length a \<le> 2 ^ 32 \<longrightarrow>
        (\<exists>c t. gcm_siv_encrypt lib k n a m = Some (c, t) \<and> length c = length m \<and> length t = 16 \<and>
          gcm_siv_decrypt lib k n a c t = Some m))"

text \<open>A seed of thirty-two bytes gives a key pair, and a signature verifies under its public key.\<close>

definition ed25519_law :: "crypto_lib \<Rightarrow> bool" where
  "ed25519_law lib \<longleftrightarrow> (\<forall>s. length s = 32 \<longrightarrow>
     (\<exists>p. ed25519_public lib s = Some p \<and> length p = 32 \<and> (\<forall>m. ed25519_verify lib p m (ed25519_sign lib s m))))"

text \<open>Hex text has two digits for each byte and decodes to the bytes it was made from.\<close>

definition hex_law :: "crypto_lib \<Rightarrow> bool" where
  "hex_law lib \<longleftrightarrow> (\<forall>bs. length (hex_encode lib bs) = 2 * length bs \<and> hex_decode lib (hex_encode lib bs) = Some bs) \<and>
     (\<forall>s bs. hex_decode lib s = Some bs \<longrightarrow> length s = 2 * length bs)"

definition ct_eq_law :: "crypto_lib \<Rightarrow> bool" where
  "ct_eq_law lib \<longleftrightarrow> (\<forall>a b. length a = length b \<longrightarrow> subtle_ct_eq lib a b = (a = b))"

lemma ct_eq_iff: "ct_eq_law lib \<Longrightarrow> ct_eq lib a b \<longleftrightarrow> a = b"
  by (auto simp: ct_eq_def ct_eq_law_def)

lemma derive_hmac_ok:
  assumes "hmac_law lib"
  obtains d where "derive_hmac lib s domain m = Inr d" and "length d = 32"
  using assms that unfolding hmac_law_def derive_hmac_def by (metis ok_or_simps(2))

lemma SecretBytes_new_iff [simp]: "SecretBytes_new bs = Inr s \<longleftrightarrow> s = bs \<and> 32 \<le> length bs"
  by (auto simp: SecretBytes_new_def MIN_SECRET_LEN_def)

text \<open>
  The laws can hold together: a hash that pads, a cipher that appends a fixed tag, hex digits
  of the two halves of each byte.
\<close>

definition pad_to :: "nat \<Rightarrow> bytes \<Rightarrow> bytes" where
  "pad_to n bs = take n (bs @ replicate n 0)"

definition hex_digit :: "nat \<Rightarrow> u8" where
  "hex_digit n = of_nat (if n < 10 then 48 + n else 87 + n)"

definition hex_value :: "u8 \<Rightarrow> nat option" where
  "hex_value b = (if 48 \<le> unat b \<and> unat b < 58 then Some (unat b - 48)
     else if 97 \<le> unat b \<and> unat b < 103 then Some (unat b - 87) else None)"

fun unhex :: "str \<Rightarrow> bytes option" where
  "unhex [] = Some []"
| "unhex [a] = None"
| "unhex (a # b # s) = (case (hex_value a, hex_value b, unhex s) of
     (Some h, Some l, Some bs) \<Rightarrow> Some (of_nat (16 * h + l) # bs) | _ \<Rightarrow> None)"

definition plain_lib :: crypto_lib where
  "plain_lib = \<lparr>hmac_sha256 = \<lambda>k m. Some (pad_to 32 (rev (k @ m))),
     xchacha_key = \<lambda>k. length k = 32,
     xchacha_encrypt = \<lambda>k n a m. Some (m @ replicate 16 0),
     xchacha_decrypt = \<lambda>k n a c. if length c < 16 then None else Some (take (length c - 16) c),
     gcm_siv_key = \<lambda>k. length k = 32,
     gcm_siv_encrypt = \<lambda>k n a m. Some (m, replicate 16 0),
     gcm_siv_decrypt = \<lambda>k n a c t. Some c,
     ed25519_public = \<lambda>s. if length s = 32 then Some s else None,
     ed25519_sign = \<lambda>s m. s @ m,
     ed25519_verify = \<lambda>p m sg. sg = p @ m,
     hex_encode = \<lambda>bs. concat (map (\<lambda>b. [hex_digit (unat b div 16), hex_digit (unat b mod 16)]) bs),
     hex_decode = unhex,
     subtle_ct_eq = (=)\<rparr>"

lemma length_pad_to [simp]: "length (pad_to n bs) = n"
  by (simp add: pad_to_def)

lemma hex_value_digit: "n < 16 \<Longrightarrow> hex_value (hex_digit n) = Some n"
  by (auto simp: hex_value_def hex_digit_def unat_of_nat)

lemma unhex_digits: "unhex (concat (map (\<lambda>b. [hex_digit (unat b div 16), hex_digit (unat b mod 16)]) bs)) = Some bs"
proof (induction bs)
  case (Cons b bs)
  have "unat b < 256" using unat_less_2p [of b] by simp
  then have "unat b div 16 < 16" by (simp add: less_mult_imp_div_less)
  moreover have "unat b mod 16 < 16" by simp
  moreover have "(of_nat (16 * (unat b div 16) + unat b mod 16) :: u8) = b" by (simp only: mult_div_mod_eq) simp
  ultimately show ?case using Cons by (simp add: hex_value_digit)
qed simp

lemma unhex_length: "unhex s = Some bs \<Longrightarrow> length s = 2 * length bs"
  by (induction s arbitrary: bs rule: unhex.induct) (auto split: option.splits)

lemma plain_lib_laws:
  "hmac_law plain_lib" "xchacha_law plain_lib" "gcm_siv_law plain_lib" "ed25519_law plain_lib"
  "hex_law plain_lib" "ct_eq_law plain_lib"
proof -
  have "length (concat (map (\<lambda>b. [hex_digit (unat b div 16), hex_digit (unat b mod 16)]) bs)) = 2 * length bs" for bs
    by (induction bs) auto
  then show "hex_law plain_lib"
    by (simp add: hex_law_def plain_lib_def unhex_digits unhex_length)
qed (auto simp: hmac_law_def xchacha_law_def gcm_siv_law_def ed25519_law_def ct_eq_law_def plain_lib_def)

end
