(* ===== verification/RepoTypes.thy ===== *)
theory RepoTypes
  imports CryptoLib
begin

text \<open>
  The errors of the object store and of the repository (\<open>rs3-storage/src/lib.rs\<close>,
  \<open>rs3-repository/src/error.rs\<close>) and the byte range of a read. A JSON error of the
  serialization package carries nothing the repository reads.
\<close>

datatype StorageError =
    StorageNotFound BackendObjectId
  | StorageAlreadyExists BackendObjectId
  | InvalidRange
  | Provider str
  | RetentionBlocked
  | RetentionExtensionUnsupported
  | VersionUnsupported
  | MissingVersionId BackendObjectId
  | LegalHoldBlocked
  | LegalHoldUnsupported
  | MultipartUnsupported
  | PagedListingUnsupported
  | BoundedReadUnsupported
  | InvalidListPage
  | BoundedReadExceeded u64

datatype RepositoryError =
    RepoNotFound LogicalPath
  | RepoAlreadyExists LogicalPath
  | PreconditionFailed
  | InvalidCopyOptions
  | ObjectTooLarge
  | ObjectLengthMismatch
  | ObjectBodyReadFailed
  | ObjectChecksumUnavailable
  | ObjectChecksumMismatch
  | ContentMd5Mismatch
  | SequenceOverflow
  | StatePoisoned
  | RepoType TypeError
  | RepoCrypto CryptoError
  | RepoStorage StorageError
  | CheckpointEncoding
  | CommitFailed str
  | AcceptedRecoveryRequired
  | MaintenanceNotBeneficial
  | CommitBackpressure
  | KeyringEnvelopeObjectConflict BackendObjectId
  | InvalidObjectFormat BackendObjectId

datatype ByteRange = Full | Slice u64 u64

abbreviation invalid_range :: RepositoryError where
  "invalid_range \<equiv> RepoStorage InvalidRange"

end
