(* ===== verification/Keyring.thy ===== *)
theory Keyring
  imports CryptoLib "HOL-Library.Multiset"
begin

text \<open>
  Keyrings with purpose-specific primary and enabled keys (\<open>rs3-crypto/src/keyring.rs\<close>) and what
  they do directly: blind index keys and manifest identifiers (\<open>derive.rs\<close>), checkpoint
  signatures (\<open>checkpoint.rs\<close>) and sealed metadata (\<open>metadata.rs\<close>). The lemmas show what a
  validated keyring guarantees, that what its primary key made an enabled key reads back, and that
  a later keyring which keeps the key readable still reads it.
\<close>

section \<open>The order of purposes\<close>

fun purpose_rank :: "KeyPurpose \<Rightarrow> nat" where
  "purpose_rank Namespace = 0"
| "purpose_rank Content = 1"
| "purpose_rank Metadata = 2"
| "purpose_rank CheckpointSigning = 3"

lemma purpose_rank_inj: "purpose_rank p = purpose_rank q \<Longrightarrow> p = q"
  by (cases p; cases q) simp_all

instantiation KeyPurpose :: linorder
begin

definition less_eq_KeyPurpose :: "KeyPurpose \<Rightarrow> KeyPurpose \<Rightarrow> bool" where
  "p \<le> q \<longleftrightarrow> purpose_rank p \<le> purpose_rank q"

definition less_KeyPurpose :: "KeyPurpose \<Rightarrow> KeyPurpose \<Rightarrow> bool" where
  "p < q \<longleftrightarrow> purpose_rank p < purpose_rank q"

instance
  by standard (auto simp: less_eq_KeyPurpose_def less_KeyPurpose_def intro: purpose_rank_inj)

end

section \<open>Keyrings\<close>

record KeyMaterial =
  km_descriptor :: KeyDescriptor
  km_secret :: SecretBytes

record RepositoryKeyContext =
  rk_repository_id :: RepositoryId
  rk_salt :: bytes

type_synonym KeyRing = "KeyMaterial list"

abbreviation km_id :: "KeyMaterial \<Rightarrow> KeyId" where "km_id k \<equiv> kd_id (km_descriptor k)"
abbreviation km_purpose :: "KeyMaterial \<Rightarrow> KeyPurpose" where "km_purpose k \<equiv> kd_purpose (km_descriptor k)"
abbreviation km_status :: "KeyMaterial \<Rightarrow> KeyStatus" where "km_status k \<equiv> kd_status (km_descriptor k)"

definition MIN_REPOSITORY_SALT_LEN :: nat where "MIN_REPOSITORY_SALT_LEN = 32"

definition RepositoryKeyContext_new :: "RepositoryId \<Rightarrow> bytes \<Rightarrow> CryptoError + RepositoryKeyContext" where
  "RepositoryKeyContext_new rid salt =
     (if length salt < MIN_REPOSITORY_SALT_LEN then Inl (RepositorySaltTooShort MIN_REPOSITORY_SALT_LEN)
      else Inr \<lparr>rk_repository_id = rid, rk_salt = salt\<rparr>)"

definition CHECKPOINT_PUBLIC_KEY_PREFIX :: str where "CHECKPOINT_PUBLIC_KEY_PREFIX = lit ''ed25519:''"

definition strip_prefix :: "str \<Rightarrow> str \<Rightarrow> str option" where
  "strip_prefix p s = (if take (length p) s = p then Some (drop (length p) s) else None)"

definition prefixed_ed25519_public_key_bytes :: "crypto_lib \<Rightarrow> str \<Rightarrow> bytes option" where
  "prefixed_ed25519_public_key_bytes lib public_key =
     (case strip_prefix CHECKPOINT_PUBLIC_KEY_PREFIX public_key of
        None \<Rightarrow> None
      | Some hex_key \<Rightarrow> if length hex_key \<noteq> 64 then None else hex_decode lib hex_key)"

definition checkpoint_public_key_bytes :: "crypto_lib \<Rightarrow> str \<Rightarrow> CryptoError + bytes" where
  "checkpoint_public_key_bytes lib pk = ok_or CheckpointPublicKeyMalformed (prefixed_ed25519_public_key_bytes lib pk)"

definition recovery_public_key_bytes :: "crypto_lib \<Rightarrow> str \<Rightarrow> CryptoError + bytes" where
  "recovery_public_key_bytes lib pk = ok_or RecoveryPublicKeyMalformed (prefixed_ed25519_public_key_bytes lib pk)"

text \<open>A signing key is its seed, accepted by the package.\<close>

definition checkpoint_signing_key :: "crypto_lib \<Rightarrow> SecretBytes \<Rightarrow> CryptoError + bytes" where
  "checkpoint_signing_key lib secret =
     bindE (derive_hmac lib secret (lit ''rs3:checkpoint-ed25519-seed:v1'') (lit ''ed25519'')) (\<lambda>seed.
     if ed25519_public lib seed = None then Inl CheckpointSigningKeyRejected else Inr seed)"

definition derive_checkpoint_public_key :: "crypto_lib \<Rightarrow> SecretBytes \<Rightarrow> CryptoError + bytes" where
  "derive_checkpoint_public_key lib secret =
     bindE (checkpoint_signing_key lib secret) (\<lambda>seed. Inr (the (ed25519_public lib seed)))"

definition derive_checkpoint_public_key_descriptor :: "crypto_lib \<Rightarrow> SecretBytes \<Rightarrow> CryptoError + str" where
  "derive_checkpoint_public_key_descriptor lib secret =
     bindE (derive_checkpoint_public_key lib secret) (\<lambda>pk. Inr (CHECKPOINT_PUBLIC_KEY_PREFIX @ hex_encode lib pk))"

text \<open>The checks of one key: a new identifier and a public key that belongs to the secret.\<close>

definition validate_key :: "crypto_lib \<Rightarrow> KeyId set \<Rightarrow> KeyMaterial \<Rightarrow> CryptoError + KeyId set" where
  "validate_key lib ids key =
     (if km_id key \<in> ids then Inl (DuplicateKeyId (km_id key))
      else case (km_purpose key, kd_public_key (km_descriptor key)) of
        (CheckpointSigning, Some public_key) \<Rightarrow>
          bindE (checkpoint_public_key_bytes lib public_key) (\<lambda>declared.
          bindE (derive_checkpoint_public_key lib (km_secret key)) (\<lambda>derived.
          if \<not> ct_eq lib declared derived then Inl CheckpointPublicKeyMismatch else Inr (insert (km_id key) ids)))
      | _ \<Rightarrow> Inr (insert (km_id key) ids))"

definition primary_for :: "KeyPurpose \<Rightarrow> KeyMaterial \<Rightarrow> bool" where
  "primary_for p key \<longleftrightarrow> km_purpose key = p \<and> is_primary (km_status key)"

definition validate_keyring :: "crypto_lib \<Rightarrow> KeyMaterial list \<Rightarrow> CryptoError + unit" where
  "validate_keyring lib keys =
     bindE (foldE (validate_key lib) {} keys) (\<lambda>ids.
     bindE (foldE (\<lambda>_ p. if length (filter (primary_for p) keys) > 1 then Inl (MultiplePrimaryKeys p) else Inr ()) ()
        [Namespace, Content, Metadata, CheckpointSigning]) (\<lambda>_.
     if \<not> list_ex (primary_for Namespace) keys then Inl (NoPrimaryKey Namespace) else Inr ()))"

definition KeyRing_new :: "crypto_lib \<Rightarrow> KeyMaterial list \<Rightarrow> CryptoError + KeyRing" where
  "KeyRing_new lib keys = bindE (validate_keyring lib keys) (\<lambda>_. Inr keys)"

definition primary_key :: "KeyRing \<Rightarrow> KeyPurpose \<Rightarrow> CryptoError + KeyMaterial" where
  "primary_key keys p =
     (case filter (primary_for p) keys of
        [] \<Rightarrow> Inl (NoPrimaryKey p)
      | [k] \<Rightarrow> Inr k
      | _ \<Rightarrow> Inl (MultiplePrimaryKeys p))"

definition primary_key_id :: "KeyRing \<Rightarrow> KeyPurpose \<Rightarrow> CryptoError + KeyId" where
  "primary_key_id keys p = bindE (primary_key keys p) (\<lambda>k. Inr (km_id k))"

definition primary_namespace_key_id :: "KeyRing \<Rightarrow> CryptoError + KeyId" where
  "primary_namespace_key_id keys = primary_key_id keys Namespace"

definition primary_content_key_id :: "KeyRing \<Rightarrow> CryptoError + KeyId" where
  "primary_content_key_id keys = primary_key_id keys Content"

definition sort_descriptors :: "KeyDescriptor list \<Rightarrow> KeyDescriptor list" where
  "sort_descriptors ds = sort_key (\<lambda>d. (kd_purpose d, kd_id d)) ds"

definition descriptors :: "KeyRing \<Rightarrow> KeyDescriptor list" where
  "descriptors keys = sort_descriptors (map km_descriptor keys)"

text \<open>The loop that splits the readable keys of a purpose in primary and other ones.\<close>

fun split_enabled :: "KeyPurpose \<Rightarrow> KeyMaterial list \<Rightarrow> KeyMaterial list \<times> KeyMaterial list" where
  "split_enabled p [] = ([], [])"
| "split_enabled p (key # keys) =
     (let (primary, enabled) = split_enabled p keys in
      if km_purpose key \<noteq> p \<or> \<not> is_enabled_for_lookup (km_status key) then (primary, enabled)
      else if is_primary (km_status key) then (key # primary, enabled)
      else (primary, key # enabled))"

definition enabled_keys :: "KeyRing \<Rightarrow> KeyPurpose \<Rightarrow> CryptoError + KeyMaterial list" where
  "enabled_keys keys p =
     (let (primary, enabled) = split_enabled p keys in
      if length primary > 1 then Inl (MultiplePrimaryKeys p)
      else if primary @ enabled = [] then Inl (NoEnabledKeys p)
      else Inr (primary @ enabled))"

definition enabled_key_by_id :: "KeyRing \<Rightarrow> KeyId \<Rightarrow> KeyPurpose \<Rightarrow> CryptoError + KeyMaterial" where
  "enabled_key_by_id keys key_id expected =
     bindE (ok_or (MissingKey key_id) (List.find (\<lambda>k. km_id k = key_id) keys)) (\<lambda>key.
     if km_purpose key \<noteq> expected then Inl (KeyPurposeMismatch key_id expected (km_purpose key))
     else if \<not> is_enabled_for_lookup (km_status key) then Inl (InactiveKey key_id (km_status key))
     else Inr key)"

text \<open>A keyring of fresh random keys; the four sources are drawn in this order.\<close>

definition random_secret :: "bytes option \<Rightarrow> CryptoError + SecretBytes" where
  "random_secret source = bindE (random_bytes source) SecretBytes_new"

definition default_descriptor :: "string \<Rightarrow> KeyPurpose \<Rightarrow> str option \<Rightarrow> KeyDescriptor" where
  "default_descriptor i p pk =
     \<lparr>kd_id = lit i, kd_purpose = p, kd_status = Primary, kd_created_at_ms = 0, kd_public_key = pk\<rparr>"

definition generate_random ::
  "crypto_lib \<Rightarrow> bytes option \<Rightarrow> bytes option \<Rightarrow> bytes option \<Rightarrow> bytes option \<Rightarrow> CryptoError + KeyRing" where
  "generate_random lib r0 r1 r2 r3 =
     bindE (random_secret r0) (\<lambda>checkpoint_secret.
     bindE (random_secret r1) (\<lambda>namespace_secret.
     bindE (random_secret r2) (\<lambda>content_secret.
     bindE (random_secret r3) (\<lambda>metadata_secret.
     bindE (derive_checkpoint_public_key_descriptor lib checkpoint_secret) (\<lambda>public_key.
     KeyRing_new lib
       [\<lparr>km_descriptor = default_descriptor ''namespace-v1'' Namespace None, km_secret = namespace_secret\<rparr>,
        \<lparr>km_descriptor = default_descriptor ''content-v1'' Content None, km_secret = content_secret\<rparr>,
        \<lparr>km_descriptor = default_descriptor ''metadata-v1'' Metadata None, km_secret = metadata_secret\<rparr>,
        \<lparr>km_descriptor = default_descriptor ''checkpoint-v1'' CheckpointSigning (Some public_key),
          km_secret = checkpoint_secret\<rparr>])))))"

section \<open>Derived identifiers\<close>

record NamespaceBlindKey =
  nb_key_id :: KeyId
  nb_blind_key :: BlindIndexKey

definition derive_blind_index_key :: "crypto_lib \<Rightarrow> SecretBytes \<Rightarrow> LogicalPath \<Rightarrow> CryptoError + BlindIndexKey" where
  "derive_blind_index_key lib secret path =
     bindE (derive_hmac lib secret (lit ''rs3:blind-index:v1'') path) (\<lambda>bs.
     map_err CryptoType (BlindIndexKey_new (hex_encode lib bs)))"

definition derive_manifest_id :: "crypto_lib \<Rightarrow> SecretBytes \<Rightarrow> bytes \<Rightarrow> CryptoError + ManifestId" where
  "derive_manifest_id lib secret material =
     bindE (derive_hmac lib secret (lit ''rs3:manifest-id:v1'') material) (\<lambda>bs.
     map_err CryptoType (ManifestId_new (hex_encode lib bs)))"

definition blind_key_with :: "crypto_lib \<Rightarrow> LogicalPath \<Rightarrow> KeyMaterial \<Rightarrow> CryptoError + NamespaceBlindKey" where
  "blind_key_with lib path key =
     bindE (derive_blind_index_key lib (km_secret key) path) (\<lambda>blind.
     Inr \<lparr>nb_key_id = km_id key, nb_blind_key = blind\<rparr>)"

definition derive_primary_blind_index_key :: "crypto_lib \<Rightarrow> KeyRing \<Rightarrow> LogicalPath \<Rightarrow> CryptoError + NamespaceBlindKey" where
  "derive_primary_blind_index_key lib keys path = bindE (primary_key keys Namespace) (blind_key_with lib path)"

definition derive_blind_index_keys_for_lookup ::
  "crypto_lib \<Rightarrow> KeyRing \<Rightarrow> LogicalPath \<Rightarrow> CryptoError + NamespaceBlindKey list" where
  "derive_blind_index_keys_for_lookup lib keys path =
     bindE (enabled_keys keys Namespace) (collectE (blind_key_with lib path))"

definition keyring_manifest_id :: "crypto_lib \<Rightarrow> KeyRing \<Rightarrow> bytes \<Rightarrow> CryptoError + ManifestId" where
  "keyring_manifest_id lib keys material =
     bindE (primary_key keys Namespace) (\<lambda>key. derive_manifest_id lib (km_secret key) material)"

section \<open>Checkpoint signatures\<close>

record CheckpointSignature =
  cs_key_id :: KeyId
  cs_signature :: bytes

definition sign_checkpoint_payload :: "crypto_lib \<Rightarrow> KeyRing \<Rightarrow> bytes \<Rightarrow> CryptoError + CheckpointSignature" where
  "sign_checkpoint_payload lib keys payload =
     bindE (primary_key keys CheckpointSigning) (\<lambda>key.
     bindE (checkpoint_signing_key lib (km_secret key)) (\<lambda>seed.
     Inr \<lparr>cs_key_id = km_id key, cs_signature = ed25519_sign lib seed payload\<rparr>))"

definition verify_checkpoint_payload ::
  "crypto_lib \<Rightarrow> KeyRing \<Rightarrow> KeyId \<Rightarrow> bytes \<Rightarrow> bytes \<Rightarrow> CryptoError + unit" where
  "verify_checkpoint_payload lib keys key_id payload signature =
     bindE (enabled_key_by_id keys key_id CheckpointSigning) (\<lambda>key.
     bindE (case kd_public_key (km_descriptor key) of
         Some public_key \<Rightarrow> checkpoint_public_key_bytes lib public_key
       | None \<Rightarrow> derive_checkpoint_public_key lib (km_secret key)) (\<lambda>public_key.
     ensure (ed25519_verify lib public_key payload signature) SignatureMismatch))"

definition verify_recovery_signature :: "crypto_lib \<Rightarrow> str \<Rightarrow> bytes \<Rightarrow> bytes \<Rightarrow> CryptoError + unit" where
  "verify_recovery_signature lib public_key payload signature =
     bindE (recovery_public_key_bytes lib public_key) (\<lambda>public_key.
     ensure (ed25519_verify lib public_key payload signature) SignatureMismatch)"

definition validate_recovery_public_key :: "crypto_lib \<Rightarrow> str \<Rightarrow> CryptoError + unit" where
  "validate_recovery_public_key lib public_key = bindE (recovery_public_key_bytes lib public_key) (\<lambda>_. Inr ())"

section \<open>Sealed metadata\<close>

record MetadataSeal =
  ms_key_id :: KeyId
  ms_nonce :: bytes
  ms_ciphertext :: bytes
  ms_tag :: bytes

definition METADATA_NONCE_LEN :: nat where "METADATA_NONCE_LEN = 12"
definition METADATA_TAG_LEN :: nat where "METADATA_TAG_LEN = 16"

definition metadata_cipher :: "crypto_lib \<Rightarrow> SecretBytes \<Rightarrow> CryptoError + bytes" where
  "metadata_cipher lib secret =
     bindE (derive_hmac lib secret (lit ''rs3:metadata-aead-key:v2'') (lit ''aes-256-gcm-siv'')) (\<lambda>key.
     if gcm_siv_key lib key then Inr key else Inl AeadOperationFailed)"

definition encrypt_metadata_with_key ::
  "crypto_lib \<Rightarrow> SecretBytes \<Rightarrow> bytes \<Rightarrow> bytes \<Rightarrow> bytes \<Rightarrow> CryptoError + bytes \<times> bytes" where
  "encrypt_metadata_with_key lib secret aad nonce plaintext =
     bindE (metadata_cipher lib secret) (\<lambda>cipher.
     if length nonce \<noteq> METADATA_NONCE_LEN then Inl AeadOperationFailed
     else ok_or AeadOperationFailed (gcm_siv_encrypt lib cipher nonce aad plaintext))"

definition decrypt_metadata_with_key ::
  "crypto_lib \<Rightarrow> SecretBytes \<Rightarrow> bytes \<Rightarrow> bytes \<Rightarrow> bytes \<Rightarrow> bytes \<Rightarrow> CryptoError + bytes" where
  "decrypt_metadata_with_key lib secret aad nonce ciphertext tag =
     bindE (metadata_cipher lib secret) (\<lambda>cipher.
     if length nonce \<noteq> METADATA_NONCE_LEN \<or> length tag \<noteq> METADATA_TAG_LEN then Inl AeadOperationFailed
     else ok_or AeadOperationFailed (gcm_siv_decrypt lib cipher nonce aad ciphertext tag))"

definition seal_metadata_payload ::
  "crypto_lib \<Rightarrow> KeyRing \<Rightarrow> bytes option \<Rightarrow> bytes \<Rightarrow> bytes \<Rightarrow> CryptoError + MetadataSeal" where
  "seal_metadata_payload lib keys source aad plaintext =
     bindE (primary_key keys Metadata) (\<lambda>key.
     bindE (random_bytes source) (\<lambda>nonce.
     bindE (encrypt_metadata_with_key lib (km_secret key) aad nonce plaintext) (\<lambda>(ciphertext, tag).
     Inr \<lparr>ms_key_id = km_id key, ms_nonce = nonce, ms_ciphertext = ciphertext, ms_tag = tag\<rparr>)))"

definition open_metadata_payload ::
  "crypto_lib \<Rightarrow> KeyRing \<Rightarrow> KeyId \<Rightarrow> bytes \<Rightarrow> bytes \<Rightarrow> bytes \<Rightarrow> bytes \<Rightarrow> CryptoError + bytes" where
  "open_metadata_payload lib keys key_id aad nonce ciphertext tag =
     bindE (enabled_key_by_id keys key_id Metadata) (\<lambda>key.
     decrypt_metadata_with_key lib (km_secret key) aad nonce ciphertext tag)"

section \<open>Validated keyrings\<close>

definition public_key_matches :: "crypto_lib \<Rightarrow> KeyMaterial \<Rightarrow> bool" where
  "public_key_matches lib k \<longleftrightarrow> (km_purpose k = CheckpointSigning \<longrightarrow>
     (\<forall>pk. kd_public_key (km_descriptor k) = Some pk \<longrightarrow>
       (\<exists>b. checkpoint_public_key_bytes lib pk = Inr b \<and> derive_checkpoint_public_key lib (km_secret k) = Inr b)))"

definition keyring_ok :: "crypto_lib \<Rightarrow> KeyRing \<Rightarrow> bool" where
  "keyring_ok lib keys \<longleftrightarrow> distinct (map km_id keys) \<and> list_all (public_key_matches lib) keys \<and>
     (\<forall>p. length (filter (primary_for p) keys) \<le> 1) \<and> list_ex (primary_for Namespace) keys"

lemma validate_key_iff:
  "ct_eq_law lib \<Longrightarrow> validate_key lib ids k = Inr ids' \<longleftrightarrow>
   km_id k \<notin> ids \<and> public_key_matches lib k \<and> ids' = insert (km_id k) ids"
  by (cases "km_purpose k"; cases "kd_public_key (km_descriptor k)")
    (auto simp: validate_key_def public_key_matches_def bindE_eq_Inr ct_eq_iff split: if_splits)

lemma validate_keys_iff:
  assumes "ct_eq_law lib"
  shows "foldE (validate_key lib) ids keys = Inr ids' \<longleftrightarrow>
    distinct (map km_id keys) \<and> set (map km_id keys) \<inter> ids = {} \<and> list_all (public_key_matches lib) keys \<and>
    ids' = ids \<union> set (map km_id keys)"
proof (induction keys arbitrary: ids)
  case (Cons k keys)
  show ?case unfolding foldE.simps bindE_eq_Inr validate_key_iff [OF assms] Cons.IH by auto
qed auto

lemma all_purposes: "(\<forall>p. P p) \<longleftrightarrow> P Namespace \<and> P Content \<and> P Metadata \<and> P CheckpointSigning"
proof (intro iffI allI)
  fix p
  assume "P Namespace \<and> P Content \<and> P Metadata \<and> P CheckpointSigning"
  then show "P p" by (cases p) simp_all
qed simp

lemma KeyRing_new_iff:
  assumes "ct_eq_law lib"
  shows "KeyRing_new lib keys = Inr kr \<longleftrightarrow> kr = keys \<and> keyring_ok lib keys"
proof -
  have "KeyRing_new lib keys = Inr kr \<longleftrightarrow> (\<exists>ids. foldE (validate_key lib) {} keys = Inr ids) \<and>
      (\<forall>p. length (filter (primary_for p) keys) \<le> 1) \<and> list_ex (primary_for Namespace) keys \<and> kr = keys"
    unfolding all_purposes by (auto simp: KeyRing_new_def validate_keyring_def bindE_eq_Inr not_less split: if_splits)
  then show ?thesis unfolding validate_keys_iff [OF assms] keyring_ok_def by auto
qed

lemma primary_key_iff:
  "primary_key keys p = Inr k \<longleftrightarrow> filter (primary_for p) keys = [k]"
  by (auto simp: primary_key_def split: list.splits)

lemma primary_key_total:
  assumes "keyring_ok lib keys" and "k \<in> set keys" and "primary_for p k"
  shows "primary_key keys p = Inr k"
proof -
  have m: "k \<in> set (filter (primary_for p) keys)" using assms(2,3) by simp
  have "length (filter (primary_for p) keys) \<le> 1" using assms(1) by (simp add: keyring_ok_def)
  with m show ?thesis unfolding primary_key_iff
    by (cases "filter (primary_for p) keys") (auto simp: Suc_le_eq)
qed

lemma namespace_key_exists:
  assumes "keyring_ok lib keys"
  obtains k where "primary_key keys Namespace = Inr k"
proof -
  obtain k where "k \<in> set keys" "primary_for Namespace k"
    using assms by (auto simp: keyring_ok_def list_ex_iff)
  then show thesis using primary_key_total [OF assms] that by blast
qed

lemma find_id:
  "distinct (map km_id keys) \<Longrightarrow> List.find (\<lambda>k. km_id k = i) keys = Some k \<longleftrightarrow> k \<in> set keys \<and> km_id k = i"
  by (induction keys) auto

lemma enabled_key_by_id_iff:
  "distinct (map km_id keys) \<Longrightarrow> enabled_key_by_id keys i p = Inr k \<longleftrightarrow>
   k \<in> set keys \<and> km_id k = i \<and> km_purpose k = p \<and> is_enabled_for_lookup (km_status k)"
  by (auto simp: enabled_key_by_id_def bindE_eq_Inr find_id split: if_splits)

lemma primary_enabled: "is_primary s \<Longrightarrow> is_enabled_for_lookup s"
  by (cases s) auto

lemma primary_keyD:
  "primary_key keys p = Inr k \<Longrightarrow> k \<in> set keys \<and> km_purpose k = p \<and> is_primary (km_status k)"
proof -
  assume "primary_key keys p = Inr k"
  then have "k \<in> set (filter (primary_for p) keys)" by (simp add: primary_key_iff)
  then show ?thesis by (simp add: primary_for_def)
qed

lemma primary_key_readable:
  assumes "keyring_ok lib keys" and "primary_key keys p = Inr k"
  shows "enabled_key_by_id keys (km_id k) p = Inr k"
  using assms primary_keyD [OF assms(2)] by (simp add: enabled_key_by_id_iff keyring_ok_def primary_enabled)

text \<open>
  A keyring keeps a key when it still has it for reading: the same identifier, purpose and
  secret, whatever became of its status as primary.
\<close>

definition keeps_key :: "KeyRing \<Rightarrow> KeyMaterial \<Rightarrow> bool" where
  "keeps_key keys k \<longleftrightarrow> (\<exists>k' \<in> set keys. km_id k' = km_id k \<and> km_purpose k' = km_purpose k \<and>
     km_secret k' = km_secret k \<and> is_enabled_for_lookup (km_status k'))"

lemma keeps_keyD:
  assumes "keyring_ok lib keys" and "keeps_key keys k"
  obtains k' where "enabled_key_by_id keys (km_id k) (km_purpose k) = Inr k'" and "km_secret k' = km_secret k"
    and "k' \<in> set keys"
  using assms that by (fastforce simp: keeps_key_def keyring_ok_def enabled_key_by_id_iff)

lemma keeps_own: "primary_key keys p = Inr k \<Longrightarrow> keeps_key keys k"
  using primary_keyD [of keys p k] primary_enabled by (force simp: keeps_key_def)

lemma inactive_refused:
  "distinct (map km_id keys) \<Longrightarrow> k \<in> set keys \<Longrightarrow> \<not> is_enabled_for_lookup (km_status k) \<Longrightarrow>
   enabled_key_by_id keys (km_id k) (km_purpose k) = Inl (InactiveKey (km_id k) (km_status k))"
  using find_id [of keys "km_id k" k] by (simp add: enabled_key_by_id_def)

lemma sort_descriptors_perm: "mset (descriptors keys) = mset (map km_descriptor keys)"
  by (simp add: descriptors_def sort_descriptors_def)

section \<open>Lookup keys\<close>

lemma split_enabled_primary: "fst (split_enabled p keys) = filter (primary_for p) keys"
  by (induction keys) (auto simp: Let_def case_prod_beta primary_for_def primary_enabled)

lemma split_enabled_other:
  "snd (split_enabled p keys) = filter (\<lambda>k. km_purpose k = p \<and> is_enabled_for_lookup (km_status k) \<and> \<not> is_primary (km_status k)) keys"
  by (induction keys) (auto simp: Let_def case_prod_beta)

lemma enabled_keys_iff:
  "enabled_keys keys p = Inr ks \<longleftrightarrow> length (filter (primary_for p) keys) \<le> 1 \<and> ks \<noteq> [] \<and>
   ks = filter (primary_for p) keys @
     filter (\<lambda>k. km_purpose k = p \<and> is_enabled_for_lookup (km_status k) \<and> \<not> is_primary (km_status k)) keys"
  unfolding enabled_keys_def split_enabled_primary [symmetric] split_enabled_other [symmetric]
  by (auto simp: Let_def case_prod_beta)

lemma enabled_keys_set:
  "enabled_keys keys p = Inr ks \<Longrightarrow> set ks = {k \<in> set keys. km_purpose k = p \<and> is_enabled_for_lookup (km_status k)}"
  by (auto simp: enabled_keys_iff primary_for_def primary_enabled)

lemma enabled_keys_first:
  assumes "primary_key keys p = Inr k"
  obtains rest where "enabled_keys keys p = Inr (k # rest)"
  using assms that by (simp add: primary_key_iff enabled_keys_iff)

lemma derive_blind_total:
  assumes "hmac_law lib" and "hex_law lib" and "\<forall>bs. \<not> trim_is_empty (hex_encode lib bs) \<or> bs = []"
  shows "\<exists>b. blind_key_with lib path k = Inr b"
proof -
  obtain d where d: "derive_hmac lib (km_secret k) (lit ''rs3:blind-index:v1'') path = Inr d" "length d = 32"
    by (rule derive_hmac_ok [OF assms(1)])
  then have "\<not> trim_is_empty (hex_encode lib d)" using assms(3) by (metis list.size(3) zero_neq_numeral)
  with d show ?thesis by (simp add: blind_key_with_def derive_blind_index_key_def BlindIndexKey_new_def validate_non_empty_def)
qed

lemma lookup_starts_with_primary:
  assumes "derive_primary_blind_index_key lib keys path = Inr b"
    and "derive_blind_index_keys_for_lookup lib keys path = Inr bs"
  shows "\<exists>rest. bs = b # rest"
proof -
  obtain k where k: "primary_key keys Namespace = Inr k" "blind_key_with lib path k = Inr b"
    using assms(1) by (auto simp: derive_primary_blind_index_key_def bindE_eq_Inr)
  obtain rest where "enabled_keys keys Namespace = Inr (k # rest)" by (rule enabled_keys_first [OF k(1)])
  with assms(2) k(2) show ?thesis
    by (auto simp: derive_blind_index_keys_for_lookup_def bindE_eq_Inr)
qed

section \<open>What a key made, a keyring that keeps it reads\<close>

lemma derive_checkpoint_public_key_seed:
  "derive_checkpoint_public_key lib s = Inr pk \<longleftrightarrow> (\<exists>seed. checkpoint_signing_key lib s = Inr seed \<and> ed25519_public lib seed = Some pk)"
proof -
  have "checkpoint_signing_key lib s = Inr seed \<Longrightarrow> ed25519_public lib seed \<noteq> None" for seed
    by (auto simp: checkpoint_signing_key_def bindE_eq_Inr split: if_splits)
  then show ?thesis by (auto simp: derive_checkpoint_public_key_def bindE_eq_Inr)
qed

lemma sign_verify:
  assumes "hmac_law lib" and "ed25519_law lib" and "keyring_ok lib keys'"
    and sign: "sign_checkpoint_payload lib keys payload = Inr sg"
    and key: "primary_key keys CheckpointSigning = Inr k" and keep: "keeps_key keys' k"
  shows "verify_checkpoint_payload lib keys' (cs_key_id sg) payload (cs_signature sg) = Inr ()"
proof -
  obtain seed where seed: "checkpoint_signing_key lib (km_secret k) = Inr seed"
    and sg: "sg = \<lparr>cs_key_id = km_id k, cs_signature = ed25519_sign lib seed payload\<rparr>"
    using sign key by (auto simp: sign_checkpoint_payload_def bindE_eq_Inr)
  obtain d where "derive_hmac lib (km_secret k) (lit ''rs3:checkpoint-ed25519-seed:v1'') (lit ''ed25519'') = Inr d" "length d = 32"
    by (rule derive_hmac_ok [OF assms(1)])
  with seed have "length seed = 32" by (simp add: checkpoint_signing_key_def split: if_splits)
  then obtain p where p: "ed25519_public lib seed = Some p" "ed25519_verify lib p payload (ed25519_sign lib seed payload)"
    using assms(2) unfolding ed25519_law_def by blast
  have purpose: "km_purpose k = CheckpointSigning" using primary_keyD [OF key] by simp
  obtain k' where k': "enabled_key_by_id keys' (km_id k) CheckpointSigning = Inr k'" "km_secret k' = km_secret k" "k' \<in> set keys'"
    by (rule keeps_keyD [OF assms(3) keep]) (simp add: purpose)
  have d: "derive_checkpoint_public_key lib (km_secret k') = Inr p"
    using seed p k'(2) by (simp add: derive_checkpoint_public_key_seed)
  have "public_key_matches lib k'" "km_purpose k' = CheckpointSigning"
    using assms(3) k' by (auto simp: keyring_ok_def list_all_iff enabled_key_by_id_iff)
  with d have "(case kd_public_key (km_descriptor k') of Some public_key \<Rightarrow> checkpoint_public_key_bytes lib public_key
      | None \<Rightarrow> derive_checkpoint_public_key lib (km_secret k')) = Inr p"
    by (auto simp: public_key_matches_def split: option.splits)
  with k'(1) sg p(2) show ?thesis by (simp add: verify_checkpoint_payload_def)
qed

lemma metadata_cipher_ok:
  assumes "hmac_law lib" and "gcm_siv_law lib"
  obtains c where "metadata_cipher lib s = Inr c" and "length c = 32"
proof -
  obtain d where "derive_hmac lib s (lit ''rs3:metadata-aead-key:v2'') (lit ''aes-256-gcm-siv'') = Inr d" "length d = 32"
    by (rule derive_hmac_ok [OF assms(1)])
  with assms(2) show thesis using that by (simp add: metadata_cipher_def gcm_siv_law_def)
qed

lemma seal_open_metadata:
  assumes "hmac_law lib" and "gcm_siv_law lib" and "keyring_ok lib keys'"
    and len: "length plaintext \<le> 2 ^ 32" "length aad \<le> 2 ^ 32"
    and seal: "seal_metadata_payload lib keys source aad plaintext = Inr s"
    and key: "primary_key keys Metadata = Inr k" and keep: "keeps_key keys' k"
  shows "open_metadata_payload lib keys' (ms_key_id s) aad (ms_nonce s) (ms_ciphertext s) (ms_tag s) = Inr plaintext"
proof -
  obtain c where c: "metadata_cipher lib (km_secret k) = Inr c" "length c = 32"
    by (rule metadata_cipher_ok [OF assms(1,2)])
  from seal key c(1) obtain nonce ct t where n: "length nonce = 12"
    and e: "gcm_siv_encrypt lib c nonce aad plaintext = Some (ct, t)"
    and s: "s = \<lparr>ms_key_id = km_id k, ms_nonce = nonce, ms_ciphertext = ct, ms_tag = t\<rparr>"
    by (auto simp: seal_metadata_payload_def encrypt_metadata_with_key_def bindE_eq_Inr METADATA_NONCE_LEN_def split: if_splits)
  have d: "gcm_siv_decrypt lib c nonce aad ct t = Some plaintext" "length t = 16"
    using assms(2) c(2) n e len unfolding gcm_siv_law_def by (metis (no_types, lifting) option.inject prod.inject)+
  have purpose: "km_purpose k = Metadata" using primary_keyD [OF key] by simp
  obtain k' where "enabled_key_by_id keys' (km_id k) Metadata = Inr k'" "km_secret k' = km_secret k"
    by (rule keeps_keyD [OF assms(3) keep]) (simp add: purpose)
  with s c(1) n d show ?thesis
    by (simp add: open_metadata_payload_def decrypt_metadata_with_key_def METADATA_NONCE_LEN_def METADATA_TAG_LEN_def)
qed

text \<open>Signing and sealing succeed, and a ring that keeps the key accepts the result.\<close>

lemma sign_then_verify:
  assumes "hmac_law lib" and "ed25519_law lib" and "keyring_ok lib keys'"
    and "primary_key keys CheckpointSigning = Inr k" and "keeps_key keys' k"
  shows "\<exists>sg. sign_checkpoint_payload lib keys payload = Inr sg \<and>
    verify_checkpoint_payload lib keys' (cs_key_id sg) payload (cs_signature sg) = Inr ()"
proof -
  obtain d where d: "derive_hmac lib (km_secret k) (lit ''rs3:checkpoint-ed25519-seed:v1'') (lit ''ed25519'') = Inr d" "length d = 32"
    by (rule derive_hmac_ok [OF assms(1)])
  then obtain seed where "checkpoint_signing_key lib (km_secret k) = Inr seed"
    using assms(2) by (auto simp: checkpoint_signing_key_def ed25519_law_def split: option.splits)
  then obtain sg where "sign_checkpoint_payload lib keys payload = Inr sg"
    using assms(4) by (auto simp: sign_checkpoint_payload_def)
  with sign_verify [OF assms(1-3) this assms(4,5)] show ?thesis by blast
qed

lemma metadata_roundtrip:
  assumes "hmac_law lib" and "gcm_siv_law lib" and "keyring_ok lib keys'"
    and "length plaintext \<le> 2 ^ 32" and "length aad \<le> 2 ^ 32" and "length nonce = METADATA_NONCE_LEN"
    and "primary_key keys Metadata = Inr k" and "keeps_key keys' k"
  shows "\<exists>s. seal_metadata_payload lib keys (Some nonce) aad plaintext = Inr s \<and> ms_nonce s = nonce \<and>
    length (ms_ciphertext s) = length plaintext \<and>
    open_metadata_payload lib keys' (ms_key_id s) aad (ms_nonce s) (ms_ciphertext s) (ms_tag s) = Inr plaintext"
proof -
  obtain c where c: "metadata_cipher lib (km_secret k) = Inr c" "length c = 32"
    by (rule metadata_cipher_ok [OF assms(1,2)])
  obtain ct t where "gcm_siv_encrypt lib c nonce aad plaintext = Some (ct, t)" "length ct = length plaintext"
    using assms(2,4-6) c(2) unfolding gcm_siv_law_def METADATA_NONCE_LEN_def by blast
  then have "seal_metadata_payload lib keys (Some nonce) aad plaintext =
      Inr \<lparr>ms_key_id = km_id k, ms_nonce = nonce, ms_ciphertext = ct, ms_tag = t\<rparr>" (is "_ = Inr ?s")
    using assms(6,7) c(1) by (simp add: seal_metadata_payload_def random_bytes_def encrypt_metadata_with_key_def)
  with seal_open_metadata [OF assms(1-5) this assms(7,8)] \<open>length ct = length plaintext\<close> show ?thesis by auto
qed

text \<open>The outcome of a lookup by key identifier, on every branch.\<close>

lemma enabled_key_by_id_outcome:
  assumes "distinct (map km_id keys)"
  shows "enabled_key_by_id keys i p = Inl (MissingKey i) \<longleftrightarrow> i \<notin> km_id ` set keys"
    and "k \<in> set keys \<Longrightarrow> enabled_key_by_id keys (km_id k) p =
      (if km_purpose k \<noteq> p then Inl (KeyPurposeMismatch (km_id k) p (km_purpose k))
       else if is_enabled_for_lookup (km_status k) then Inr k
       else Inl (InactiveKey (km_id k) (km_status k)))"
proof -
  show hit: "enabled_key_by_id keys (km_id k) p =
      (if km_purpose k \<noteq> p then Inl (KeyPurposeMismatch (km_id k) p (km_purpose k))
       else if is_enabled_for_lookup (km_status k) then Inr k
       else Inl (InactiveKey (km_id k) (km_status k)))" if "k \<in> set keys" for k p
    using that find_id [OF assms, of "km_id k" k] by (simp add: enabled_key_by_id_def)
  show "enabled_key_by_id keys i p = Inl (MissingKey i) \<longleftrightarrow> i \<notin> km_id ` set keys"
  proof (cases "i \<in> km_id ` set keys")
    case True
    then show ?thesis using hit [of _ p] by (auto split: if_splits)
  next
    case False
    then have "List.find (\<lambda>k. km_id k = i) keys = None" by (auto simp: find_None_iff)
    with False show ?thesis by (simp add: enabled_key_by_id_def)
  qed
qed

text \<open>A keyring of fresh keys is valid, so writing can start with it.\<close>

lemma generate_random_ok:
  assumes "hmac_law lib" and "ed25519_law lib" and "hex_law lib" and "ct_eq_law lib"
    and "length r0 = 32" "length r1 = 32" "length r2 = 32" "length r3 = 32"
  shows "\<exists>kr. generate_random lib (Some r0) (Some r1) (Some r2) (Some r3) = Inr kr \<and> keyring_ok lib kr \<and>
    (\<forall>p. \<exists>k. primary_key kr p = Inr k)"
proof -
  obtain d where d: "derive_hmac lib r0 (lit ''rs3:checkpoint-ed25519-seed:v1'') (lit ''ed25519'') = Inr d" "length d = 32"
    by (rule derive_hmac_ok [OF assms(1)])
  with assms(2) obtain pk where pk: "ed25519_public lib d = Some pk" "length pk = 32" by (auto simp: ed25519_law_def)
  then have pub: "derive_checkpoint_public_key lib r0 = Inr pk"
    using d by (auto simp: derive_checkpoint_public_key_seed checkpoint_signing_key_def)
  have hex: "length (hex_encode lib pk) = 64" "hex_decode lib (hex_encode lib pk) = Some pk"
    using assms(3) pk(2) by (simp_all add: hex_law_def)
  let ?desc = "CHECKPOINT_PUBLIC_KEY_PREFIX @ hex_encode lib pk"
  have b: "checkpoint_public_key_bytes lib ?desc = Inr pk"
    using hex by (simp add: checkpoint_public_key_bytes_def prefixed_ed25519_public_key_bytes_def strip_prefix_def)
  define kr where "kr =
      [\<lparr>km_descriptor = default_descriptor ''namespace-v1'' Namespace None, km_secret = r1\<rparr>,
       \<lparr>km_descriptor = default_descriptor ''content-v1'' Content None, km_secret = r2\<rparr>,
       \<lparr>km_descriptor = default_descriptor ''metadata-v1'' Metadata None, km_secret = r3\<rparr>,
       \<lparr>km_descriptor = default_descriptor ''checkpoint-v1'' CheckpointSigning (Some ?desc), km_secret = r0\<rparr>]"
  have one: "\<exists>k. filter (primary_for p) kr = [k]" for p
    by (cases p) (simp_all add: kr_def default_descriptor_def primary_for_def)
  then have "length (filter (primary_for p) kr) \<le> 1" for p by (metis One_nat_def le_refl length_Cons list.size(3))
  moreover have "distinct (map km_id kr)" by (simp add: kr_def default_descriptor_def lit_def)
  moreover have "list_all (public_key_matches lib) kr"
    using b pub by (simp add: kr_def default_descriptor_def public_key_matches_def)
  moreover have "list_ex (primary_for Namespace) kr" by (simp add: kr_def default_descriptor_def primary_for_def)
  ultimately have ok: "keyring_ok lib kr" by (simp add: keyring_ok_def)
  have "derive_checkpoint_public_key_descriptor lib r0 = Inr ?desc"
    using pub by (simp add: derive_checkpoint_public_key_descriptor_def)
  then have "generate_random lib (Some r0) (Some r1) (Some r2) (Some r3) = KeyRing_new lib kr"
    using assms(5-8) by (simp add: generate_random_def random_secret_def random_bytes_def kr_def SecretBytes_new_def MIN_SECRET_LEN_def)
  with ok one KeyRing_new_iff [OF assms(4)] show ?thesis by (auto simp: primary_key_iff)
qed

end
