(* ===== verification/SegmentCrypto.thy ===== *)
theory SegmentCrypto
  imports Keyring
begin

text \<open>
  Sealing and opening one payload segment (\<open>rs3-crypto/src/payload.rs\<close>): the associated data and
  the nonce are functions of the segment's authenticated identity. The lemmas show that two
  identities never share their associated data or the material of their nonce, and that a segment
  opens under every keyring that keeps its content key. With a cipher that checks its tag, the bytes
  that open in a context are exactly those that sealing gives there.
\<close>

record PayloadSegmentContext =
  sc_repository_context :: bytes
  sc_containing_object :: BackendObjectId
  sc_section_ordinal :: "u32 option"
  sc_carrier_id :: bytes
  sc_attempt_id :: PayloadAttemptId
  sc_part_ordinal :: u32
  sc_segment_ordinal :: u64
  sc_plaintext_len :: u64
  sc_is_final :: bool
  sc_layout_context :: bytes

record PayloadSegmentSeal =
  sg_key_id :: KeyId
  sg_ciphertext :: bytes

definition PAYLOAD_SEGMENT_NONCE_DOMAIN :: bytes where
  "PAYLOAD_SEGMENT_NONCE_DOMAIN = lit ''rs3:payload-segment-nonce:v3''"

definition PAYLOAD_SEGMENT_AAD_DOMAIN :: bytes where
  "PAYLOAD_SEGMENT_AAD_DOMAIN = lit ''rs3:payload-segment-aad:v3''"

definition XCHACHA20_NONCE_LEN :: nat where "XCHACHA20_NONCE_LEN = 24"

definition nonce_context :: "PayloadSegmentContext \<Rightarrow> bytes" where
  "nonce_context c = sc_carrier_id c @ sc_attempt_id c @ u32_to_be_bytes (sc_part_ordinal c) @
     u64_to_be_bytes (sc_segment_ordinal c)"

text \<open>A field with its length in front.\<close>

definition framed :: "bytes \<Rightarrow> bytes" where
  "framed field = u64_to_be_bytes (of_nat (length field)) @ field"

definition section_bytes :: "u32 option \<Rightarrow> bytes" where
  "section_bytes section = (case section of None \<Rightarrow> [0] | Some ordinal \<Rightarrow> [1] @ u32_to_be_bytes ordinal)"

definition associated_data :: "PayloadSegmentContext \<Rightarrow> KeyId \<Rightarrow> CryptoError + bytes" where
  "associated_data c key_id =
     (if sc_repository_context c = [] \<or> length (sc_repository_context c) > 4096 \<or>
         length (sc_containing_object c) > 1024 \<or> length (sc_layout_context c) > 1024 \<or> length key_id > 255 \<or>
         sc_plaintext_len c = 0 \<or> sc_plaintext_len c > 64 * 1024 * 1024
      then Inl AeadOperationFailed
      else Inr (PAYLOAD_SEGMENT_AAD_DOMAIN @
        concat (map framed [sc_repository_context c, sc_containing_object c, key_id]) @
        section_bytes (sc_section_ordinal c) @ nonce_context c @ u64_to_be_bytes (sc_plaintext_len c) @
        [if sc_is_final c then 1 else 0] @ framed (sc_layout_context c)))"

definition derive_segment_nonce :: "crypto_lib \<Rightarrow> SecretBytes \<Rightarrow> bytes \<Rightarrow> bytes \<Rightarrow> bytes \<Rightarrow> CryptoError + bytes" where
  "derive_segment_nonce lib secret aad nctx domain =
     (if length aad \<ge> 2 ^ 64 \<or> length nctx \<ge> 2 ^ 64 then Inl AeadOperationFailed
      else bindE (derive_hmac lib secret domain (framed aad @ framed nctx)) (\<lambda>derived.
        if length derived < XCHACHA20_NONCE_LEN then Inl AeadOperationFailed
        else Inr (take XCHACHA20_NONCE_LEN derived)))"

definition payload_cipher :: "crypto_lib \<Rightarrow> SecretBytes \<Rightarrow> CryptoError + bytes" where
  "payload_cipher lib secret =
     bindE (derive_hmac lib secret (lit ''rs3:payload-aead-key:v1'') (lit ''xchacha20poly1305'')) (\<lambda>key.
     if xchacha_key lib key then Inr key else Inl AeadOperationFailed)"

definition encrypt_payload_with_key ::
  "crypto_lib \<Rightarrow> SecretBytes \<Rightarrow> bytes \<Rightarrow> bytes \<Rightarrow> bytes \<Rightarrow> CryptoError + bytes" where
  "encrypt_payload_with_key lib secret aad plaintext nonce =
     bindE (payload_cipher lib secret) (\<lambda>cipher.
     if length nonce \<noteq> XCHACHA20_NONCE_LEN then Inl AeadOperationFailed
     else ok_or AeadOperationFailed (xchacha_encrypt lib cipher nonce aad plaintext))"

definition decrypt_payload_with_key ::
  "crypto_lib \<Rightarrow> SecretBytes \<Rightarrow> bytes \<Rightarrow> bytes \<Rightarrow> bytes \<Rightarrow> CryptoError + bytes" where
  "decrypt_payload_with_key lib secret aad nonce ciphertext =
     bindE (payload_cipher lib secret) (\<lambda>cipher.
     if length nonce \<noteq> XCHACHA20_NONCE_LEN then Inl AeadOperationFailed
     else ok_or AeadOperationFailed (xchacha_decrypt lib cipher nonce aad ciphertext))"

definition seal_payload_segment ::
  "crypto_lib \<Rightarrow> KeyRing \<Rightarrow> PayloadSegmentContext \<Rightarrow> bytes \<Rightarrow> CryptoError + PayloadSegmentSeal" where
  "seal_payload_segment lib keys c plaintext =
     (if of_nat (length plaintext) \<noteq> sc_plaintext_len c then Inl AeadOperationFailed
      else
        bindE (primary_key keys Content) (\<lambda>key.
        bindE (associated_data c (km_id key)) (\<lambda>aad.
        bindE (derive_segment_nonce lib (km_secret key) aad (nonce_context c) PAYLOAD_SEGMENT_NONCE_DOMAIN) (\<lambda>nonce.
        bindE (encrypt_payload_with_key lib (km_secret key) aad plaintext nonce) (\<lambda>ciphertext.
        Inr \<lparr>sg_key_id = km_id key, sg_ciphertext = ciphertext\<rparr>)))))"

definition open_payload_segment ::
  "crypto_lib \<Rightarrow> KeyRing \<Rightarrow> KeyId \<Rightarrow> PayloadSegmentContext \<Rightarrow> bytes \<Rightarrow> CryptoError + bytes" where
  "open_payload_segment lib keys key_id c ciphertext =
     (if of_nat (length ciphertext) \<noteq> saturating_add (sc_plaintext_len c) 16 then Inl AeadOperationFailed
      else
        bindE (enabled_key_by_id keys key_id Content) (\<lambda>key.
        bindE (associated_data c key_id) (\<lambda>aad.
        bindE (derive_segment_nonce lib (km_secret key) aad (nonce_context c) PAYLOAD_SEGMENT_NONCE_DOMAIN) (\<lambda>nonce.
        decrypt_payload_with_key lib (km_secret key) aad nonce ciphertext))))"

section \<open>One identity, one associated data\<close>

lemma to_be_bytes_inj [simp]:
  "u32_to_be_bytes a = u32_to_be_bytes b \<longleftrightarrow> a = b" "u64_to_be_bytes c = u64_to_be_bytes d \<longleftrightarrow> c = d"
  by (metis from_be_to_be(2), metis from_be_to_be(3))

lemma framed_eq:
  assumes "length f < 2 ^ 64" and "length g < 2 ^ 64"
  shows "framed f @ s = framed g @ t \<longleftrightarrow> f = g \<and> s = t"
proof
  assume "framed f @ s = framed g @ t"
  then have "of_nat (length f) = (of_nat (length g) :: u64)" and r: "f @ s = g @ t"
    by (simp_all add: framed_def)
  then have "unat (of_nat (length f) :: u64) = unat (of_nat (length g) :: u64)" by simp
  then have "length f = length g" using assms by (simp add: unat_of_nat)
  with r show "f = g \<and> s = t" by simp
qed simp

lemma section_bytes_eq: "section_bytes a @ s = section_bytes b @ t \<longleftrightarrow> a = b \<and> s = t"
  by (cases a; cases b) (auto simp: section_bytes_def)

text \<open>The byte arrays of a context have their fixed sizes.\<close>

definition context_typed :: "PayloadSegmentContext \<Rightarrow> bool" where
  "context_typed c \<longleftrightarrow> length (sc_carrier_id c) = 32 \<and> length (sc_attempt_id c) = 32"

lemma nonce_context_eq:
  assumes "context_typed c" and "context_typed c'"
  shows "nonce_context c @ s = nonce_context c' @ t \<longleftrightarrow>
    sc_carrier_id c = sc_carrier_id c' \<and> sc_attempt_id c = sc_attempt_id c' \<and>
    sc_part_ordinal c = sc_part_ordinal c' \<and> sc_segment_ordinal c = sc_segment_ordinal c' \<and> s = t"
  using assms by (simp add: nonce_context_def context_typed_def)

lemma length_nonce_context: "context_typed c \<Longrightarrow> length (nonce_context c) = 76"
  by (simp add: nonce_context_def context_typed_def)

lemma associated_data_length: "associated_data c k = Inr a \<Longrightarrow> context_typed c \<Longrightarrow> length a < 2 ^ 64"
  by (auto simp: associated_data_def framed_def section_bytes_def length_nonce_context PAYLOAD_SEGMENT_AAD_DOMAIN_def
      lit_def split: if_splits option.splits)

lemma associated_data_inj:
  assumes "associated_data c k = Inr a" and "associated_data c' k' = Inr a"
    and t: "context_typed c" "context_typed c'"
  shows "c = c' \<and> k = k'"
proof -
  have b: "length (sc_repository_context c) < 2 ^ 64" "length (sc_repository_context c') < 2 ^ 64"
    "length (sc_containing_object c) < 2 ^ 64" "length (sc_containing_object c') < 2 ^ 64"
    "length k < 2 ^ 64" "length k' < 2 ^ 64" "length (sc_layout_context c) < 2 ^ 64" "length (sc_layout_context c') < 2 ^ 64"
    using assms(1,2) by (simp_all add: associated_data_def split: if_splits)
  have e: "framed (sc_repository_context c) @ framed (sc_containing_object c) @ framed k @
        section_bytes (sc_section_ordinal c) @ nonce_context c @ u64_to_be_bytes (sc_plaintext_len c) @
        [if sc_is_final c then 1 else 0] @ framed (sc_layout_context c) @ []
      = framed (sc_repository_context c') @ framed (sc_containing_object c') @ framed k' @
        section_bytes (sc_section_ordinal c') @ nonce_context c' @ u64_to_be_bytes (sc_plaintext_len c') @
        [if sc_is_final c' then 1 else 0] @ framed (sc_layout_context c') @ []"
    using assms(1,2) by (auto simp: associated_data_def split: if_splits)
  then have "sc_repository_context c = sc_repository_context c'" "sc_containing_object c = sc_containing_object c'" "k = k'"
    "sc_section_ordinal c = sc_section_ordinal c'"
    and r: "nonce_context c @ u64_to_be_bytes (sc_plaintext_len c) @
        [if sc_is_final c then 1 else 0] @ framed (sc_layout_context c) @ []
      = nonce_context c' @ u64_to_be_bytes (sc_plaintext_len c') @
        [if sc_is_final c' then 1 else 0] @ framed (sc_layout_context c') @ []"
    unfolding framed_eq [OF b(1,2)] framed_eq [OF b(3,4)] framed_eq [OF b(5,6)] section_bytes_eq by auto
  moreover from r have "sc_carrier_id c = sc_carrier_id c'" "sc_attempt_id c = sc_attempt_id c'"
    "sc_part_ordinal c = sc_part_ordinal c'" "sc_segment_ordinal c = sc_segment_ordinal c'"
    and s: "u64_to_be_bytes (sc_plaintext_len c) @ [if sc_is_final c then 1 else 0] @ framed (sc_layout_context c) @ []
      = u64_to_be_bytes (sc_plaintext_len c') @ [if sc_is_final c' then 1 else 0] @ framed (sc_layout_context c') @ []"
    unfolding nonce_context_eq [OF t] by auto
  moreover from s have "sc_plaintext_len c = sc_plaintext_len c'" "sc_is_final c = sc_is_final c'"
    and l: "framed (sc_layout_context c) @ [] = framed (sc_layout_context c') @ []"
    by (auto split: if_splits)
  moreover from l have "sc_layout_context c = sc_layout_context c'" unfolding framed_eq [OF b(7,8)] by simp
  ultimately show ?thesis by simp
qed

text \<open>The input of the nonce derivation determines the identity as well.\<close>

lemma nonce_material_inj:
  assumes "associated_data c k = Inr a" and "associated_data c' k' = Inr a'"
    and t: "context_typed c" "context_typed c'"
    and m: "framed a @ framed (nonce_context c) = framed a' @ framed (nonce_context c')"
  shows "c = c' \<and> k = k'"
proof -
  have "a = a'" using m framed_eq [of a a'] associated_data_length [OF assms(1) t(1)] associated_data_length [OF assms(2) t(2)]
    by blast
  with associated_data_inj [OF assms(1) _ t] assms(2) show ?thesis by blast
qed

section \<open>Seal, then open\<close>

lemma payload_cipher_ok:
  assumes "hmac_law lib" and "xchacha_law lib"
  obtains c where "payload_cipher lib s = Inr c" and "length c = 32"
proof -
  obtain d where "derive_hmac lib s (lit ''rs3:payload-aead-key:v1'') (lit ''xchacha20poly1305'') = Inr d" "length d = 32"
    by (rule derive_hmac_ok [OF assms(1)])
  with assms(2) show thesis using that by (simp add: payload_cipher_def xchacha_law_def)
qed

lemma derive_segment_nonce_ok:
  assumes "hmac_law lib" and "length aad < 2 ^ 64" and "length nctx < 2 ^ 64"
  obtains n where "derive_segment_nonce lib s aad nctx domain = Inr n" and "length n = 24"
proof -
  obtain d where "derive_hmac lib s domain (framed aad @ framed nctx) = Inr d" "length d = 32"
    by (rule derive_hmac_ok [OF assms(1)])
  with assms(2,3) show thesis using that by (simp add: derive_segment_nonce_def XCHACHA20_NONCE_LEN_def)
qed

text \<open>A context in the bounds of the associated data, whose plaintext is the segment.\<close>

definition segment_fits :: "PayloadSegmentContext \<Rightarrow> KeyId \<Rightarrow> bytes \<Rightarrow> bool" where
  "segment_fits c key_id plaintext \<longleftrightarrow> context_typed c \<and> plaintext \<noteq> [] \<and> length plaintext \<le> 64 * 1024 * 1024 \<and>
     sc_plaintext_len c = of_nat (length plaintext) \<and>
     sc_repository_context c \<noteq> [] \<and> length (sc_repository_context c) \<le> 4096 \<and>
     length (sc_containing_object c) \<le> 1024 \<and> length (sc_layout_context c) \<le> 1024 \<and> length key_id \<le> 255"

lemma segment_fits_aad:
  assumes "segment_fits c key_id plaintext"
  obtains aad where "associated_data c key_id = Inr aad" and "length aad < 2 ^ 64"
proof -
  have u: "unat (sc_plaintext_len c) = length plaintext" "0 < length plaintext"
    using assms by (simp_all add: segment_fits_def unat_of_nat)
  then have "sc_plaintext_len c \<noteq> 0" by (metis unat_0 less_numeral_extra(3))
  moreover have "\<not> sc_plaintext_len c > 64 * 1024 * 1024"
    using assms u by (simp add: word_less_nat_alt segment_fits_def)
  ultimately obtain aad where aad: "associated_data c key_id = Inr aad"
    using assms by (simp add: associated_data_def segment_fits_def)
  moreover have "length aad < 2 ^ 64" using associated_data_length [OF aad] assms by (simp add: segment_fits_def)
  ultimately show thesis using that by blast
qed

lemma seal_open_segment:
  assumes laws: "hmac_law lib" "xchacha_law lib" and ok: "keyring_ok lib keys'"
    and fits: "segment_fits c (km_id k) plaintext"
    and key: "primary_key keys Content = Inr k" and keep: "keeps_key keys' k"
  obtains ct where "seal_payload_segment lib keys c plaintext = Inr \<lparr>sg_key_id = km_id k, sg_ciphertext = ct\<rparr>"
    and "length ct = length plaintext + 16"
    and "open_payload_segment lib keys' (km_id k) c ct = Inr plaintext"
proof -
  obtain aad where aad: "associated_data c (km_id k) = Inr aad" "length aad < 2 ^ 64" by (rule segment_fits_aad [OF fits])
  have "length (nonce_context c) < 2 ^ 64" using fits length_nonce_context by (simp add: segment_fits_def)
  then obtain n where n: "derive_segment_nonce lib (km_secret k) aad (nonce_context c) PAYLOAD_SEGMENT_NONCE_DOMAIN = Inr n" "length n = 24"
    by (rule derive_segment_nonce_ok [OF laws(1) aad(2)])
  obtain cp where cp: "payload_cipher lib (km_secret k) = Inr cp" "length cp = 32" by (rule payload_cipher_ok [OF laws])
  have len: "length plaintext \<le> 2 ^ 32" using fits by (simp add: segment_fits_def)
  with laws(2) n(2) cp(2) obtain ct where ct: "xchacha_encrypt lib cp n aad plaintext = Some ct"
      "length ct = length plaintext + 16" "xchacha_decrypt lib cp n aad ct = Some plaintext"
    unfolding xchacha_law_def by blast
  have u: "sc_plaintext_len c = of_nat (length plaintext)" using fits by (simp add: segment_fits_def)
  have "unat (sc_plaintext_len c) = length plaintext" using u len by (simp add: unat_of_nat)
  then have s: "saturating_add (sc_plaintext_len c) 16 = of_nat (length ct)"
    using len ct(2) by (simp add: saturating_add_def u)
  have purpose: "km_purpose k = Content" using primary_keyD [OF key] by simp
  obtain k' where k': "enabled_key_by_id keys' (km_id k) Content = Inr k'" "km_secret k' = km_secret k"
    by (rule keeps_keyD [OF ok keep]) (simp add: purpose)
  have "seal_payload_segment lib keys c plaintext = Inr \<lparr>sg_key_id = km_id k, sg_ciphertext = ct\<rparr>"
    using u key aad n cp ct by (simp add: seal_payload_segment_def encrypt_payload_with_key_def XCHACHA20_NONCE_LEN_def)
  moreover have "open_payload_segment lib keys' (km_id k) c ct = Inr plaintext"
    using s k' aad n cp ct by (simp add: open_payload_segment_def decrypt_payload_with_key_def XCHACHA20_NONCE_LEN_def)
  ultimately show thesis using that ct(2) by blast
qed

section \<open>What opens is what was sealed\<close>

lemma seal_segment_iff:
  assumes "primary_key keys Content = Inr k"
  shows "seal_payload_segment lib keys c plaintext = Inr \<lparr>sg_key_id = km_id k, sg_ciphertext = ct\<rparr> \<longleftrightarrow>
    of_nat (length plaintext) = sc_plaintext_len c \<and> (\<exists>aad n cp. associated_data c (km_id k) = Inr aad \<and>
      derive_segment_nonce lib (km_secret k) aad (nonce_context c) PAYLOAD_SEGMENT_NONCE_DOMAIN = Inr n \<and>
      payload_cipher lib (km_secret k) = Inr cp \<and> length n = 24 \<and> xchacha_encrypt lib cp n aad plaintext = Some ct)"
  using assms by (auto simp: seal_payload_segment_def encrypt_payload_with_key_def XCHACHA20_NONCE_LEN_def bindE_eq_Inr)

lemma open_segment_iff:
  assumes "enabled_key_by_id keys key_id Content = Inr k"
  shows "open_payload_segment lib keys key_id c ct = Inr plaintext \<longleftrightarrow>
    of_nat (length ct) = saturating_add (sc_plaintext_len c) 16 \<and> (\<exists>aad n cp. associated_data c key_id = Inr aad \<and>
      derive_segment_nonce lib (km_secret k) aad (nonce_context c) PAYLOAD_SEGMENT_NONCE_DOMAIN = Inr n \<and>
      payload_cipher lib (km_secret k) = Inr cp \<and> length n = 24 \<and> xchacha_decrypt lib cp n aad ct = Some plaintext)"
  using assms by (auto simp: open_payload_segment_def decrypt_payload_with_key_def XCHACHA20_NONCE_LEN_def bindE_eq_Inr)

lemma encrypt_iff_decrypt:
  assumes "xchacha_law lib" and "xchacha_auth_law lib" and "length cp = 32" and "length n = 24"
    and "length ct < 2 ^ 64" and "sc_plaintext_len c \<le> 64 * 1024 * 1024"
  shows "of_nat (length plaintext) = sc_plaintext_len c \<and> xchacha_encrypt lib cp n aad plaintext = Some ct \<longleftrightarrow>
    of_nat (length ct) = saturating_add (sc_plaintext_len c) 16 \<and> xchacha_decrypt lib cp n aad ct = Some plaintext"
proof -
  have small: "unat (sc_plaintext_len c) \<le> 64 * 1024 * 1024" using assms(6) by (simp add: word_le_nat_alt)
  have len: "length ct = length plaintext + 16" if "xchacha_encrypt lib cp n aad plaintext = Some ct"
    using assms(2) that by (simp add: xchacha_auth_law_def)
  have same: "of_nat (length ct) = saturating_add (sc_plaintext_len c) 16 \<longleftrightarrow> of_nat (length plaintext) = sc_plaintext_len c"
    if "length ct = length plaintext + 16"
    using small that by (simp add: saturating_add_def)
  have short: "length plaintext \<le> 2 ^ 32"
    if "of_nat (length plaintext) = sc_plaintext_len c" "length ct = length plaintext + 16"
  proof -
    have "unat (sc_plaintext_len c) = length plaintext" using that assms(5) by (simp flip: that(1) add: unat_of_nat)
    with small show ?thesis by simp
  qed
  have "xchacha_decrypt lib cp n aad ct = Some plaintext"
    if "of_nat (length plaintext) = sc_plaintext_len c" "xchacha_encrypt lib cp n aad plaintext = Some ct"
    using assms(1,3,4) short [OF that(1) len [OF that(2)]] that(2) unfolding xchacha_law_def by (metis option.inject)
  moreover have "xchacha_encrypt lib cp n aad plaintext = Some ct" if "xchacha_decrypt lib cp n aad ct = Some plaintext"
    using assms(2) that by (simp add: xchacha_auth_law_def)
  ultimately show ?thesis using len same by blast
qed

lemma open_iff_seal:
  assumes laws: "hmac_law lib" "xchacha_law lib" "xchacha_auth_law lib" and ok: "keyring_ok lib keys'"
    and key: "primary_key keys Content = Inr k" and keep: "keeps_key keys' k" and len: "length ct < 2 ^ 64"
  shows "open_payload_segment lib keys' (km_id k) c ct = Inr plaintext \<longleftrightarrow>
    seal_payload_segment lib keys c plaintext = Inr \<lparr>sg_key_id = km_id k, sg_ciphertext = ct\<rparr>"
proof -
  have purpose: "km_purpose k = Content" using primary_keyD [OF key] by simp
  obtain k' where k': "enabled_key_by_id keys' (km_id k) Content = Inr k'" "km_secret k' = km_secret k"
    by (rule keeps_keyD [OF ok keep]) (simp add: purpose)
  obtain cp where cp: "payload_cipher lib (km_secret k) = Inr cp" "length cp = 32" by (rule payload_cipher_ok [OF laws(1,2)])
  have small: "sc_plaintext_len c \<le> 64 * 1024 * 1024" if "associated_data c (km_id k) = Inr aad" for aad
    using that by (simp add: associated_data_def not_less split: if_splits)
  show ?thesis
    unfolding seal_segment_iff [OF key] open_segment_iff [OF k'(1)] k'(2)
    using encrypt_iff_decrypt [OF laws(2,3) cp(2) _ len small] cp(1) by (metis sum.inject(2))
qed

end
