(* ===== verification/PayloadReads.thy ===== *)
theory PayloadReads
  imports PayloadSegments
begin

text \<open>
  What the segmented layout of \<open>rs3-repository/src/payload.rs\<close> means: a payload is a list of
  segments, the plaintext and the ciphertext offsets of a segment are sums over the segments
  before it, and a read of a range returns the plaintext of that range.
\<close>

section \<open>Segments of a layout\<close>

definition seg_count :: "nat \<Rightarrow> nat \<Rightarrow> nat" where
  "seg_count c n = (n + c - 1) div c"

abbreviation plen :: "PayloadPart \<Rightarrow> nat" where "plen p \<equiv> unat (pp_plaintext_len p)"

text \<open>Every segment, as its part and its number in that part.\<close>

definition segs :: "nat \<Rightarrow> PayloadPart list \<Rightarrow> (PayloadPart \<times> nat) list" where
  "segs c parts = concat (map (\<lambda>p. map (Pair p) [0..<seg_count c (plen p)]) parts)"

definition seg_len :: "nat \<Rightarrow> PayloadPart \<times> nat \<Rightarrow> nat" where
  "seg_len c s = min c (plen (fst s) - snd s * c)"

definition seg_pos :: "nat \<Rightarrow> PayloadPart list \<Rightarrow> nat \<Rightarrow> nat" where
  "seg_pos c parts i = (\<Sum>s \<leftarrow> take i (segs c parts). seg_len c s)"

lemma seg_len_Pair [simp]: "seg_len c (p, r) = min c (plen p - r * c)"
  by (simp add: seg_len_def)

lemma seg_count_less: "0 < c \<Longrightarrow> r < seg_count c n \<longleftrightarrow> r * c < n"
proof -
  assume c: "0 < c"
  have "r < seg_count c n \<longleftrightarrow> Suc r * c \<le> n + c - 1"
    using c by (simp only: seg_count_def less_eq_div_iff_mult_less_eq Suc_le_eq [symmetric])
  also have "\<dots> \<longleftrightarrow> r * c < n" using c by (cases "r * c < n") auto
  finally show ?thesis .
qed

lemma seg_count_last: "0 < c \<Longrightarrow> r < seg_count c n \<Longrightarrow> Suc r = seg_count c n \<longleftrightarrow> n \<le> Suc r * c"
  using seg_count_less [of c "Suc r" n] by linarith

lemma seg_count_le: "0 < c \<Longrightarrow> seg_count c n \<le> n"
proof (rule ccontr)
  assume c: "0 < c" and "\<not> seg_count c n \<le> n"
  then have "n * c < n" using seg_count_less [OF c, of n n] by simp
  then show False using c by (cases c) auto
qed

lemma sealed_len_count: "sealed_len c n = n + 16 * seg_count c n"
  by (simp add: sealed_len_def seg_count_def)

lemma part_lens: "0 < c \<Longrightarrow> k \<le> seg_count c n \<Longrightarrow> (\<Sum>r \<leftarrow> [0..<k]. min c (n - r * c)) = min n (k * c)"
proof (induction k)
  case (Suc k)
  then have "k * c < n" by (simp add: seg_count_less Suc_le_eq)
  with Suc show ?case by (auto simp: min_def)
qed simp

lemma segs_append: "segs c (ps @ qs) = segs c ps @ segs c qs"
  by (simp add: segs_def)

lemma length_segs: "length (segs c parts) = (\<Sum>p \<leftarrow> parts. seg_count c (plen p))"
  by (simp add: segs_def length_concat comp_def)

lemma part_total: "0 < c \<Longrightarrow> (\<Sum>r \<leftarrow> [0..<seg_count c n]. min c (n - r * c)) = n"
proof -
  assume c: "0 < c"
  have "n \<le> seg_count c n * c" using seg_count_less [OF c, of "seg_count c n" n] by simp
  then show ?thesis using part_lens [OF c order_refl] by simp
qed

lemma segs_total: "0 < c \<Longrightarrow> (\<Sum>s \<leftarrow> segs c parts. seg_len c s) = (\<Sum>p \<leftarrow> parts. plen p)"
  by (induction parts) (simp_all add: segs_def comp_def part_total)

lemma segs_at:
  assumes c: "0 < c" and j: "j < length parts" and r: "r < seg_count c (plen (parts ! j))"
    and i: "i = (\<Sum>p \<leftarrow> take j parts. seg_count c (plen p)) + r"
  shows "i < length (segs c parts)" and "segs c parts ! i = (parts ! j, r)"
    and "seg_pos c parts i = (\<Sum>p \<leftarrow> take j parts. plen p) + r * c"
proof -
  let ?p = "parts ! j"
  have s: "segs c parts = segs c (take j parts) @ map (Pair ?p) [0..<seg_count c (plen ?p)] @ segs c (drop (Suc j) parts)"
    by (subst id_take_nth_drop [OF j]) (simp add: segs_append, simp add: segs_def)
  have l: "length (segs c (take j parts)) + r = i" using i by (simp add: length_segs)
  show "i < length (segs c parts)" using l r by (simp add: s)
  show "segs c parts ! i = (?p, r)" using l r by (simp add: s nth_append flip: l)
  have "take i (segs c parts) = segs c (take j parts) @ map (Pair ?p) [0..<r]"
    using r by (simp add: s take_map flip: l)
  moreover have "(\<Sum>q \<leftarrow> [0..<r]. min c (plen ?p - q * c)) = r * c"
    using r part_lens [OF c, of r "plen ?p"] seg_count_less [OF c, of r "plen ?p"] by simp
  ultimately show "seg_pos c parts i = (\<Sum>p \<leftarrow> take j parts. plen p) + r * c"
    using c by (simp add: seg_pos_def segs_total comp_def)
qed

lemma seg_pos_Suc: "i < length (segs c parts) \<Longrightarrow> seg_pos c parts (Suc i) = seg_pos c parts i + seg_len c (segs c parts ! i)"
  by (simp add: seg_pos_def take_Suc_conv_app_nth)

lemma sum_take_le: "(\<Sum>x \<leftarrow> take i xs. f x) \<le> (\<Sum>x \<leftarrow> xs. (f x :: nat))"
  by (subst (2) append_take_drop_id [symmetric, of xs i]) (simp del: append_take_drop_id)

lemma seg_pos_le: "0 < c \<Longrightarrow> seg_pos c parts i \<le> (\<Sum>p \<leftarrow> parts. plen p)"
  using sum_take_le [of "seg_len c" i "segs c parts"] by (simp add: seg_pos_def segs_total)

lemma seg_pos_mono: "i \<le> j \<Longrightarrow> seg_pos c parts i \<le> seg_pos c parts j"
  using sum_take_le [of "seg_len c" i "take j (segs c parts)"] by (simp add: seg_pos_def min_absorb1)

section \<open>Constructed layouts\<close>

definition start_is :: "nat \<Rightarrow> PayloadPart list \<Rightarrow> nat \<Rightarrow> PartStart \<Rightarrow> bool" where
  "start_is c parts j st \<longleftrightarrow> unat (st_plaintext st) = (\<Sum>p \<leftarrow> take j parts. plen p) \<and>
     unat (st_ciphertext st) = (\<Sum>p \<leftarrow> take j parts. sealed_len c (plen p)) \<and>
     st_segment st = (\<Sum>p \<leftarrow> take j parts. seg_count c (plen p))"

definition starts_are :: "nat \<Rightarrow> PayloadPart list \<Rightarrow> PartStart list \<Rightarrow> bool" where
  "starts_are c parts starts \<longleftrightarrow> length starts = length parts \<and> (\<forall>j < length parts. start_is c parts j (starts ! j))"

lemma start_is_extend: "j \<le> length parts \<Longrightarrow> start_is c (parts @ qs) j st \<longleftrightarrow> start_is c parts j st"
  by (simp add: start_is_def)

lemma layout_step_Inr:
  assumes chunk: "0 < chunk" and step: "layout_step chunk (starts, nxt) part = Inr (starts', nxt')"
  shows "starts' = starts @ [nxt]" and "unat (st_plaintext nxt') = unat (st_plaintext nxt) + plen part"
    and "unat (st_ciphertext nxt') = unat (st_ciphertext nxt) + sealed_len (unat chunk) (plen part)"
    and "st_segment nxt' = st_segment nxt + seg_count (unat chunk) (plen part)"
  using step
  by (auto simp: layout_step_def Let_def bindE_eq_Inr bind_eq_Some_conv checked_add_Some checked_mul_iff
      unat_div_ceil [OF chunk] sealed_len_def seg_count_def PAYLOAD_AEAD_TAG_LEN_def)

lemma layout_fold_Inr:
  assumes chunk: "0 < chunk"
    and "foldE (layout_step chunk) ([], \<lparr>st_plaintext = 0, st_ciphertext = 0, st_segment = 0\<rparr>) parts = Inr (starts, nxt)"
  shows "starts_are (unat chunk) parts starts \<and> start_is (unat chunk) parts (length parts) nxt"
  using assms(2)
proof (induction parts arbitrary: starts nxt rule: rev_induct)
  case Nil
  then show ?case by (auto simp: starts_are_def start_is_def)
next
  case (snoc part parts)
  obtain starts0 nxt0 where f: "foldE (layout_step chunk) ([], \<lparr>st_plaintext = 0, st_ciphertext = 0, st_segment = 0\<rparr>) parts
      = Inr (starts0, nxt0)" and s: "layout_step chunk (starts0, nxt0) part = Inr (starts, nxt)"
    using snoc.prems by (auto simp: foldE_append bindE_eq_Inr)
  note IH = snoc.IH [OF f]
  note step = layout_step_Inr [OF chunk s]
  have "start_is (unat chunk) (parts @ [part]) (length (parts @ [part])) nxt"
    using IH step by (simp add: start_is_def)
  moreover have "start_is (unat chunk) (parts @ [part]) j (starts ! j)" if "j < length (parts @ [part])" for j
    using IH that step(1) by (cases "j < length parts") (auto simp: starts_are_def start_is_extend nth_append less_Suc_eq)
  ultimately show ?case using IH step(1) by (simp add: starts_are_def)
qed

lemma layout_step_total:
  assumes chunk: "0 < chunk"
    and pt: "unat (st_plaintext nxt) + plen part < 2 ^ 64"
    and ct: "unat (st_ciphertext nxt) + sealed_len (unat chunk) (plen part) < 2 ^ 64"
    and sg: "st_segment nxt + seg_count (unat chunk) (plen part) < 2 ^ 64"
  shows "\<exists>r. layout_step chunk (starts, nxt) part = Inr r"
proof -
  let ?n = "pp_plaintext_len part"
  have word: "\<exists>w :: u64. unat w = n" if "n < 2 ^ 64" for n
    using that by (intro exI [of _ "of_nat n"]) (simp add: unat_of_nat)
  have count: "unat (div_ceil ?n chunk) = seg_count (unat chunk) (unat ?n)"
    by (simp add: unat_div_ceil [OF chunk] seg_count_def)
  obtain p where p: "checked_add (st_plaintext nxt) ?n = Some p" using word [OF pt] by (auto simp: checked_add_Some)
  obtain v where v: "checked_add (st_ciphertext nxt) ?n = Some v" "unat v = unat (st_ciphertext nxt) + unat ?n"
    using word [of "unat (st_ciphertext nxt) + unat ?n"] ct by (auto simp: checked_add_Some sealed_len_count)
  obtain t where t: "checked_mul (div_ceil ?n chunk) AEAD_TAG_LEN = Some t" "unat t = 16 * seg_count (unat chunk) (unat ?n)"
    using word [of "16 * seg_count (unat chunk) (unat ?n)"] ct
    by (auto simp: checked_mul_iff sealed_len_count count PAYLOAD_AEAD_TAG_LEN_def)
  obtain q where q: "checked_add v t = Some q"
    using word [OF ct] v(2) t(2) by (auto simp: checked_add_Some sealed_len_count add.assoc)
  show ?thesis using p v(1) t(1) q sg by (simp add: layout_step_def Let_def count usize_add_def)
qed

lemma layout_fold_total:
  assumes chunk: "0 < chunk" and ct: "(\<Sum>p \<leftarrow> parts. sealed_len (unat chunk) (plen p)) < 2 ^ 64"
  shows "\<exists>r. foldE (layout_step chunk) ([], \<lparr>st_plaintext = 0, st_ciphertext = 0, st_segment = 0\<rparr>) parts = Inr r"
  using ct
proof (induction parts rule: rev_induct)
  case (snoc part parts)
  obtain starts nxt where f: "foldE (layout_step chunk) ([], \<lparr>st_plaintext = 0, st_ciphertext = 0, st_segment = 0\<rparr>) parts
      = Inr (starts, nxt)" using snoc by auto
  have c: "0 < unat chunk" using chunk by (simp add: unat_gt_0)
  have le: "plen p \<le> sealed_len (unat chunk) (plen p)" "seg_count (unat chunk) (plen p) \<le> sealed_len (unat chunk) (plen p)" for p
    by (simp_all add: sealed_len_count)
  have "(\<Sum>p \<leftarrow> parts @ [part]. plen p) < 2 ^ 64" "(\<Sum>p \<leftarrow> parts @ [part]. seg_count (unat chunk) (plen p)) < 2 ^ 64"
    using snoc.prems sum_list_mono [of "parts @ [part]" plen] sum_list_mono [of "parts @ [part]" "\<lambda>p. seg_count (unat chunk) (plen p)"] le
    by (meson le_less_trans)+
  with layout_fold_Inr [OF chunk f] snoc.prems show ?case
    using layout_step_total [OF chunk, of nxt part starts] f by (simp add: foldE_append start_is_def)
qed simp

text \<open>The invariant of a constructed layout.\<close>

definition layout_rep :: "SegmentedPayloadLayout \<Rightarrow> bool" where
  "layout_rep l \<longleftrightarrow> layout_ok (sl_reference l) \<and> unat (sl_stored_len l) = layout_len (sl_reference l) \<and>
     sl_repository_context l \<noteq> [] \<and> length (sl_repository_context l) \<le> 4096 \<and>
     starts_are (unat (sl_chunk_size l)) (sl_parts l) (sl_starts l) \<and>
     sl_segment_count l = length (segs (unat (sl_chunk_size l)) (sl_parts l))"

lemma layout_ok_chunk: "layout_ok ref \<Longrightarrow> 0 < pl_chunk_size ref"
  by (simp add: layout_ok_def layout_bounds_ok_def word_neq_0_conv)

lemma layout_new_rep:
  assumes "SegmentedPayloadLayout_new ref ctx = Inr l"
  shows "layout_rep l" and "sl_reference l = ref" and "sl_repository_context l = ctx"
proof -
  obtain stored starts nxt where s: "PayloadLayout_stored_len ref = Some stored"
    and f: "foldE (layout_step (pl_chunk_size ref)) ([], \<lparr>st_plaintext = 0, st_ciphertext = 0, st_segment = 0\<rparr>) (pl_parts ref)
      = Inr (starts, nxt)" and ctx: "ctx \<noteq> []" "length ctx \<le> 4096"
    and l: "l = \<lparr>sl_reference = ref, sl_repository_context = ctx, sl_starts = starts, sl_stored_len = stored,
      sl_segment_count = st_segment nxt\<rparr>"
    using assms by (auto simp: SegmentedPayloadLayout_new_def bindE_eq_Inr split: if_splits)
  have ok: "layout_ok ref" "unat stored = layout_len ref" using s by (simp_all add: PayloadLayout_stored_len_iff)
  from layout_fold_Inr [OF layout_ok_chunk [OF ok(1)] f] show "layout_rep l"
    using ok ctx by (simp add: layout_rep_def l length_segs start_is_def)
  show "sl_reference l = ref" and "sl_repository_context l = ctx" by (simp_all add: l)
qed

lemma layout_new_total:
  assumes "layout_ok ref" and "layout_len ref < 2 ^ 64" and "ctx \<noteq> []" and "length ctx \<le> 4096"
  shows "\<exists>l. SegmentedPayloadLayout_new ref ctx = Inr l"
proof -
  have "PayloadLayout_stored_len ref = Some (of_nat (layout_len ref))"
    using assms(1,2) by (simp add: PayloadLayout_stored_len_iff unat_of_nat)
  moreover obtain starts nxt where "foldE (layout_step (pl_chunk_size ref))
      ([], \<lparr>st_plaintext = 0, st_ciphertext = 0, st_segment = 0\<rparr>) (pl_parts ref) = Inr (starts, nxt)"
    using layout_fold_total [OF layout_ok_chunk [OF assms(1)], of "pl_parts ref"] assms(2) by (auto simp: layout_len_def)
  ultimately show ?thesis using assms(3,4) by (simp add: SegmentedPayloadLayout_new_def)
qed

section \<open>Finding a segment\<close>

lemma partition_point_at:
  assumes "xs \<noteq> []" and "P (xs ! 0)"
  defines "k \<equiv> partition_point P xs - 1"
  shows "k < length xs" and "P (xs ! k)" and "Suc k < length xs \<Longrightarrow> \<not> P (xs ! Suc k)"
proof -
  let ?n = "length (takeWhile P xs)"
  have n: "0 < ?n" using assms(1,2) by (cases xs) auto
  have k: "Suc k = ?n" using n by (simp add: k_def partition_point_def)
  have le: "?n \<le> length xs" by (rule length_takeWhile_le)
  show "k < length xs" using k le by simp
  have "xs ! k = takeWhile P xs ! k" using k by (simp add: takeWhile_nth)
  moreover have "takeWhile P xs ! k \<in> set (takeWhile P xs)" using k by (intro nth_mem) simp
  ultimately show "P (xs ! k)" by (auto dest: set_takeWhileD)
  show "\<not> P (xs ! Suc k)" if "Suc k < length xs"
    using that k nth_length_takeWhile [of P xs] by simp
qed

abbreviation lsegs :: "SegmentedPayloadLayout \<Rightarrow> (PayloadPart \<times> nat) list" where
  "lsegs l \<equiv> segs (unat (sl_chunk_size l)) (sl_parts l)"

abbreviation lpos :: "SegmentedPayloadLayout \<Rightarrow> nat \<Rightarrow> nat" where
  "lpos l i \<equiv> seg_pos (unat (sl_chunk_size l)) (sl_parts l) i"

lemma sum_take_Suc: "j < length xs \<Longrightarrow> (\<Sum>x \<leftarrow> take (Suc j) xs. f x) = (\<Sum>x \<leftarrow> take j xs. f x) + (f (xs ! j) :: nat)"
  by (simp add: take_Suc_conv_app_nth)

text \<open>The part that a search over one of the prefix sums finds.\<close>

lemma part_found:
  assumes "layout_rep l" and g: "\<forall>j < length (sl_parts l). g (sl_starts l ! j) = (\<Sum>p \<leftarrow> take j (sl_parts l). f p)"
    and v: "v < (\<Sum>p \<leftarrow> sl_parts l. f p)"
  defines "k \<equiv> partition_point (\<lambda>st. g st \<le> v) (sl_starts l) - 1"
  shows "k < length (sl_parts l)" and "(\<Sum>p \<leftarrow> take k (sl_parts l). f p) \<le> v"
    and "v < (\<Sum>p \<leftarrow> take k (sl_parts l). f p) + (f (sl_parts l ! k) :: nat)"
proof -
  have len: "length (sl_starts l) = length (sl_parts l)" "sl_parts l \<noteq> []"
    using assms(1) by (auto simp: layout_rep_def starts_are_def layout_ok_def layout_bounds_ok_def)
  then have ne: "sl_starts l \<noteq> []" by auto
  have "g (sl_starts l ! 0) \<le> v" using g len by simp
  note at = partition_point_at [of "sl_starts l" "\<lambda>st. g st \<le> v", OF ne this, folded k_def]
  show k: "k < length (sl_parts l)" using at(1) len by simp
  show "(\<Sum>p \<leftarrow> take k (sl_parts l). f p) \<le> v" using at(2) g k by simp
  have "v < (\<Sum>p \<leftarrow> take (Suc k) (sl_parts l). f p)"
  proof (cases "Suc k < length (sl_parts l)")
    case True
    then show ?thesis using at(3) g True len by simp
  qed (use v in simp)
  then show "v < (\<Sum>p \<leftarrow> take k (sl_parts l). f p) + f (sl_parts l ! k)" using k by (simp only: sum_take_Suc)
qed

lemma layout_repD:
  assumes "layout_rep l"
  shows "0 < unat (sl_chunk_size l)" and "unat (sl_chunk_size l) \<le> 64 * 1024 * 1024"
    and "(\<Sum>p \<leftarrow> sl_parts l. plen p) = unat (sl_plaintext_len l)"
    and "j < length (sl_parts l) \<Longrightarrow> start_is (unat (sl_chunk_size l)) (sl_parts l) j (sl_starts l ! j)"
    and "sl_segment_count l = length (lsegs l)"
    and "unat (sl_stored_len l) = unat (sl_plaintext_len l) + 16 * length (lsegs l)"
    and "0 < unat (sl_plaintext_len l)"
proof -
  have ok: "layout_ok (sl_reference l)" using assms by (simp add: layout_rep_def)
  then show "0 < unat (sl_chunk_size l)" "unat (sl_chunk_size l) \<le> 64 * 1024 * 1024" "0 < unat (sl_plaintext_len l)"
    and sum: "(\<Sum>p \<leftarrow> sl_parts l. plen p) = unat (sl_plaintext_len l)"
    by (simp_all add: layout_ok_def layout_bounds_ok_def unat_gt_0 word_less_nat_alt not_less)
  show "j < length (sl_parts l) \<Longrightarrow> start_is (unat (sl_chunk_size l)) (sl_parts l) j (sl_starts l ! j)"
    and "sl_segment_count l = length (lsegs l)"
    using assms by (simp_all add: layout_rep_def starts_are_def)
  have "layout_len (sl_reference l) = (\<Sum>p \<leftarrow> sl_parts l. plen p) + 16 * length (lsegs l)"
    by (simp add: layout_len_def sealed_len_count sum_list_addf sum_list_const_mult length_segs)
  then show "unat (sl_stored_len l) = unat (sl_plaintext_len l) + 16 * length (lsegs l)"
    using assms sum by (simp add: layout_rep_def)
qed

lemma segment_at_byte_rep:
  assumes rep: "layout_rep l" and off: "offset < sl_plaintext_len l"
  shows "\<exists>i. segment_at_byte l offset = Inr i \<and> i < length (lsegs l) \<and> lpos l i \<le> unat offset \<and> unat offset < lpos l (Suc i)"
proof -
  define c where "c = unat (sl_chunk_size l)"
  define k where "k = partition_point (\<lambda>st. st_plaintext st \<le> offset) (sl_starts l) - 1"
  define P where "P = (\<Sum>p \<leftarrow> take k (sl_parts l). plen p)"
  define S where "S = (\<Sum>p \<leftarrow> take k (sl_parts l). seg_count c (plen p))"
  define r where "r = (unat offset - P) div c"
  note D = layout_repD [OF rep, folded c_def]
  have v: "unat offset < (\<Sum>p \<leftarrow> sl_parts l. plen p)" using off D(3) by (simp add: word_less_nat_alt)
  have g: "\<forall>j < length (sl_parts l). unat (st_plaintext (sl_starts l ! j)) = (\<Sum>p \<leftarrow> take j (sl_parts l). plen p)"
    using D(4) by (simp add: start_is_def)
  note found = part_found [OF rep, of "\<lambda>st. unat (st_plaintext st)" plen, OF g v, folded word_le_nat_alt, folded k_def, folded P_def]
  have r: "r * c \<le> unat offset - P" "unat offset - P < r * c + c"
    using D(1) div_times_less_eq_dividend [of "unat offset - P" c] dividend_less_div_times [of c "unat offset - P"]
    by (simp_all add: r_def)
  have rn: "r * c < plen (sl_parts l ! k)" using r(1) found(2,3) by linarith
  then have rc: "r < seg_count c (plen (sl_parts l ! k))" by (simp only: seg_count_less [OF D(1)])
  note at = segs_at [OF D(1) found(1), folded S_def P_def, OF rc refl]
  have "unat ((offset - st_plaintext (sl_starts l ! k)) div sl_chunk_size l) = r"
    using found(1,2) g by (simp add: unat_div unat_sub word_le_nat_alt r_def P_def c_def)
  moreover have "S + r < 2 ^ 64" using at(1) D(6) unat_less_2p [of "sl_stored_len l"] by simp
  moreover have "st_segment (sl_starts l ! k) = S"
    using D(4) [OF found(1)] by (simp add: start_is_def S_def)
  ultimately have "segment_at_byte l offset = Inr (S + r)"
    using off unfolding segment_at_byte_def Let_def k_def [symmetric] by (simp add: usize_add_def)
  moreover have "seg_pos c (sl_parts l) (S + r) \<le> unat offset" unfolding at(3) using r(1) found(2) by linarith
  moreover have "unat offset < seg_pos c (sl_parts l) (Suc (S + r))"
    unfolding seg_pos_Suc [OF at(1)] at(2) at(3) seg_len_Pair using r found(2,3) rn by linarith
  ultimately show ?thesis using at(1) unfolding c_def by blast
qed

definition facts_are :: "SegmentedPayloadLayout \<Rightarrow> nat \<Rightarrow> SegmentFacts \<Rightarrow> bool" where
  "facts_are l i f \<longleftrightarrow> (fa_part f, unat (fa_ordinal f)) = lsegs l ! i \<and>
     unat (fa_plaintext_len f) = seg_len (unat (sl_chunk_size l)) (lsegs l ! i) \<and>
     unat (fa_plaintext_offset f) = lpos l i \<and> unat (fa_ciphertext_offset f) = lpos l i + 16 * i \<and>
     (fa_is_final f \<longleftrightarrow> Suc (unat (fa_ordinal f)) = seg_count (unat (sl_chunk_size l)) (plen (fa_part f)))"

lemma sealed_prefix:
  "(\<Sum>p \<leftarrow> ps. sealed_len c (plen p)) = (\<Sum>p \<leftarrow> ps. plen p) + 16 * (\<Sum>p \<leftarrow> ps. seg_count c (plen p))"
  by (simp add: sealed_len_count sum_list_addf sum_list_const_mult)

lemma segment_facts_rep:
  assumes rep: "layout_rep l" and i: "i < length (lsegs l)"
  obtains f where "segment_facts l i = Inr f" and "facts_are l i f"
proof -
  define c where "c = unat (sl_chunk_size l)"
  define k where "k = partition_point (\<lambda>st. st_segment st \<le> i) (sl_starts l) - 1"
  define P where "P = (\<Sum>p \<leftarrow> take k (sl_parts l). plen p)"
  define S where "S = (\<Sum>p \<leftarrow> take k (sl_parts l). seg_count c (plen p))"
  define part where "part = sl_parts l ! k"
  define r where "r = i - S"
  note D = layout_repD [OF rep, folded c_def]
  have g: "\<forall>j < length (sl_parts l). st_segment (sl_starts l ! j) = (\<Sum>p \<leftarrow> take j (sl_parts l). seg_count c (plen p))"
    using D(4) by (simp add: start_is_def)
  have v: "i < (\<Sum>p \<leftarrow> sl_parts l. seg_count c (plen p))" using i by (simp add: length_segs c_def)
  note found = part_found [OF rep, of st_segment "\<lambda>p. seg_count c (plen p)", OF g v, folded k_def, folded S_def part_def]
  have r: "r < seg_count c (plen part)" "i = S + r" using found(2,3) by (simp_all add: r_def)
  note at = segs_at [OF D(1) found(1), folded part_def S_def P_def, OF r]
  have rn: "r * c < plen part" using r(1) seg_count_less [OF D(1)] by simp
  have st: "unat (st_plaintext (sl_starts l ! k)) = P" "unat (st_ciphertext (sl_starts l ! k)) = P + 16 * S"
    "st_segment (sl_starts l ! k) = S"
    using D(4) [OF found(1)] by (simp_all add: start_is_def sealed_prefix P_def S_def)
  have "P + r * c + 16 * i + 16 \<le> unat (sl_stored_len l)"
    using seg_pos_le [OF D(1), of "sl_parts l" i] at(1,3) D(3,6) by simp
  then have b64: "P + r * c + 16 * i < 2 ^ 64" using unat_less_2p [of "sl_stored_len l"] by simp
  have rel: "unat (of_nat r :: u64) = r" using b64 r(2) by (intro unat_of_nat_small) simp
  obtain lo :: u64 where lo: "unat lo = r * c" using rn word_exists [of "r * c" "pp_plaintext_len part"] by auto
  then have mul: "checked_mul (of_nat r) (sl_chunk_size l) = Some lo" by (simp add: checked_mul_iff rel c_def)
  define len where "len = min (pp_plaintext_len part - lo) (sl_chunk_size l)"
  have sub: "unat (pp_plaintext_len part - lo) = plen part - r * c" using lo rn by (simp add: unat_sub word_le_nat_alt)
  have len: "unat len = min c (plen part - r * c)" by (simp add: len_def min_def word_le_nat_alt sub c_def)
  have final: "lo + len = pp_plaintext_len part \<longleftrightarrow> Suc r = seg_count c (plen part)"
  proof -
    have "unat lo + unat len \<le> plen part" using lo len rn by simp
    then have "unat (lo + len) = unat lo + unat len"
      using unat_less_2p [of "pp_plaintext_len part"] by (simp add: unat_word_ariths)
    then have "lo + len = pp_plaintext_len part \<longleftrightarrow> r * c + min c (plen part - r * c) = plen part"
      by (simp add: word_unat_eq_iff len lo)
    also have "\<dots> \<longleftrightarrow> plen part \<le> Suc r * c" using rn by (auto simp: min_def)
    finally show ?thesis using seg_count_last [OF D(1) r(1)] by simp
  qed
  let ?f = "\<lparr>fa_part = part, fa_ordinal = of_nat r, fa_plaintext_len = len,
      fa_plaintext_offset = st_plaintext (sl_starts l ! k) + lo,
      fa_ciphertext_offset = st_ciphertext (sl_starts l ! k) + lo + of_nat r * AEAD_TAG_LEN,
      fa_is_final = (lo + len = pp_plaintext_len part)\<rparr>"
  have "segment_facts l i = Inr ?f"
    using i D(5) mul st(3) unfolding segment_facts_def Let_def k_def [symmetric] part_def [symmetric]
    by (simp add: r_def c_def len_def)
  moreover have "unat (st_plaintext (sl_starts l ! k) + lo) = lpos l i"
    using b64 at(3) st(1) lo by (simp add: unat_word_ariths c_def)
  moreover have "unat (st_ciphertext (sl_starts l ! k) + lo + of_nat r * AEAD_TAG_LEN) = lpos l i + 16 * i"
  proof -
    have "unat (of_nat r * AEAD_TAG_LEN :: u64) = 16 * r"
      using b64 r(2) rel by (simp add: unat_word_ariths PAYLOAD_AEAD_TAG_LEN_def)
    then show ?thesis using b64 at(3) st(2) lo r(2) by (simp add: unat_word_ariths c_def)
  qed
  ultimately show thesis using that at(2) rel len final by (simp add: facts_are_def c_def)
qed

section \<open>Positions in a concatenation\<close>

definition offs :: "'a list list \<Rightarrow> nat \<Rightarrow> nat" where
  "offs xs i = (\<Sum>x \<leftarrow> take i xs. length x)"

lemma concat_split: "concat xs = concat (take i xs) @ concat (drop i xs)"
  by (simp flip: concat_append)

lemma take_offs: "take (offs xs i) (concat xs) = concat (take i xs)"
  by (subst concat_split [of xs i]) (simp add: offs_def length_concat)

lemma drop_offs: "drop (offs xs i) (concat xs) = concat (drop i xs)"
  by (subst concat_split [of xs i]) (simp add: offs_def length_concat)

lemma offs_add: "i \<le> j \<Longrightarrow> offs xs j = offs xs i + offs (drop i xs) (j - i)"
  using take_add [of i "j - i" xs] by (simp add: offs_def)

lemma offs_Suc: "i < length xs \<Longrightarrow> offs xs (Suc i) = offs xs i + length (xs ! i)"
  by (simp add: offs_def take_Suc_conv_app_nth)

lemma offs_mono: "i \<le> j \<Longrightarrow> offs xs i \<le> offs xs j"
  using sum_take_le [of length i "take j xs"] by (simp add: offs_def min_absorb1)

lemma offs_length: "offs xs (length xs) = length (concat xs)"
  by (simp add: offs_def length_concat)

lemma offs_le: "offs xs i \<le> length (concat xs)"
  using sum_take_le [of length i xs] by (simp add: offs_def length_concat)

lemma concat_at: "i < length xs \<Longrightarrow> take (length (xs ! i)) (drop (offs xs i) (concat xs)) = xs ! i"
  by (simp add: drop_offs Cons_nth_drop_Suc [symmetric])

text \<open>The bytes of some consecutive elements.\<close>

lemma concat_span:
  "i \<le> j \<Longrightarrow> take (offs xs j - offs xs i) (drop (offs xs i) (concat xs)) = concat (take (j - i) (drop i xs))"
  by (simp add: drop_offs take_offs offs_add [of i j])

lemma offs_span: "k \<le> n \<Longrightarrow> offs (take n (drop i xs)) k = offs xs (i + k) - offs xs i"
  using offs_add [of i "i + k" xs] by (simp add: offs_def min_absorb1)

section \<open>The stored payload\<close>

text \<open>The sealer whose part has its place in a layout, and the body that the parts give.\<close>

definition sealer_of :: "SegmentedPayloadLayout \<Rightarrow> PayloadPart \<Rightarrow> SegmentedPayloadSealer" where
  "sealer_of l p = \<lparr>se_chunk_size = sl_chunk_size l, se_key_id = pl_key_id (sl_reference l),
     se_repository_context = sl_repository_context l, se_carrier_id = pl_carrier_id (sl_reference l),
     se_attempt_id = pp_attempt_id p, se_part_number = pp_part_number p\<rparr>"

fun seal_parts ::
  "crypto_lib \<Rightarrow> KeyRing \<Rightarrow> BackendObjectId \<Rightarrow> SegmentedPayloadLayout \<Rightarrow> PayloadPart list \<Rightarrow> bytes list \<Rightarrow>
    RepositoryError + bytes" where
  "seal_parts lib keys oid l (p # ps) (pt # pts) =
     bindE (seal_chunks lib keys oid (sealer_of l p) (unat (sl_chunk_size l)) (seg_count (unat (sl_chunk_size l)) (plen p)) pt) (\<lambda>b.
     bindE (seal_parts lib keys oid l ps pts) (\<lambda>rest. Inr (b @ rest)))"
| "seal_parts lib keys oid l _ _ = Inr []"

lemma length_chunks [simp]: "length (chunks c xs) = seg_count c (length xs)"
  by (simp add: chunks_def seg_count_def)

lemma chunks_nth: "r < seg_count c (length xs) \<Longrightarrow> chunks c xs ! r = take c (drop (r * c) xs)"
  by (simp add: chunks_def seg_count_def)

lemma concat_chunks: "0 < c \<Longrightarrow> concat (chunks c xs) = xs"
proof -
  assume c: "0 < c"
  have "concat (map (\<lambda>i. take c (drop (i * c) xs)) [0..<k]) = take (k * c) xs" for k
    by (induction k) (simp_all add: take_add [symmetric] add.commute [of c])
  moreover have "length xs \<le> seg_count c (length xs) * c" using seg_count_less [OF c, of "seg_count c (length xs)" "length xs"] by simp
  ultimately show ?thesis by (simp add: chunks_def seg_count_def)
qed

lemma fold_append_collect:
  "foldE (\<lambda>b x. bindE (g x) (\<lambda>s. Inr (b @ s))) acc xs = Inr b \<longleftrightarrow> (\<exists>ys. collectE g xs = Inr ys \<and> b = acc @ concat ys)"
proof (induction xs arbitrary: acc)
  case (Cons x xs)
  show ?case by (cases "g x") (auto simp: Cons.IH bindE_eq_Inr)
qed auto

text \<open>A piece of plaintext and the ciphertext that its segment has in the body.\<close>

definition seg_sealed ::
  "crypto_lib \<Rightarrow> KeyRing \<Rightarrow> BackendObjectId \<Rightarrow> SegmentedPayloadLayout \<Rightarrow> PayloadPart \<times> nat \<Rightarrow> bytes \<times> bytes \<Rightarrow> bool" where
  "seg_sealed lib keys oid l s pc \<longleftrightarrow>
     seal_segment lib keys oid (sealer_of l (fst s)) (snd s) (fst pc) (Suc (snd s) = seg_count (unat (sl_chunk_size l)) (plen (fst s)))
       = Inr (snd pc) \<and>
     length (fst pc) = seg_len (unat (sl_chunk_size l)) s"

text \<open>What a read of a byte range of a plaintext has to return.\<close>

fun range_of :: "bytes \<Rightarrow> ByteRange \<Rightarrow> RepositoryError + bytes" where
  "range_of pt Full = Inr pt"
| "range_of pt (Slice offset len) =
     (if len \<noteq> 0 \<and> unat offset + unat len \<le> length pt then Inr (take (unat len) (drop (unat offset) pt))
      else Inl invalid_range)"

text \<open>The plaintext segments of an object, in order: every part is cut on its own.\<close>

definition plain_segments :: "nat \<Rightarrow> bytes list \<Rightarrow> bytes list" where
  "plain_segments c pts = concat (map (chunks c) pts)"

lemma concat_plain_segments: "0 < c \<Longrightarrow> concat (plain_segments c pts) = concat pts"
  by (induction pts) (simp_all add: plain_segments_def concat_chunks)

lemma part_pieces:
  assumes c: "0 < unat (sl_chunk_size l)" and len: "length pt = plen p"
    and seal: "seal_chunks lib keys oid (sealer_of l p) (unat (sl_chunk_size l)) (seg_count (unat (sl_chunk_size l)) (plen p)) pt = Inr b"
  shows "\<exists>pcs. list_all2 (seg_sealed lib keys oid l) (segs (unat (sl_chunk_size l)) [p]) pcs \<and>
    map fst pcs = chunks (unat (sl_chunk_size l)) pt \<and> concat (map snd pcs) = b"
proof -
  let ?c = "unat (sl_chunk_size l)" let ?n = "seg_count ?c (plen p)"
  let ?g = "\<lambda>(ordinal, part). seal_segment lib keys oid (sealer_of l p) ordinal part (ordinal + 1 = ?n)"
  from seal obtain cts where cts: "collectE ?g (enumerate 0 (chunks ?c pt)) = Inr cts" "b = concat cts"
    using fold_append_collect [of ?g "[]"] by (auto simp: seal_chunks_def case_prod_beta')
  then have l: "list_all2 (\<lambda>x y. ?g x = Inr y) (enumerate 0 (chunks ?c pt)) cts" by (simp add: collectE_iff)
  have n: "length cts = ?n" "length (chunks ?c pt) = ?n" using list_all2_lengthD [OF l] len by simp_all
  let ?pcs = "zip (chunks ?c pt) cts"
  have "seg_sealed lib keys oid l (p, r) (?pcs ! r)" if "r < ?n" for r
  proof -
    have "?g (enumerate 0 (chunks ?c pt) ! r) = Inr (cts ! r)" using list_all2_nthD [OF l] that n by simp
    moreover have "length (chunks ?c pt ! r) = min ?c (plen p - r * ?c)" using chunks_nth [of r ?c pt] that len by simp
    ultimately show ?thesis using that n by (simp add: seg_sealed_def nth_enumerate_eq)
  qed
  then have "list_all2 (seg_sealed lib keys oid l) (segs ?c [p]) ?pcs"
    using n by (simp add: segs_def list_all2_conv_all_nth)
  moreover have "map fst ?pcs = chunks ?c pt" "map snd ?pcs = cts" using n by simp_all
  ultimately show ?thesis using cts(2) by metis
qed

lemma parts_pieces:
  assumes c: "0 < unat (sl_chunk_size l)" and "map length pts = map plen ps" and "seal_parts lib keys oid l ps pts = Inr b"
  shows "\<exists>pcs. list_all2 (seg_sealed lib keys oid l) (segs (unat (sl_chunk_size l)) ps) pcs \<and>
    map fst pcs = plain_segments (unat (sl_chunk_size l)) pts \<and> concat (map snd pcs) = b"
  using assms(2,3)
proof (induction ps arbitrary: pts b)
  case (Cons p ps)
  then obtain pt pts' where pts: "pts = pt # pts'" by (cases pts) auto
  with Cons.prems obtain b0 rest where s: "seal_chunks lib keys oid (sealer_of l p) (unat (sl_chunk_size l))
        (seg_count (unat (sl_chunk_size l)) (plen p)) pt = Inr b0"
      "seal_parts lib keys oid l ps pts' = Inr rest" "b = b0 @ rest"
    by (auto simp: bindE_eq_Inr)
  from part_pieces [OF c _ s(1)] Cons.prems(1) pts obtain pcs where
    "list_all2 (seg_sealed lib keys oid l) (segs (unat (sl_chunk_size l)) [p]) pcs"
    "map fst pcs = chunks (unat (sl_chunk_size l)) pt" "concat (map snd pcs) = b0"
    by auto
  moreover from Cons.IH [OF _ s(2)] Cons.prems(1) pts obtain pcs' where
    "list_all2 (seg_sealed lib keys oid l) (segs (unat (sl_chunk_size l)) ps) pcs'"
    "map fst pcs' = plain_segments (unat (sl_chunk_size l)) pts'" "concat (map snd pcs') = rest"
    by auto
  ultimately show ?case using s(3) pts segs_append [of "unat (sl_chunk_size l)" "[p]" ps]
    by (intro exI [of _ "pcs @ pcs'"]) (simp add: list_all2_appendI plain_segments_def)
qed (simp add: segs_def plain_segments_def)

section \<open>Opening what was sealed\<close>

lemma open_after_seal:
  assumes laws: "hmac_law lib" "xchacha_law lib" and ok: "keyring_ok lib keys'"
    and seal: "seal_payload_segment lib keys c plaintext = Inr sg" and t: "context_typed c" and len: "length plaintext < 2 ^ 64"
    and key: "primary_key keys Content = Inr k" and keep: "keeps_key keys' k"
  shows "sg_key_id sg = km_id k" and "length (sg_ciphertext sg) = length plaintext + 16"
    and "open_payload_segment lib keys' (km_id k) c (sg_ciphertext sg) = Inr plaintext"
proof -
  from seal key obtain aad where eq: "sc_plaintext_len c = of_nat (length plaintext)" and aad: "associated_data c (km_id k) = Inr aad"
    by (auto simp: seal_payload_segment_def bindE_eq_Inr split: if_splits)
  have u: "unat (sc_plaintext_len c) = length plaintext" using eq len by (simp add: unat_of_nat)
  have "segment_fits c (km_id k) plaintext"
    using aad t eq u by (auto simp: associated_data_def segment_fits_def word_less_nat_alt not_less split: if_splits)
  from seal_open_segment [OF laws ok this key keep] obtain ct where
    "seal_payload_segment lib keys c plaintext = Inr \<lparr>sg_key_id = km_id k, sg_ciphertext = ct\<rparr>"
    "length ct = length plaintext + 16" "open_payload_segment lib keys' (km_id k) c ct = Inr plaintext" .
  with seal show "sg_key_id sg = km_id k" and "length (sg_ciphertext sg) = length plaintext + 16"
    and "open_payload_segment lib keys' (km_id k) c (sg_ciphertext sg) = Inr plaintext" by auto
qed

text \<open>The context a read builds from the facts of a segment.\<close>

definition read_context :: "SegmentedPayloadLayout \<Rightarrow> BackendObjectId \<Rightarrow> SegmentFacts \<Rightarrow> PayloadSegmentContext" where
  "read_context l oid f =
     \<lparr>sc_repository_context = sl_repository_context l, sc_containing_object = oid, sc_section_ordinal = None,
       sc_carrier_id = pl_carrier_id (sl_reference l), sc_attempt_id = pp_attempt_id (fa_part f),
       sc_part_ordinal = pp_part_number (fa_part f), sc_segment_ordinal = fa_ordinal f,
       sc_plaintext_len = fa_plaintext_len f, sc_is_final = fa_is_final f,
       sc_layout_context = u64_to_be_bytes (sl_chunk_size l)\<rparr>"

text \<open>The identities of a layout have their fixed sizes.\<close>

definition payload_typed :: "SegmentedPayloadLayout \<Rightarrow> bool" where
  "payload_typed l \<longleftrightarrow> length (pl_carrier_id (sl_reference l)) = 32 \<and> list_all (\<lambda>p. length (pp_attempt_id p) = 32) (sl_parts l)"

lemma segs_part: "s \<in> set (segs c parts) \<Longrightarrow> fst s \<in> set parts"
  by (auto simp: segs_def)

lemma seg_opens:
  assumes laws: "hmac_law lib" "xchacha_law lib" and ok: "keyring_ok lib keys'"
    and key: "primary_key keys Content = Inr k" and keep: "keeps_key keys' k" and kid: "pl_key_id (sl_reference l) = km_id k"
    and typed: "payload_typed l" and i: "i < length (lsegs l)" and f: "facts_are l i f"
    and s: "seg_sealed lib keys oid l (lsegs l ! i) (piece, ct)"
  shows "length ct = length piece + 16" and "open_payload_segment lib keys' (pl_key_id (sl_reference l)) (read_context l oid f) ct = Inr piece"
proof -
  have part: "lsegs l ! i = (fa_part f, unat (fa_ordinal f))" using f unfolding facts_are_def by metis
  have lf: "unat (fa_plaintext_len f) = length piece" using f s by (simp add: facts_are_def seg_sealed_def)
  then have len: "of_nat (length piece) = fa_plaintext_len f" by (metis of_nat_unat ucast_id)
  have ord: "of_nat (unat (fa_ordinal f)) = fa_ordinal f" by simp
  have "fa_part f \<in> set (sl_parts l)" using segs_part [OF nth_mem [OF i]] part by simp
  then have t: "context_typed (read_context l oid f)"
    using typed by (simp add: context_typed_def read_context_def payload_typed_def list_all_iff)
  obtain sg where sg: "seal_payload_segment lib keys (read_context l oid f) piece = Inr sg" "ct = sg_ciphertext sg"
    using s f part len ord
    by (auto simp: seg_sealed_def seal_segment_def sealer_of_def read_context_def facts_are_def Let_def bindE_eq_Inr split: if_splits)
  have "length piece < 2 ^ 64" using lf unat_less_2p [of "fa_plaintext_len f"] by simp
  from open_after_seal [OF laws ok sg(1) t this key keep] show "length ct = length piece + 16"
    and "open_payload_segment lib keys' (pl_key_id (sl_reference l)) (read_context l oid f) ct = Inr piece"
    using sg(2) kid by simp_all
qed

section \<open>Selections and spans\<close>

lemma range_bounds_rep:
  assumes "layout_rep l" and "range_bounds l rg = Inr (s, e)"
  shows "s < e" and "e \<le> sl_plaintext_len l"
proof -
  have "s < e \<and> e \<le> sl_plaintext_len l"
  proof (cases rg)
    case Full
    then show ?thesis using assms layout_repD(7) [OF assms(1)] by (auto simp: range_bounds_def word_less_nat_alt)
  next
    case (Slice offset len)
    with assms(2) have "unat e = unat offset + unat len" "len \<noteq> 0" "s = offset" "e \<le> sl_plaintext_len l"
      by (auto simp: range_bounds_def bindE_eq_Inr checked_add_Some split: if_splits)
    then show ?thesis by (simp add: word_less_nat_alt unat_gt_0)
  qed
  then show "s < e" and "e \<le> sl_plaintext_len l" by simp_all
qed

lemma selection_rep:
  assumes rep: "layout_rep l" and b: "range_bounds l rg = Inr (s, e)"
  obtains i j where "SegmentSelection_new l rg = Inr \<lparr>sx_start = s, sx_end = e, sx_start_segment = i, sx_end_segment = Suc j\<rparr>"
    and "i \<le> j" and "j < length (lsegs l)" and "lpos l i \<le> unat s" and "unat s < lpos l (Suc i)"
    and "lpos l j < unat e" and "unat e \<le> lpos l (Suc j)"
proof -
  note se = range_bounds_rep [OF rep b]
  have "0 < unat e" using se(1) by (simp add: word_less_nat_alt)
  then have e1: "unat (e - 1) = unat e - 1" "0 < unat e" by (simp_all add: unat_sub word_le_nat_alt Suc_le_eq)
  have "s < sl_plaintext_len l" using se by simp
  from segment_at_byte_rep [OF rep this] obtain i where
    i: "segment_at_byte l s = Inr i" "lpos l i \<le> unat s" "unat s < lpos l (Suc i)" by blast
  have "e - 1 < sl_plaintext_len l" using se(2) e1 by (simp add: word_less_nat_alt word_le_nat_alt)
  from segment_at_byte_rep [OF rep this] obtain j where
    j: "segment_at_byte l (e - 1) = Inr j" "j < length (lsegs l)" "lpos l j \<le> unat (e - 1)" "unat (e - 1) < lpos l (Suc j)" by blast
  have "\<not> j < i"
  proof
    assume "j < i"
    then have "lpos l (Suc j) \<le> lpos l i" by (intro seg_pos_mono) simp
    then show False using i(2) j(4) e1 se(1) by (simp add: word_less_nat_alt)
  qed
  then show thesis using that [of i j] i j e1 b by (simp add: SegmentSelection_new_def)
qed

lemma lpos_le: "layout_rep l \<Longrightarrow> lpos l i \<le> unat (sl_plaintext_len l)"
  using seg_pos_le [OF layout_repD(1)] layout_repD(3) by metis

lemma lpos_length: "layout_rep l \<Longrightarrow> lpos l (length (lsegs l)) = unat (sl_plaintext_len l)"
  using segs_total [OF layout_repD(1), of l "sl_parts l"] layout_repD(3) [of l] by (simp add: seg_pos_def)

lemma span_rep:
  assumes rep: "layout_rep l"
    and sel: "SegmentSelection_new l rg = Inr \<lparr>sx_start = s, sx_end = e, sx_start_segment = i, sx_end_segment = Suc j\<rparr>"
    and ij: "i \<le> j" "j < length (lsegs l)"
  obtains sp where "segmented_ciphertext_span l rg = Inr sp" and "unat (sp_offset sp) = lpos l i + 16 * i"
    and "unat (sp_offset sp) + unat (sp_len sp) = lpos l (Suc j) + 16 * Suc j"
    and "unat (sp_offset sp + sp_len sp) = lpos l (Suc j) + 16 * Suc j"
    and "sp_start_segment sp = i" and "sp_segment_count sp = Suc j - i"
proof -
  obtain f where f: "segment_facts l i = Inr f" "facts_are l i f" using segment_facts_rep [OF rep, of i] ij by (metis le_less_trans)
  obtain g where g: "segment_facts l j = Inr g" "facts_are l j g" using segment_facts_rep [OF rep ij(2)] by metis
  let ?sp = "\<lparr>sp_offset = fa_ciphertext_offset f,
      sp_len = fa_ciphertext_offset g + fa_plaintext_len g + AEAD_TAG_LEN - fa_ciphertext_offset f,
      sp_start_segment = i, sp_segment_count = Suc j - i\<rparr>"
  have b: "lpos l (Suc j) + 16 * Suc j \<le> unat (sl_stored_len l)"
    using lpos_le [OF rep, of "Suc j"] layout_repD(6) [OF rep] ij by simp
  have stop: "unat (fa_ciphertext_offset g + fa_plaintext_len g + AEAD_TAG_LEN) = lpos l (Suc j) + 16 * Suc j"
    using g(2) b unat_less_2p [of "sl_stored_len l"] seg_pos_Suc [OF ij(2)]
    by (simp add: facts_are_def unat_word_ariths PAYLOAD_AEAD_TAG_LEN_def)
  have "lpos l i + 16 * i \<le> lpos l (Suc j) + 16 * Suc j"
    using seg_pos_mono [of i "Suc j"] ij(1) by (intro add_mono) simp_all
  with stop have len: "unat (sp_offset ?sp) + unat (sp_len ?sp) = lpos l (Suc j) + 16 * Suc j" "unat (sp_offset ?sp) = lpos l i + 16 * i"
    using f(2) by (simp_all add: facts_are_def unat_sub word_le_nat_alt)
  moreover have "unat (sp_offset ?sp + sp_len ?sp) = lpos l (Suc j) + 16 * Suc j"
    using stop by (simp add: add.assoc)
  moreover have "segmented_ciphertext_span l rg = Inr ?sp" using sel f(1) g(1) by (simp add: segmented_ciphertext_span_def)
  ultimately show thesis using that [of ?sp] by simp
qed

lemma append_overlap_rep:
  assumes f: "facts_are l i f" and i: "i < length (lsegs l)" and rep: "layout_rep l"
    and len: "length piece = seg_len (unat (sl_chunk_size l)) (lsegs l ! i)"
    and s: "unat (sx_start sel) \<le> lpos l (Suc i)" and e: "lpos l i \<le> unat (sx_end sel)"
    and se: "unat (sx_start sel) \<le> unat (sx_end sel)"
  shows "append_segment_overlap out sel f piece =
    Inr (out @ take (min (unat (sx_end sel)) (lpos l (Suc i)) - max (unat (sx_start sel)) (lpos l i))
      (drop (unat (sx_start sel) - lpos l i) piece))"
proof -
  have off: "unat (fa_plaintext_offset f) = lpos l i" and pl: "unat (fa_plaintext_len f) = length piece"
    using f len by (simp_all add: facts_are_def)
  have next_pos: "lpos l (Suc i) = lpos l i + length piece" using seg_pos_Suc [OF i] len by simp
  then have "unat (fa_plaintext_offset f) + unat (fa_plaintext_len f) < 2 ^ 64"
    using off pl lpos_le [OF rep, of "Suc i"] unat_less_2p [of "sl_plaintext_len l"] by simp
  then have sum: "unat (fa_plaintext_offset f + fa_plaintext_len f) = lpos l (Suc i)"
    using off pl next_pos by (simp add: unat_word_ariths)
  have start: "unat (max (sx_start sel) (fa_plaintext_offset f) - fa_plaintext_offset f) = unat (sx_start sel) - lpos l i"
    by (simp add: max_def unat_sub word_le_nat_alt off)
  have stop: "unat (min (sx_end sel) (fa_plaintext_offset f + fa_plaintext_len f) - fa_plaintext_offset f)
      = min (unat (sx_end sel)) (lpos l (Suc i)) - lpos l i"
    using e next_pos by (simp add: min_def unat_sub word_le_nat_alt off sum)
  have "unat (sx_start sel) - lpos l i \<le> min (unat (sx_end sel)) (lpos l (Suc i)) - lpos l i"
    "min (unat (sx_end sel)) (lpos l (Suc i)) - lpos l i \<le> length piece"
    "min (unat (sx_end sel)) (lpos l (Suc i)) - lpos l i - (unat (sx_start sel) - lpos l i)
      = min (unat (sx_end sel)) (lpos l (Suc i)) - max (unat (sx_start sel)) (lpos l i)"
    using s se next_pos by linarith+
  then show ?thesis by (simp add: append_segment_overlap_def Let_def start stop get_range_def)
qed

text \<open>One more segment extends the bytes read so far.\<close>

lemma overlap_extends:
  assumes i: "i < length xs" and e: "offs xs i \<le> e" and s: "s \<le> offs xs (Suc i)" and se: "s \<le> e"
  shows "take (offs xs i - s) (drop s (concat xs)) @
      take (min e (offs xs (Suc i)) - max s (offs xs i)) (drop (s - offs xs i) (xs ! i))
    = take (min e (offs xs (Suc i)) - s) (drop s (concat xs))"
proof -
  have piece: "take (length (xs ! i)) (drop (offs xs i) (concat xs)) = xs ! i" by (rule concat_at [OF i])
  have "take (min e (offs xs (Suc i)) - max s (offs xs i)) (drop (s - offs xs i) (xs ! i))
      = take (min e (offs xs (Suc i)) - max s (offs xs i)) (drop (max s (offs xs i)) (concat xs))"
  proof -
    have "drop (s - offs xs i) (xs ! i) = take (length (xs ! i) - (s - offs xs i)) (drop (s - offs xs i) (drop (offs xs i) (concat xs)))"
      by (subst piece [symmetric]) (simp only: drop_take)
    moreover have "s - offs xs i + offs xs i = max s (offs xs i)" by simp
    moreover have "min (min e (offs xs (Suc i)) - max s (offs xs i)) (length (xs ! i) - (s - offs xs i))
        = min e (offs xs (Suc i)) - max s (offs xs i)"
      using offs_Suc [OF i] by linarith
    ultimately show ?thesis by (simp only: drop_drop take_take)
  qed
  moreover have m: "max s (offs xs i) = s + (offs xs i - s)" by simp
  ultimately have r: "take (min e (offs xs (Suc i)) - (s + (offs xs i - s))) (drop (s - offs xs i) (xs ! i))
      = take (min e (offs xs (Suc i)) - (s + (offs xs i - s))) (drop (offs xs i - s) (drop s (concat xs)))"
    by (simp only: drop_drop add.commute)
  have "offs xs i - s + (min e (offs xs (Suc i)) - (s + (offs xs i - s))) = min e (offs xs (Suc i)) - s"
    using e s offs_Suc [OF i] se by linarith
  then show ?thesis unfolding m r by (simp only: take_add [symmetric])
qed

section \<open>Reads return the plaintext of their range\<close>

text \<open>Pieces that a keyring can open again, one for each segment of the layout.\<close>

definition readable ::
  "crypto_lib \<Rightarrow> KeyRing \<Rightarrow> BackendObjectId \<Rightarrow> SegmentedPayloadLayout \<Rightarrow> (bytes \<times> bytes) list \<Rightarrow> bool" where
  "readable lib keys oid l pcs \<longleftrightarrow> length pcs = length (lsegs l) \<and>
     (\<forall>i < length (lsegs l). length (fst (pcs ! i)) = seg_len (unat (sl_chunk_size l)) (lsegs l ! i) \<and>
        length (snd (pcs ! i)) = length (fst (pcs ! i)) + 16 \<and>
        (\<forall>f. facts_are l i f \<longrightarrow>
          open_payload_segment lib keys (pl_key_id (sl_reference l)) (read_context l oid f) (snd (pcs ! i)) = Inr (fst (pcs ! i))))"

lemma readableD:
  assumes "readable lib keys oid l pcs"
  shows "length pcs = length (lsegs l)"
    and "i < length (lsegs l) \<Longrightarrow> length (fst (pcs ! i)) = seg_len (unat (sl_chunk_size l)) (lsegs l ! i)"
    and "i < length (lsegs l) \<Longrightarrow> length (snd (pcs ! i)) = length (fst (pcs ! i)) + 16"
    and "i < length (lsegs l) \<Longrightarrow> facts_are l i f \<Longrightarrow>
      open_payload_segment lib keys (pl_key_id (sl_reference l)) (read_context l oid f) (snd (pcs ! i)) = Inr (fst (pcs ! i))"
  using assms unfolding readable_def by simp_all

lemma sealed_readable:
  assumes laws: "hmac_law lib" "xchacha_law lib" and ok: "keyring_ok lib keys'"
    and key: "primary_key keys Content = Inr k" and keep: "keeps_key keys' k" and kid: "pl_key_id (sl_reference l) = km_id k"
    and rep: "layout_rep l" and typed: "payload_typed l" and pcs: "list_all2 (seg_sealed lib keys oid l) (lsegs l) pcs"
  shows "readable lib keys' oid l pcs"
proof -
  have len: "length pcs = length (lsegs l)" using list_all2_lengthD [OF pcs] by simp
  have s: "seg_sealed lib keys oid l (lsegs l ! i) (fst (pcs ! i), snd (pcs ! i))" if "i < length (lsegs l)" for i
    using list_all2_nthD [OF pcs that] by simp
  have o: "length (snd (pcs ! i)) = length (fst (pcs ! i)) + 16"
    "facts_are l i f \<Longrightarrow> open_payload_segment lib keys' (pl_key_id (sl_reference l)) (read_context l oid f) (snd (pcs ! i)) = Inr (fst (pcs ! i))"
    if i: "i < length (lsegs l)" for i f
  proof -
    obtain g where g: "facts_are l i g" using segment_facts_rep [OF rep i] by metis
    show "length (snd (pcs ! i)) = length (fst (pcs ! i)) + 16"
      by (rule seg_opens(1) [OF laws ok key keep kid typed i g s [OF i]])
    show "open_payload_segment lib keys' (pl_key_id (sl_reference l)) (read_context l oid f) (snd (pcs ! i)) = Inr (fst (pcs ! i))"
      if f: "facts_are l i f"
      by (rule seg_opens(2) [OF laws ok key keep kid typed i f s [OF i]])
  qed
  have "length (fst (pcs ! i)) = seg_len (unat (sl_chunk_size l)) (lsegs l ! i)" if "i < length (lsegs l)" for i
    using s [OF that] by (simp add: seg_sealed_def)
  with len o show ?thesis unfolding readable_def by blast
qed

lemma piece_offs:
  assumes r: "readable lib keys oid l pcs" and "i \<le> length (lsegs l)"
  shows "offs (map fst pcs) i = lpos l i" and "offs (map snd pcs) i = lpos l i + 16 * i"
proof -
  note D = readableD [OF r]
  have "offs (map fst pcs) i = lpos l i \<and> offs (map snd pcs) i = lpos l i + 16 * i"
    using assms(2)
  proof (induction i)
    case 0
    then show ?case by (simp add: offs_def seg_pos_def)
  next
    case (Suc i)
    then have i: "i < length (lsegs l)" "i < length (map fst pcs)" "i < length (map snd pcs)" using D(1) by simp_all
    show ?case using Suc i D(2,3) [OF i(1)] by (simp add: offs_Suc seg_pos_Suc)
  qed
  then show "offs (map fst pcs) i = lpos l i" and "offs (map snd pcs) i = lpos l i + 16 * i" by simp_all
qed

text \<open>The sealed segment that the loop cuts out of a span.\<close>

lemma span_segment:
  assumes "i \<le> m" and "m < j" and "j \<le> length xs"
  shows "get_range (offs xs m - offs xs i) (offs xs m - offs xs i + length (xs ! m)) (concat (take (j - i) (drop i xs))) = Some (xs ! m)"
proof -
  let ?ys = "take (j - i) (drop i xs)" let ?k = "m - i"
  have k: "?k < length ?ys" "?ys ! ?k = xs ! m" using assms by simp_all
  have o: "offs ?ys ?k = offs xs m - offs xs i" using offs_span [of ?k "j - i" i xs] assms by simp
  have "offs ?ys ?k + length (xs ! m) \<le> length (concat ?ys)"
    using offs_Suc [OF k(1)] k(2) offs_le [of ?ys "Suc ?k"] by simp
  with concat_at [OF k(1)] show ?thesis unfolding o [symmetric] k(2) by (simp add: get_range_def)
qed

lemma open_span_step_rep:
  assumes rep: "layout_rep l" and r: "readable lib keys oid l pcs"
    and m: "i \<le> m" "m \<le> j" "j < length (lsegs l)"
    and sp: "unat (sp_offset sp) = lpos l i + 16 * i"
    and s: "lpos l i \<le> unat (sx_start sel)" "unat (sx_start sel) < lpos l (Suc i)"
    and e: "lpos l j < unat (sx_end sel)" and se: "unat (sx_start sel) \<le> unat (sx_end sel)"
  shows "open_span_step lib keys oid l sel sp (concat (take (Suc j - i) (drop i (map snd pcs)))) retain
      (take (lpos l m - unat (sx_start sel)) (drop (unat (sx_start sel)) (concat (map fst pcs))), kept) m =
    Inr (take (min (unat (sx_end sel)) (lpos l (Suc m)) - unat (sx_start sel)) (drop (unat (sx_start sel)) (concat (map fst pcs))),
      if retain then kept @ [(m, fst (pcs ! m))] else kept)"
proof -
  note D = readableD [OF r]
  have mn: "m < length (lsegs l)" using m by simp
  obtain f where f: "segment_facts l m = Inr f" "facts_are l m f" using segment_facts_rep [OF rep mn] by metis
  have mono: "lpos l i + 16 * i \<le> lpos l m + 16 * m" using seg_pos_mono [OF m(1)] m(1) by (intro add_mono) simp_all
  have start: "unat (fa_ciphertext_offset f - sp_offset sp) = offs (map snd pcs) m - offs (map snd pcs) i"
    using f(2) sp mono m piece_offs(2) [OF r] by (simp add: facts_are_def unat_sub word_le_nat_alt)
  have b: "lpos l (Suc m) + 16 * Suc m \<le> unat (sl_stored_len l)"
    using lpos_le [OF rep, of "Suc m"] layout_repD(6) [OF rep] mn by simp
  have lenf: "unat (fa_plaintext_len f) = length (fst (pcs ! m))" using f(2) D(2) [OF mn] by (simp add: facts_are_def)
  have len: "unat (fa_plaintext_len f + AEAD_TAG_LEN) = length (map snd pcs ! m)"
    using lenf b seg_pos_Suc [OF mn] D(1,2,3) mn unat_less_2p [of "sl_stored_len l"]
    by (simp add: unat_word_ariths PAYLOAD_AEAD_TAG_LEN_def)
  have next_offs: "offs (map snd pcs) (Suc m) = offs (map snd pcs) m + length (map snd pcs ! m)"
    using offs_Suc [of m "map snd pcs"] mn D(1) by simp
  have "offs (map snd pcs) (Suc m) = lpos l (Suc m) + 16 * Suc m" using piece_offs(2) [OF r] mn by (simp add: Suc_le_eq)
  then have small: "offs (map snd pcs) m - offs (map snd pcs) i + length (map snd pcs ! m) < 2 ^ 64"
    using b next_offs unat_less_2p [of "sl_stored_len l"] by simp
  have sealed: "get_range (offs (map snd pcs) m - offs (map snd pcs) i)
      (offs (map snd pcs) m - offs (map snd pcs) i + length (map snd pcs ! m))
      (concat (take (Suc j - i) (drop i (map snd pcs)))) = Some (map snd pcs ! m)"
    using span_segment [of i m "Suc j" "map snd pcs"] m D(1) by simp
  have opened: "open_payload_segment lib keys (pl_key_id (sl_reference l)) (read_context l oid f) (map snd pcs ! m) = Inr (fst (pcs ! m))"
    using D(4) [OF mn f(2)] mn D(1) by simp
  have sm: "unat (sx_start sel) \<le> lpos l (Suc m)" using s(2) seg_pos_mono [of "Suc i" "Suc m"] m(1) by (meson Suc_le_mono le_trans less_imp_le)
  have em: "lpos l m \<le> unat (sx_end sel)" using e seg_pos_mono [OF m(2)] by (meson le_less_trans less_imp_le)
  have piece: "map fst pcs ! m = fst (pcs ! m)" "m < length (map fst pcs)" using mn D(1) by simp_all
  have o: "offs (map fst pcs) m = lpos l m" "offs (map fst pcs) (Suc m) = lpos l (Suc m)"
    using piece_offs(1) [OF r] mn by (simp_all add: Suc_le_eq)
  note ext = overlap_extends [OF piece(2), unfolded o piece(1), OF em sm se]
  show ?thesis
    unfolding open_span_step_def case_prod_conv f(1) bindE_Inr Let_def start len
    using small sealed opened append_overlap_rep [OF f(2) mn rep D(2) [OF mn] sm em se] ext
    by (simp add: usize_add_def read_context_def)
qed

lemma open_loop:
  assumes rep: "layout_rep l" and r: "readable lib keys oid l pcs"
    and ij: "j < length (lsegs l)" and sp: "unat (sp_offset sp) = lpos l i + 16 * i"
    and s: "lpos l i \<le> unat (sx_start sel)" "unat (sx_start sel) < lpos l (Suc i)"
    and e: "lpos l j < unat (sx_end sel)" and se: "unat (sx_start sel) \<le> unat (sx_end sel)"
    and m: "i \<le> m" "m \<le> Suc j"
  shows "foldE (open_span_step lib keys oid l sel sp (concat (take (Suc j - i) (drop i (map snd pcs)))) retain) ([], []) [i..<m] =
    Inr (take (min (unat (sx_end sel)) (lpos l m) - unat (sx_start sel)) (drop (unat (sx_start sel)) (concat (map fst pcs))),
      if retain then map (\<lambda>q. (q, fst (pcs ! q))) [i..<m] else [])"
  using m
proof (induction m rule: dec_induct)
  case base
  then show ?case using s(1) by simp
next
  case (step m)
  have "lpos l m \<le> unat (sx_end sel)" using e seg_pos_mono [of m j] step by (meson le_less_trans less_imp_le Suc_le_mono)
  then have "min (unat (sx_end sel)) (lpos l m) = lpos l m" by simp
  with step open_span_step_rep [OF rep r step(1) _ ij sp s e se] show ?case
    by (simp add: foldE_append)
qed

text \<open>The plaintext that a byte range names.\<close>

definition cut_range :: "u64 \<times> u64 \<Rightarrow> bytes \<Rightarrow> bytes" where
  "cut_range se w = take (unat (snd se) - unat (fst se)) (drop (unat (fst se)) w)"

lemma open_span_inner_rep:
  assumes rep: "layout_rep l" and r: "readable lib keys oid l pcs" and b: "range_bounds l rg = Inr se"
  obtains sp i n where "segmented_ciphertext_span l rg = Inr sp"
    and "unat (sp_offset sp) \<le> unat (sp_offset sp + sp_len sp)"
    and "unat (sp_offset sp + sp_len sp) \<le> length (concat (map snd pcs))"
    and "segmented_plaintext_selection l rg = Inr \<lparr>sel_start_segment = i, sel_segment_count = n\<rparr>"
    and "i + n \<le> length (lsegs l)"
    and "\<And>retain. open_segmented_payload_span_inner lib keys oid l rg sp
        (take (unat (sp_offset sp + sp_len sp) - unat (sp_offset sp)) (drop (unat (sp_offset sp)) (concat (map snd pcs)))) retain =
      Inr \<lparr>op_plaintext = cut_range se (concat (map fst pcs)),
        op_segments = if retain then map (\<lambda>q. (q, fst (pcs ! q))) [i..<i + n] else []\<rparr>"
proof -
  obtain s e where se: "se = (s, e)" by (cases se)
  note lt = range_bounds_rep [OF rep b [unfolded se]]
  obtain i j where sel: "SegmentSelection_new l rg = Inr \<lparr>sx_start = s, sx_end = e, sx_start_segment = i, sx_end_segment = Suc j\<rparr>"
    and ij: "i \<le> j" "j < length (lsegs l)" and s: "lpos l i \<le> unat s" "unat s < lpos l (Suc i)"
    and e: "lpos l j < unat e" "unat e \<le> lpos l (Suc j)"
    by (rule selection_rep [OF rep b [unfolded se]])
  obtain sp where sp: "segmented_ciphertext_span l rg = Inr sp" "unat (sp_offset sp) = lpos l i + 16 * i"
    "unat (sp_offset sp) + unat (sp_len sp) = lpos l (Suc j) + 16 * Suc j"
    "unat (sp_offset sp + sp_len sp) = lpos l (Suc j) + 16 * Suc j"
    by (rule span_rep [OF rep sel ij])
  have o: "offs (map snd pcs) i = unat (sp_offset sp)" "offs (map snd pcs) (Suc j) = unat (sp_offset sp + sp_len sp)"
    using piece_offs(2) [OF r, of i] piece_offs(2) [OF r, of "Suc j"] sp ij by simp_all
  define ct where "ct = concat (take (Suc j - i) (drop i (map snd pcs)))"
  have ct: "take (unat (sp_offset sp + sp_len sp) - unat (sp_offset sp)) (drop (unat (sp_offset sp)) (concat (map snd pcs))) = ct"
    unfolding o [symmetric] ct_def using ij(1) by (intro concat_span) simp
  have mono: "unat (sp_offset sp) \<le> unat (sp_offset sp + sp_len sp)" unfolding o [symmetric] using ij(1) by (intro offs_mono) simp
  have inside: "unat (sp_offset sp + sp_len sp) \<le> length (concat (map snd pcs))" unfolding o [symmetric] by (rule offs_le)
  have "length ct = unat (sp_len sp)"
    using inside mono sp(3,4) by (simp flip: ct)
  then have len: "of_nat (length ct) = sp_len sp" by simp
  have sel': "segmented_plaintext_selection l rg = Inr \<lparr>sel_start_segment = i, sel_segment_count = Suc j - i\<rparr>"
    using sel by (simp add: segmented_plaintext_selection_def)
  have "unat s \<le> unat e" using lt(1) by (simp add: word_less_nat_alt)
  then have "open_segmented_payload_span_inner lib keys oid l rg sp ct retain =
      Inr \<lparr>op_plaintext = cut_range se (concat (map fst pcs)),
        op_segments = if retain then map (\<lambda>q. (q, fst (pcs ! q))) [i..<i + (Suc j - i)] else []\<rparr>" for retain
    using open_loop [OF rep r ij(2) sp(2), of "\<lparr>sx_start = s, sx_end = e, sx_start_segment = i, sx_end_segment = Suc j\<rparr>" "Suc j" retain]
      sp(1) sel len s e ij by (simp add: open_segmented_payload_span_inner_def cut_range_def se flip: ct_def)
  with that [OF sp(1) mono inside sel'] ij show thesis unfolding ct by simp
qed

lemma open_payload_object_rep:
  assumes rep: "layout_rep l" and r: "readable lib keys oid l pcs"
  shows "open_payload_object lib keys oid l (concat (map snd pcs)) rg =
    (case range_bounds l rg of Inl err \<Rightarrow> Inl err | Inr se \<Rightarrow> Inr (cut_range se (concat (map fst pcs))))"
proof -
  have "length (concat (map snd pcs)) = lpos l (length (lsegs l)) + 16 * length (lsegs l)"
    using piece_offs(2) [OF r, of "length (lsegs l)"] readableD(1) [OF r] offs_length [of "map snd pcs"] by simp
  also have "\<dots> = unat (sl_stored_len l)" using lpos_length [OF rep] layout_repD(6) [OF rep] by simp
  finally have len: "of_nat (length (concat (map snd pcs))) = sl_stored_len l" by simp
  show ?thesis
  proof (cases "range_bounds l rg")
    case (Inl err)
    then show ?thesis using len by (simp add: open_payload_object_def segmented_ciphertext_span_def SegmentSelection_new_def)
  next
    case (Inr se)
    obtain sp where "segmented_ciphertext_span l rg = Inr sp"
      "\<And>retain. \<exists>sg. open_segmented_payload_span_inner lib keys oid l rg sp
        (take (unat (sp_offset sp + sp_len sp) - unat (sp_offset sp)) (drop (unat (sp_offset sp)) (concat (map snd pcs)))) retain =
        Inr \<lparr>op_plaintext = cut_range se (concat (map fst pcs)), op_segments = sg\<rparr>"
      by (rule open_span_inner_rep [OF rep r Inr]) blast
    then show ?thesis using len Inr
      by (simp add: open_payload_object_def Let_def open_segmented_payload_span_def) (metis OpenedSegmentedPayloadSpan.select_convs(1) bindE_Inr)
  qed
qed

lemma cached_loop:
  assumes rep: "layout_rep l" and r: "readable lib keys oid l pcs" and j: "j < length (lsegs l)"
    and s: "lpos l i \<le> unat (sx_start sel)" "unat (sx_start sel) < lpos l (Suc i)"
    and e: "lpos l j < unat (sx_end sel)" and se: "unat (sx_start sel) \<le> unat (sx_end sel)"
    and m: "i + m \<le> Suc j"
  shows "foldE (cached_step oid l sel i) [] (enumerate 0 (map (\<lambda>q. fst (pcs ! q)) [i..<i + m])) =
    Inr (take (min (unat (sx_end sel)) (lpos l (i + m)) - unat (sx_start sel)) (drop (unat (sx_start sel)) (concat (map fst pcs))))"
  using m
proof (induction m)
  case 0
  then show ?case using s(1) by simp
next
  case (Suc m)
  note D = readableD [OF r]
  have q: "i + m < length (lsegs l)" using Suc.prems j by simp
  obtain f where f: "segment_facts l (i + m) = Inr f" "facts_are l (i + m) f" using segment_facts_rep [OF rep q] by metis
  have len: "of_nat (length (fst (pcs ! (i + m)))) = fa_plaintext_len f"
    using f(2) D(2) [OF q] by (simp add: facts_are_def) (metis of_nat_unat ucast_id)
  have sm: "unat (sx_start sel) \<le> lpos l (Suc (i + m))" using s(2) seg_pos_mono [of "Suc i" "Suc (i + m)"]
    by (meson Suc_le_mono le_add1 le_trans less_imp_le)
  have "lpos l (i + m) \<le> lpos l j" using Suc.prems by (intro seg_pos_mono) simp
  then have em: "lpos l (i + m) \<le> unat (sx_end sel)" using e by simp
  have piece: "map fst pcs ! (i + m) = fst (pcs ! (i + m))" "i + m < length (map fst pcs)" using q D(1) by simp_all
  have o: "offs (map fst pcs) (i + m) = lpos l (i + m)" "offs (map fst pcs) (Suc (i + m)) = lpos l (Suc (i + m))"
    using piece_offs(1) [OF r] q by (simp_all add: Suc_le_eq)
  note ext = overlap_extends [OF piece(2), unfolded o piece(1), OF em sm se]
  have "enumerate 0 (map (\<lambda>q. fst (pcs ! q)) [i..<i + Suc m]) =
      enumerate 0 (map (\<lambda>q. fst (pcs ! q)) [i..<i + m]) @ [(m, fst (pcs ! (i + m)))]"
    by (simp add: enumerate_append_eq)
  moreover have "min (unat (sx_end sel)) (lpos l (i + m)) = lpos l (i + m)" using em by simp
  ultimately show ?case using Suc f(1) len append_overlap_rep [OF f(2) q rep D(2) [OF q] sm em se] ext
    by (simp add: foldE_append cached_step_def)
qed

lemma cached_segments_rep:
  assumes rep: "layout_rep l" and r: "readable lib keys oid l pcs" and b: "range_bounds l rg = Inr se"
    and sel: "segmented_plaintext_selection l rg = Inr \<lparr>sel_start_segment = i, sel_segment_count = n\<rparr>"
  shows "open_segmented_payload_cached_segments oid l rg i (map (\<lambda>q. fst (pcs ! q)) [i..<i + n]) = Inr (cut_range se (concat (map fst pcs)))"
proof -
  obtain s e where se: "se = (s, e)" by (cases se)
  note lt = range_bounds_rep [OF rep b [unfolded se]]
  obtain i' j where sel': "SegmentSelection_new l rg = Inr \<lparr>sx_start = s, sx_end = e, sx_start_segment = i', sx_end_segment = Suc j\<rparr>"
    and ij: "i' \<le> j" "j < length (lsegs l)" and s: "lpos l i' \<le> unat s" "unat s < lpos l (Suc i')"
    and e: "lpos l j < unat e" "unat e \<le> lpos l (Suc j)"
    by (rule selection_rep [OF rep b [unfolded se]])
  have "i' = i" "n = Suc j - i" using sel sel' by (auto simp: segmented_plaintext_selection_def)
  moreover have "unat s \<le> unat e" using lt(1) by (simp add: word_less_nat_alt)
  ultimately show ?thesis
    using cached_loop [OF rep r ij(2), of i "\<lparr>sx_start = s, sx_end = e, sx_start_segment = i, sx_end_segment = Suc j\<rparr>" n] sel' s e ij
    by (simp add: open_segmented_payload_cached_segments_def cut_range_def se)
qed

section \<open>Sealed payloads\<close>

lemma seal_parts_readable:
  assumes laws: "hmac_law lib" "xchacha_law lib" and ok: "keyring_ok lib keys'"
    and key: "primary_key keys Content = Inr k" and keep: "keeps_key keys' k"
    and new: "SegmentedPayloadLayout_new ref ctx = Inr l" and kid: "pl_key_id ref = km_id k" and typed: "payload_typed l"
    and lens: "map length pts = map plen (pl_parts ref)" and seal: "seal_parts lib keys oid l (pl_parts ref) pts = Inr body"
  obtains pcs where "layout_rep l" and "readable lib keys' oid l pcs" and "concat (map fst pcs) = concat pts" and "concat (map snd pcs) = body"
    and "map fst pcs = plain_segments (unat (pl_chunk_size ref)) pts"
proof -
  note l = layout_new_rep [OF new]
  obtain pcs where pcs: "list_all2 (seg_sealed lib keys oid l) (lsegs l) pcs"
      "map fst pcs = plain_segments (unat (sl_chunk_size l)) pts" "concat (map snd pcs) = body"
    using parts_pieces [OF layout_repD(1) [OF l(1)] lens seal] l(2) by auto
  have "concat (map fst pcs) = concat pts" using pcs(2) concat_plain_segments [OF layout_repD(1) [OF l(1)]] by simp
  have "readable lib keys' oid l pcs"
    using sealed_readable [OF laws ok key keep _ l(1) typed pcs(1)] kid l(2) by simp
  with that l(1,2) pcs(2,3) \<open>concat (map fst pcs) = concat pts\<close> show thesis by simp
qed

lemma payload_read_exact:
  assumes "hmac_law lib" and "xchacha_law lib" and "keyring_ok lib keys'"
    and "primary_key keys Content = Inr k" and "keeps_key keys' k"
    and "SegmentedPayloadLayout_new ref ctx = Inr l" and "pl_key_id ref = km_id k" and "payload_typed l"
    and "map length pts = map plen (pl_parts ref)" and "seal_parts lib keys oid l (pl_parts ref) pts = Inr body"
  shows "open_payload_object lib keys' oid l body rg =
    (case range_bounds l rg of Inl err \<Rightarrow> Inl err | Inr se \<Rightarrow> Inr (cut_range se (concat pts)))"
proof -
  obtain pcs where "layout_rep l" "readable lib keys' oid l pcs" and c: "concat (map fst pcs) = concat pts" "concat (map snd pcs) = body"
    by (rule seal_parts_readable [OF assms])
  from open_payload_object_rep [OF this(1,2), of rg] show ?thesis unfolding c .
qed

lemma range_of_bounds:
  assumes "unat (sl_plaintext_len l) = length pt"
  shows "(case range_bounds l rg of Inl err \<Rightarrow> Inl err | Inr se \<Rightarrow> Inr (cut_range se pt)) = range_of pt rg"
proof (cases rg)
  case Full
  then show ?thesis using assms by (simp add: range_bounds_def cut_range_def)
next
  case (Slice offset len)
  show ?thesis
  proof (cases "checked_add offset len")
    case None
    then have "\<not> unat offset + unat len < 2 ^ 64" by (simp add: checked_add_def split: if_splits)
    moreover have "length pt < 2 ^ 64" using unat_less_2p [of "sl_plaintext_len l"] assms by simp
    ultimately show ?thesis using Slice None by (simp add: range_bounds_def)
  next
    case (Some stop)
    then have "unat stop = unat offset + unat len" by (simp add: checked_add_Some)
    then show ?thesis using Slice Some assms by (simp add: range_bounds_def cut_range_def word_less_nat_alt)
  qed
qed

section \<open>One object\<close>

lemma seal_segment_total:
  assumes laws: "hmac_law lib" "xchacha_law lib" and ok: "keyring_ok lib keys"
    and key: "primary_key keys Content = Inr k" and kid: "se_key_id s = km_id k" "length (km_id k) \<le> 255"
    and ids: "length (se_carrier_id s) = 32" "length (se_attempt_id s) = 32" "se_repository_context s \<noteq> []"
      "length (se_repository_context s) \<le> 4096" "length oid \<le> 1024"
    and chunk: "unat (se_chunk_size s) \<le> 64 * 1024 * 1024"
    and pt: "pt \<noteq> []" "length pt \<le> unat (se_chunk_size s)" "final \<or> length pt = unat (se_chunk_size s)"
  shows "\<exists>ct. seal_segment lib keys oid s r pt final = Inr ct"
proof -
  let ?c = "\<lparr>sc_repository_context = se_repository_context s, sc_containing_object = oid, sc_section_ordinal = None,
      sc_carrier_id = se_carrier_id s, sc_attempt_id = se_attempt_id s, sc_part_ordinal = se_part_number s,
      sc_segment_ordinal = of_nat r, sc_plaintext_len = of_nat (length pt), sc_is_final = final,
      sc_layout_context = u64_to_be_bytes (se_chunk_size s)\<rparr>"
  have u: "unat (of_nat (length pt) :: u64) = length pt" using pt(2) chunk by (intro unat_of_nat_small) simp
  have "segment_fits ?c (km_id k) pt" using ids kid pt chunk by (simp add: segment_fits_def context_typed_def)
  from seal_open_segment [OF laws ok this key keeps_own [OF key]] obtain ct where
    ct: "seal_payload_segment lib keys ?c pt = Inr \<lparr>sg_key_id = km_id k, sg_ciphertext = ct\<rparr>" by blast
  have "(of_nat (length pt) :: u64) \<noteq> 0" using pt(1) u by (metis length_greater_0_conv less_numeral_extra(3) unat_0)
  moreover have "\<not> (of_nat (length pt) :: u64) > se_chunk_size s" using pt(2) u by (simp add: word_less_nat_alt)
  moreover have "final \<or> (of_nat (length pt) :: u64) = se_chunk_size s" using pt(3) u by (metis word_unat_eq_iff)
  ultimately show ?thesis using ct kid(1) by (auto simp: seal_segment_def Let_def)
qed

lemma seal_chunks_total:
  assumes laws: "hmac_law lib" "xchacha_law lib" and ok: "keyring_ok lib keys"
    and key: "primary_key keys Content = Inr k" and kid: "se_key_id s = km_id k" "length (km_id k) \<le> 255"
    and ids: "length (se_carrier_id s) = 32" "length (se_attempt_id s) = 32" "se_repository_context s \<noteq> []"
      "length (se_repository_context s) \<le> 4096" "length oid \<le> 1024"
    and chunk: "unat (se_chunk_size s) \<le> 64 * 1024 * 1024" "0 < unat (se_chunk_size s)"
  shows "\<exists>b. seal_chunks lib keys oid s (unat (se_chunk_size s)) (seg_count (unat (se_chunk_size s)) (length pt)) pt = Inr b"
proof -
  let ?c = "unat (se_chunk_size s)" let ?n = "seg_count ?c (length pt)"
  let ?g = "\<lambda>(ordinal, part). seal_segment lib keys oid s ordinal part (ordinal + 1 = ?n)"
  have "\<exists>y. ?g x = Inr y" if x: "x \<in> set (enumerate 0 (chunks ?c pt))" for x
  proof -
    obtain r where r: "r < ?n" "x = (r, chunks ?c pt ! r)" using x by (auto simp: in_set_enumerate_eq prod_eq_iff)
    have "r * ?c < length pt" using r(1) seg_count_less [OF chunk(2)] by simp
    moreover have len: "length (chunks ?c pt ! r) = min ?c (length pt - r * ?c)" using chunks_nth [OF r(1)] by simp
    moreover have "r + 1 = ?n \<or> length pt - r * ?c \<ge> ?c"
      using seg_count_last [OF chunk(2) r(1)] by auto
    ultimately have "chunks ?c pt ! r \<noteq> []" "length (chunks ?c pt ! r) \<le> ?c" "r + 1 = ?n \<or> length (chunks ?c pt ! r) = ?c"
      using chunk(2) by (auto simp flip: length_0_conv)
    from seal_segment_total [OF laws ok key kid ids chunk(1) this] show ?thesis by (simp add: r(2))
  qed
  then obtain ys where "collectE ?g (enumerate 0 (chunks ?c pt)) = Inr ys" using collectE_total [of "enumerate 0 (chunks ?c pt)" ?g] by blast
  then show ?thesis using fold_append_collect [of ?g "[]"] by (auto simp: seal_chunks_def case_prod_beta')
qed

text \<open>What the sealer, the layout and the body of one object are.\<close>

lemma seal_payload_object_exact:
  assumes laws: "hmac_law lib" "xchacha_law lib" and ok: "keyring_ok lib keys" "keyring_ok lib keys'"
    and key: "primary_key keys Content = Inr k" "km_id k \<noteq> []" "length (km_id k) \<le> 255" and keep: "keeps_key keys' k"
    and ids: "length carrier = 32" "length attempt = 32" "ctx \<noteq> []" "length ctx \<le> 4096" "length oid \<le> 1024"
    and chunk: "0 < chunk" "chunk \<le> MAX_PAYLOAD_SEGMENT_SIZE"
    and pt: "pt \<noteq> []" "sealed_len chunk (length pt) < 2 ^ 64"
  shows "\<exists>body l. seal_payload_object lib keys (Some attempt) oid pt chunk ctx carrier = Inr (body, l) \<and>
    length body = sealed_len chunk (length pt) \<and> sl_plaintext_len l = of_nat (length pt) \<and>
    (\<forall>rg. open_payload_object lib keys' oid l body rg = range_of pt rg)"
proof -
  define part where "part = \<lparr>pp_part_number = 1, pp_attempt_id = attempt, pp_plaintext_len = of_nat (length pt)\<rparr>"
  define ref where "ref = \<lparr>pl_chunk_size = of_nat chunk, pl_plaintext_len = of_nat (length pt), pl_key_id = km_id k,
      pl_carrier_id = carrier, pl_parts = [part]\<rparr>"
  define s where "s = \<lparr>se_chunk_size = of_nat chunk, se_key_id = km_id k, se_repository_context = ctx,
      se_carrier_id = carrier, se_attempt_id = attempt, se_part_number = 1\<rparr>"
  have c: "unat (of_nat chunk :: u64) = chunk" using chunk(2) by (intro unat_of_nat_small) (simp add: MAX_PAYLOAD_SEGMENT_SIZE_def)
  have "length pt < 2 ^ 64" using pt(2) by (simp add: sealed_len_def)
  then have n: "unat (of_nat (length pt) :: u64) = length pt" by (intro unat_of_nat_small) simp
  have nz: "(of_nat chunk :: u64) \<noteq> 0" "(of_nat (length pt) :: u64) \<noteq> 0" "0 < (of_nat (length pt) :: u64)"
    using c n chunk(1) pt(1) by (metis less_numeral_extra(3) unat_0, metis length_greater_0_conv less_numeral_extra(3) unat_0,
      metis length_greater_0_conv unat_gt_0 word_neq_0_conv)
  have ok_ref: "layout_ok ref" "layout_len ref = sealed_len chunk (length pt)"
    using nz c n chunk(2) key(2,3)
    by (simp_all add: layout_ok_def layout_bounds_ok_def layout_len_def ref_def part_def MAX_PAYLOAD_PARTS_def
        MAX_PAYLOAD_SEGMENT_SIZE_def word_less_nat_alt)
  then obtain l where l: "SegmentedPayloadLayout_new ref ctx = Inr l" using layout_new_total [of ref ctx] pt(2) ids by auto
  note L = layout_new_rep [OF l]
  have sl: "sealer_of l part = s" by (simp add: sealer_of_def L(2,3) s_def ref_def part_def)
  have cnt: "sl_segment_count l = seg_count chunk (length pt)"
    using layout_repD(5) [OF L(1)] by (simp add: L(2) ref_def part_def segs_def c n)
  obtain body where body: "seal_chunks lib keys oid s chunk (seg_count chunk (length pt)) pt = Inr body"
    using seal_chunks_total [OF laws ok(1) key(1), of s oid pt] key(3) ids chunk c by (auto simp: s_def MAX_PAYLOAD_SEGMENT_SIZE_def)
  then have parts: "seal_parts lib keys oid l (pl_parts ref) [pt] = Inr body"
    by (simp add: ref_def sl L(2) c) (simp add: part_def n)
  have typed: "payload_typed l" using ids by (simp add: payload_typed_def L(2) ref_def part_def)
  have kid: "pl_key_id ref = km_id k" and lens: "map length [pt] = map plen (pl_parts ref)" by (simp_all add: ref_def part_def n)
  have "SegmentedPayloadSealer_new keys chunk ctx carrier 1 (Some attempt) = Inr s"
    using chunk ids key(1) by (simp add: SegmentedPayloadSealer_new_def primary_content_key_id_def primary_key_id_def
        random_bytes_def s_def MAX_PAYLOAD_PARTS_def word_less_nat_alt)
  moreover have "layout_reference s (of_nat (length pt)) = Inr l" using l by (simp add: layout_reference_def s_def ref_def part_def)
  ultimately have "seal_payload_object lib keys (Some attempt) oid pt chunk ctx carrier = Inr (body, l)"
    using body cnt by (simp add: seal_payload_object_def)
  moreover have "length body = sealed_len chunk (length pt)"
  proof -
    obtain pcs where "layout_rep l" and r: "readable lib keys' oid l pcs" and b: "concat (map snd pcs) = body"
      by (rule seal_parts_readable [OF laws ok(2) key(1) keep l kid typed lens parts])
    have "length body = unat (sl_stored_len l)"
      using piece_offs(2) [OF r order_refl] offs_length [of "map snd pcs"] readableD(1) [OF r] b lpos_length [OF L(1)] layout_repD(6) [OF L(1)]
      by simp
    then show ?thesis using L(1) ok_ref(2) by (simp add: layout_rep_def L(2))
  qed
  moreover have pl: "sl_plaintext_len l = of_nat (length pt)" by (simp add: L(2) ref_def)
  moreover have "open_payload_object lib keys' oid l body rg = range_of pt rg" for rg
    using payload_read_exact [OF laws ok(2) key(1) keep l kid typed lens parts, of rg] range_of_bounds [of l pt rg]
    unfolding concat.simps append_Nil2 pl n by simp
  ultimately show ?thesis by blast
qed

section \<open>An object of several parts\<close>

lemma seal_parts_total:
  assumes laws: "hmac_law lib" "xchacha_law lib" and ok: "keyring_ok lib keys"
    and key: "primary_key keys Content = Inr k" and kid: "pl_key_id (sl_reference l) = km_id k" "length (km_id k) \<le> 255"
    and ids: "length (pl_carrier_id (sl_reference l)) = 32" "sl_repository_context l \<noteq> []"
      "length (sl_repository_context l) \<le> 4096" "length oid \<le> 1024"
    and chunk: "unat (sl_chunk_size l) \<le> 64 * 1024 * 1024" "0 < unat (sl_chunk_size l)"
    and parts: "list_all (\<lambda>p. length (pp_attempt_id p) = 32) ps" "map length pts = map plen ps"
  shows "\<exists>body. seal_parts lib keys oid l ps pts = Inr body"
  using parts
proof (induction ps arbitrary: pts)
  case (Cons p ps)
  then obtain pt rest where pts: "pts = pt # rest" "length pt = plen p" "map length rest = map plen ps" by auto
  obtain body where "seal_parts lib keys oid l ps rest = Inr body" using Cons pts(3) by auto
  moreover obtain b where
    "seal_chunks lib keys oid (sealer_of l p) (unat (sl_chunk_size l)) (seg_count (unat (sl_chunk_size l)) (plen p)) pt = Inr b"
    using seal_chunks_total [OF laws ok key, of "sealer_of l p" oid pt] kid ids chunk Cons.prems(1) pts(2)
    by (auto simp: sealer_of_def)
  ultimately show ?case by (simp add: pts(1))
qed simp

lemma multipart_read_exact:
  assumes laws: "hmac_law lib" "xchacha_law lib" and ok: "keyring_ok lib keys" "keyring_ok lib keys'"
    and key: "primary_key keys Content = Inr k" "pl_key_id ref = km_id k" and keep: "keeps_key keys' k"
    and ref: "layout_ok ref" "layout_len ref < 2 ^ 64"
    and ids: "length (pl_carrier_id ref) = 32" "list_all (\<lambda>p. length (pp_attempt_id p) = 32) (pl_parts ref)"
      "ctx \<noteq> []" "length ctx \<le> 4096" "length oid \<le> 1024"
    and pts: "map length pts = map plen (pl_parts ref)"
  shows "\<exists>l body. SegmentedPayloadLayout_new ref ctx = Inr l \<and> seal_parts lib keys oid l (pl_parts ref) pts = Inr body \<and>
    length body = layout_len ref \<and>
    (\<forall>rg. open_payload_object lib keys' oid l body rg = range_of (concat pts) rg)"
proof -
  obtain l where l: "SegmentedPayloadLayout_new ref ctx = Inr l" using layout_new_total [OF ref ids(3,4)] by blast
  note L = layout_new_rep [OF l]
  have chunk: "unat (sl_chunk_size l) \<le> 64 * 1024 * 1024" "0 < unat (sl_chunk_size l)" "length (km_id k) \<le> 255"
    using ref(1) key(2) layout_ok_chunk [OF ref(1)]
    by (simp_all add: layout_ok_def layout_bounds_ok_def L(2) MAX_PAYLOAD_SEGMENT_SIZE_def word_le_nat_alt word_less_nat_alt)
  have typed: "payload_typed l" using ids by (simp add: payload_typed_def L(2))
  obtain body where parts: "seal_parts lib keys oid l (pl_parts ref) pts = Inr body"
    using seal_parts_total [OF laws ok(1) key(1), of l oid "pl_parts ref" pts] chunk key(2) ids pts L(2,3) by auto
  obtain pcs where r: "readable lib keys' oid l pcs" and b: "concat (map snd pcs) = body"
    by (rule seal_parts_readable [OF laws ok(2) key(1) keep l key(2) typed pts parts])
  have "length body = unat (sl_stored_len l)"
    using piece_offs(2) [OF r order_refl] offs_length [of "map snd pcs"] readableD(1) [OF r] b lpos_length [OF L(1)] layout_repD(6) [OF L(1)]
    by simp
  then have "length body = layout_len ref" using L(1) by (simp add: layout_rep_def L(2))
  moreover have "unat (sl_plaintext_len l) = length (concat pts)"
    using ref(1) pts by (simp add: layout_ok_def L(2) length_concat)
  ultimately show ?thesis
    using l parts payload_read_exact [OF laws ok(2) key(1) keep l key(2) typed pts parts] range_of_bounds [of l "concat pts"] by auto
qed

end
