(* ===== verification/SegmentReads.thy ===== *)
theory SegmentReads
  imports SegmentCache PayloadReads
begin

text \<open>
  Reads through the cache of decrypted segments (\<open>rs3-repository/src/service.rs\<close>,
  \<open>RepositoryResources\<close>): a lookup that serves a range from kept segments, and a read that opens
  a ciphertext span and keeps its segments. The lock of the cache is modelled by two booleans: it
  is poisoned when a holder panicked, and a lookup moves keys in the order of use only when the
  write lock is free. A function that runs the eviction loop returns \<open>None\<close> when that loop does
  not end; the lemmas show that it always ends. Metrics are not modelled.
\<close>

section \<open>The operations\<close>

record RepositoryOptions =
  ro_payload_segment_size :: nat
  ro_adaptive_payload_segment_size :: bool
  ro_decrypted_segment_cache_max_bytes :: u64
  ro_default_retention :: "RetentionPolicy option"

record RepositoryResources =
  rr_keyring :: KeyRing
  rr_options :: RepositoryOptions
  rr_decrypted_segments :: DecryptedSegmentCache
  rr_poisoned :: bool

record DecryptedSegmentIdentity =
  di_cache_ref :: BackendObjectRef
  di_payload_id :: BackendObjectId

datatype DecryptedSegmentLookup = Hit "bytes list" u64 | Miss u64 u64

definition RepositoryResources_new :: "KeyRing \<Rightarrow> RepositoryOptions \<Rightarrow> RepositoryResources" where
  "RepositoryResources_new keys options =
     \<lparr>rr_keyring = keys, rr_options = options,
       rr_decrypted_segments = DecryptedSegmentCache_with_max_bytes (ro_decrypted_segment_cache_max_bytes options),
       rr_poisoned = False\<rparr>"

text \<open>The loop that looks up consecutive segments and gives up at the first one that is missing.\<close>

fun peek_span :: "DecryptedSegmentCache \<Rightarrow> BackendObjectRef \<Rightarrow> nat \<Rightarrow> nat list \<Rightarrow> RepositoryError + bytes list option" where
  "peek_span c r start [] = Inr (Some [])"
| "peek_span c r start (relative # rest) =
     bindE (ok_or invalid_range (usize_add start relative)) (\<lambda>i.
     case segment_cache_peek c r i of
       None \<Rightarrow> Inr None
     | Some segment \<Rightarrow> bindE (peek_span c r start rest) (\<lambda>segments. Inr (map_option (Cons segment) segments)))"

definition touch_span ::
  "BackendObjectRef \<Rightarrow> nat \<Rightarrow> nat \<Rightarrow> DecryptedSegmentCache \<Rightarrow> RepositoryError + DecryptedSegmentCache" where
  "touch_span r start cnt c =
     foldE (\<lambda>c relative. bindE (ok_or invalid_range (usize_add start relative)) (\<lambda>i. Inr (segment_cache_touch r i c)))
       c [0..<cnt]"

definition cached_decrypted_segment_span ::
  "bool \<Rightarrow> RepositoryResources \<Rightarrow> BackendObjectRef \<Rightarrow> nat \<Rightarrow> nat \<Rightarrow>
    RepositoryError + bytes list option \<times> RepositoryResources" where
  "cached_decrypted_segment_span free res r start cnt =
     (if rr_poisoned res then Inl StatePoisoned
      else
        bindE (peek_span (rr_decrypted_segments res) r start [0..<cnt]) (\<lambda>found.
        case found of
          None \<Rightarrow> Inr (None, res)
        | Some segments \<Rightarrow>
            bindE (if free then touch_span r start cnt (rr_decrypted_segments res) else Inr (rr_decrypted_segments res)) (\<lambda>c.
            Inr (Some segments, res\<lparr>rr_decrypted_segments := c\<rparr>))))"

text \<open>The loop that collects the segments that are there and counts the missing ones.\<close>

definition lookup_step ::
  "DecryptedSegmentCache \<Rightarrow> BackendObjectRef \<Rightarrow> SegmentedPayloadLayout \<Rightarrow> nat \<Rightarrow>
    bytes list \<times> u64 \<times> u64 \<times> u64 \<Rightarrow> nat \<Rightarrow> RepositoryError + bytes list \<times> u64 \<times> u64 \<times> u64" where
  "lookup_step c r header start = (\<lambda>(segments, found_bytes, missing_segments, missing_bytes) relative.
     bindE (ok_or invalid_range (usize_add start relative)) (\<lambda>i.
     case segment_cache_peek c r i of
       Some segment \<Rightarrow> Inr (segments @ [segment], saturating_add found_bytes (u64_len segment), missing_segments, missing_bytes)
     | None \<Rightarrow>
         bindE (segmented_plaintext_segment_len header i) (\<lambda>len.
         Inr (segments, found_bytes, saturating_add missing_segments 1, saturating_add missing_bytes len))))"

definition cached_decrypted_segments ::
  "bool \<Rightarrow> RepositoryResources \<Rightarrow> BackendObjectRef \<Rightarrow> SegmentedPayloadLayout \<Rightarrow> SegmentPlaintextSelection \<Rightarrow>
    RepositoryError + DecryptedSegmentLookup \<times> RepositoryResources" where
  "cached_decrypted_segments free res r header selection =
     (if sel_segment_count selection = 0 then Inr (Hit [] 0, res)
      else if rr_poisoned res then Inl StatePoisoned
      else
        bindE (foldE (lookup_step (rr_decrypted_segments res) r header (sel_start_segment selection)) ([], 0, 0, 0)
            [0..<sel_segment_count selection]) (\<lambda>(segments, found_bytes, missing_segments, missing_bytes).
        if missing_segments = 0 then
          bindE (if free then touch_span r (sel_start_segment selection) (sel_segment_count selection) (rr_decrypted_segments res)
              else Inr (rr_decrypted_segments res)) (\<lambda>c.
          Inr (Hit segments found_bytes, res\<lparr>rr_decrypted_segments := c\<rparr>))
        else Inr (Miss missing_segments missing_bytes, res)))"

fun insert_segments ::
  "BackendObjectRef \<Rightarrow> (nat \<times> bytes) list \<Rightarrow> DecryptedSegmentCache \<Rightarrow> DecryptedSegmentCache option" where
  "insert_segments r [] c = Some c"
| "insert_segments r ((i, plaintext) # segments) c =
     Option.bind (segment_cache_insert r i plaintext c) (\<lambda>(outcome, c). insert_segments r segments c)"

definition cache_decrypted_segments ::
  "RepositoryResources \<Rightarrow> BackendObjectRef \<Rightarrow> (nat \<times> bytes) list \<Rightarrow> (RepositoryError + RepositoryResources) option" where
  "cache_decrypted_segments res r segments =
     (if rr_poisoned res then Some (Inl StatePoisoned)
      else map_option (\<lambda>c. Inr (res\<lparr>rr_decrypted_segments := c\<rparr>)) (insert_segments r segments (rr_decrypted_segments res)))"

definition cache_decrypted_segment_span ::
  "RepositoryResources \<Rightarrow> BackendObjectRef \<Rightarrow> (nat \<times> bytes) list \<Rightarrow> (RepositoryError + RepositoryResources) option" where
  "cache_decrypted_segment_span res r segments = cache_decrypted_segments res r segments"

definition open_cached_decrypted_segments ::
  "bool \<Rightarrow> RepositoryResources \<Rightarrow> DecryptedSegmentIdentity \<Rightarrow> SegmentedPayloadLayout \<Rightarrow> ByteRange \<Rightarrow>
    RepositoryError + bytes option \<times> RepositoryResources" where
  "open_cached_decrypted_segments free res identity header rg =
     bindE (segmented_plaintext_selection header rg) (\<lambda>selection.
     bindE (cached_decrypted_segments free res (di_cache_ref identity) header selection) (\<lambda>(found, res).
     case found of
       Hit segments found_bytes \<Rightarrow>
         bindE (open_segmented_payload_cached_segments (di_payload_id identity) header rg (sel_start_segment selection) segments)
           (\<lambda>plaintext. Inr (Some plaintext, res))
     | Miss missing_segments missing_bytes \<Rightarrow> Inr (None, res)))"

definition open_and_cache_decrypted_segments ::
  "crypto_lib \<Rightarrow> RepositoryResources \<Rightarrow> KeyRing \<Rightarrow> DecryptedSegmentIdentity \<Rightarrow> SegmentedPayloadLayout \<Rightarrow> ByteRange \<Rightarrow>
    SegmentCiphertextSpan \<Rightarrow> bytes \<Rightarrow> (RepositoryError + bytes \<times> RepositoryResources) option" where
  "open_and_cache_decrypted_segments lib res keys identity header rg span ciphertext =
     (case open_segmented_payload_span_with_segments lib keys (di_payload_id identity) header rg span ciphertext of
        Inl err \<Rightarrow> Some (Inl err)
      | Inr opened \<Rightarrow>
          map_option (\<lambda>r. bindE r (\<lambda>res. Inr (op_plaintext opened, res)))
            (cache_decrypted_segments res (di_cache_ref identity) (op_segments opened)))"

text \<open>
  The lookup and the fill of the section cache in \<open>V3RepositoryService\<close>
  (\<open>rs3-repository/src/v3/service.rs\<close>), which keeps the stored bytes of a section as they are in
  the object store. The lock has the same two booleans.
\<close>

definition cached_payload_section ::
  "bool \<Rightarrow> bool \<Rightarrow> V3PayloadSectionCacheKey \<Rightarrow> V3PayloadSectionCache \<Rightarrow> RepositoryError + bytes option \<times> V3PayloadSectionCache" where
  "cached_payload_section poisoned free key c =
     (if poisoned then Inl StatePoisoned
      else
        (let payload = section_cache_peek c key in
         Inr (payload, if payload \<noteq> None \<and> free then section_cache_touch key c else c)))"

definition cache_payload_section ::
  "bool \<Rightarrow> V3PayloadSectionCacheKey \<Rightarrow> bytes \<Rightarrow> V3PayloadSectionCache \<Rightarrow> (RepositoryError + V3PayloadSectionCache) option" where
  "cache_payload_section poisoned key payload c =
     (if poisoned then Some (Inl StatePoisoned) else map_option Inr (section_cache_insert key payload c))"

section \<open>Cached segments are the segments\<close>

text \<open>The plaintext segments that each cache identity stands for.\<close>

type_synonym contents = "BackendObjectRef \<Rightarrow> bytes list"

definition true_segment :: "contents \<Rightarrow> BackendObjectRef \<Rightarrow> nat \<Rightarrow> bytes \<Rightarrow> bool" where
  "true_segment w r i p \<longleftrightarrow> i < length (w r) \<and> p = w r ! i"

text \<open>
  The invariant: the counters and limits of the cache hold, and whatever it has for a segment is
  that segment.
\<close>

definition coherent :: "contents \<Rightarrow> DecryptedSegmentCache \<Rightarrow> bool" where
  "coherent w c \<longleftrightarrow> (\<exists>xs. cache_ok c xs) \<and> limits_ok c \<and>
     (\<forall>r i p. segment_cache_peek c r i = Some p \<longrightarrow> true_segment w r i p)"

lemma coherentD: "coherent w c \<Longrightarrow> segment_cache_peek c r i = Some p \<Longrightarrow> true_segment w r i p"
  by (simp add: coherent_def)

lemma cache_key_inj: "DecryptedSegmentCacheKey_new r i = DecryptedSegmentCacheKey_new q j \<longleftrightarrow> r = q \<and> i = j"
  by (auto simp: DecryptedSegmentCacheKey_new_def PayloadCacheObjectKey_from_def)

lemma coherent_new: "unat m < 2 ^ 63 \<Longrightarrow> coherent w (DecryptedSegmentCache_with_max_bytes m)"
  using cache_ok_new(1) [of m] segment_cache_peek_rep [OF cache_ok_new(1)]
  by (auto simp: coherent_def limits_ok_def DecryptedSegmentCache_with_max_bytes_def)

lemma segment_cache_touch_peek: "cache_ok c xs \<Longrightarrow> segment_cache_peek (segment_cache_touch r i c) q j = segment_cache_peek c q j"
  using cache_ok_touch [of c xs "DecryptedSegmentCacheKey_new r i"] segment_cache_peek_rep
  by (metis segment_cache_touch_def)

lemma coherent_touch: "coherent w c \<Longrightarrow> coherent w (segment_cache_touch r i c)"
proof -
  assume c: "coherent w c"
  then obtain xs where xs: "cache_ok c xs" by (auto simp: coherent_def)
  have "limits_ok (segment_cache_touch r i c)" using c by (simp add: coherent_def limits_ok_def segment_cache_touch_def)
  moreover have "\<exists>ys. cache_ok (segment_cache_touch r i c) ys"
    using cache_ok_touch [OF xs] by (auto simp: segment_cache_touch_def)
  ultimately show ?thesis using c segment_cache_touch_peek [OF xs] by (simp add: coherent_def)
qed

lemma coherent_insert:
  assumes c: "coherent w c" and t: "true_segment w r i v"
  obtains o' c' where "segment_cache_insert r i v c = Some (o', c')" and "coherent w c'" and "same_limits c c'"
proof -
  obtain xs where xs: "cache_ok c xs" and lim: "limits_ok c" using c by (auto simp: coherent_def)
  show thesis
  proof (cases "u64_len v \<le> bc_max_bytes c")
    case False
    then show thesis using that [OF segment_cache_insert_skipped] c by (simp add: not_le same_limits_def)
  next
    case True
    let ?k = "DecryptedSegmentCacheKey_new r i"
    obtain n b c' where ins: "segment_cache_insert r i v c = Some (Inserted (u64_len v) n b, c')" "same_limits c c'"
      "cache_ok c' (stored c ?k v xs)"
      using segment_cache_insert_stored [OF xs lim True, of r i] by blast
    have d: "distinct (map fst xs)" using xs lru.rep_distinct by (auto simp: cache_ok_def cache_rep_def)
    have "true_segment w q j p" if "segment_cache_peek c' q j = Some p" for q j p
    proof -
      have "((map_of xs)(?k \<mapsto> v)) (DecryptedSegmentCacheKey_new q j) = Some p"
        using that by (intro stored_sub [OF d]) (simp add: segment_cache_peek_rep [OF ins(3)])
      then show ?thesis
        using t coherentD [OF c] segment_cache_peek_rep [OF xs] by (auto simp: cache_key_inj split: if_splits)
    qed
    moreover have "limits_ok c'" using lim ins(2) by (simp add: limits_ok_def same_limits_def)
    ultimately show thesis using that ins by (auto simp: coherent_def)
  qed
qed

lemma coherent_insert_segments:
  assumes "coherent w c" and "\<forall>(i, v) \<in> set segments. true_segment w r i v"
  shows "\<exists>c'. insert_segments r segments c = Some c' \<and> coherent w c' \<and> same_limits c c'"
  using assms
proof (induction segments arbitrary: c)
  case Nil
  then show ?case by (simp add: same_limits_def)
next
  case (Cons p segments)
  obtain i v where p: "p = (i, v)" by (cases p)
  obtain o' c' where "segment_cache_insert r i v c = Some (o', c')" "coherent w c'" "same_limits c c'"
    using coherent_insert [OF Cons.prems(1)] Cons.prems(2) p by (metis case_prodD list.set_intros(1))
  with Cons.IH [of c'] Cons.prems(2) p show ?case by (auto simp: same_limits_def)
qed

lemma insert_segments_keeps:
  assumes "cache_ok c (zs @ ys)" and "limits_ok c"
    and "distinct (map fst segments)" and "\<forall>i \<in> fst ` set segments. DecryptedSegmentCacheKey_new r i \<notin> fst ` set ys"
    and "length ys + length segments \<le> bc_max_entries c"
    and "held_bytes ys + length (concat (map snd segments)) \<le> unat (bc_max_bytes c)"
  shows "\<exists>c' zs'. insert_segments r segments c = Some c' \<and>
    cache_ok c' (zs' @ ys @ map (\<lambda>(i, v). (DecryptedSegmentCacheKey_new r i, v)) segments)"
  using assms
proof (induction segments arbitrary: c zs ys)
  case (Cons p segments)
  obtain i v where p: "p = (i, v)" by (cases p)
  let ?k = "DecryptedSegmentCacheKey_new r i"
  have "length v < 2 ^ 64" and v: "length v \<le> unat (bc_max_bytes c)"
    using Cons.prems(6) p unat_less_2p [of "bc_max_bytes c"] by simp_all
  then have "u64_len v \<le> bc_max_bytes c" by (simp add: word_le_nat_alt unat_u64_len)
  from segment_cache_insert_stored [OF Cons.prems(1,2) this, of r i] obtain n b c1 where
    c1: "segment_cache_insert r i v c = Some (Inserted (u64_len v) n b, c1)" "same_limits c c1" "cache_ok c1 (stored c ?k v (zs @ ys))"
    by blast
  obtain zs1 where zs1: "stored c ?k v (zs @ ys) = zs1 @ ys @ [(?k, v)]"
    using stored_keeps_suffix [of ys ?k v c zs] Cons.prems(4,5,6) p by (auto simp: held_bytes_def)
  have "\<forall>j \<in> fst ` set segments. DecryptedSegmentCacheKey_new r j \<notin> fst ` set (ys @ [(?k, v)])"
    using Cons.prems(3,4) p by (auto simp: cache_key_inj)
  from Cons.IH [of c1 zs1 "ys @ [(?k, v)]"] this c1(2,3) zs1 Cons.prems(2,3,5,6) p
  have "\<exists>c' zs'. insert_segments r segments c1 = Some c' \<and>
      cache_ok c' (zs' @ (ys @ [(?k, v)]) @ map (\<lambda>(i, v). (DecryptedSegmentCacheKey_new r i, v)) segments)"
    by (auto simp: same_limits_def limits_ok_def held_bytes_def)
  then show ?case using c1(1) p by simp
qed auto

lemma coherent_touch_span:
  assumes "coherent w c" and "start + cnt \<le> 2 ^ 64"
  shows "\<exists>c'. touch_span r start cnt c = Inr c' \<and> coherent w c' \<and> same_limits c c'"
  using assms(2)
proof (induction cnt)
  case 0
  then show ?case using assms(1) by (simp add: touch_span_def same_limits_def)
next
  case (Suc cnt)
  then obtain c' where "touch_span r start cnt c = Inr c'" "coherent w c'" "same_limits c c'" by auto
  with Suc.prems coherent_touch show ?case
    by (auto simp: touch_span_def foldE_append usize_add_def same_limits_def segment_cache_touch_def)
qed

section \<open>Every interleaving of reads\<close>

text \<open>
  The cache under concurrent readers: a reader touches segments it found, or inserts a segment it
  decrypted. The insert of every reader runs under the write lock, so these are the steps.
\<close>

inductive cache_step :: "contents \<Rightarrow> DecryptedSegmentCache \<Rightarrow> DecryptedSegmentCache \<Rightarrow> bool" for w where
  touched: "cache_step w c (segment_cache_touch r i c)"
| inserted: "true_segment w r i v \<Longrightarrow> segment_cache_insert r i v c = Some (outcome, c') \<Longrightarrow> cache_step w c c'"

inductive_cases cache_stepE: "cache_step w c c'"

lemma coherent_step: "cache_step w c c' \<Longrightarrow> coherent w c \<Longrightarrow> coherent w c'"
  by (erule cache_stepE) (auto intro: coherent_touch elim: coherent_insert)

lemma coherent_reachable:
  "(cache_step w)\<^sup>*\<^sup>* (DecryptedSegmentCache_with_max_bytes m) c \<Longrightarrow> unat m < 2 ^ 63 \<Longrightarrow> coherent w c"
  by (induction rule: rtranclp_induct) (auto intro: coherent_new coherent_step)

section \<open>Reads\<close>

text \<open>The loop of a lookup on a coherent cache: either all segments, or some are missing.\<close>

lemma lookup_loop:
  assumes rep: "layout_rep h" and c: "coherent w c" and n: "start + n \<le> length (lsegs h)" and w: "length (w r) = length (lsegs h)"
    and m: "m \<le> n"
  shows "\<exists>segs found ms mb. foldE (lookup_step c r h start) ([], 0, 0, 0) [0..<m] = Inr (segs, found, ms, mb) \<and>
    unat ms \<le> m \<and> (ms = 0 \<longrightarrow> segs = map (\<lambda>q. w r ! q) [start..<start + m]) \<and>
    ((\<forall>q < m. segment_cache_peek c r (start + q) \<noteq> None) \<longrightarrow> ms = 0)"
  using m
proof (induction m)
  case 0
  then show ?case by simp
next
  case (Suc m)
  then obtain segs found ms mb where IH: "foldE (lookup_step c r h start) ([], 0, 0, 0) [0..<m] = Inr (segs, found, ms, mb)"
    "unat ms \<le> m" "ms = 0 \<longrightarrow> segs = map (\<lambda>q. w r ! q) [start..<start + m]"
    "(\<forall>q < m. segment_cache_peek c r (start + q) \<noteq> None) \<longrightarrow> ms = 0"
    using Suc_leD by blast
  have i: "start + m < length (lsegs h)" using Suc.prems n by simp
  have "length (lsegs h) < 2 ^ 63" using layout_repD(6) [OF rep] unat_less_2p [of "sl_stored_len h"] by simp
  then have u: "start + m < 2 ^ 64" "Suc m < 2 ^ 64" using i by simp_all
  show ?case
  proof (cases "segment_cache_peek c r (start + m)")
    case (Some seg)
    then have "seg = w r ! (start + m)" using coherentD [OF c] by (simp add: true_segment_def)
    then have "lookup_step c r h start (segs, found, ms, mb) m = Inr (segs @ [w r ! (start + m)],
        saturating_add found (u64_len (w r ! (start + m))), ms, mb)"
      using u(1) Some by (simp add: lookup_step_def usize_add_def)
    with IH show ?thesis by (simp add: foldE_append)
  next
    case None
    obtain f where f: "segment_facts h (start + m) = Inr f" using segment_facts_rep [OF rep i] by metis
    have "unat (saturating_add ms 1) = unat ms + 1" using IH(2) u(2) by (subst unat_saturating_add) simp_all
    then have "unat (saturating_add ms 1) \<le> Suc m" "saturating_add ms 1 \<noteq> 0" using IH(2) by auto
    moreover have "lookup_step c r h start (segs, found, ms, mb) m =
        Inr (segs, found, saturating_add ms 1, saturating_add mb (fa_plaintext_len f))"
      using u(1) None f by (simp add: lookup_step_def usize_add_def segmented_plaintext_segment_len_def)
    ultimately show ?thesis using IH(1) None by (auto simp: foldE_append)
  qed
qed

text \<open>Every segment that a range needs is in the cache.\<close>

definition span_cached :: "DecryptedSegmentCache \<Rightarrow> BackendObjectRef \<Rightarrow> SegmentedPayloadLayout \<Rightarrow> ByteRange \<Rightarrow> bool" where
  "span_cached c r h rg \<longleftrightarrow> (case segmented_plaintext_selection h rg of
     Inl err \<Rightarrow> False
   | Inr s \<Rightarrow> \<forall>q < sel_segment_count s. segment_cache_peek c r (sel_start_segment s + q) \<noteq> None)"

lemma open_cached_exact:
  assumes rep: "layout_rep h" and r: "readable lib keys oid h pcs" and w: "w (di_cache_ref ident) = map fst pcs"
    and c: "coherent w (rr_decrypted_segments res)" and p: "\<not> rr_poisoned res" and oid: "di_payload_id ident = oid"
    and b: "range_bounds h rg = Inr se"
  shows "\<exists>found res'. open_cached_decrypted_segments free res ident h rg = Inr (found, res') \<and>
    (found = None \<or> found = Some (cut_range se (concat (map fst pcs)))) \<and>
    (span_cached (rr_decrypted_segments res) (di_cache_ref ident) h rg \<longrightarrow> found \<noteq> None) \<and>
    coherent w (rr_decrypted_segments res') \<and> \<not> rr_poisoned res'"
proof -
  obtain i n where sel: "segmented_plaintext_selection h rg = Inr \<lparr>sel_start_segment = i, sel_segment_count = n\<rparr>"
    and n: "i + n \<le> length (lsegs h)" by (rule open_span_inner_rep [OF rep r b])
  note cached = cached_segments_rep [OF rep r b sel, unfolded oid [symmetric]]
  show ?thesis
  proof (cases "n = 0")
    case True
    then show ?thesis using sel cached c p by (simp add: open_cached_decrypted_segments_def cached_decrypted_segments_def)
  next
    case False
    let ?c = "rr_decrypted_segments res" let ?r = "di_cache_ref ident"
    have len: "length (w ?r) = length (lsegs h)" using readableD(1) [OF r] w by simp
    obtain segs found ms mb where loop: "foldE (lookup_step ?c ?r h i) ([], 0, 0, 0) [0..<n] = Inr (segs, found, ms, mb)"
      and hit: "ms = 0 \<Longrightarrow> segs = map (\<lambda>q. w ?r ! q) [i..<i + n]"
      and all: "(\<forall>q < n. segment_cache_peek ?c ?r (i + q) \<noteq> None) \<longrightarrow> ms = 0"
      using lookup_loop [OF rep c n len order_refl] by blast
    show ?thesis
    proof (cases "ms = 0")
      case ms: False
      then have "\<not> span_cached ?c ?r h rg" using all sel by (auto simp: span_cached_def)
      with ms show ?thesis using sel loop c p False
        by (simp add: open_cached_decrypted_segments_def cached_decrypted_segments_def)
    next
      case ms: True
      have segs: "segs = map (\<lambda>q. fst (pcs ! q)) [i..<i + n]" using hit [OF ms] n w len by (simp add: nth_map)
      have "length (lsegs h) < 2 ^ 64" using layout_repD(6) [OF rep] unat_less_2p [of "sl_stored_len h"] by simp
      then obtain c' where touch: "touch_span ?r i n ?c = Inr c'" "coherent w c'"
        using coherent_touch_span [OF c, of i n] n by auto
      let ?c' = "if free then c' else ?c"
      have "open_cached_decrypted_segments free res ident h rg
          = Inr (Some (cut_range se (concat (map fst pcs))), res\<lparr>rr_decrypted_segments := ?c'\<rparr>)"
        using sel loop ms False p cached segs touch(1)
        by (simp add: open_cached_decrypted_segments_def cached_decrypted_segments_def)
      moreover have "coherent w ?c'" using touch(2) c by simp
      ultimately show ?thesis using p by auto
    qed
  qed
qed

lemma insert_segments_steps:
  assumes "\<forall>(i, v) \<in> set segments. true_segment w r i v" and "insert_segments r segments c = Some c'"
  shows "(cache_step w)\<^sup>*\<^sup>* c c'"
  using assms
proof (induction segments arbitrary: c)
  case (Cons p segments)
  obtain i v where p: "p = (i, v)" by (cases p)
  with Cons.prems(2) obtain outcome c1 where c1: "segment_cache_insert r i v c = Some (outcome, c1)" "insert_segments r segments c1 = Some c'"
    by (auto split: Option.bind_splits)
  have "cache_step w c c1" using Cons.prems(1) p c1(1) by (auto intro: cache_step.inserted)
  with Cons.IH [OF _ c1(2)] Cons.prems(1) show ?case by (auto intro: converse_rtranclp_into_rtranclp)
qed simp

lemma open_and_cache_exact:
  assumes rep: "layout_rep h" and r: "readable lib keys oid h pcs" and w: "w (di_cache_ref ident) = map fst pcs"
    and c: "coherent w (rr_decrypted_segments res)" and p: "\<not> rr_poisoned res" and oid: "di_payload_id ident = oid"
    and b: "range_bounds h rg = Inr se" and sp: "segmented_ciphertext_span h rg = Inr sp"
  shows "\<exists>res'. open_and_cache_decrypted_segments lib res keys ident h rg sp
      (take (unat (sp_offset sp + sp_len sp) - unat (sp_offset sp)) (drop (unat (sp_offset sp)) (concat (map snd pcs)))) =
      Some (Inr (cut_range se (concat (map fst pcs)), res')) \<and>
    (cache_step w)\<^sup>*\<^sup>* (rr_decrypted_segments res) (rr_decrypted_segments res') \<and>
    coherent w (rr_decrypted_segments res') \<and> \<not> rr_poisoned res'"
proof -
  obtain sp' i n where sp': "segmented_ciphertext_span h rg = Inr sp'"
    "unat (sp_offset sp') \<le> unat (sp_offset sp' + sp_len sp')"
    "unat (sp_offset sp' + sp_len sp') \<le> length (concat (map snd pcs))"
    "segmented_plaintext_selection h rg = Inr \<lparr>sel_start_segment = i, sel_segment_count = n\<rparr>"
    and n: "i + n \<le> length (lsegs h)"
    and open_eq: "open_segmented_payload_span_inner lib keys oid h rg sp'
        (take (unat (sp_offset sp' + sp_len sp') - unat (sp_offset sp')) (drop (unat (sp_offset sp')) (concat (map snd pcs)))) True =
      Inr \<lparr>op_plaintext = cut_range se (concat (map fst pcs)),
        op_segments = if True then map (\<lambda>q. (q, fst (pcs ! q))) [i..<i + n] else []\<rparr>"
    by (rule open_span_inner_rep [OF rep r b]) blast
  have "sp' = sp" using sp sp'(1) by simp
  have segs: "\<forall>(q, v) \<in> set (map (\<lambda>q. (q, fst (pcs ! q))) [i..<i + n]). true_segment w (di_cache_ref ident) q v"
    using n readableD(1) [OF r] w by (auto simp: true_segment_def)
  from coherent_insert_segments [OF c segs] obtain c' where
    c': "insert_segments (di_cache_ref ident) (map (\<lambda>q. (q, fst (pcs ! q))) [i..<i + n]) (rr_decrypted_segments res) = Some c'" "coherent w c'"
    by blast
  then have "(cache_step w)\<^sup>*\<^sup>* (rr_decrypted_segments res) c'" using insert_segments_steps [OF segs] by blast
  with c' open_eq p \<open>sp' = sp\<close> show ?thesis
    by (simp add: open_and_cache_decrypted_segments_def open_segmented_payload_span_with_segments_def
        cache_decrypted_segments_def oid)
qed

text \<open>A range that was read from the store is then served from the cache, when the object fits it.\<close>

lemma fill_then_hit:
  assumes rep: "layout_rep h" and r: "readable lib keys oid h pcs" and w: "w (di_cache_ref ident) = map fst pcs"
    and c: "coherent w (rr_decrypted_segments res)" and p: "\<not> rr_poisoned res" and oid: "di_payload_id ident = oid"
    and b: "range_bounds h rg = Inr se" and sp: "segmented_ciphertext_span h rg = Inr sp"
    and fits: "length pcs \<le> bc_max_entries (rr_decrypted_segments res)"
      "length (concat (map fst pcs)) \<le> unat (bc_max_bytes (rr_decrypted_segments res))"
    and filled: "open_and_cache_decrypted_segments lib res keys ident h rg sp
      (take (unat (sp_offset sp + sp_len sp) - unat (sp_offset sp)) (drop (unat (sp_offset sp)) (concat (map snd pcs)))) =
      Some (Inr (plaintext, res'))"
  shows "span_cached (rr_decrypted_segments res') (di_cache_ref ident) h rg"
proof -
  let ?c = "rr_decrypted_segments res" let ?r = "di_cache_ref ident"
  obtain sp' i n where sp': "segmented_ciphertext_span h rg = Inr sp'"
    "unat (sp_offset sp') \<le> unat (sp_offset sp' + sp_len sp')"
    "unat (sp_offset sp' + sp_len sp') \<le> length (concat (map snd pcs))"
    "segmented_plaintext_selection h rg = Inr \<lparr>sel_start_segment = i, sel_segment_count = n\<rparr>"
    and n: "i + n \<le> length (lsegs h)"
    and open_eq: "open_segmented_payload_span_inner lib keys oid h rg sp'
        (take (unat (sp_offset sp' + sp_len sp') - unat (sp_offset sp')) (drop (unat (sp_offset sp')) (concat (map snd pcs)))) True =
      Inr \<lparr>op_plaintext = cut_range se (concat (map fst pcs)),
        op_segments = if True then map (\<lambda>q. (q, fst (pcs ! q))) [i..<i + n] else []\<rparr>"
    by (rule open_span_inner_rep [OF rep r b]) blast
  have "sp' = sp" using sp sp'(1) by simp
  let ?segments = "map (\<lambda>q. (q, fst (pcs ! q))) [i..<i + n]"
  have ins: "insert_segments ?r ?segments ?c = Some (rr_decrypted_segments res')"
    using filled open_eq p \<open>sp' = sp\<close>
    by (auto simp: open_and_cache_decrypted_segments_def open_segmented_payload_span_with_segments_def
        cache_decrypted_segments_def oid)
  obtain xs where xs: "cache_ok ?c xs" and lim: "limits_ok ?c" using c by (auto simp: coherent_def)
  have len: "i + n \<le> length pcs" using n readableD(1) [OF r] by simp
  have seg: "map snd ?segments = map fst (take n (drop i pcs))"
    using len by (auto simp: list_eq_iff_nth_eq)
  have "concat (map fst pcs) = concat (map fst (take i pcs)) @ concat (map fst (take n (drop i pcs))) @ concat (map fst (drop n (drop i pcs)))"
    by (metis append_take_drop_id concat_append map_append)
  then have "length (concat (map snd ?segments)) \<le> unat (bc_max_bytes ?c)" using fits(2) unfolding seg by simp
  moreover have "length ?segments \<le> bc_max_entries ?c" using len fits(1) by simp
  moreover have "distinct (map fst ?segments)" by (simp add: comp_def)
  ultimately obtain zs where ok: "cache_ok (rr_decrypted_segments res') (zs @ map (\<lambda>(i, v). (DecryptedSegmentCacheKey_new ?r i, v)) ?segments)"
    using insert_segments_keeps [of ?c xs "[]" ?segments ?r] xs lim ins by (auto simp: held_bytes_def)
  have "segment_cache_peek (rr_decrypted_segments res') ?r (i + q) \<noteq> None" if "q < n" for q
    unfolding segment_cache_peek_rep [OF ok] using that by (simp add: map_of_eq_None_iff image_Un image_image)
  then show ?thesis using sp'(4) by (simp add: span_cached_def)
qed

section \<open>Reads of a sealed object through the cache\<close>

text \<open>
  A sealed object, the cache in any state that concurrent readers can produce, and one range: a
  lookup gives the range or nothing, a read of the ciphertext span gives the range and keeps its
  segments, and both leave a state that concurrent readers can go on with.
\<close>

definition sealed_object ::
  "crypto_lib \<Rightarrow> KeyRing \<Rightarrow> KeyRing \<Rightarrow> BackendObjectId \<Rightarrow> PayloadLayout \<Rightarrow> bytes \<Rightarrow> bytes list \<Rightarrow> SegmentedPayloadLayout \<Rightarrow> bytes \<Rightarrow> bool" where
  "sealed_object lib keys keys' oid ref ctx pts l body \<longleftrightarrow>
     hmac_law lib \<and> xchacha_law lib \<and> keyring_ok lib keys' \<and>
     (\<exists>k. primary_key keys Content = Inr k \<and> pl_key_id ref = km_id k \<and> keeps_key keys' k) \<and>
     SegmentedPayloadLayout_new ref ctx = Inr l \<and> payload_typed l \<and>
     map length pts = map plen (pl_parts ref) \<and> seal_parts lib keys oid l (pl_parts ref) pts = Inr body"

lemma sealed_objectE:
  assumes "sealed_object lib keys keys' oid ref ctx pts l body"
  obtains pcs where "layout_rep l" and "readable lib keys' oid l pcs" and "concat (map fst pcs) = concat pts"
    and "concat (map snd pcs) = body" and "map fst pcs = plain_segments (unat (pl_chunk_size ref)) pts"
proof -
  from assms obtain k where "hmac_law lib" "xchacha_law lib" "keyring_ok lib keys'" "primary_key keys Content = Inr k"
    "keeps_key keys' k" "SegmentedPayloadLayout_new ref ctx = Inr l" "pl_key_id ref = km_id k" "payload_typed l"
    "map length pts = map plen (pl_parts ref)" "seal_parts lib keys oid l (pl_parts ref) pts = Inr body"
    unfolding sealed_object_def by blast
  from seal_parts_readable [OF this] that show thesis by blast
qed

lemma sealed_object_range:
  assumes "sealed_object lib keys keys' oid ref ctx pts l body" and "range_of (concat pts) rg = Inr data"
  shows "\<exists>se. range_bounds l rg = Inr se \<and> data = cut_range se (concat pts)"
proof -
  have l: "SegmentedPayloadLayout_new ref ctx = Inr l" and lens: "map length pts = map plen (pl_parts ref)"
    using assms(1) by (auto simp: sealed_object_def)
  have "unat (sl_plaintext_len l) = length (concat pts)"
    using layout_new_rep [OF l] lens by (simp add: layout_rep_def layout_ok_def length_concat)
  from range_of_bounds [OF this, of rg] assms(2) show ?thesis by (cases "range_bounds l rg") auto
qed

lemma cached_read_exact:
  assumes "sealed_object lib keys keys' oid ref ctx pts l body"
    and "(cache_step w)\<^sup>*\<^sup>* (DecryptedSegmentCache_with_max_bytes m) (rr_decrypted_segments res)" and "unat m < 2 ^ 63"
    and "\<not> rr_poisoned res" and "di_payload_id ident = oid"
    and "w (di_cache_ref ident) = plain_segments (unat (pl_chunk_size ref)) pts"
    and "range_of (concat pts) rg = Inr data"
  shows "\<exists>found res'. open_cached_decrypted_segments free res ident l rg = Inr (found, res') \<and>
    (found = None \<or> found = Some data)"
proof -
  obtain pcs where o: "layout_rep l" "readable lib keys' oid l pcs" "concat (map fst pcs) = concat pts"
    "map fst pcs = plain_segments (unat (pl_chunk_size ref)) pts" by (rule sealed_objectE [OF assms(1)])
  obtain se where "range_bounds l rg = Inr se" and "data = cut_range se (concat pts)"
    using sealed_object_range [OF assms(1,7)] by blast
  then show ?thesis
    using open_cached_exact [OF o(1,2) _ coherent_reachable [OF assms(2,3)] assms(4,5), of rg se free] assms(6) o(3,4) by auto
qed

lemma fill_read_exact:
  assumes "sealed_object lib keys keys' oid ref ctx pts l body"
    and "coherent w (rr_decrypted_segments res)"
    and "\<not> rr_poisoned res" and "di_payload_id ident = oid"
    and "w (di_cache_ref ident) = plain_segments (unat (pl_chunk_size ref)) pts"
    and "range_of (concat pts) rg = Inr data"
  shows "\<exists>sp res' found res''. segmented_ciphertext_span l rg = Inr sp \<and>
    open_and_cache_decrypted_segments lib res keys' ident l rg sp
      (take (unat (sp_offset sp + sp_len sp) - unat (sp_offset sp)) (drop (unat (sp_offset sp)) body)) =
      Some (Inr (data, res')) \<and>
    (cache_step w)\<^sup>*\<^sup>* (rr_decrypted_segments res) (rr_decrypted_segments res') \<and>
    coherent w (rr_decrypted_segments res') \<and> \<not> rr_poisoned res' \<and>
    open_cached_decrypted_segments free res' ident l rg = Inr (found, res'') \<and>
    coherent w (rr_decrypted_segments res'') \<and> (found = None \<or> found = Some data) \<and>
    (length (w (di_cache_ref ident)) \<le> bc_max_entries (rr_decrypted_segments res) \<and>
      length (concat pts) \<le> unat (bc_max_bytes (rr_decrypted_segments res)) \<longrightarrow> found = Some data)"
proof -
  obtain pcs where o: "layout_rep l" "readable lib keys' oid l pcs" "concat (map fst pcs) = concat pts"
    "concat (map snd pcs) = body" "map fst pcs = plain_segments (unat (pl_chunk_size ref)) pts"
    by (rule sealed_objectE [OF assms(1)])
  obtain se where se: "range_bounds l rg = Inr se" and data: "data = cut_range se (concat pts)"
    using sealed_object_range [OF assms(1,6)] by blast
  obtain sp where sp: "segmented_ciphertext_span l rg = Inr sp" by (rule open_span_inner_rep [OF o(1,2) se])
  have w: "w (di_cache_ref ident) = map fst pcs" using assms(5) o(5) by simp
  obtain res' where fill: "open_and_cache_decrypted_segments lib res keys' ident l rg sp
      (take (unat (sp_offset sp + sp_len sp) - unat (sp_offset sp)) (drop (unat (sp_offset sp)) body)) =
      Some (Inr (data, res'))" "coherent w (rr_decrypted_segments res')" "\<not> rr_poisoned res'"
    "(cache_step w)\<^sup>*\<^sup>* (rr_decrypted_segments res) (rr_decrypted_segments res')"
    using open_and_cache_exact [OF o(1,2) w assms(2,3,4) se sp] unfolding o(3,4) data by blast
  have fits: "span_cached (rr_decrypted_segments res') (di_cache_ref ident) l rg"
    if "length (w (di_cache_ref ident)) \<le> bc_max_entries (rr_decrypted_segments res) \<and>
      length (concat pts) \<le> unat (bc_max_bytes (rr_decrypted_segments res))"
    using fill_then_hit [OF o(1,2) w assms(2,3,4) se sp] that fill(1) w unfolding o(3,4) data by simp
  show ?thesis
    using open_cached_exact [OF o(1,2) w fill(2,3) assms(4) se, of free] fill fits sp unfolding o(3) data by blast
qed

end
