(* ===== verification/NamespaceIndex.thy ===== *)
theory NamespaceIndex
  imports Payload Checksum OrdMap
begin

text \<open>
  The in-memory namespace index of \<open>rs3-index/src/lib.rs\<close>: the live entries by blind key, the
  prefix tokens of each entry, and the reverse map from a prefix token to its members. The
  abstract view of an index is one finite map from blind keys to an entry with its set of prefix
  tokens; every operation is an update of that map, and an index is determined by its view.
\<close>

section \<open>Data\<close>

record V3PackCarrierReference =
  pk_commit_key :: BackendObjectId
  pk_commit_version_id :: "BackendVersionId option"
  pk_body_digest :: bytes
  pk_commit_stored_len :: u64
  pk_pack_section_ordinal :: u32
  pk_pack_offset :: u64
  pk_length :: u64
  pk_pack_id :: bytes
  pk_attempt_id :: PayloadAttemptId
  pk_content_key_id :: KeyId
  pk_keyring_envelope_object_id :: BackendObjectId
  pk_keyring_envelope_digest :: bytes
  pk_pack_record_count :: u32

record V3PackRecordReference =
  pr_record_ordinal :: u32
  pr_record_offset :: u32

record V3StandaloneStreamCarrierReference =
  ss_object_id :: BackendObjectId
  ss_version_id :: "BackendVersionId option"
  ss_object_digest :: bytes
  ss_stored_len :: u64
  ss_keyring_envelope_object_id :: BackendObjectId
  ss_keyring_envelope_digest :: bytes
  ss_payload_layout :: PayloadLayout

record V3PackSelfReference =
  sf_pack_section_ordinal :: u32
  sf_pack_id :: bytes
  sf_attempt_id :: PayloadAttemptId
  sf_content_key_id :: KeyId
  sf_keyring_envelope_object_id :: BackendObjectId
  sf_keyring_envelope_digest :: bytes
  sf_pack_record_count :: u32
  sf_record_ordinal :: u32
  sf_record_offset :: u32

datatype PayloadReference =
    V3PackSelf V3PackSelfReference
  | V3Pack V3PackCarrierReference V3PackRecordReference
  | PendingPayload
  | V3StandaloneStream V3StandaloneStreamCarrierReference

record NamespaceEntry =
  ne_namespace_key_id :: KeyId
  ne_blind_key :: BlindIndexKey
  ne_object_id :: BackendObjectId
  ne_object_version_id :: "BackendVersionId option"
  ne_payload_ref :: "PayloadReference option"
  ne_manifest_id :: ManifestId
  ne_content_len :: u64
  ne_modified_at_ms :: i64
  ne_generation :: Sequence
  ne_retention :: "RetentionPolicy option"
  ne_legal_hold :: "LegalHoldStatus option"

record NamespaceIndex =
  ni_entries :: "(BlindIndexKey, NamespaceEntry) btmap"
  ni_entry_prefixes :: "(BlindIndexKey, PrefixToken set) btmap"
  ni_prefixes :: "(PrefixToken, BlindIndexKey set) btmap"

record NamespaceIndexKeySnapshot =
  sn_blind_key :: BlindIndexKey
  sn_entry :: "NamespaceEntry option"
  sn_prefix_tokens :: "PrefixToken list"

section \<open>Operations\<close>

definition NamespaceIndex_new :: NamespaceIndex where
  "NamespaceIndex_new = \<lparr>ni_entries = [], ni_entry_prefixes = [], ni_prefixes = []\<rparr>"

text \<open>The body of the loop that takes a key out of the members of one prefix token.\<close>

definition leave_prefix :: "BlindIndexKey \<Rightarrow> NamespaceIndex \<Rightarrow> PrefixToken \<Rightarrow> NamespaceIndex" where
  "leave_prefix blind_key idx token =
     (case bt_get (ni_prefixes idx) token of
        Some members \<Rightarrow>
          (let members = members - {blind_key} in
           if members = {} then idx\<lparr>ni_prefixes := bt_remove token (ni_prefixes idx)\<rparr>
           else idx\<lparr>ni_prefixes := bt_insert token members (ni_prefixes idx)\<rparr>)
      | None \<Rightarrow> idx)"

definition remove_prefix_membership :: "NamespaceIndex \<Rightarrow> BlindIndexKey \<Rightarrow> NamespaceIndex" where
  "remove_prefix_membership idx blind_key =
     (case bt_get (ni_entry_prefixes idx) blind_key of
        None \<Rightarrow> idx
      | Some prefix_tokens \<Rightarrow>
          foldl (leave_prefix blind_key)
            (idx\<lparr>ni_entry_prefixes := bt_remove blind_key (ni_entry_prefixes idx)\<rparr>)
            (sorted_list_of_set prefix_tokens))"

definition ni_members :: "NamespaceIndex \<Rightarrow> PrefixToken \<Rightarrow> BlindIndexKey set" where
  "ni_members idx token = (case bt_get (ni_prefixes idx) token of None \<Rightarrow> {} | Some members \<Rightarrow> members)"

definition join_prefix :: "BlindIndexKey \<Rightarrow> NamespaceIndex \<Rightarrow> PrefixToken \<Rightarrow> NamespaceIndex" where
  "join_prefix blind_key idx token =
     idx\<lparr>ni_prefixes := bt_insert token (insert blind_key (ni_members idx token)) (ni_prefixes idx)\<rparr>"

definition index_upsert :: "NamespaceIndex \<Rightarrow> NamespaceEntry \<Rightarrow> PrefixToken list \<Rightarrow> NamespaceIndex" where
  "index_upsert idx entry prefix_tokens =
     (let blind_key = ne_blind_key entry;
          prefix_set = set prefix_tokens;
          idx = remove_prefix_membership idx blind_key;
          idx = foldl (join_prefix blind_key) idx (sorted_list_of_set prefix_set);
          idx = (if prefix_set \<noteq> {}
                 then idx\<lparr>ni_entry_prefixes := bt_insert blind_key prefix_set (ni_entry_prefixes idx)\<rparr>
                 else idx)
      in idx\<lparr>ni_entries := bt_insert blind_key entry (ni_entries idx)\<rparr>)"

definition upsert_without_prefixes :: "NamespaceIndex \<Rightarrow> NamespaceEntry \<Rightarrow> NamespaceIndex" where
  "upsert_without_prefixes idx entry = index_upsert idx entry []"

definition index_head :: "NamespaceIndex \<Rightarrow> BlindIndexKey \<Rightarrow> NamespaceEntry option" where
  "index_head idx blind_key = bt_get (ni_entries idx) blind_key"

definition live_entries :: "NamespaceIndex \<Rightarrow> NamespaceEntry list" where
  "live_entries idx = bt_values (ni_entries idx)"

definition prefix_tokens :: "NamespaceIndex \<Rightarrow> BlindIndexKey \<Rightarrow> PrefixToken list" where
  "prefix_tokens idx blind_key =
     (case bt_get (ni_entry_prefixes idx) blind_key of None \<Rightarrow> [] | Some tokens \<Rightarrow> sorted_list_of_set tokens)"

definition snapshot_key :: "NamespaceIndex \<Rightarrow> BlindIndexKey \<Rightarrow> NamespaceIndexKeySnapshot" where
  "snapshot_key idx blind_key = \<lparr>sn_blind_key = blind_key, sn_entry = bt_get (ni_entries idx) blind_key,
     sn_prefix_tokens = (case bt_get (ni_entry_prefixes idx) blind_key of
        None \<Rightarrow> [] | Some tokens \<Rightarrow> sorted_list_of_set tokens)\<rparr>"

definition index_remove :: "NamespaceIndex \<Rightarrow> BlindIndexKey \<Rightarrow> NamespaceIndex" where
  "index_remove idx blind_key =
     remove_prefix_membership (idx\<lparr>ni_entries := bt_remove blind_key (ni_entries idx)\<rparr>) blind_key"

definition restore_key :: "NamespaceIndex \<Rightarrow> NamespaceIndexKeySnapshot \<Rightarrow> NamespaceIndex" where
  "restore_key idx snapshot =
     (let idx = idx\<lparr>ni_entries := bt_remove (sn_blind_key snapshot) (ni_entries idx)\<rparr>;
          idx = remove_prefix_membership idx (sn_blind_key snapshot)
      in case sn_entry snapshot of
           None \<Rightarrow> idx
         | Some entry \<Rightarrow> index_upsert idx entry (sn_prefix_tokens snapshot))"

definition list_prefix :: "NamespaceIndex \<Rightarrow> PrefixToken \<Rightarrow> NamespaceEntry list" where
  "list_prefix idx token =
     (case bt_get (ni_prefixes idx) token of
        None \<Rightarrow> []
      | Some members \<Rightarrow> List.map_filter (bt_get (ni_entries idx)) (sorted_list_of_set members))"

section \<open>Links between the two prefix maps\<close>

definition ni_tokens :: "NamespaceIndex \<Rightarrow> BlindIndexKey \<Rightarrow> PrefixToken set" where
  "ni_tokens idx k = (case bt_get (ni_entry_prefixes idx) k of None \<Rightarrow> {} | Some tokens \<Rightarrow> tokens)"

lemma ni_frame [simp]:
  "ni_members (idx\<lparr>ni_entries := x\<rparr>) = ni_members idx" "ni_members (idx\<lparr>ni_entry_prefixes := y\<rparr>) = ni_members idx"
  "ni_tokens (idx\<lparr>ni_entries := x\<rparr>) = ni_tokens idx" "ni_tokens (idx\<lparr>ni_prefixes := z\<rparr>) = ni_tokens idx"
  by (simp_all add: ni_members_def ni_tokens_def fun_eq_iff)

definition ni_linked :: "NamespaceIndex \<Rightarrow> bool" where
  "ni_linked idx \<longleftrightarrow> bt_ok (ni_entries idx) \<and> bt_ok (ni_entry_prefixes idx) \<and> bt_ok (ni_prefixes idx) \<and>
     (\<forall>k e. bt_get (ni_entries idx) k = Some e \<longrightarrow> ne_blind_key e = k) \<and>
     (\<forall>k T. bt_get (ni_entry_prefixes idx) k = Some T \<longrightarrow> T \<noteq> {} \<and> finite T) \<and>
     (\<forall>t M. bt_get (ni_prefixes idx) t = Some M \<longrightarrow> M \<noteq> {} \<and> finite M) \<and>
     (\<forall>t k. k \<in> ni_members idx t \<longleftrightarrow> t \<in> ni_tokens idx k)"

definition ni_ok :: "NamespaceIndex \<Rightarrow> bool" where
  "ni_ok idx \<longleftrightarrow> ni_linked idx \<and> (\<forall>k. bt_get (ni_entries idx) k = None \<longrightarrow> ni_tokens idx k = {})"

definition ni_view :: "NamespaceIndex \<Rightarrow> BlindIndexKey \<Rightarrow> (NamespaceEntry \<times> PrefixToken set) option" where
  "ni_view idx k = map_option (\<lambda>e. (e, ni_tokens idx k)) (bt_get (ni_entries idx) k)"

text \<open>What a change of the prefix maps does to members, with everything else untouched.\<close>

definition members_become ::
  "NamespaceIndex \<Rightarrow> (PrefixToken \<Rightarrow> BlindIndexKey set) \<Rightarrow> NamespaceIndex \<Rightarrow> bool" where
  "members_become idx M idx' \<longleftrightarrow> ni_entries idx' = ni_entries idx \<and> ni_entry_prefixes idx' = ni_entry_prefixes idx \<and>
     (bt_ok (ni_prefixes idx) \<longrightarrow> bt_ok (ni_prefixes idx')) \<and> ni_members idx' = M \<and>
     ((\<forall>t M. bt_get (ni_prefixes idx) t = Some M \<longrightarrow> M \<noteq> {} \<and> finite M) \<longrightarrow>
      (\<forall>t M. bt_get (ni_prefixes idx') t = Some M \<longrightarrow> M \<noteq> {} \<and> finite M))"

lemma members_becomeD:
  assumes "members_become a M b"
  shows "ni_entries b = ni_entries a" "ni_entry_prefixes b = ni_entry_prefixes a" "ni_members b t = M t"
    "bt_ok (ni_prefixes a) \<Longrightarrow> bt_ok (ni_prefixes b)"
    "(\<And>t N. bt_get (ni_prefixes a) t = Some N \<Longrightarrow> N \<noteq> {} \<and> finite N) \<Longrightarrow>
      bt_get (ni_prefixes b) t = Some N \<Longrightarrow> N \<noteq> {} \<and> finite N"
  using assms unfolding members_become_def by blast+

lemma ni_linkedI:
  assumes "bt_ok (ni_entries idx)" "bt_ok (ni_entry_prefixes idx)" "bt_ok (ni_prefixes idx)"
    "\<And>k e. bt_get (ni_entries idx) k = Some e \<Longrightarrow> ne_blind_key e = k"
    "\<And>k T. bt_get (ni_entry_prefixes idx) k = Some T \<Longrightarrow> T \<noteq> {} \<and> finite T"
    "\<And>t M. bt_get (ni_prefixes idx) t = Some M \<Longrightarrow> M \<noteq> {} \<and> finite M"
    "\<And>t k. k \<in> ni_members idx t \<longleftrightarrow> t \<in> ni_tokens idx k"
  shows "ni_linked idx"
  unfolding ni_linked_def using assms by blast

lemma ni_linkedD:
  assumes "ni_linked idx"
  shows "bt_ok (ni_entries idx)" "bt_ok (ni_entry_prefixes idx)" "bt_ok (ni_prefixes idx)"
    "bt_get (ni_entries idx) k = Some e \<Longrightarrow> ne_blind_key e = k"
    "bt_get (ni_entry_prefixes idx) k = Some T \<Longrightarrow> T \<noteq> {} \<and> finite T"
    "bt_get (ni_prefixes idx) t = Some M \<Longrightarrow> M \<noteq> {} \<and> finite M"
    "k \<in> ni_members idx t \<longleftrightarrow> t \<in> ni_tokens idx k"
  using assms unfolding ni_linked_def by blast+

lemma members_become_trans:
  "members_become a M b \<Longrightarrow> members_become b N c \<Longrightarrow> members_become a N c"
  unfolding members_become_def by metis

lemma leave_prefix_members:
  "members_become idx ((ni_members idx)(t := ni_members idx t - {k})) (leave_prefix k idx t)"
  by (cases "bt_get (ni_prefixes idx) t")
    (auto simp: members_become_def leave_prefix_def ni_members_def Let_def bt_ok_insert bt_ok_remove
      bt_get_insert bt_get_remove fun_eq_iff split: if_splits)

lemma join_prefix_members:
  "members_become idx ((ni_members idx)(t := insert k (ni_members idx t))) (join_prefix k idx t)"
  by (auto simp: members_become_def join_prefix_def ni_members_def bt_ok_insert bt_get_insert fun_eq_iff
      split: option.splits if_splits)

lemma leave_prefixes_members:
  "members_become idx (\<lambda>t. if t \<in> set ts then ni_members idx t - {k} else ni_members idx t)
     (foldl (leave_prefix k) idx ts)"
proof (induction ts rule: rev_induct)
  case (snoc t ts)
  have M: "ni_members (foldl (leave_prefix k) idx ts)
      = (\<lambda>t. if t \<in> set ts then ni_members idx t - {k} else ni_members idx t)"
    using snoc by (simp add: members_become_def)
  have "members_become (foldl (leave_prefix k) idx ts)
      (\<lambda>u. if u \<in> set (ts @ [t]) then ni_members idx u - {k} else ni_members idx u)
      (leave_prefix k (foldl (leave_prefix k) idx ts) t)"
    using leave_prefix_members [of "foldl (leave_prefix k) idx ts" t k] unfolding M
    by (rule back_subst [of "\<lambda>M. members_become _ M _"]) (auto simp: fun_eq_iff)
  with members_become_trans [OF snoc] show ?case by simp
qed (simp add: members_become_def)

lemma join_prefixes_members:
  "members_become idx (\<lambda>t. if t \<in> set ts then insert k (ni_members idx t) else ni_members idx t)
     (foldl (join_prefix k) idx ts)"
proof (induction ts rule: rev_induct)
  case (snoc t ts)
  have M: "ni_members (foldl (join_prefix k) idx ts)
      = (\<lambda>t. if t \<in> set ts then insert k (ni_members idx t) else ni_members idx t)"
    using snoc by (simp add: members_become_def)
  have "members_become (foldl (join_prefix k) idx ts)
      (\<lambda>u. if u \<in> set (ts @ [t]) then insert k (ni_members idx u) else ni_members idx u)
      (join_prefix k (foldl (join_prefix k) idx ts) t)"
    using join_prefix_members [of "foldl (join_prefix k) idx ts" t k] unfolding M
    by (rule back_subst [of "\<lambda>M. members_become _ M _"]) (auto simp: fun_eq_iff)
  with members_become_trans [OF snoc] show ?case by simp
qed (simp add: members_become_def)

section \<open>The operations on the view\<close>

lemma remove_prefix_membership_props:
  assumes "ni_linked idx"
  shows "ni_linked (remove_prefix_membership idx k) \<and>
    ni_entries (remove_prefix_membership idx k) = ni_entries idx \<and>
    ni_tokens (remove_prefix_membership idx k) = (ni_tokens idx)(k := {})"
proof (cases "bt_get (ni_entry_prefixes idx) k")
  case None
  then show ?thesis using assms by (simp add: remove_prefix_membership_def ni_tokens_def fun_eq_iff)
next
  case (Some T)
  let ?a = "idx\<lparr>ni_entry_prefixes := bt_remove k (ni_entry_prefixes idx)\<rparr>"
  define b where "b = foldl (leave_prefix k) ?a (sorted_list_of_set T)"
  have T: "finite T" "ni_tokens idx k = T" using ni_linkedD(5) [OF assms Some] Some by (simp_all add: ni_tokens_def)
  have b: "remove_prefix_membership idx k = b" using Some by (simp add: remove_prefix_membership_def b_def)
  have m: "members_become ?a (\<lambda>t. if t \<in> T then ni_members idx t - {k} else ni_members idx t) b"
    using leave_prefixes_members [of ?a "sorted_list_of_set T" k] T(1) unfolding ni_frame b_def by simp
  note D = members_becomeD [OF m] and L = ni_linkedD [OF assms]
  have tok: "ni_tokens b = (ni_tokens idx)(k := {})"
    by (simp add: ni_tokens_def D(2) bt_get_remove fun_eq_iff)
  have "ni_linked b"
  proof (rule ni_linkedI)
    show "j \<in> ni_members b t \<longleftrightarrow> t \<in> ni_tokens b j" for t j
      using L(7) [of j t] T(2) unfolding tok D(3) by auto
    show "M \<noteq> {} \<and> finite M" if "bt_get (ni_prefixes b) t = Some M" for t M
      using D(5) [OF _ that] L(6) by simp
    show "N \<noteq> {} \<and> finite N" if "bt_get (ni_entry_prefixes b) j = Some N" for j N
      using that L(5) by (simp add: D(2) bt_get_remove split: if_splits)
  qed (use D(1,2,4) L(1-4) in \<open>simp_all add: bt_ok_remove\<close>)
  with b D(1) tok show ?thesis by simp
qed

lemma index_remove_props:
  assumes "ni_ok idx"
  shows "ni_ok (index_remove idx k) \<and> ni_view (index_remove idx k) = (ni_view idx)(k := None)"
proof -
  let ?a = "idx\<lparr>ni_entries := bt_remove k (ni_entries idx)\<rparr>"
  have a: "ni_linked ?a" using assms by (simp add: ni_ok_def ni_linked_def bt_ok_remove bt_get_remove)
  from remove_prefix_membership_props [OF a, of k] assms show ?thesis
    by (auto simp: index_remove_def ni_ok_def ni_view_def bt_get_remove fun_eq_iff)
qed

lemma index_upsert_props:
  assumes "ni_linked idx" and keep: "\<And>j. bt_get (ni_entries idx) j = None \<Longrightarrow> j \<noteq> ne_blind_key e \<Longrightarrow> ni_tokens idx j = {}"
  shows "ni_ok (index_upsert idx e ts) \<and> ni_view (index_upsert idx e ts) = (ni_view idx)(ne_blind_key e \<mapsto> (e, set ts))"
proof -
  let ?k = "ne_blind_key e"
  define a where "a = remove_prefix_membership idx ?k"
  define b where "b = foldl (join_prefix ?k) a (sorted_list_of_set (set ts))"
  define d where "d = index_upsert idx e ts"
  have a: "ni_linked a" "ni_entries a = ni_entries idx" "ni_tokens a = (ni_tokens idx)(?k := {})"
    using remove_prefix_membership_props [OF assms(1), of ?k] by (simp_all add: a_def)
  have m: "members_become a (\<lambda>t. if t \<in> set ts then insert ?k (ni_members a t) else ni_members a t) b"
    using join_prefixes_members [of a "sorted_list_of_set (set ts)" ?k] by (simp add: b_def)
  note D = members_becomeD [OF m] and L = ni_linkedD [OF a(1)]
  have f: "ni_prefixes d = ni_prefixes b" "ni_entries d = bt_insert ?k e (ni_entries idx)"
    "ni_entry_prefixes d = (if set ts \<noteq> {} then bt_insert ?k (set ts) (ni_entry_prefixes a) else ni_entry_prefixes a)"
    using D(1,2) a(2) unfolding d_def index_upsert_def Let_def a_def [symmetric] b_def [symmetric] by simp_all
  have tok: "ni_tokens d = (ni_tokens idx)(?k := set ts)"
    using a(3) unfolding ni_tokens_def fun_eq_iff f(3) by (auto simp: bt_get_insert)
  have mem: "ni_members d t = (if t \<in> set ts then insert ?k (ni_members a t) else ni_members a t)" for t
    unfolding D(3) [of t, symmetric] by (simp add: ni_members_def f(1))
  have "ni_linked d"
  proof (rule ni_linkedI)
    show "j \<in> ni_members d t \<longleftrightarrow> t \<in> ni_tokens d j" for t j
      using L(7) [of j t] unfolding tok mem a(3) by auto
    show "M \<noteq> {} \<and> finite M" if "bt_get (ni_prefixes d) t = Some M" for t M
      using D(5) [OF L(6) that [unfolded f(1)]] .
    show "N \<noteq> {} \<and> finite N" if "bt_get (ni_entry_prefixes d) j = Some N" for j N
      using that L(5) by (auto simp: f(3) bt_get_insert split: if_splits)
    show "ne_blind_key x = j" if "bt_get (ni_entries d) j = Some x" for j x
      using that L(4) a(2) by (auto simp: f(2) bt_get_insert split: if_splits)
  qed (use D(4) L(1-3) a(2) in \<open>simp_all add: f bt_ok_insert\<close>)
  then show ?thesis
    using keep tok unfolding d_def [symmetric] by (simp add: ni_ok_def ni_view_def f(2) bt_get_insert fun_eq_iff)
qed

lemma ni_ok_new: "ni_ok NamespaceIndex_new \<and> ni_view NamespaceIndex_new = Map.empty"
  by (simp add: NamespaceIndex_new_def ni_ok_def ni_linked_def ni_tokens_def ni_members_def ni_view_def bt_ok_def
      bt_get_def fun_eq_iff)

lemma ni_tokens_finite: "ni_linked idx \<Longrightarrow> finite (ni_tokens idx k)"
  by (auto simp: ni_linked_def ni_tokens_def split: option.splits)

lemma ni_members_finite: "ni_linked idx \<Longrightarrow> finite (ni_members idx t)"
  by (auto simp: ni_linked_def ni_members_def split: option.splits)

text \<open>An index is determined by its view.\<close>

lemma ni_ext:
  assumes "ni_ok a" and "ni_ok b" and "ni_view a = ni_view b"
  shows "a = b"
proof -
  have e: "bt_get (ni_entries a) k = bt_get (ni_entries b) k" for k
    using fun_cong [OF assms(3), of k]
    by (cases "bt_get (ni_entries a) k"; cases "bt_get (ni_entries b) k") (simp_all add: ni_view_def)
  have t: "ni_tokens a k = ni_tokens b k" for k
    using fun_cong [OF assms(3), of k] assms(1,2) e [of k]
    by (cases "bt_get (ni_entries b) k") (simp_all add: ni_view_def ni_ok_def)
  have m: "ni_members a t = ni_members b t" for t
    using assms(1,2) t by (auto simp: ni_ok_def ni_linked_def)
  have p: "bt_get (ni_entry_prefixes a) k = bt_get (ni_entry_prefixes b) k" for k
    using t [of k] assms(1,2) by (auto simp: ni_tokens_def ni_ok_def ni_linked_def split: option.splits)
  have q: "bt_get (ni_prefixes a) k = bt_get (ni_prefixes b) k" for k
    using m [of k] assms(1,2) by (auto simp: ni_members_def ni_ok_def ni_linked_def split: option.splits)
  have "ni_entries a = ni_entries b" "ni_entry_prefixes a = ni_entry_prefixes b" "ni_prefixes a = ni_prefixes b"
    using assms(1,2) e p q by (auto simp: ni_ok_def ni_linked_def intro: bt_ext)
  then show ?thesis by simp
qed

section \<open>Rollback\<close>

text \<open>
  What a transaction needs of an index: point updates of its view, and that the view determines
  the index. Then putting back the old value of one key undoes whatever was staged on that key.
\<close>

locale transactional_index =
  fixes view :: "'i \<Rightarrow> 'k \<Rightarrow> 'v option"
    and put :: "'k \<Rightarrow> 'v \<Rightarrow> 'i \<Rightarrow> 'i"
    and del :: "'k \<Rightarrow> 'i \<Rightarrow> 'i"
    and ok :: "'i \<Rightarrow> bool"
    and good :: "'k \<Rightarrow> 'v \<Rightarrow> bool"
  assumes ok_put: "ok i \<Longrightarrow> good k v \<Longrightarrow> ok (put k v i)"
    and ok_del: "ok i \<Longrightarrow> ok (del k i)"
    and view_put: "ok i \<Longrightarrow> good k v \<Longrightarrow> view (put k v i) = (view i)(k \<mapsto> v)"
    and view_del: "ok i \<Longrightarrow> view (del k i) = (view i)(k := None)"
    and view_good: "ok i \<Longrightarrow> view i k = Some v \<Longrightarrow> good k v"
    and view_ext: "ok i \<Longrightarrow> ok j \<Longrightarrow> view i = view j \<Longrightarrow> i = j"
begin

lemma undo:
  assumes "ok i" and "ok j" and "\<And>l. l \<noteq> k \<Longrightarrow> view j l = view i l"
  shows "(case view i k of None \<Rightarrow> del k j | Some v \<Rightarrow> put k v (del k j)) = i"
proof (cases "view i k")
  case None
  then show ?thesis using assms by (auto intro!: view_ext simp: ok_del view_del fun_eq_iff)
next
  case (Some v)
  then have "good k v" using assms(1) view_good by blast
  with Some show ?thesis
    using assms by (auto intro!: view_ext simp: ok_put ok_del view_put view_del fun_eq_iff)
qed

lemma put_put: "ok i \<Longrightarrow> good k v \<Longrightarrow> good k w \<Longrightarrow> put k v (put k w i) = put k v i"
  by (rule view_ext) (simp_all add: ok_put view_put)

lemma put_commute:
  "ok i \<Longrightarrow> good k v \<Longrightarrow> good l w \<Longrightarrow> k \<noteq> l \<Longrightarrow> put k v (put l w i) = put l w (put k v i)"
  by (rule view_ext) (simp_all add: ok_put view_put fun_upd_twist)

lemma del_put: "ok i \<Longrightarrow> good k v \<Longrightarrow> view i k = None \<Longrightarrow> del k (put k v i) = i"
  by (rule view_ext) (auto simp: ok_put ok_del view_put view_del)

end

lemma index_upsert_ok:
  assumes "ni_ok idx"
  shows "ni_ok (index_upsert idx e ts)" and "ni_view (index_upsert idx e ts) = (ni_view idx)(ne_blind_key e \<mapsto> (e, set ts))"
  using index_upsert_props [of idx e ts] assms by (simp_all add: ni_ok_def)

interpretation nsi: transactional_index ni_view
  "\<lambda>k v idx. index_upsert idx (fst v) (sorted_list_of_set (snd v))" "\<lambda>k idx. index_remove idx k"
  ni_ok "\<lambda>k v. ne_blind_key (fst v) = k \<and> finite (snd v)"
proof
  fix i k v
  assume "ni_ok i" and "ni_view i k = Some v"
  then show "ne_blind_key (fst v) = k \<and> finite (snd v)"
    by (auto simp: ni_view_def ni_ok_def ni_tokens_finite dest: ni_linkedD)
qed (use index_upsert_ok index_remove_props ni_ext in auto)

lemma restore_snapshot:
  assumes "ni_ok i" and "ni_ok j"
  shows "restore_key j (snapshot_key i k) =
    (case ni_view i k of None \<Rightarrow> index_remove j k
     | Some v \<Rightarrow> index_upsert (index_remove j k) (fst v) (sorted_list_of_set (snd v)))"
proof -
  have "sn_prefix_tokens (snapshot_key i k) = sorted_list_of_set (ni_tokens i k)"
    by (simp add: snapshot_key_def ni_tokens_def split: option.splits)
  then show ?thesis
    by (cases "bt_get (ni_entries i) k")
      (simp_all add: restore_key_def snapshot_key_def index_remove_def ni_view_def Let_def)
qed

lemma restore_undoes:
  assumes "ni_ok i" and "ni_ok j" and "\<And>l. l \<noteq> k \<Longrightarrow> ni_view j l = ni_view i l"
  shows "restore_key j (snapshot_key i k) = i"
  unfolding restore_snapshot [OF assms(1,2)] by (rule nsi.undo [OF assms])

text \<open>Staged changes of one key: an upsert of an entry for it, or its removal.\<close>

fun staged :: "BlindIndexKey \<Rightarrow> NamespaceIndex \<Rightarrow> (NamespaceEntry \<times> PrefixToken list) option \<Rightarrow> NamespaceIndex" where
  "staged k idx None = index_remove idx k"
| "staged k idx (Some (e, ts)) = index_upsert idx e ts"

lemma staged_keeps:
  assumes "ni_ok idx" and "\<forall>(e, ts) \<in> set (List.map_filter id changes). ne_blind_key e = k"
  shows "ni_ok (foldl (staged k) idx changes) \<and> (\<forall>l. l \<noteq> k \<longrightarrow> ni_view (foldl (staged k) idx changes) l = ni_view idx l)"
  using assms(2)
proof (induction changes rule: rev_induct)
  case (snoc c cs)
  then have IH: "ni_ok (foldl (staged k) idx cs)" "\<forall>l. l \<noteq> k \<longrightarrow> ni_view (foldl (staged k) idx cs) l = ni_view idx l"
    by (auto simp: List.map_filter_def)
  show ?case
  proof (cases c)
    case None
    then show ?thesis using IH index_remove_props [OF IH(1), of k] by auto
  next
    case (Some v)
    obtain e ts where "v = (e, ts)" by (cases v)
    with Some show ?thesis
      using IH index_upsert_ok [OF IH(1), of e ts] snoc.prems by (simp add: List.map_filter_def)
  qed
qed (use assms(1) in simp)

lemma rollback_exact:
  assumes "ni_ok idx" and "\<forall>(e, ts) \<in> set (List.map_filter id changes). ne_blind_key e = k"
  shows "restore_key (foldl (staged k) idx changes) (snapshot_key idx k) = idx"
  using staged_keeps [OF assms] by (intro restore_undoes [OF assms(1)]) auto

section \<open>Queries\<close>

lemma map_filter_total: "\<forall>x \<in> set xs. f x = Some (g x) \<Longrightarrow> List.map_filter f xs = map g xs"
  by (induction xs) (simp_all add: List.map_filter_simps)

lemma list_prefix_view:
  assumes "ni_ok idx"
  shows "list_prefix idx t = map (\<lambda>k. fst (the (ni_view idx k)))
    (sorted_list_of_set {k. \<exists>e T. ni_view idx k = Some (e, T) \<and> t \<in> T})"
proof -
  have L: "k \<in> ni_members idx t \<longleftrightarrow> t \<in> ni_tokens idx k" for k using assms by (simp add: ni_ok_def ni_linkedD)
  have members: "{k. \<exists>e T. ni_view idx k = Some (e, T) \<and> t \<in> T} = ni_members idx t"
    using assms L by (auto simp: ni_view_def ni_ok_def)
  have "list_prefix idx t = List.map_filter (bt_get (ni_entries idx)) (sorted_list_of_set (ni_members idx t))"
    by (cases "bt_get (ni_prefixes idx) t") (simp_all add: list_prefix_def ni_members_def List.map_filter_simps)
  also have "\<dots> = map (\<lambda>k. fst (the (ni_view idx k))) (sorted_list_of_set (ni_members idx t))"
  proof (rule map_filter_total, rule ballI)
    fix k assume "k \<in> set (sorted_list_of_set (ni_members idx t))"
    then have "t \<in> ni_tokens idx k" using L ni_members_finite [of idx t] assms by (simp add: ni_ok_def)
    then obtain e where "bt_get (ni_entries idx) k = Some e" using assms by (force simp: ni_ok_def)
    then show "bt_get (ni_entries idx) k = Some (fst (the (ni_view idx k)))" by (simp add: ni_view_def)
  qed
  finally show ?thesis unfolding members .
qed

lemma index_head_view: "index_head idx k = map_option fst (ni_view idx k)"
  by (simp add: index_head_def ni_view_def option.map_comp comp_def option.map_ident)

section \<open>Histories\<close>

text \<open>A change of the index (upsert or removal), and the same change of a plain map.\<close>

fun index_apply :: "NamespaceIndex \<Rightarrow> NamespaceEntry \<times> PrefixToken list + BlindIndexKey \<Rightarrow> NamespaceIndex" where
  "index_apply idx (Inl (e, ts)) = index_upsert idx e ts"
| "index_apply idx (Inr k) = index_remove idx k"

fun view_apply ::
  "(BlindIndexKey \<rightharpoonup> NamespaceEntry \<times> PrefixToken set) \<Rightarrow> NamespaceEntry \<times> PrefixToken list + BlindIndexKey \<Rightarrow>
    (BlindIndexKey \<rightharpoonup> NamespaceEntry \<times> PrefixToken set)" where
  "view_apply m (Inl (e, ts)) = m(ne_blind_key e \<mapsto> (e, set ts))"
| "view_apply m (Inr k) = m(k := None)"

lemma index_history:
  "ni_ok (foldl index_apply NamespaceIndex_new ops) \<and>
   ni_view (foldl index_apply NamespaceIndex_new ops) = foldl view_apply Map.empty ops"
proof (induction ops rule: rev_induct)
  case (snoc x ops)
  then show ?case
    using index_upsert_ok [of "foldl index_apply NamespaceIndex_new ops"] index_remove_props [of "foldl index_apply NamespaceIndex_new ops"]
    by (cases x) auto
qed (simp add: ni_ok_new)

end
