(* ===== verification/SealExample.thy ===== *)
theory SealExample
  imports SegmentReads NamespaceIndex Completion
begin

text \<open>
  A concrete key ring and a concrete object of two parts, on the crypto packages of
  \<open>plain_lib\<close>. They show that the hypotheses of the theorems on keys, sealed payloads and cached
  reads can be met together.
\<close>

definition example_material :: "string \<Rightarrow> KeyPurpose \<Rightarrow> KeyStatus \<Rightarrow> u8 \<Rightarrow> KeyMaterial" where
  "example_material i purpose status b =
     \<lparr>km_descriptor = \<lparr>kd_id = lit i, kd_purpose = purpose, kd_status = status, kd_created_at_ms = 0,
        kd_public_key = None\<rparr>, km_secret = replicate 32 b\<rparr>"

definition example_keys :: KeyRing where
  "example_keys =
     [example_material ''n1'' Namespace Primary 1, example_material ''c1'' Content Primary 2,
      example_material ''m1'' Metadata Primary 3, example_material ''s1'' CheckpointSigning Primary 4]"

text \<open>The same ring after a rotation of the content key: the old one only serves lookups.\<close>

definition rotated_keys :: KeyRing where
  "rotated_keys =
     [example_material ''n1'' Namespace Primary 1, example_material ''c2'' Content Primary 5,
      example_material ''c1'' Content Enabled 2, example_material ''c0'' Content Retired 6,
      example_material ''m1'' Metadata Primary 3, example_material ''s1'' CheckpointSigning Primary 4]"

abbreviation content_key :: KeyMaterial where
  "content_key \<equiv> example_material ''c1'' Content Primary 2"

text \<open>An object of two parts, of five and two bytes, in segments of four bytes.\<close>

definition example_payload :: PayloadLayout where
  "example_payload = \<lparr>pl_chunk_size = 4, pl_plaintext_len = 7, pl_key_id = lit ''c1'', pl_carrier_id = replicate 32 9,
     pl_parts = [\<lparr>pp_part_number = 1, pp_attempt_id = replicate 32 7, pp_plaintext_len = 5\<rparr>,
       \<lparr>pp_part_number = 3, pp_attempt_id = replicate 32 8, pp_plaintext_len = 2\<rparr>]\<rparr>"

definition example_parts :: "bytes list" where
  "example_parts = [[10, 11, 12, 13, 14], [15, 16]]"

lemmas example_key_defs = example_keys_def rotated_keys_def example_material_def lit_def

lemma example_keys_ok: "keyring_ok plain_lib example_keys" "keyring_ok plain_lib rotated_keys"
proof -
  have "length (filter (primary_for p) example_keys) \<le> 1" "length (filter (primary_for p) rotated_keys) \<le> 1" for p
    by (cases p; simp add: example_key_defs primary_for_def)+
  then show "keyring_ok plain_lib example_keys" "keyring_ok plain_lib rotated_keys"
    by (simp_all add: keyring_ok_def example_key_defs public_key_matches_def primary_for_def)
qed

lemma example_primary:
  "primary_key example_keys Content = Inr content_key"
  "primary_key example_keys Metadata = Inr (example_material ''m1'' Metadata Primary 3)"
  "primary_key example_keys CheckpointSigning = Inr (example_material ''s1'' CheckpointSigning Primary 4)"
  by (simp_all add: primary_key_def primary_for_def example_key_defs)

lemma example_keeps: "keeps_key rotated_keys content_key"
  by (simp add: keeps_key_def example_key_defs)

lemma example_payload_ok:
  "layout_ok example_payload" "layout_len example_payload = 55" "pl_key_id example_payload = km_id content_key"
  "length (pl_carrier_id example_payload) = 32" "list_all (\<lambda>p. length (pp_attempt_id p) = 32) (pl_parts example_payload)"
  "map length example_parts = map plen (pl_parts example_payload)"
  by (simp_all add: layout_ok_def layout_bounds_ok_def layout_len_def sealed_len_def example_payload_def example_parts_def
      example_material_def lit_def MAX_PAYLOAD_PARTS_def)

definition example_options :: RepositoryOptions where
  "example_options = \<lparr>ro_payload_segment_size = 4, ro_adaptive_payload_segment_size = False,
     ro_decrypted_segment_cache_max_bytes = 1024, ro_default_retention = None\<rparr>"

definition example_identity :: DecryptedSegmentIdentity where
  "example_identity = \<lparr>di_cache_ref = BackendObjectRef_latest [2], di_payload_id = [2]\<rparr>"

definition example_contents :: contents where
  "example_contents r = plain_segments 4 example_parts"

definition example_section :: V3PayloadSectionCacheKey where
  "example_section = \<lparr>sk_carrier = Standalone [2] None [3], sk_payload_id = [2], sk_offset = 0, sk_length = 2\<rparr>"

lemmas example_cache_defs = example_options_def example_identity_def example_contents_def RepositoryResources_new_def
  example_payload_def plain_segments_def chunks_def

lemma example_object:
  "\<exists>l body. sealed_object plain_lib example_keys rotated_keys [2] example_payload [1] example_parts l body"
proof -
  obtain l body where l: "SegmentedPayloadLayout_new example_payload [1] = Inr l"
    and "seal_parts plain_lib example_keys [2] l (pl_parts example_payload) example_parts = Inr body"
    using multipart_read_exact [OF plain_lib_laws(1,2) example_keys_ok example_primary(1) example_payload_ok(3) example_keeps
        example_payload_ok(1) _ example_payload_ok(4,5) _ _ _ example_payload_ok(6), of "[1]" "[2]"]
    by (auto simp: example_payload_ok(2))
  moreover have "payload_typed l"
    using layout_new_rep(2) [OF l] example_payload_ok(4,5) by (simp add: payload_typed_def)
  ultimately show ?thesis
    unfolding sealed_object_def
    using plain_lib_laws(1,2) example_keys_ok(2) example_primary(1) example_payload_ok(3,6) example_keeps by blast
qed

abbreviation example_resources :: RepositoryResources where
  "example_resources \<equiv> RepositoryResources_new rotated_keys example_options"

lemma example_resources_facts:
  "\<not> rr_poisoned example_resources" "di_payload_id example_identity = [2]" "range_of (concat example_parts) (Slice 3 3) = Inr [13, 14, 15]"
  "coherent example_contents (rr_decrypted_segments example_resources)"
  "example_contents (di_cache_ref example_identity) = plain_segments (unat (pl_chunk_size example_payload)) example_parts"
  "length (example_contents (di_cache_ref example_identity)) \<le> bc_max_entries (rr_decrypted_segments example_resources)"
  "length (concat example_parts) \<le> unat (bc_max_bytes (rr_decrypted_segments example_resources))"
  "rr_decrypted_segments example_resources = DecryptedSegmentCache_with_max_bytes 1024"
  by (simp_all add: example_cache_defs example_parts_def coherent_new) (simp_all add: DecryptedSegmentCache_with_max_bytes_def)

text \<open>A cache that a read of the example object from the store has warmed.\<close>

lemma example_warm:
  assumes "sealed_object plain_lib example_keys rotated_keys [2] example_payload [1] example_parts l body"
  obtains res found res' where "(cache_step example_contents)\<^sup>*\<^sup>* (DecryptedSegmentCache_with_max_bytes 1024) (rr_decrypted_segments res)"
    and "\<not> rr_poisoned res" and "open_cached_decrypted_segments True res example_identity l (Slice 3 3) = Inr (found, res')" and "found \<noteq> None"
  using fill_read_exact [OF assms example_resources_facts(4,1,2,5,3), of True] example_resources_facts(6,7) that
  unfolding example_resources_facts(8) by blast

section \<open>Smaller examples\<close>

definition example_segment :: "u64 \<Rightarrow> PayloadSegmentContext" where
  "example_segment i = \<lparr>sc_repository_context = [1], sc_containing_object = [2], sc_section_ordinal = None,
     sc_carrier_id = replicate 32 0, sc_attempt_id = replicate 32 0, sc_part_ordinal = 1, sc_segment_ordinal = i,
     sc_plaintext_len = 4, sc_is_final = False, sc_layout_context = []\<rparr>"

lemma example_associated: "\<exists>a. associated_data (example_segment i) [1] = Inr a"
  by (simp add: associated_data_def example_segment_def)

text \<open>Crypto packages whose tag is a sum over the associated data, so that it is really checked.\<close>

definition sum_tag :: "bytes \<Rightarrow> bytes" where
  "sum_tag aad = replicate 15 0 @ [sum_list aad]"

definition tagged_lib :: crypto_lib where
  "tagged_lib = plain_lib\<lparr>xchacha_encrypt := \<lambda>k n a m. Some (m @ sum_tag a),
     xchacha_decrypt := \<lambda>k n a c. if 16 \<le> length c \<and> drop (length c - 16) c = sum_tag a then Some (take (length c - 16) c) else None\<rparr>"

lemma tagged_lib_laws: "hmac_law tagged_lib" "xchacha_law tagged_lib" "xchacha_auth_law tagged_lib"
proof -
  show "hmac_law tagged_lib" using plain_lib_laws(1) by (simp add: hmac_law_def tagged_lib_def)
  show "xchacha_law tagged_lib" using plain_lib_laws(2) by (simp add: xchacha_law_def tagged_lib_def sum_tag_def)
  show "xchacha_auth_law tagged_lib"
    by (auto simp: xchacha_auth_law_def tagged_lib_def sum_tag_def split: if_splits) (metis append_take_drop_id)
qed

lemma tagged_keys_ok: "keyring_ok tagged_lib rotated_keys"
proof -
  have "list_all (public_key_matches tagged_lib) rotated_keys" by (simp add: example_key_defs public_key_matches_def)
  with example_keys_ok(2) show ?thesis by (simp add: keyring_ok_def)
qed


lemma example_tags: "\<exists>a a'. associated_data (example_segment 0) (km_id content_key) = Inr a \<and>
  associated_data (example_segment 1) (km_id content_key) = Inr a' \<and> sum_tag a \<noteq> sum_tag a'"
proof -
  have zero: "sum_list (be_bytes n 0) = 0" for n by (induction n) simp_all
  have "sum_list (be_bytes (Suc n) 1) = 1" for n by (simp add: zero)
  from this [of 7] have "sum_list (u64_to_be_bytes 0) \<noteq> sum_list (u64_to_be_bytes 1)" by (simp add: u64_to_be_bytes_def zero)
  then show ?thesis
    by (simp add: associated_data_def example_segment_def example_key_defs sum_tag_def nonce_context_def framed_def section_bytes_def)
qed

lemma tagged_seal:
  "seal_payload_segment tagged_lib example_keys (example_segment i) pt = Inr \<lparr>sg_key_id = km_id content_key, sg_ciphertext = ct\<rparr> \<longleftrightarrow>
     of_nat (length pt) = sc_plaintext_len (example_segment i) \<and>
     (\<exists>aad. associated_data (example_segment i) (km_id content_key) = Inr aad \<and> ct = pt @ sum_tag aad)"
proof -
  have typed: "context_typed (example_segment i)" by (simp add: context_typed_def example_segment_def)
  then have ctx: "length (nonce_context (example_segment i)) < 2 ^ 64" by (simp add: length_nonce_context)
  obtain cp where cp: "payload_cipher tagged_lib (km_secret content_key) = Inr cp" by (rule payload_cipher_ok [OF tagged_lib_laws(1,2)])
  have "\<exists>n. derive_segment_nonce tagged_lib (km_secret content_key) aad (nonce_context (example_segment i)) PAYLOAD_SEGMENT_NONCE_DOMAIN = Inr n \<and>
      length n = 24" if "associated_data (example_segment i) (km_id content_key) = Inr aad" for aad
    by (rule derive_segment_nonce_ok [OF tagged_lib_laws(1) associated_data_length [OF that typed] ctx]) blast
  then show ?thesis unfolding seal_segment_iff [OF example_primary(1)] using cp by (auto simp: tagged_lib_def)
qed

definition example_entry :: "BlindIndexKey \<Rightarrow> Sequence \<Rightarrow> NamespaceEntry" where
  "example_entry k n = \<lparr>ne_namespace_key_id = [107], ne_blind_key = k, ne_object_id = [2], ne_object_version_id = None,
     ne_payload_ref = None, ne_manifest_id = [3], ne_content_len = 0, ne_modified_at_ms = 0, ne_generation = n,
     ne_retention = None, ne_legal_hold = None\<rparr>"

definition example_receipt :: "u64 \<Rightarrow> CompletionReceipt" where
  "example_receipt n = \<lparr>rc_upload_id = [of_nat (unat n)], rc_commit_sequence = n, rc_selection_digest = [], rc_attempts_digest = [],
     rc_key = [97], rc_content_len = 0, rc_etag = \<lparr>etag_digest = replicate 16 0, etag_parts = 1\<rparr>, rc_checksum = None\<rparr>"

lemma example_receipt_ok:
  "CompletionReceipt_validate (example_receipt 1) = Inr ()" "CompletionReceipt_validate (example_receipt 2) = Inr ()"
  "inj_on rc_upload_id {example_receipt 1, example_receipt 2}" "inj_on rc_commit_sequence {example_receipt 1, example_receipt 2}"
  by (simp_all add: CompletionReceipt_validate_def example_receipt_def part_count_def Sequence_ZERO_def inj_on_def)

end
