(* ===== verification/Decimal.thy ===== *)
theory Decimal
  imports RustStd
begin

text \<open>
  Decimal text of unsigned integers: \<open>u64::to_string\<close> and \<open>str::parse::<u64>\<close> of the standard
  library. The parser accepts a leading plus sign and leading zeros, and refuses the empty string,
  any other character, and a value that does not fit.
\<close>

fun dec_digits :: "nat \<Rightarrow> bytes" where
  "dec_digits n = (if n < 10 then [48 + of_nat n] else dec_digits (n div 10) @ [48 + of_nat (n mod 10)])"

declare dec_digits.simps [simp del]

definition u64_to_string :: "u64 \<Rightarrow> str" where
  "u64_to_string n = dec_digits (unat n)"

definition digit_value :: "u8 \<Rightarrow> nat option" where
  "digit_value b = (if 48 \<le> b \<and> b \<le> 57 then Some (unat b - 48) else None)"

fun parse_digits :: "nat \<Rightarrow> bytes \<Rightarrow> nat option" where
  "parse_digits acc [] = Some acc"
| "parse_digits acc (b # bs) =
     (case digit_value b of
        None \<Rightarrow> None
      | Some d \<Rightarrow> if acc * 10 + d < 2 ^ 64 then parse_digits (acc * 10 + d) bs else None)"

definition parse_u64 :: "str \<Rightarrow> u64 option" where
  "parse_u64 s =
     (let digits = (if s \<noteq> [] \<and> hd s = 43 then tl s else s) in
      if digits = [] then None else map_option of_nat (parse_digits 0 digits))"

lemma digit_value_digit: "n < 10 \<Longrightarrow> digit_value (48 + of_nat n) = Some n"
proof -
  assume n: "n < 10"
  then have "unat (48 + of_nat n :: u8) = 48 + n" by (simp add: unat_word_ariths unat_of_nat)
  with n show ?thesis by (simp add: digit_value_def word_le_nat_alt)
qed

lemma dec_digits_nonempty [simp]: "dec_digits n \<noteq> []"
  by (subst dec_digits.simps) simp

lemma dec_digits_set: "b \<in> set (dec_digits n) \<Longrightarrow> digit_value b \<noteq> None"
proof (induction n rule: dec_digits.induct)
  case (1 n)
  then show ?case by (subst (asm) (2) dec_digits.simps) (auto simp: digit_value_digit split: if_splits)
qed

lemma parse_digits_append: "parse_digits a (xs @ ys) = Option.bind (parse_digits a xs) (\<lambda>b. parse_digits b ys)"
  by (induction a xs rule: parse_digits.induct) (auto split: option.splits)

lemma parse_dec_digits: "n < 2 ^ 64 \<Longrightarrow> parse_digits 0 (dec_digits n) = Some n"
proof (induction n rule: dec_digits.induct)
  case (1 n)
  show ?case
  proof (cases "n < 10")
    case True
    then show ?thesis by (subst dec_digits.simps) (simp add: digit_value_digit)
  next
    case False
    then have "parse_digits 0 (dec_digits (n div 10)) = Some (n div 10)" using 1 by simp
    then show ?thesis
      using False 1(2) by (subst dec_digits.simps) (simp add: parse_digits_append digit_value_digit)
  qed
qed

lemma parse_u64_to_string [simp]: "parse_u64 (u64_to_string n) = Some n"
proof -
  have "hd (dec_digits (unat n)) \<noteq> 43"
    using dec_digits_set [of "hd (dec_digits (unat n))" "unat n"] by (auto simp: digit_value_def)
  moreover have "parse_digits 0 (dec_digits (unat n)) = Some (unat n)" using unat_less_2p [of n] by (intro parse_dec_digits) simp
  ultimately show ?thesis by (simp add: parse_u64_def u64_to_string_def)
qed

lemma u64_to_string_inj: "u64_to_string m = u64_to_string n \<longleftrightarrow> m = n"
  by (metis option.inject parse_u64_to_string)

end
