(* ===== verification/WriterLease.thy ===== *)
theory WriterLease
  imports OrdMap Types Decimal
begin

text \<open>
  The writer lease (\<open>rs3-k8s/src/lease_guard.rs\<close>): the coordination fields of a Kubernetes Lease,
  the claim of one acquired writer epoch, and the guard that acquires, renews and releases it. An
  operation of the guard is a program that calls the lease API; the API itself is not part of the
  repository, so a program only says what it does with every possible reply. The mutexes of the
  guard are not modelled beyond the state they protect: no holder of them can panic.
\<close>

section \<open>Leases\<close>

type_synonym Timestamp = int
type_synonym i32 = "32 word"

text \<open>Durations and monotonic times in nanoseconds.\<close>

type_synonym Duration = nat

record ObjectMeta =
  om_name :: "str option"
  om_annotations :: "(str, str) btmap option"
  om_resource_version :: "str option"

record LeaseSpec =
  sp_holder_identity :: "str option"
  sp_lease_duration_seconds :: "i32 option"
  sp_lease_transitions :: "i32 option"
  sp_acquire_time :: "Timestamp option"
  sp_renew_time :: "Timestamp option"

record Lease =
  le_metadata :: ObjectMeta
  le_spec :: "LeaseSpec option"

definition LeaseSpec_default :: LeaseSpec where
  "LeaseSpec_default = \<lparr>sp_holder_identity = None, sp_lease_duration_seconds = None, sp_lease_transitions = None,
     sp_acquire_time = None, sp_renew_time = None\<rparr>"

definition named_lease :: "str \<Rightarrow> Lease" where
  "named_lease name =
     \<lparr>le_metadata = \<lparr>om_name = Some name, om_annotations = None, om_resource_version = None\<rparr>, le_spec = None\<rparr>"

abbreviation annotations :: "Lease \<Rightarrow> (str, str) btmap option" where
  "annotations lease \<equiv> om_annotations (le_metadata lease)"

abbreviation resource_version :: "Lease \<Rightarrow> str option" where
  "resource_version lease \<equiv> om_resource_version (le_metadata lease)"

definition with_annotations :: "(str, str) btmap \<Rightarrow> Lease \<Rightarrow> Lease" where
  "with_annotations m lease = lease\<lparr>le_metadata := (le_metadata lease)\<lparr>om_annotations := Some m\<rparr>\<rparr>"

definition annotations_or_empty :: "Lease \<Rightarrow> (str, str) btmap" where
  "annotations_or_empty lease = (case annotations lease of None \<Rightarrow> [] | Some m \<Rightarrow> m)"

record LeaseSettings =
  st_namespace :: str
  st_name :: str
  st_field_manager :: str

datatype LeaseGuardError =
    HeldByOther
  | HeldByLiveWriter
  | LostLease
  | UpdateConflictLimit
  | Conflict
  | ApiUnavailable
  | InvalidConfig
  | InvalidLease

section \<open>Coordination fields\<close>

definition WRITER_FENCE_ANNOTATION :: str where "WRITER_FENCE_ANNOTATION = lit ''rs3.rs/writer-fence''"
definition WRITER_RENEWAL_ANNOTATION :: str where "WRITER_RENEWAL_ANNOTATION = lit ''rs3.rs/writer-renewal''"
definition MAX_UPDATE_ATTEMPTS :: nat where "MAX_UPDATE_ATTEMPTS = 16"

record WriterFenceClaim =
  fc_holder_identity :: str
  fc_token :: u64

record LeaseCoordinationState =
  co_holder_identity :: "str option"
  co_fence_token :: u64
  co_renewal :: u64
  co_lease_duration :: Duration
  co_lease_duration_seconds :: i32

record LeaseObservation =
  lo_holder_identity :: str
  lo_fence_token :: u64
  lo_renewal :: u64
  lo_lease_duration_seconds :: i32

record ObservedCompetitor =
  oc_record :: LeaseObservation
  oc_observed_at :: Duration

datatype TakeoverDecision = Allowed | Observing | CompetitorRenewed

definition observation :: "LeaseCoordinationState \<Rightarrow> LeaseObservation option" where
  "observation c = map_option (\<lambda>h. \<lparr>lo_holder_identity = h, lo_fence_token = co_fence_token c,
     lo_renewal = co_renewal c, lo_lease_duration_seconds = co_lease_duration_seconds c\<rparr>) (co_holder_identity c)"

definition NANOS :: nat where "NANOS = 1000000000"

definition duration_seconds_i32 :: "Duration \<Rightarrow> LeaseGuardError + i32" where
  "duration_seconds_i32 duration =
     (if duration = 0 \<or> duration mod NANOS \<noteq> 0 then Inl InvalidConfig
      else if duration div NANOS < 2 ^ 31 then Inr (of_nat (duration div NANOS))
      else Inl InvalidConfig)"

definition parse_counter_annotation :: "(str, str) btmap option \<Rightarrow> str \<Rightarrow> LeaseGuardError + u64" where
  "parse_counter_annotation m key =
     (case Option.bind m (\<lambda>m. bt_get m key) of
        None \<Rightarrow> Inr 0
      | Some value \<Rightarrow> ok_or InvalidLease (parse_u64 value))"

definition lease_coordination_state :: "Lease \<Rightarrow> Duration \<Rightarrow> LeaseGuardError + LeaseCoordinationState" where
  "lease_coordination_state lease default_lease_duration =
     bindE (parse_counter_annotation (annotations lease) WRITER_FENCE_ANNOTATION) (\<lambda>fence_token.
     bindE (parse_counter_annotation (annotations lease) WRITER_RENEWAL_ANNOTATION) (\<lambda>renewal.
     bindE (case Option.bind (le_spec lease) sp_lease_duration_seconds of
         Some seconds \<Rightarrow> if 0 < sint seconds then Inr seconds else Inl InvalidLease
       | None \<Rightarrow> duration_seconds_i32 default_lease_duration) (\<lambda>seconds.
     Inr \<lparr>co_holder_identity = Option.bind (le_spec lease) sp_holder_identity, co_fence_token = fence_token,
       co_renewal = renewal, co_lease_duration = nat (sint seconds) * NANOS, co_lease_duration_seconds = seconds\<rparr>)))"

definition lease_holds_claim :: "Lease \<Rightarrow> WriterFenceClaim \<Rightarrow> LeaseGuardError + bool" where
  "lease_holds_claim lease claim =
     bindE (lease_coordination_state lease NANOS) (\<lambda>current.
     Inr (co_holder_identity current = Some (fc_holder_identity claim) \<and> co_fence_token current = fc_token claim))"

definition lease_has_writer_coordination :: "Lease \<Rightarrow> bool" where
  "lease_has_writer_coordination lease \<longleftrightarrow>
     (case annotations lease of
        None \<Rightarrow> False
      | Some m \<Rightarrow> bt_get m WRITER_FENCE_ANNOTATION \<noteq> None \<or> bt_get m WRITER_RENEWAL_ANNOTATION \<noteq> None) \<and>
     Option.bind (le_spec lease) sp_holder_identity \<noteq> None"

text \<open>The count of transitions is a signed 32-bit integer.\<close>

definition checked_succ_i32 :: "i32 \<Rightarrow> i32 option" where
  "checked_succ_i32 n = (if sint n < 2 ^ 31 - 1 then Some (n + 1) else None)"

definition lease_with_guard_state ::
  "Lease \<Rightarrow> WriterFenceClaim \<Rightarrow> u64 \<Rightarrow> Duration \<Rightarrow> Timestamp \<Rightarrow> bool \<Rightarrow> LeaseGuardError + Lease" where
  "lease_with_guard_state lease claim renewal lease_duration wall_time ownership_transition =
     (let m = bt_insert WRITER_RENEWAL_ANNOTATION (u64_to_string renewal)
            (bt_insert WRITER_FENCE_ANNOTATION (u64_to_string (fc_token claim)) (annotations_or_empty lease));
          lease = with_annotations m lease;
          spec = (case le_spec lease of None \<Rightarrow> LeaseSpec_default | Some spec \<Rightarrow> spec);
          previous_holder = sp_holder_identity spec in
      bindE (if ownership_transition \<and> previous_holder \<noteq> Some (fc_holder_identity claim) then
          (let transitions = (case sp_lease_transitions spec of None \<Rightarrow> 0 | Some n \<Rightarrow> n) in
           bindE (if previous_holder \<noteq> None then ok_or InvalidLease (checked_succ_i32 transitions) else Inr transitions) (\<lambda>transitions.
           Inr (spec\<lparr>sp_lease_transitions := Some transitions, sp_acquire_time := Some wall_time\<rparr>)))
        else Inr spec) (\<lambda>spec.
      bindE (duration_seconds_i32 lease_duration) (\<lambda>seconds.
      Inr (lease\<lparr>le_spec := Some (spec\<lparr>sp_holder_identity := Some (fc_holder_identity claim),
        sp_lease_duration_seconds := Some seconds, sp_renew_time := Some wall_time\<rparr>)\<rparr>))))"

definition lease_with_released_state :: "Lease \<Rightarrow> u64 \<Rightarrow> Timestamp \<Rightarrow> LeaseGuardError + Lease" where
  "lease_with_released_state lease renewal wall_time =
     bindE (ok_or InvalidLease (annotations lease)) (\<lambda>m.
     if bt_get m WRITER_FENCE_ANNOTATION = None then Inl InvalidLease
     else
       bindE (ok_or InvalidLease (le_spec lease)) (\<lambda>spec.
       Inr ((with_annotations (bt_insert WRITER_RENEWAL_ANNOTATION (u64_to_string renewal) m) lease)
         \<lparr>le_spec := Some (spec\<lparr>sp_holder_identity := None, sp_renew_time := Some wall_time\<rparr>)\<rparr>)))"

definition new_guard_lease ::
  "str \<Rightarrow> WriterFenceClaim \<Rightarrow> Duration \<Rightarrow> Timestamp \<Rightarrow> LeaseGuardError + Lease" where
  "new_guard_lease name claim lease_duration wall_time =
     lease_with_guard_state (named_lease name) claim 1 lease_duration wall_time True"

record LeaseGuardState =
  gs_holder_identity :: str
  gs_fence_token :: u64
  gs_renewal :: u64
  gs_lease_duration_seconds :: i32
  gs_renew_time :: Timestamp

definition lease_state_from_spec :: "Lease \<Rightarrow> LeaseGuardError + LeaseGuardState" where
  "lease_state_from_spec lease =
     bindE (lease_coordination_state lease NANOS) (\<lambda>coordination.
     bindE (ok_or InvalidLease (le_spec lease)) (\<lambda>spec.
     bindE (ok_or InvalidLease (co_holder_identity coordination)) (\<lambda>holder.
     bindE (ok_or InvalidLease (sp_renew_time spec)) (\<lambda>renew_time.
     Inr \<lparr>gs_holder_identity = holder, gs_fence_token = co_fence_token coordination,
       gs_renewal = co_renewal coordination, gs_lease_duration_seconds = co_lease_duration_seconds coordination,
       gs_renew_time = renew_time\<rparr>))))"

section \<open>The guard of one process\<close>

record LocalFenceState =
  lf_claim :: "WriterFenceClaim option"
  lf_last_success :: "Duration option"
  lf_active :: bool

definition LocalFenceState_inactive :: LocalFenceState where
  "LocalFenceState_inactive = \<lparr>lf_claim = None, lf_last_success = None, lf_active = False\<rparr>"

record LeaseGuard =
  lg_settings :: LeaseSettings
  lg_holder_identity :: str
  lg_lease_duration :: Duration
  lg_observation :: "ObservedCompetitor option"
  lg_local_state :: LocalFenceState

definition LeaseGuard_new :: "LeaseSettings \<Rightarrow> str \<Rightarrow> Duration \<Rightarrow> LeaseGuardError + LeaseGuard" where
  "LeaseGuard_new settings holder_identity lease_duration =
     (if st_name settings = [] \<or> st_namespace settings = [] \<or> holder_identity = [] then Inl InvalidConfig
      else
        bindE (duration_seconds_i32 lease_duration) (\<lambda>_.
        Inr \<lparr>lg_settings = settings, lg_holder_identity = holder_identity, lg_lease_duration = lease_duration,
          lg_observation = None, lg_local_state = LocalFenceState_inactive\<rparr>))"

definition current_claim :: "LeaseGuard \<Rightarrow> LeaseGuardError + WriterFenceClaim" where
  "current_claim g =
     ok_or LostLease (if lf_active (lg_local_state g) then lf_claim (lg_local_state g) else None)"

text \<open>
  A fence shares the local state of its guard; it is live while its own claim is the active one
  and the last success is less than a lease duration ago.
\<close>

definition live_claim_at :: "LeaseGuard \<Rightarrow> WriterFenceClaim \<Rightarrow> Duration \<Rightarrow> WriterFenceClaim option" where
  "live_claim_at g claim now =
     (if \<not> lf_active (lg_local_state g) \<or> lf_claim (lg_local_state g) \<noteq> Some claim then None
      else case lf_last_success (lg_local_state g) of
        None \<Rightarrow> None
      | Some last_success \<Rightarrow> if now - last_success \<ge> lg_lease_duration g then None else Some claim)"

definition may_take_ownership :: "LeaseGuard \<Rightarrow> LeaseCoordinationState \<Rightarrow> Duration \<Rightarrow> TakeoverDecision \<times> LeaseGuard" where
  "may_take_ownership g current now =
     (case observation current of
        None \<Rightarrow> (Allowed, g)
      | Some record' \<Rightarrow>
          (case lg_observation g of
             None \<Rightarrow> (Observing, g\<lparr>lg_observation := Some \<lparr>oc_record = record', oc_observed_at = now\<rparr>\<rparr>)
           | Some previous \<Rightarrow>
               if oc_record previous \<noteq> record'
               then (CompetitorRenewed, g\<lparr>lg_observation := Some \<lparr>oc_record = record', oc_observed_at = now\<rparr>\<rparr>)
               else if now - oc_observed_at previous \<ge> co_lease_duration current then (Allowed, g)
               else (Observing, g)))"

definition deactivate :: "LeaseGuard \<Rightarrow> LeaseGuard" where
  "deactivate g = g\<lparr>lg_local_state := (lg_local_state g)\<lparr>lf_active := False\<rparr>\<rparr>"

definition record_success ::
  "LeaseGuard \<Rightarrow> Lease \<Rightarrow> WriterFenceClaim \<Rightarrow> Duration \<Rightarrow> LeaseGuard \<times> (LeaseGuardError + LeaseGuardState)" where
  "record_success g lease expected_claim monotonic_time =
     (case lease_state_from_spec lease of
        Inl err \<Rightarrow> (g, Inl err)
      | Inr state \<Rightarrow>
          if gs_holder_identity state \<noteq> fc_holder_identity expected_claim \<or> gs_fence_token state \<noteq> fc_token expected_claim
          then (deactivate g, Inl LostLease)
          else (g\<lparr>lg_local_state := \<lparr>lf_claim = Some expected_claim, lf_last_success = Some monotonic_time, lf_active = True\<rparr>,
              lg_observation := None\<rparr>, Inr state))"

section \<open>Programs over the lease API\<close>

datatype lease_request =
    GetLease str str
  | CreateLease str Lease
  | ReplaceLease str str Lease

text \<open>A reply to a read is a lease or its absence; to a write, the stored lease; or an error.\<close>

datatype lease_reply = Found "Lease option" | Stored Lease | Failed LeaseGuardError

text \<open>
  A program returns, calls the API and goes on with the reply, or reads the live claim of a fence
  at the time it reaches that point.
\<close>

datatype 'r lease_io =
    Return 'r
  | Call lease_request "lease_reply \<Rightarrow> 'r lease_io"
  | LiveClaim "WriterFenceClaim option \<Rightarrow> 'r lease_io"

text \<open>
  Continuations by the kind of the call. A reply of the other kind cannot occur by the types of
  the source; it is treated as an unavailable API.
\<close>

definition get_lease :: "LeaseSettings \<Rightarrow> (LeaseGuardError + Lease option \<Rightarrow> 'r lease_io) \<Rightarrow> 'r lease_io" where
  "get_lease s k = Call (GetLease (st_namespace s) (st_name s))
     (\<lambda>reply. case reply of Found l \<Rightarrow> k (Inr l) | Stored l \<Rightarrow> k (Inl ApiUnavailable) | Failed e \<Rightarrow> k (Inl e))"

definition create_lease :: "LeaseSettings \<Rightarrow> Lease \<Rightarrow> (LeaseGuardError + Lease \<Rightarrow> 'r lease_io) \<Rightarrow> 'r lease_io" where
  "create_lease s lease k = Call (CreateLease (st_namespace s) lease)
     (\<lambda>reply. case reply of Found l \<Rightarrow> k (Inl ApiUnavailable) | Stored l \<Rightarrow> k (Inr l) | Failed e \<Rightarrow> k (Inl e))"

definition replace_lease :: "LeaseSettings \<Rightarrow> Lease \<Rightarrow> (LeaseGuardError + Lease \<Rightarrow> 'r lease_io) \<Rightarrow> 'r lease_io" where
  "replace_lease s lease k = Call (ReplaceLease (st_namespace s) (st_name s) lease)
     (\<lambda>reply. case reply of Found l \<Rightarrow> k (Inl ApiUnavailable) | Stored l \<Rightarrow> k (Inr l) | Failed e \<Rightarrow> k (Inl e))"

type_synonym 'a guard_io = "(LeaseGuard \<times> (LeaseGuardError + 'a)) lease_io"

text \<open>The update of an acquisition: what is written over the lease that was read.\<close>

definition acquire_update ::
  "LeaseGuard \<Rightarrow> Lease \<Rightarrow> LeaseCoordinationState \<Rightarrow> Timestamp \<Rightarrow> LeaseGuardError + WriterFenceClaim \<times> Lease" where
  "acquire_update g lease current wall_time =
     bindE (ok_or InvalidLease (checked_add (co_fence_token current) 1)) (\<lambda>token.
     bindE (ok_or InvalidLease (checked_add (co_renewal current) 1)) (\<lambda>renewal.
     let claim = \<lparr>fc_holder_identity = lg_holder_identity g, fc_token = token\<rparr> in
     bindE (lease_with_guard_state lease claim renewal (lg_lease_duration g) wall_time True) (\<lambda>updated.
     Inr (claim, updated))))"

primrec acquire_loop :: "nat \<Rightarrow> LeaseGuard \<Rightarrow> Timestamp \<Rightarrow> Duration \<Rightarrow> LeaseGuardState guard_io" where
  "acquire_loop 0 g wall_time monotonic_time = Return (g, Inl UpdateConflictLimit)"
| "acquire_loop (Suc attempts) g wall_time monotonic_time =
     get_lease (lg_settings g) (\<lambda>got. case got of
       Inl err \<Rightarrow> Return (g, Inl err)
     | Inr (Some lease) \<Rightarrow>
         (case lease_coordination_state lease (lg_lease_duration g) of
            Inl err \<Rightarrow> Return (g, Inl err)
          | Inr current \<Rightarrow>
              (case may_take_ownership g current monotonic_time of
                 (Observing, g) \<Rightarrow> Return (g, Inl HeldByOther)
               | (CompetitorRenewed, g) \<Rightarrow> Return (g, Inl HeldByLiveWriter)
               | (Allowed, g) \<Rightarrow>
                   (case acquire_update g lease current wall_time of
                      Inl err \<Rightarrow> Return (g, Inl err)
                    | Inr (claim, updated) \<Rightarrow>
                        replace_lease (lg_settings g) updated (\<lambda>replaced. case replaced of
                          Inr lease \<Rightarrow> Return (record_success g lease claim monotonic_time)
                        | Inl err \<Rightarrow>
                            if err = Conflict then acquire_loop attempts g wall_time monotonic_time
                            else Return (g, Inl err)))))
     | Inr None \<Rightarrow>
         (let claim = \<lparr>fc_holder_identity = lg_holder_identity g, fc_token = 1\<rparr> in
          case new_guard_lease (st_name (lg_settings g)) claim (lg_lease_duration g) wall_time of
            Inl err \<Rightarrow> Return (g, Inl err)
          | Inr lease \<Rightarrow>
              create_lease (lg_settings g) lease (\<lambda>created. case created of
                Inr lease \<Rightarrow> Return (record_success g lease claim monotonic_time)
              | Inl err \<Rightarrow>
                  if err = Conflict then acquire_loop attempts g wall_time monotonic_time
                  else Return (g, Inl err))))"

definition acquire_at :: "LeaseGuard \<Rightarrow> Timestamp \<Rightarrow> Duration \<Rightarrow> LeaseGuardState guard_io" where
  "acquire_at g wall_time monotonic_time = acquire_loop MAX_UPDATE_ATTEMPTS g wall_time monotonic_time"

primrec renew_loop :: "nat \<Rightarrow> LeaseGuard \<Rightarrow> WriterFenceClaim \<Rightarrow> Timestamp \<Rightarrow> Duration \<Rightarrow> LeaseGuardState guard_io" where
  "renew_loop 0 g claim wall_time monotonic_time = Return (g, Inl UpdateConflictLimit)"
| "renew_loop (Suc attempts) g claim wall_time monotonic_time =
     get_lease (lg_settings g) (\<lambda>got. case got of
       Inl err \<Rightarrow> Return (g, Inl err)
     | Inr None \<Rightarrow> Return (deactivate g, Inl LostLease)
     | Inr (Some lease) \<Rightarrow>
         (case lease_coordination_state lease (lg_lease_duration g) of
            Inl err \<Rightarrow> Return (g, Inl err)
          | Inr current \<Rightarrow>
              if co_holder_identity current \<noteq> Some (fc_holder_identity claim) \<or> co_fence_token current \<noteq> fc_token claim
              then Return (deactivate g, Inl HeldByOther)
              else
                (case bindE (ok_or InvalidLease (checked_add (co_renewal current) 1)) (\<lambda>renewal.
                    lease_with_guard_state lease claim renewal (lg_lease_duration g) wall_time False) of
                   Inl err \<Rightarrow> Return (g, Inl err)
                 | Inr updated \<Rightarrow>
                     replace_lease (lg_settings g) updated (\<lambda>replaced. case replaced of
                       Inr lease \<Rightarrow> Return (record_success g lease claim monotonic_time)
                     | Inl err \<Rightarrow>
                         if err = Conflict then renew_loop attempts g claim wall_time monotonic_time
                         else Return (g, Inl err)))))"

definition renew_at :: "LeaseGuard \<Rightarrow> Timestamp \<Rightarrow> Duration \<Rightarrow> LeaseGuardState guard_io" where
  "renew_at g wall_time monotonic_time =
     (case current_claim g of
        Inl err \<Rightarrow> Return (g, Inl err)
      | Inr claim \<Rightarrow> renew_loop MAX_UPDATE_ATTEMPTS g claim wall_time monotonic_time)"

primrec release_loop :: "nat \<Rightarrow> LeaseGuard \<Rightarrow> WriterFenceClaim \<Rightarrow> Timestamp \<Rightarrow> unit guard_io" where
  "release_loop 0 g claim wall_time = Return (g, Inl UpdateConflictLimit)"
| "release_loop (Suc attempts) g claim wall_time =
     get_lease (lg_settings g) (\<lambda>got. case got of
       Inl err \<Rightarrow> Return (g, Inl err)
     | Inr None \<Rightarrow> Return (deactivate g, Inl LostLease)
     | Inr (Some lease) \<Rightarrow>
         (case lease_holds_claim lease claim of
            Inl err \<Rightarrow> Return (g, Inl err)
          | Inr False \<Rightarrow> Return (deactivate g, Inl HeldByOther)
          | Inr True \<Rightarrow>
              (case bindE (lease_coordination_state lease (lg_lease_duration g)) (\<lambda>current.
                  bindE (ok_or InvalidLease (checked_add (co_renewal current) 1)) (\<lambda>renewal.
                  lease_with_released_state lease renewal wall_time)) of
                 Inl err \<Rightarrow> Return (g, Inl err)
               | Inr updated \<Rightarrow>
                   replace_lease (lg_settings g) updated (\<lambda>replaced. case replaced of
                     Inr lease \<Rightarrow> Return (deactivate g, Inr ())
                   | Inl err \<Rightarrow>
                       if err = Conflict then release_loop attempts g claim wall_time
                       else Return (g, Inl err)))))"

definition release_at :: "LeaseGuard \<Rightarrow> Timestamp \<Rightarrow> unit guard_io" where
  "release_at g wall_time =
     (case current_claim g of
        Inl err \<Rightarrow> Return (g, Inl err)
      | Inr claim \<Rightarrow> release_loop MAX_UPDATE_ATTEMPTS g claim wall_time)"

end
