(* ===== verification/V3Types.thy ===== *)
theory V3Types
  imports Types
begin

text \<open>
  The errors of the repository format (\<open>rs3-repository/src/v3/error.rs\<close>) with their classes, the
  reference to the format root (\<open>v3/format.rs\<close>) and the accepted state of the commit anchor
  (\<open>v3/repository.rs\<close>).
\<close>

datatype V3ErrorClass =
    RetryableClient | FailClosedSecurity | ProviderConformance | OperatorActionRequired | RollbackUnsafeDr

datatype V3FormatError =
    ContentMd5Mismatch
  | InvalidCommitKey
  | TruncatedHeader
  | TruncatedBody
  | UnsupportedFormatVersion
  | UnsupportedReaderVersion
  | UnsupportedCapabilities
  | NonzeroReserved
  | HeaderTooLarge
  | MalformedCbor
  | NonCanonicalCbor
  | MissingHeaderField
  | InvalidHeaderField
  | InvalidPublicationTime
  | InvalidRecoveryHistory
  | RecoveryHistoryCapacity
  | InvalidRecoveryPolicy
  | InvalidAlgorithms
  | SelfKeyMismatch
  | SignatureVerification
  | SectionBounds
  | ObjectTooLarge
  | ObjectLengthMismatch
  | ReplayBudgetExceeded
  | ObjectBodyReadFailed
  | UnsupportedSection
  | ReservedSectionFlags
  | BodyDigestMismatch
  | SectionDigestMismatch
  | InvalidIndexRun
  | IndexRunLimitExceeded
  | InvalidIndexRoot
  | IndexRootLimitExceeded
  | InvalidPayloadPack
  | PayloadPackLimitExceeded
  | CryptoOperation
  | TypeValidation
  | RandomnessUnavailable
  | AnchorReadFailed
  | AnchorAdvanceFailed
  | AnchorReconciliationRequired
  | MissingAnchor
  | StaleAnchor
  | BootstrapUploadRequired
  | StorageOperationFailed
  | FormatEncoding
  | InvalidFormatRoot
  | ProviderProfileFailed
  | RecoveryBundleRequired
  | RollbackUnsafeDr
  | MaintenanceAccessRequired
  | MaintenanceBudgetExceeded
  | MaintenancePlanChanged
  | OrphanGcMinAgeTooLow
  | MaintenanceCancelled

text \<open>Every class but the fail-closed one lists its errors; all others must not advance or acknowledge.\<close>

definition error_class :: "V3FormatError \<Rightarrow> V3ErrorClass" where
  "error_class err =
     (if err \<in> {V3FormatError.ContentMd5Mismatch, V3FormatError.ObjectTooLarge, V3FormatError.ObjectLengthMismatch,
          V3FormatError.ObjectBodyReadFailed, V3FormatError.RandomnessUnavailable,
          V3FormatError.MaintenanceCancelled} then RetryableClient
      else if err = V3FormatError.ProviderProfileFailed then ProviderConformance
      else if err = V3FormatError.RollbackUnsafeDr then V3ErrorClass.RollbackUnsafeDr
      else if err \<in> {V3FormatError.RecoveryHistoryCapacity, V3FormatError.InvalidRecoveryPolicy,
          V3FormatError.ReplayBudgetExceeded, V3FormatError.RecoveryBundleRequired,
          V3FormatError.MaintenanceAccessRequired, V3FormatError.MaintenanceBudgetExceeded,
          V3FormatError.MaintenancePlanChanged, V3FormatError.OrphanGcMinAgeTooLow} then OperatorActionRequired
      else FailClosedSecurity)"

type_synonym 'a v3_result = "V3FormatError + 'a"

record V3FormatRef =
  fr_generation :: u64
  fr_digest :: str
  fr_object_id :: BackendObjectId
  fr_version_id :: "BackendVersionId option"

record V3AnchorState =
  an_sequence :: Sequence
  an_commit_key :: BackendObjectId
  an_body_digest :: bytes
  an_version_id :: "BackendVersionId option"
  an_signing_key_id :: KeyId
  an_format_ref :: V3FormatRef

end
