(* ===== verification/Anchor.thy ===== *)
theory Anchor
  imports WriterLease V3Types CryptoLib
begin

text \<open>
  The commit anchor (\<open>rs3-k8s/src/lib.rs\<close>): the accepted head of the repository, kept in the
  annotations of the same Lease that carries the writer coordination. Encoding and decoding of the
  annotations, the checks of the writer fence, and the two programs that change the Lease:
  \<open>compare_and_advance_lease\<close> and \<open>fence_and_read_lease\<close>.
\<close>

section \<open>Annotations\<close>

definition REPOSITORY_FORMAT_ANNOTATION :: str where "REPOSITORY_FORMAT_ANNOTATION = lit ''rs3.rs/repository-format-generation''"
definition ANCHOR_FENCE_ANNOTATION :: str where "ANCHOR_FENCE_ANNOTATION = lit ''rs3.rs/anchor-fence''"
definition V3_SEQUENCE_ANNOTATION :: str where "V3_SEQUENCE_ANNOTATION = lit ''rs3.rs/v3-sequence''"
definition V3_COMMIT_KEY_ANNOTATION :: str where "V3_COMMIT_KEY_ANNOTATION = lit ''rs3.rs/v3-commit-key''"
definition V3_BODY_DIGEST_ANNOTATION :: str where "V3_BODY_DIGEST_ANNOTATION = lit ''rs3.rs/v3-body-digest''"
definition V3_VERSION_ID_ANNOTATION :: str where "V3_VERSION_ID_ANNOTATION = lit ''rs3.rs/v3-version-id''"
definition V3_SIGNING_KEY_ID_ANNOTATION :: str where "V3_SIGNING_KEY_ID_ANNOTATION = lit ''rs3.rs/v3-signing-key-id''"
definition V3_FORMAT_GENERATION_ANNOTATION :: str where "V3_FORMAT_GENERATION_ANNOTATION = lit ''rs3.rs/v3-format-generation''"
definition V3_FORMAT_DIGEST_ANNOTATION :: str where "V3_FORMAT_DIGEST_ANNOTATION = lit ''rs3.rs/v3-format-digest''"
definition V3_FORMAT_OBJECT_ID_ANNOTATION :: str where "V3_FORMAT_OBJECT_ID_ANNOTATION = lit ''rs3.rs/v3-format-object-id''"
definition V3_FORMAT_VERSION_ID_ANNOTATION :: str where "V3_FORMAT_VERSION_ID_ANNOTATION = lit ''rs3.rs/v3-format-version-id''"

definition MAX_ADVANCE_ATTEMPTS :: nat where "MAX_ADVANCE_ATTEMPTS = 16"

definition ANCHOR_ANNOTATIONS :: "str list" where
  "ANCHOR_ANNOTATIONS = [REPOSITORY_FORMAT_ANNOTATION, V3_SEQUENCE_ANNOTATION, V3_COMMIT_KEY_ANNOTATION,
     V3_BODY_DIGEST_ANNOTATION, V3_VERSION_ID_ANNOTATION, V3_SIGNING_KEY_ID_ANNOTATION,
     V3_FORMAT_GENERATION_ANNOTATION, V3_FORMAT_DIGEST_ANNOTATION, V3_FORMAT_OBJECT_ID_ANNOTATION,
     V3_FORMAT_VERSION_ID_ANNOTATION]"

lemmas annotation_names = WRITER_FENCE_ANNOTATION_def WRITER_RENEWAL_ANNOTATION_def REPOSITORY_FORMAT_ANNOTATION_def
  ANCHOR_FENCE_ANNOTATION_def V3_SEQUENCE_ANNOTATION_def V3_COMMIT_KEY_ANNOTATION_def V3_BODY_DIGEST_ANNOTATION_def
  V3_VERSION_ID_ANNOTATION_def V3_SIGNING_KEY_ID_ANNOTATION_def V3_FORMAT_GENERATION_ANNOTATION_def
  V3_FORMAT_DIGEST_ANNOTATION_def V3_FORMAT_OBJECT_ID_ANNOTATION_def V3_FORMAT_VERSION_ID_ANNOTATION_def

definition insert_or_remove :: "str \<Rightarrow> str option \<Rightarrow> (str, str) btmap \<Rightarrow> (str, str) btmap" where
  "insert_or_remove key value m = (case value of Some v \<Rightarrow> bt_insert key v m | None \<Rightarrow> bt_remove key m)"

definition anchor_annotations :: "crypto_lib \<Rightarrow> V3AnchorState \<Rightarrow> (str, str) btmap \<Rightarrow> (str, str) btmap" where
  "anchor_annotations lib state m =
     (let m = bt_insert REPOSITORY_FORMAT_ANNOTATION (lit ''3'') m;
          m = bt_insert V3_SEQUENCE_ANNOTATION (u64_to_string (an_sequence state)) m;
          m = bt_insert V3_COMMIT_KEY_ANNOTATION (an_commit_key state) m;
          m = bt_insert V3_BODY_DIGEST_ANNOTATION (hex_encode lib (an_body_digest state)) m;
          m = insert_or_remove V3_VERSION_ID_ANNOTATION (an_version_id state) m;
          m = bt_insert V3_SIGNING_KEY_ID_ANNOTATION (an_signing_key_id state) m;
          m = bt_insert V3_FORMAT_GENERATION_ANNOTATION (u64_to_string (fr_generation (an_format_ref state))) m;
          m = bt_insert V3_FORMAT_DIGEST_ANNOTATION (fr_digest (an_format_ref state)) m;
          m = bt_insert V3_FORMAT_OBJECT_ID_ANNOTATION (fr_object_id (an_format_ref state)) m
      in insert_or_remove V3_FORMAT_VERSION_ID_ANNOTATION (fr_version_id (an_format_ref state)) m)"

definition v3_lease_with_state :: "crypto_lib \<Rightarrow> Lease \<Rightarrow> V3AnchorState \<Rightarrow> Lease" where
  "v3_lease_with_state lib lease state =
     with_annotations (anchor_annotations lib state (annotations_or_empty lease)) lease"

definition new_v3_lease :: "crypto_lib \<Rightarrow> str \<Rightarrow> V3AnchorState \<Rightarrow> Lease" where
  "new_v3_lease lib name state = v3_lease_with_state lib (named_lease name) state"

definition v3_annotation :: "(str, str) btmap \<Rightarrow> str \<Rightarrow> str v3_result" where
  "v3_annotation m key = ok_or AnchorReadFailed (bt_get m key)"

definition hex_digest :: "crypto_lib \<Rightarrow> str \<Rightarrow> bytes v3_result" where
  "hex_digest lib value =
     bindE (ok_or AnchorReadFailed (hex_decode lib value)) (\<lambda>bs.
     if length bs = 32 then Inr bs else Inl AnchorReadFailed)"

text \<open>Keys of an older layout; a lease that has one must not be read as an anchor.\<close>

definition has_v2_key :: "(str, str) btmap \<Rightarrow> bool" where
  "has_v2_key m \<longleftrightarrow> list_ex (\<lambda>key. take 10 key = lit ''rs3.rs/v2-'') (bt_keys m)"

definition optional_version :: "(str, str) btmap \<Rightarrow> str \<Rightarrow> BackendVersionId option v3_result" where
  "optional_version m key =
     (case bt_get m key of
        None \<Rightarrow> Inr None
      | Some value \<Rightarrow> bindE (map_err (\<lambda>_. TypeValidation) (BackendVersionId_new value)) (\<lambda>v. Inr (Some v)))"

definition v3_anchor_state_from_lease :: "crypto_lib \<Rightarrow> Lease \<Rightarrow> V3AnchorState v3_result" where
  "v3_anchor_state_from_lease lib lease =
     bindE (ok_or AnchorReadFailed (annotations lease)) (\<lambda>m.
     bindE (v3_annotation m REPOSITORY_FORMAT_ANNOTATION) (\<lambda>generation.
     if generation \<noteq> lit ''3'' \<or> has_v2_key m then Inl AnchorReadFailed
     else
       bindE (v3_annotation m V3_SEQUENCE_ANNOTATION) (\<lambda>value.
       bindE (ok_or AnchorReadFailed (parse_u64 value)) (\<lambda>sequence.
       bindE (v3_annotation m V3_COMMIT_KEY_ANNOTATION) (\<lambda>value.
       bindE (map_err (\<lambda>_. TypeValidation) (BackendObjectId_new value)) (\<lambda>commit_key.
       bindE (v3_annotation m V3_BODY_DIGEST_ANNOTATION) (\<lambda>value.
       bindE (hex_digest lib value) (\<lambda>body_digest.
       bindE (optional_version m V3_VERSION_ID_ANNOTATION) (\<lambda>version_id.
       bindE (v3_annotation m V3_SIGNING_KEY_ID_ANNOTATION) (\<lambda>value.
       bindE (map_err (\<lambda>_. TypeValidation) (KeyId_new value)) (\<lambda>signing_key_id.
       bindE (v3_annotation m V3_FORMAT_GENERATION_ANNOTATION) (\<lambda>value.
       bindE (ok_or AnchorReadFailed (parse_u64 value)) (\<lambda>format_generation.
       bindE (v3_annotation m V3_FORMAT_DIGEST_ANNOTATION) (\<lambda>format_digest.
       bindE (v3_annotation m V3_FORMAT_OBJECT_ID_ANNOTATION) (\<lambda>value.
       bindE (map_err (\<lambda>_. TypeValidation) (BackendObjectId_new value)) (\<lambda>format_object_id.
       bindE (optional_version m V3_FORMAT_VERSION_ID_ANNOTATION) (\<lambda>format_version_id.
       if format_digest = [] then Inl AnchorReadFailed
       else Inr \<lparr>an_sequence = sequence, an_commit_key = commit_key, an_body_digest = body_digest,
         an_version_id = version_id, an_signing_key_id = signing_key_id,
         an_format_ref = \<lparr>fr_generation = format_generation, fr_digest = format_digest,
           fr_object_id = format_object_id, fr_version_id = format_version_id\<rparr>\<rparr>)))))))))))))))))"

definition v3_anchor_state_from_lease_optional :: "crypto_lib \<Rightarrow> Lease \<Rightarrow> V3AnchorState option v3_result" where
  "v3_anchor_state_from_lease_optional lib lease =
     (case annotations lease of
        None \<Rightarrow> Inr None
      | Some m \<Rightarrow>
          if has_v2_key m then Inl AnchorReadFailed
          else if \<not> list_ex (\<lambda>key. bt_get m key \<noteq> None) ANCHOR_ANNOTATIONS then Inr None
          else bindE (v3_anchor_state_from_lease lib lease) (\<lambda>state. Inr (Some state)))"

section \<open>Writer fence checks\<close>

text \<open>
  A fenced anchor has the claim of its fence; the argument is \<open>Some\<close> of the claim when the fence is
  live at that moment, \<open>None\<close> when it is not.
\<close>

definition v3_lease_with_claim :: "crypto_lib \<Rightarrow> Lease \<Rightarrow> V3AnchorState \<Rightarrow> WriterFenceClaim \<Rightarrow> Lease v3_result" where
  "v3_lease_with_claim lib lease state claim =
     bindE (map_err (\<lambda>_. AnchorAdvanceFailed) (lease_holds_claim lease claim)) (\<lambda>holds.
     if \<not> holds then Inl AnchorAdvanceFailed else Inr (v3_lease_with_state lib lease state))"

definition v3_lease_with_fenced_state ::
  "crypto_lib \<Rightarrow> Lease \<Rightarrow> V3AnchorState \<Rightarrow> WriterFenceClaim option \<Rightarrow> Lease v3_result" where
  "v3_lease_with_fenced_state lib lease state live =
     bindE (ok_or AnchorAdvanceFailed live) (v3_lease_with_claim lib lease state)"

definition check_live_claim :: "Lease \<Rightarrow> WriterFenceClaim option \<Rightarrow> unit v3_result" where
  "check_live_claim lease live =
     bindE (ok_or AnchorAdvanceFailed live) (\<lambda>claim.
     bindE (map_err (\<lambda>_. AnchorAdvanceFailed) (lease_holds_claim lease claim)) (\<lambda>holds.
     ensure holds AnchorAdvanceFailed))"

definition validate_writer_fence ::
  "Lease \<Rightarrow> bool \<Rightarrow> (unit v3_result \<Rightarrow> 'r lease_io) \<Rightarrow> 'r lease_io" where
  "validate_writer_fence lease fenced k =
     (if fenced then LiveClaim (\<lambda>live. k (check_live_claim lease live))
      else if lease_has_writer_coordination lease then k (Inl AnchorAdvanceFailed) else k (Inr ()))"

definition v3_lease_for_anchor_advance ::
  "crypto_lib \<Rightarrow> Lease \<Rightarrow> V3AnchorState \<Rightarrow> bool \<Rightarrow> (Lease v3_result \<Rightarrow> 'r lease_io) \<Rightarrow> 'r lease_io" where
  "v3_lease_for_anchor_advance lib lease state fenced k =
     validate_writer_fence lease fenced (\<lambda>checked. case checked of
       Inl err \<Rightarrow> k (Inl err)
     | Inr _ \<Rightarrow>
         if fenced then LiveClaim (\<lambda>live. k (v3_lease_with_fenced_state lib lease state live))
         else k (Inr (v3_lease_with_state lib lease state)))"

section \<open>The two updates\<close>

definition stale_advance :: "V3AnchorState option \<Rightarrow> V3AnchorState option \<Rightarrow> V3AnchorState \<Rightarrow> bool" where
  "stale_advance expected current next \<longleftrightarrow> expected \<noteq> current \<or>
     (case current of None \<Rightarrow> False
      | Some c \<Rightarrow> next \<noteq> c \<and> an_sequence next \<le> an_sequence c)"

primrec advance_loop ::
  "nat \<Rightarrow> crypto_lib \<Rightarrow> LeaseSettings \<Rightarrow> bool \<Rightarrow> V3AnchorState option \<Rightarrow> V3AnchorState \<Rightarrow> V3AnchorState v3_result lease_io" where
  "advance_loop 0 lib settings fenced expected next = Return (Inl AnchorAdvanceFailed)"
| "advance_loop (Suc attempts) lib settings fenced expected next =
     get_lease settings (\<lambda>got. case got of
       Inl err \<Rightarrow> Return (Inl AnchorReadFailed)
     | Inr (Some lease) \<Rightarrow>
         (case v3_anchor_state_from_lease_optional lib lease of
            Inl err \<Rightarrow> Return (Inl err)
          | Inr current \<Rightarrow>
              if stale_advance expected current next then Return (Inl StaleAnchor)
              else
                v3_lease_for_anchor_advance lib lease next fenced (\<lambda>prepared. case prepared of
                  Inl err \<Rightarrow> Return (Inl err)
                | Inr updated \<Rightarrow>
                    replace_lease settings updated (\<lambda>replaced. case replaced of
                      Inr lease \<Rightarrow> Return (v3_anchor_state_from_lease lib lease)
                    | Inl err \<Rightarrow>
                        if err = Conflict then advance_loop attempts lib settings fenced expected next
                        else Return (Inl AnchorAdvanceFailed))))
     | Inr None \<Rightarrow>
         if expected \<noteq> None then Return (Inl StaleAnchor)
         else if fenced then Return (Inl AnchorAdvanceFailed)
         else
           create_lease settings (new_v3_lease lib (st_name settings) next) (\<lambda>created. case created of
             Inr lease \<Rightarrow> Return (v3_anchor_state_from_lease lib lease)
           | Inl err \<Rightarrow>
               if err = Conflict then advance_loop attempts lib settings fenced expected next
               else Return (Inl AnchorAdvanceFailed)))"

definition compare_and_advance_lease ::
  "crypto_lib \<Rightarrow> LeaseSettings \<Rightarrow> bool \<Rightarrow> V3AnchorState option \<Rightarrow> V3AnchorState \<Rightarrow> V3AnchorState v3_result lease_io" where
  "compare_and_advance_lease lib settings fenced expected next =
     advance_loop MAX_ADVANCE_ATTEMPTS lib settings fenced expected next"

definition bump_anchor_fence :: "Lease \<Rightarrow> Lease" where
  "bump_anchor_fence lease =
     (let m = annotations_or_empty lease;
          fence = (case Option.bind (bt_get m ANCHOR_FENCE_ANNOTATION) parse_u64 of None \<Rightarrow> 0 | Some n \<Rightarrow> n) + 1
      in with_annotations (bt_insert ANCHOR_FENCE_ANNOTATION (u64_to_string fence) m) lease)"

primrec fence_loop :: "nat \<Rightarrow> crypto_lib \<Rightarrow> LeaseSettings \<Rightarrow> bool \<Rightarrow> V3AnchorState option v3_result lease_io" where
  "fence_loop 0 lib settings fenced = Return (Inl AnchorAdvanceFailed)"
| "fence_loop (Suc attempts) lib settings fenced =
     get_lease settings (\<lambda>got. case got of
       Inl err \<Rightarrow> Return (Inl AnchorReadFailed)
     | Inr None \<Rightarrow> Return (Inr None)
     | Inr (Some lease) \<Rightarrow>
         validate_writer_fence lease fenced (\<lambda>checked. case checked of
           Inl err \<Rightarrow> Return (Inl err)
         | Inr _ \<Rightarrow>
             replace_lease settings (bump_anchor_fence lease) (\<lambda>replaced. case replaced of
               Inr lease \<Rightarrow> Return (v3_anchor_state_from_lease_optional lib lease)
             | Inl err \<Rightarrow>
                 if err = Conflict then fence_loop attempts lib settings fenced
                 else Return (Inl AnchorAdvanceFailed))))"

definition fence_and_read_lease :: "crypto_lib \<Rightarrow> LeaseSettings \<Rightarrow> bool \<Rightarrow> V3AnchorState option v3_result lease_io" where
  "fence_and_read_lease lib settings fenced = fence_loop MAX_ADVANCE_ATTEMPTS lib settings fenced"

end
