(* ===== verification/LeaseFields.thy ===== *)
theory LeaseFields
  imports Anchor
begin

text \<open>
  What the updates of a Lease do to its fields: the guard writes the coordination fields and
  nothing else, the anchor writes the anchor annotations and nothing else, and reading either gives
  back what was written.
\<close>

section \<open>Durations\<close>

lemma duration_seconds_exact:
  assumes "duration_seconds_i32 d = Inr s"
  shows "0 < sint s" and "nat (sint s) * NANOS = d" and "0 < d"
proof -
  have d: "0 < d" "d mod NANOS = 0" "d div NANOS < 2 ^ 31" and s: "s = word_of_int (int (d div NANOS))"
    using assms by (auto simp: duration_seconds_i32_def split: if_splits)
  have e: "d = d div NANOS * NANOS" using d(2) by (metis add.right_neutral div_mult_mod_eq)
  then have pos: "0 < d div NANOS" using d(1) by (metis mult_0 neq0_conv)
  have "sint s = int (d div NANOS)" unfolding s int_word_sint using d(3) by simp
  with pos d e show "0 < sint s" "nat (sint s) * NANOS = d" "0 < d" by auto
qed

section \<open>Names\<close>

lemma lit_inj: "lit a = lit b \<longleftrightarrow> a = b"
proof -
  have "inj (\<lambda>c. of_char c :: u8)"
  proof (rule injI)
    fix a b :: char assume "(of_char a :: u8) = of_char b"
    then have "unat (of_nat (of_char a) :: u8) = unat (of_nat (of_char b) :: u8)" by (simp only: of_nat_of_char)
    then have "(of_char a :: nat) mod 256 = of_char b mod 256" by (simp only: unat_of_nat) simp
    then show "a = b" by simp
  qed
  then show ?thesis by (simp add: lit_def inj_map_eq_map)
qed

lemma names_distinct:
  "distinct [WRITER_FENCE_ANNOTATION, WRITER_RENEWAL_ANNOTATION, REPOSITORY_FORMAT_ANNOTATION, ANCHOR_FENCE_ANNOTATION,
    V3_SEQUENCE_ANNOTATION, V3_COMMIT_KEY_ANNOTATION, V3_BODY_DIGEST_ANNOTATION, V3_VERSION_ID_ANNOTATION,
    V3_SIGNING_KEY_ID_ANNOTATION, V3_FORMAT_GENERATION_ANNOTATION, V3_FORMAT_DIGEST_ANNOTATION,
    V3_FORMAT_OBJECT_ID_ANNOTATION, V3_FORMAT_VERSION_ID_ANNOTATION]"
  by (simp add: annotation_names lit_inj)

lemma names_distinct_rev:
  "distinct [V3_FORMAT_VERSION_ID_ANNOTATION, V3_FORMAT_OBJECT_ID_ANNOTATION, V3_FORMAT_DIGEST_ANNOTATION,
    V3_FORMAT_GENERATION_ANNOTATION, V3_SIGNING_KEY_ID_ANNOTATION, V3_VERSION_ID_ANNOTATION, V3_BODY_DIGEST_ANNOTATION,
    V3_COMMIT_KEY_ANNOTATION, V3_SEQUENCE_ANNOTATION, ANCHOR_FENCE_ANNOTATION, REPOSITORY_FORMAT_ANNOTATION,
    WRITER_RENEWAL_ANNOTATION, WRITER_FENCE_ANNOTATION]"
  by (simp add: annotation_names lit_inj)

lemmas names_neq [simp] = names_distinct [simplified] names_distinct_rev [simplified]

definition lease_key :: "str \<Rightarrow> bool" where
  "lease_key k \<longleftrightarrow> k \<in> {WRITER_FENCE_ANNOTATION, WRITER_RENEWAL_ANNOTATION, ANCHOR_FENCE_ANNOTATION} \<union> set ANCHOR_ANNOTATIONS"

lemma take_lit: "take n (lit s) = lit (take n s)"
  by (simp add: lit_def take_map)

lemma lease_key_not_v2: "lease_key k \<Longrightarrow> take 10 k \<noteq> lit ''rs3.rs/v2-''"
  by (auto simp: lease_key_def ANCHOR_ANNOTATIONS_def annotation_names take_lit lit_inj)

lemma has_v2_key_get: "has_v2_key m \<longleftrightarrow> (\<exists>k. bt_get m k \<noteq> None \<and> take 10 k = lit ''rs3.rs/v2-'')"
  by (auto simp: has_v2_key_def list_ex_iff bt_keys_get)

lemma has_v2_key_empty [simp]: "\<not> has_v2_key []"
  by (simp add: has_v2_key_def bt_keys_def)

lemma has_v2_key_insert: "lease_key k \<Longrightarrow> has_v2_key (bt_insert k v m) \<longleftrightarrow> has_v2_key m"
  using lease_key_not_v2 [of k] by (auto simp: has_v2_key_get bt_get_insert)

lemma has_v2_key_remove: "lease_key k \<Longrightarrow> has_v2_key (bt_remove k m) \<longleftrightarrow> has_v2_key m"
  using lease_key_not_v2 [of k] by (auto simp: has_v2_key_get bt_get_remove)

lemma lease_key_names [simp]:
  "lease_key WRITER_FENCE_ANNOTATION" "lease_key WRITER_RENEWAL_ANNOTATION" "lease_key ANCHOR_FENCE_ANNOTATION"
  "lease_key REPOSITORY_FORMAT_ANNOTATION" "lease_key V3_SEQUENCE_ANNOTATION" "lease_key V3_COMMIT_KEY_ANNOTATION"
  "lease_key V3_BODY_DIGEST_ANNOTATION" "lease_key V3_VERSION_ID_ANNOTATION" "lease_key V3_SIGNING_KEY_ID_ANNOTATION"
  "lease_key V3_FORMAT_GENERATION_ANNOTATION" "lease_key V3_FORMAT_DIGEST_ANNOTATION"
  "lease_key V3_FORMAT_OBJECT_ID_ANNOTATION" "lease_key V3_FORMAT_VERSION_ID_ANNOTATION"
  by (simp_all add: lease_key_def ANCHOR_ANNOTATIONS_def)

lemma insert_or_remove_get: "bt_get (insert_or_remove k v m) j = (if j = k then v else bt_get m j)"
  by (simp add: insert_or_remove_def bt_get_insert bt_get_remove split: option.split)

lemma has_v2_key_insert_or_remove: "lease_key k \<Longrightarrow> has_v2_key (insert_or_remove k v m) \<longleftrightarrow> has_v2_key m"
  by (simp add: insert_or_remove_def has_v2_key_insert has_v2_key_remove split: option.split)

lemmas v2_simps = has_v2_key_insert has_v2_key_insert_or_remove
lemmas get_simps = bt_get_insert insert_or_remove_get

lemma with_annotations_simps [simp]:
  "annotations (with_annotations m l) = Some m" "annotations_or_empty (with_annotations m l) = m"
  "le_spec (with_annotations m l) = le_spec l" "resource_version (with_annotations m l) = resource_version l"
  by (simp_all add: with_annotations_def annotations_or_empty_def)

lemma annotations_or_empty_spec [simp]:
  "annotations_or_empty (l\<lparr>le_spec := s\<rparr>) = annotations_or_empty l"
  by (simp add: annotations_or_empty_def)

section \<open>Reading the fields\<close>

lemma parse_counter_or_empty:
  "parse_counter_annotation (annotations l) key =
     (case bt_get (annotations_or_empty l) key of None \<Rightarrow> Inr 0 | Some value \<Rightarrow> ok_or InvalidLease (parse_u64 value))"
  by (simp add: parse_counter_annotation_def annotations_or_empty_def bt_get_def split: option.split)

lemma coordination_cong:
  assumes "bt_get (annotations_or_empty l) WRITER_FENCE_ANNOTATION = bt_get (annotations_or_empty l') WRITER_FENCE_ANNOTATION"
    and "bt_get (annotations_or_empty l) WRITER_RENEWAL_ANNOTATION = bt_get (annotations_or_empty l') WRITER_RENEWAL_ANNOTATION"
    and "le_spec l = le_spec l'"
  shows "lease_coordination_state l d = lease_coordination_state l' d"
  using assms by (simp add: lease_coordination_state_def parse_counter_or_empty)

lemma anchor_or_empty:
  "v3_anchor_state_from_lease_optional lib l =
     (let m = annotations_or_empty l in
      if has_v2_key m then Inl AnchorReadFailed
      else if \<not> list_ex (\<lambda>key. bt_get m key \<noteq> None) ANCHOR_ANNOTATIONS then Inr None
      else bindE (v3_anchor_state_from_lease lib (with_annotations m l)) (\<lambda>state. Inr (Some state)))"
proof (cases "annotations l")
  case None
  then show ?thesis
    by (simp add: v3_anchor_state_from_lease_optional_def annotations_or_empty_def bt_get_def list_ex_iff Let_def)
next
  case (Some m)
  then have "v3_anchor_state_from_lease lib (with_annotations m l) = v3_anchor_state_from_lease lib l"
    unfolding v3_anchor_state_from_lease_def with_annotations_simps by simp
  with Some show ?thesis by (simp add: v3_anchor_state_from_lease_optional_def annotations_or_empty_def Let_def)
qed

lemma anchor_cong:
  assumes "\<And>k. k \<in> set ANCHOR_ANNOTATIONS \<Longrightarrow> bt_get (annotations_or_empty l) k = bt_get (annotations_or_empty l') k"
    and "has_v2_key (annotations_or_empty l) \<longleftrightarrow> has_v2_key (annotations_or_empty l')"
  shows "v3_anchor_state_from_lease_optional lib l = v3_anchor_state_from_lease_optional lib l'"
proof -
  define m m' where "m = annotations_or_empty l" and "m' = annotations_or_empty l'"
  have g: "bt_get m REPOSITORY_FORMAT_ANNOTATION = bt_get m' REPOSITORY_FORMAT_ANNOTATION"
    "bt_get m V3_SEQUENCE_ANNOTATION = bt_get m' V3_SEQUENCE_ANNOTATION"
    "bt_get m V3_COMMIT_KEY_ANNOTATION = bt_get m' V3_COMMIT_KEY_ANNOTATION"
    "bt_get m V3_BODY_DIGEST_ANNOTATION = bt_get m' V3_BODY_DIGEST_ANNOTATION"
    "bt_get m V3_VERSION_ID_ANNOTATION = bt_get m' V3_VERSION_ID_ANNOTATION"
    "bt_get m V3_SIGNING_KEY_ID_ANNOTATION = bt_get m' V3_SIGNING_KEY_ID_ANNOTATION"
    "bt_get m V3_FORMAT_GENERATION_ANNOTATION = bt_get m' V3_FORMAT_GENERATION_ANNOTATION"
    "bt_get m V3_FORMAT_DIGEST_ANNOTATION = bt_get m' V3_FORMAT_DIGEST_ANNOTATION"
    "bt_get m V3_FORMAT_OBJECT_ID_ANNOTATION = bt_get m' V3_FORMAT_OBJECT_ID_ANNOTATION"
    "bt_get m V3_FORMAT_VERSION_ID_ANNOTATION = bt_get m' V3_FORMAT_VERSION_ID_ANNOTATION"
    unfolding m_def m'_def by (rule assms(1), simp add: ANCHOR_ANNOTATIONS_def)+
  have v2: "has_v2_key m = has_v2_key m'" using assms(2) by (simp add: m_def m'_def)
  have "v3_anchor_state_from_lease lib (with_annotations m l) = v3_anchor_state_from_lease lib (with_annotations m' l')"
    unfolding v3_anchor_state_from_lease_def with_annotations_simps ok_or_simps(2) bindE_Inr v3_annotation_def optional_version_def g v2 ..
  moreover have "list_ex (\<lambda>key. bt_get m key \<noteq> None) ANCHOR_ANNOTATIONS = list_ex (\<lambda>key. bt_get m' key \<noteq> None) ANCHOR_ANNOTATIONS"
    using assms(1) by (auto simp: list_ex_iff m_def m'_def)
  ultimately show ?thesis
    unfolding anchor_or_empty [of lib l] anchor_or_empty [of lib l'] Let_def m_def [symmetric] m'_def [symmetric] v2 by simp
qed

text \<open>Only the duration of an incomplete lease depends on the reader.\<close>

lemma coordination_default:
  assumes "lease_coordination_state l d = Inr c" and "lease_coordination_state l d' = Inr c'"
  shows "co_holder_identity c = co_holder_identity c'" "co_fence_token c = co_fence_token c'" "co_renewal c = co_renewal c'"
  using assms by (auto simp: lease_coordination_state_def bindE_eq_Inr)

section \<open>Writing the coordination fields\<close>

definition coordination :: "WriterFenceClaim \<Rightarrow> u64 \<Rightarrow> Duration \<Rightarrow> i32 \<Rightarrow> LeaseCoordinationState" where
  "coordination claim renewal d secs = \<lparr>co_holder_identity = Some (fc_holder_identity claim), co_fence_token = fc_token claim,
     co_renewal = renewal, co_lease_duration = d, co_lease_duration_seconds = secs\<rparr>"

lemma guard_state_fields:
  assumes "lease_with_guard_state lease claim renewal dur wall own = Inr l"
  obtains secs where "duration_seconds_i32 dur = Inr secs"
    and "\<And>d. lease_coordination_state l d = Inr (coordination claim renewal dur secs)"
    and "resource_version l = resource_version lease"
    and "\<And>lib. v3_anchor_state_from_lease_optional lib l = v3_anchor_state_from_lease_optional lib lease"
    and "Option.bind (le_spec l) sp_renew_time = Some wall"
proof -
  let ?m = "bt_insert WRITER_RENEWAL_ANNOTATION (u64_to_string renewal)
      (bt_insert WRITER_FENCE_ANNOTATION (u64_to_string (fc_token claim)) (annotations_or_empty lease))"
  obtain secs spec where secs: "duration_seconds_i32 dur = Inr secs"
    and l: "l = (with_annotations ?m lease)\<lparr>le_spec := Some (spec\<lparr>sp_holder_identity := Some (fc_holder_identity claim),
        sp_lease_duration_seconds := Some secs, sp_renew_time := Some wall\<rparr>)\<rparr>"
    using assms unfolding lease_with_guard_state_def Let_def by (auto simp: bindE_eq_Inr)
  note x = duration_seconds_exact [OF secs]
  have "lease_coordination_state l d = Inr (coordination claim renewal dur secs)" for d
    using x unfolding l lease_coordination_state_def
    by (simp add: parse_counter_annotation_def bt_get_insert coordination_def)
  moreover have "v3_anchor_state_from_lease_optional lib l = v3_anchor_state_from_lease_optional lib lease" for lib
    unfolding l by (rule anchor_cong) (auto simp: v2_simps bt_get_insert ANCHOR_ANNOTATIONS_def)
  moreover have "resource_version l = resource_version lease" "Option.bind (le_spec l) sp_renew_time = Some wall"
    unfolding l by simp_all
  ultimately show thesis using that secs by blast
qed

lemma released_state_fields:
  assumes "lease_with_released_state lease renewal wall = Inr l" and c: "lease_coordination_state lease d = Inr c"
  shows "lease_coordination_state l d = Inr (c\<lparr>co_holder_identity := None, co_renewal := renewal\<rparr>)"
    and "resource_version l = resource_version lease"
    and "v3_anchor_state_from_lease_optional lib l = v3_anchor_state_from_lease_optional lib lease"
proof -
  obtain m spec where m: "annotations lease = Some m" and spec: "le_spec lease = Some spec"
    and l: "l = (with_annotations (bt_insert WRITER_RENEWAL_ANNOTATION (u64_to_string renewal) m) lease)
         \<lparr>le_spec := Some (spec\<lparr>sp_holder_identity := None, sp_renew_time := Some wall\<rparr>)\<rparr>"
    using assms(1) by (auto simp: lease_with_released_state_def bindE_eq_Inr split: if_splits)
  show "lease_coordination_state l d = Inr (c\<lparr>co_holder_identity := None, co_renewal := renewal\<rparr>)"
    using c m spec unfolding l lease_coordination_state_def
    by (auto simp: bindE_eq_Inr parse_counter_annotation_def bt_get_insert)
  show "resource_version l = resource_version lease" unfolding l by simp
  show "v3_anchor_state_from_lease_optional lib l = v3_anchor_state_from_lease_optional lib lease"
    unfolding l by (rule anchor_cong) (use m in \<open>auto simp: v2_simps bt_get_insert ANCHOR_ANNOTATIONS_def annotations_or_empty_def\<close>)
qed

lemma named_lease_fields [simp]:
  "annotations_or_empty (named_lease name) = []" "resource_version (named_lease name) = None" "le_spec (named_lease name) = None"
  by (simp_all add: named_lease_def annotations_or_empty_def)

section \<open>Writing the anchor\<close>

definition anchor_typed :: "V3AnchorState \<Rightarrow> bool" where
  "anchor_typed s \<longleftrightarrow> valid_name (an_commit_key s) \<and> length (an_body_digest s) = 32 \<and>
     (\<forall>v. an_version_id s = Some v \<longrightarrow> valid_name v) \<and> valid_name (an_signing_key_id s) \<and>
     fr_digest (an_format_ref s) \<noteq> [] \<and> valid_name (fr_object_id (an_format_ref s)) \<and>
     (\<forall>v. fr_version_id (an_format_ref s) = Some v \<longrightarrow> valid_name v)"

lemma anchor_state_fields:
  shows "lease_coordination_state (v3_lease_with_state lib lease s) d = lease_coordination_state lease d"
    and "resource_version (v3_lease_with_state lib lease s) = resource_version lease"
    and "lease_has_writer_coordination (v3_lease_with_state lib lease s) = lease_has_writer_coordination lease"
proof -
  show "lease_coordination_state (v3_lease_with_state lib lease s) d = lease_coordination_state lease d"
    by (rule coordination_cong) (simp_all add: v3_lease_with_state_def anchor_annotations_def get_simps Let_def)
  show "resource_version (v3_lease_with_state lib lease s) = resource_version lease" by (simp add: v3_lease_with_state_def)
  show "lease_has_writer_coordination (v3_lease_with_state lib lease s) = lease_has_writer_coordination lease"
    by (simp add: lease_has_writer_coordination_def v3_lease_with_state_def anchor_annotations_def get_simps Let_def
        annotations_or_empty_def bt_get_def [of "[]"] split: option.split)
qed

text \<open>
  The invariants of the field types of an anchor. The digest of the format reference is a plain
  string and may be empty, and a Lease may carry keys of the older layout: in both cases the
  annotations that the writer leaves are refused by the reader.
\<close>

definition anchor_fields_typed :: "V3AnchorState \<Rightarrow> bool" where
  "anchor_fields_typed s \<longleftrightarrow> valid_name (an_commit_key s) \<and> length (an_body_digest s) = 32 \<and>
     (\<forall>v. an_version_id s = Some v \<longrightarrow> valid_name v) \<and> valid_name (an_signing_key_id s) \<and>
     valid_name (fr_object_id (an_format_ref s)) \<and> (\<forall>v. fr_version_id (an_format_ref s) = Some v \<longrightarrow> valid_name v)"

lemma anchor_typed_iff: "anchor_typed s \<longleftrightarrow> anchor_fields_typed s \<and> fr_digest (an_format_ref s) \<noteq> []"
  by (auto simp: anchor_typed_def anchor_fields_typed_def)

lemma anchor_state_read:
  fixes lease s
  assumes "anchor_fields_typed s" and "hex_law lib"
  defines "refused \<equiv> has_v2_key (annotations_or_empty lease) \<or> fr_digest (an_format_ref s) = []"
  shows "v3_anchor_state_from_lease lib (v3_lease_with_state lib lease s) = (if refused then Inl AnchorReadFailed else Inr s)"
    and "v3_anchor_state_from_lease_optional lib (v3_lease_with_state lib lease s) = (if refused then Inl AnchorReadFailed else Inr (Some s))"
proof -
  define m where "m = anchor_annotations lib s (annotations_or_empty lease)"
  have v2: "has_v2_key m \<longleftrightarrow> has_v2_key (annotations_or_empty lease)" by (simp add: m_def anchor_annotations_def v2_simps Let_def)
  have hex: "hex_decode lib (hex_encode lib (an_body_digest s)) = Some (an_body_digest s)" using assms(2) by (simp add: hex_law_def)
  have g: "bt_get m REPOSITORY_FORMAT_ANNOTATION = Some (lit ''3'')"
    "bt_get m V3_SEQUENCE_ANNOTATION = Some (u64_to_string (an_sequence s))"
    "bt_get m V3_COMMIT_KEY_ANNOTATION = Some (an_commit_key s)"
    "bt_get m V3_BODY_DIGEST_ANNOTATION = Some (hex_encode lib (an_body_digest s))"
    "bt_get m V3_VERSION_ID_ANNOTATION = an_version_id s"
    "bt_get m V3_SIGNING_KEY_ID_ANNOTATION = Some (an_signing_key_id s)"
    "bt_get m V3_FORMAT_GENERATION_ANNOTATION = Some (u64_to_string (fr_generation (an_format_ref s)))"
    "bt_get m V3_FORMAT_DIGEST_ANNOTATION = Some (fr_digest (an_format_ref s))"
    "bt_get m V3_FORMAT_OBJECT_ID_ANNOTATION = Some (fr_object_id (an_format_ref s))"
    "bt_get m V3_FORMAT_VERSION_ID_ANNOTATION = fr_version_id (an_format_ref s)"
    by (simp_all add: m_def anchor_annotations_def get_simps Let_def)
  have opt: "optional_version m V3_VERSION_ID_ANNOTATION = Inr (an_version_id s)"
      "optional_version m V3_FORMAT_VERSION_ID_ANNOTATION = Inr (fr_version_id (an_format_ref s))"
    using assms(1)
    by (auto simp: optional_version_def g anchor_fields_typed_def BackendVersionId_new_def validate_non_empty_def valid_name_def
        split: option.split)
  show rt: "v3_anchor_state_from_lease lib (v3_lease_with_state lib lease s) = (if refused then Inl AnchorReadFailed else Inr s)"
    using assms(1) v2 hex
    by (simp add: v3_anchor_state_from_lease_def v3_lease_with_state_def m_def [symmetric] v3_annotation_def g opt hex_digest_def
        anchor_fields_typed_def BackendObjectId_new_def KeyId_new_def validate_non_empty_def valid_name_def refused_def)
  show "v3_anchor_state_from_lease_optional lib (v3_lease_with_state lib lease s) = (if refused then Inl AnchorReadFailed else Inr (Some s))"
    using v2 rt by (simp add: v3_anchor_state_from_lease_optional_def v3_lease_with_state_def m_def [symmetric]
        ANCHOR_ANNOTATIONS_def g refused_def)
qed

lemma anchor_state_roundtrip:
  assumes "anchor_typed s" and "hex_law lib" and "\<not> has_v2_key (annotations_or_empty lease)"
  shows "v3_anchor_state_from_lease lib (v3_lease_with_state lib lease s) = Inr s"
    and "v3_anchor_state_from_lease_optional lib (v3_lease_with_state lib lease s) = Inr (Some s)"
  using assms by (simp_all add: anchor_state_read anchor_typed_iff)

lemma bump_fields:
  shows "lease_coordination_state (bump_anchor_fence lease) d = lease_coordination_state lease d"
    and "resource_version (bump_anchor_fence lease) = resource_version lease"
    and "v3_anchor_state_from_lease_optional lib (bump_anchor_fence lease) = v3_anchor_state_from_lease_optional lib lease"
proof -
  show "lease_coordination_state (bump_anchor_fence lease) d = lease_coordination_state lease d"
    by (rule coordination_cong) (simp_all add: bump_anchor_fence_def bt_get_insert Let_def)
  show "resource_version (bump_anchor_fence lease) = resource_version lease" by (simp add: bump_anchor_fence_def Let_def)
  show "v3_anchor_state_from_lease_optional lib (bump_anchor_fence lease) = v3_anchor_state_from_lease_optional lib lease"
    by (rule anchor_cong) (auto simp: bump_anchor_fence_def v2_simps bt_get_insert ANCHOR_ANNOTATIONS_def Let_def)
qed

end
