(* ===== verification/LeaseSystem.thy ===== *)
theory LeaseSystem
  imports LeaseFields
begin

text \<open>
  Gateways that share one Lease. Every process has a guard, at most one running guard operation,
  and any number of anchor operations; all of them run as programs whose API calls interleave
  freely. The API server is a parameter; \<open>lease_api_law\<close> states its documented behaviour: reads
  return the stored object, a create needs its absence, a replace needs the resource version of
  the stored object, every write gets a fresh resource version, and an unavailable API may or may
  not have applied the request. Such a request may also be applied later. A process may crash at
  any point; when it starts again it is a new process with a fresh guard.
\<close>

section \<open>The lease API\<close>

text \<open>The stored object, and every version of it that was ever stored.\<close>

record lease_store =
  sv_lease :: "Lease option"
  sv_versions :: "str \<Rightarrow> Lease option"

type_synonym lease_api = "lease_store \<Rightarrow> lease_request \<Rightarrow> lease_reply \<Rightarrow> lease_store \<Rightarrow> bool"

definition with_version :: "str \<Rightarrow> Lease \<Rightarrow> Lease" where
  "with_version v l = l\<lparr>le_metadata := (le_metadata l)\<lparr>om_resource_version := Some v\<rparr>\<rparr>"

definition stores :: "Lease \<Rightarrow> Lease \<Rightarrow> lease_store \<Rightarrow> lease_store \<Rightarrow> bool" where
  "stores l l' s s' \<longleftrightarrow> (\<exists>v. sv_versions s v = None \<and> l' = with_version v l \<and>
     s' = \<lparr>sv_lease = Some l', sv_versions = (sv_versions s)(v \<mapsto> l')\<rparr>)"

fun accepts :: "lease_store \<Rightarrow> lease_request \<Rightarrow> bool" where
  "accepts s (GetLease ns n) = False"
| "accepts s (CreateLease ns l) = (sv_lease s = None)"
| "accepts s (ReplaceLease ns n l) = (\<exists>c. sv_lease s = Some c \<and> (resource_version l = None \<or> resource_version l = resource_version c))"

fun body_of :: "lease_request \<Rightarrow> Lease option" where
  "body_of (GetLease ns n) = None"
| "body_of (CreateLease ns l) = Some l"
| "body_of (ReplaceLease ns n l) = Some l"

definition documented_reply :: "lease_store \<Rightarrow> lease_request \<Rightarrow> lease_reply \<Rightarrow> lease_store \<Rightarrow> bool" where
  "documented_reply s q r s' \<longleftrightarrow>
     (s' = s \<and> (r = Failed ApiUnavailable \<or>
        (case q of GetLease ns n \<Rightarrow> r = Found (sv_lease s) | _ \<Rightarrow> r = Failed Conflict))) \<or>
     (accepts s q \<and> (\<exists>l l'. body_of q = Some l \<and> stores l l' s s' \<and> (r = Stored l' \<or> r = Failed ApiUnavailable)))"

definition lease_api_law :: "lease_api \<Rightarrow> bool" where
  "lease_api_law api \<longleftrightarrow> (\<forall>s q r s'. api s q r s' \<longrightarrow> documented_reply s q r s')"

section \<open>The system\<close>

text \<open>One entry for every write of the coordination fields, in order; the first one stands for none.\<close>

record lease_entry =
  en_time :: Duration
  en_owner :: nat
  en_holder :: "str option"
  en_token :: u64
  en_duration :: Duration

definition no_entry :: lease_entry where
  "no_entry = \<lparr>en_time = 0, en_owner = 0, en_holder = None, en_token = 0, en_duration = 0\<rparr>"

datatype lease_task =
    GuardTask Duration "LeaseGuard lease_io"
  | AnchorTask "WriterFenceClaim option" "unit lease_io"

record lease_system =
  sy_now :: Duration
  sy_store :: lease_store
  sy_guard :: "nat \<Rightarrow> LeaseGuard"
  sy_tasks :: "nat \<Rightarrow> (nat \<times> lease_task) option"
  sy_late :: "(nat \<times> lease_request) set"
  sy_released :: "nat \<Rightarrow> bool"
  sy_log :: "lease_entry list"

definition coord :: "Lease option \<Rightarrow> LeaseGuardError + LeaseCoordinationState" where
  "coord l = (case l of
     None \<Rightarrow> Inr \<lparr>co_holder_identity = None, co_fence_token = 0, co_renewal = 0, co_lease_duration = NANOS,
       co_lease_duration_seconds = 1\<rparr>
   | Some l \<Rightarrow> lease_coordination_state l NANOS)"

definition log_write :: "Duration \<Rightarrow> nat \<Rightarrow> Lease option \<Rightarrow> Lease option \<Rightarrow> lease_entry list \<Rightarrow> lease_entry list" where
  "log_write now p old new log =
     (case (coord old, coord new) of
        (Inr a, Inr b) \<Rightarrow>
          if co_renewal b \<noteq> co_renewal a
          then log @ [\<lparr>en_time = now, en_owner = p, en_holder = co_holder_identity b, en_token = co_fence_token b,
            en_duration = co_lease_duration b\<rparr>]
          else log
      | _ \<Rightarrow> log)"

text \<open>The effect of a request of process \<open>p\<close> that the API answers with \<open>r\<close>.\<close>

definition answered :: "nat \<Rightarrow> lease_request \<Rightarrow> lease_reply \<Rightarrow> lease_store \<Rightarrow> lease_system \<Rightarrow> lease_system" where
  "answered p q r store s =
     s\<lparr>sy_store := store, sy_log := log_write (sy_now s) p (sv_lease (sy_store s)) (sv_lease store) (sy_log s),
       sy_late := (if r = Failed ApiUnavailable then insert (p, q) (sy_late s) else sy_late s)\<rparr>"

definition busy :: "lease_system \<Rightarrow> nat \<Rightarrow> bool" where
  "busy s p \<longleftrightarrow> (\<exists>t m io. sy_tasks s t = Some (p, GuardTask m io))"

fun pending :: "nat \<times> lease_task \<Rightarrow> (nat \<times> lease_request) set" where
  "pending (p, GuardTask m (Call q k)) = {(p, q)}"
| "pending (p, AnchorTask f (Call q k)) = {(p, q)}"
| "pending _ = {}"

text \<open>A crash loses the state of a process; a restarted process is another one.\<close>

definition crashed :: "nat \<Rightarrow> lease_system \<Rightarrow> lease_system" where
  "crashed p s = s\<lparr>sy_guard := (sy_guard s)(p := deactivate (sy_guard s p)),
     sy_tasks := (\<lambda>t. case sy_tasks s t of Some (q, x) \<Rightarrow> if q = p then None else Some (q, x) | None \<Rightarrow> None),
     sy_late := sy_late s \<union> (\<Union>t. case sy_tasks s t of Some (q, x) \<Rightarrow> if q = p then pending (q, x) else {} | None \<Rightarrow> {})\<rparr>"

text \<open>The latency bound \<open>delta\<close> limits the time from the start of a guard operation to its reads.\<close>

inductive lease_step :: "crypto_lib \<Rightarrow> lease_api \<Rightarrow> Duration \<Rightarrow> lease_system \<Rightarrow> lease_system \<Rightarrow> bool"
  for lib api delta where
  tick: "lease_step lib api delta s (s\<lparr>sy_now := sy_now s + d\<rparr>)"
| start_acquire: "sy_tasks s t = None \<Longrightarrow> \<not> busy s p \<Longrightarrow>
    lease_step lib api delta s (s\<lparr>sy_tasks := (sy_tasks s)(t \<mapsto>
      (p, GuardTask (sy_now s) (map_lease_io fst (acquire_at (sy_guard s p) wall (sy_now s)))))\<rparr>)"
| start_renew: "sy_tasks s t = None \<Longrightarrow> \<not> busy s p \<Longrightarrow>
    lease_step lib api delta s (s\<lparr>sy_tasks := (sy_tasks s)(t \<mapsto>
      (p, GuardTask (sy_now s) (map_lease_io fst (renew_at (sy_guard s p) wall (sy_now s)))))\<rparr>)"
| start_release: "sy_tasks s t = None \<Longrightarrow> \<not> busy s p \<Longrightarrow>
    lease_step lib api delta s (s\<lparr>sy_tasks := (sy_tasks s)(t \<mapsto>
      (p, GuardTask (sy_now s) (map_lease_io fst (release_at (sy_guard s p) wall)))),
      sy_released := (sy_released s)(p := True)\<rparr>)"
| start_advance: "sy_tasks s t = None \<Longrightarrow> anchor_typed next \<Longrightarrow> (\<forall>c. f = Some c \<longrightarrow> current_claim (sy_guard s p) = Inr c) \<Longrightarrow>
    lease_step lib api delta s (s\<lparr>sy_tasks := (sy_tasks s)(t \<mapsto>
      (p, AnchorTask f (map_lease_io (\<lambda>_. ()) (compare_and_advance_lease lib settings (f \<noteq> None) expected next))))\<rparr>)"
| start_fence: "sy_tasks s t = None \<Longrightarrow> (\<forall>c. f = Some c \<longrightarrow> current_claim (sy_guard s p) = Inr c) \<Longrightarrow>
    lease_step lib api delta s (s\<lparr>sy_tasks := (sy_tasks s)(t \<mapsto>
      (p, AnchorTask f (map_lease_io (\<lambda>_. ()) (fence_and_read_lease lib settings (f \<noteq> None)))))\<rparr>)"
| guard_call: "sy_tasks s t = Some (p, GuardTask m (Call q k)) \<Longrightarrow> (body_of q = None \<longrightarrow> sy_now s \<le> m + delta) \<Longrightarrow>
    api (sy_store s) q r store \<Longrightarrow>
    lease_step lib api delta s ((answered p q r store s)\<lparr>sy_tasks := (sy_tasks s)(t \<mapsto> (p, GuardTask m (k r)))\<rparr>)"
| anchor_call: "sy_tasks s t = Some (p, AnchorTask f (Call q k)) \<Longrightarrow> api (sy_store s) q r store \<Longrightarrow>
    lease_step lib api delta s ((answered p q r store s)\<lparr>sy_tasks := (sy_tasks s)(t \<mapsto> (p, AnchorTask f (k r)))\<rparr>)"
| anchor_claim: "sy_tasks s t = Some (p, AnchorTask f (LiveClaim k)) \<Longrightarrow>
    lease_step lib api delta s (s\<lparr>sy_tasks := (sy_tasks s)(t \<mapsto>
      (p, AnchorTask f (k (Option.bind f (\<lambda>c. live_claim_at (sy_guard s p) c (sy_now s))))))\<rparr>)"
| late: "(p, q) \<in> sy_late s \<Longrightarrow> api (sy_store s) q r store \<Longrightarrow> lease_step lib api delta s (answered p q r store s)"
| guard_done: "sy_tasks s t = Some (p, GuardTask m (Return g)) \<Longrightarrow>
    lease_step lib api delta s (s\<lparr>sy_guard := (sy_guard s)(p := g), sy_tasks := (sy_tasks s)(t := None)\<rparr>)"
| anchor_done: "sy_tasks s t = Some (p, AnchorTask f (Return u)) \<Longrightarrow>
    lease_step lib api delta s (s\<lparr>sy_tasks := (sy_tasks s)(t := None)\<rparr>)"
| crash: "lease_step lib api delta s (crashed p s)"

text \<open>Nothing runs, no lease was ever written, and the store holds no lease or one without coordination fields.\<close>

definition initial :: "lease_system \<Rightarrow> bool" where
  "initial s \<longleftrightarrow> sy_tasks s = Map.empty \<and> sy_late s = {} \<and> sy_log s = [no_entry] \<and>
     (\<forall>p. \<exists>settings identity duration. LeaseGuard_new settings identity duration = Inr (sy_guard s p)) \<and>
     (case sv_lease (sy_store s) of
        None \<Rightarrow> sv_versions (sy_store s) = Map.empty
      | Some l \<Rightarrow> (\<exists>v. resource_version l = Some v \<and> sv_versions (sy_store s) = [v \<mapsto> l]) \<and>
          bt_get (annotations_or_empty l) WRITER_FENCE_ANNOTATION = None \<and>
          bt_get (annotations_or_empty l) WRITER_RENEWAL_ANNOTATION = None \<and>
          Option.bind (le_spec l) sp_holder_identity = None \<and> Option.bind (le_spec l) sp_lease_duration_seconds = None)"

definition reachable :: "crypto_lib \<Rightarrow> lease_api \<Rightarrow> Duration \<Rightarrow> lease_system \<Rightarrow> bool" where
  "reachable lib api delta s \<longleftrightarrow> (\<exists>s0. initial s0 \<and> (lease_step lib api delta)\<^sup>*\<^sup>* s0 s)"

definition live :: "lease_system \<Rightarrow> nat \<Rightarrow> WriterFenceClaim \<Rightarrow> bool" where
  "live s p c \<longleftrightarrow> live_claim_at (sy_guard s p) c (sy_now s) = Some c"

end
