(* ===== verification/LeasePrograms.thy ===== *)
theory LeasePrograms
  imports LeaseSystem
begin

text \<open>
  What the programs of the guard and of the anchor can send and return, whatever the API answers:
  a replace is always computed from the lease that was read last, by one of five updates. Shown
  once for every program, this is all that the proofs about the system need.
\<close>

section \<open>Updates\<close>

text \<open>The lease that a program has read last, and the lease that the API stored for it last.\<close>

fun read_of :: "Lease option \<Rightarrow> lease_reply \<Rightarrow> Lease option" where
  "read_of rd (Found l) = l"
| "read_of rd _ = rd"

fun stored_of :: "Lease option \<Rightarrow> lease_reply \<Rightarrow> Lease option" where
  "stored_of st (Stored l) = Some l"
| "stored_of st _ = st"

definition acquires :: "LeaseGuard \<Rightarrow> Duration \<Rightarrow> Lease \<Rightarrow> Lease \<Rightarrow> bool" where
  "acquires g m c l \<longleftrightarrow> (\<exists>a claim wall. lease_coordination_state c (lg_lease_duration g) = Inr a \<and>
     fst (may_take_ownership g a m) = Allowed \<and> acquire_update g c a wall = Inr (claim, l))"

definition renews :: "LeaseGuard \<Rightarrow> Lease \<Rightarrow> Lease \<Rightarrow> bool" where
  "renews g c l \<longleftrightarrow> (\<exists>a claim renewal wall. lease_coordination_state c (lg_lease_duration g) = Inr a \<and>
     current_claim g = Inr claim \<and> co_holder_identity a = Some (fc_holder_identity claim) \<and>
     co_fence_token a = fc_token claim \<and> checked_add (co_renewal a) 1 = Some renewal \<and>
     lease_with_guard_state c claim renewal (lg_lease_duration g) wall False = Inr l)"

definition releases :: "LeaseGuard \<Rightarrow> Lease \<Rightarrow> Lease \<Rightarrow> bool" where
  "releases g c l \<longleftrightarrow> (\<exists>a claim renewal wall. lease_coordination_state c (lg_lease_duration g) = Inr a \<and>
     current_claim g = Inr claim \<and> lease_holds_claim c claim = Inr True \<and>
     checked_add (co_renewal a) 1 = Some renewal \<and> lease_with_released_state c renewal wall = Inr l)"

fun guard_sends :: "LeaseGuard \<Rightarrow> Duration \<Rightarrow> bool \<Rightarrow> Lease option \<Rightarrow> lease_request \<Rightarrow> bool" where
  "guard_sends g m released rd (GetLease ns n) = True"
| "guard_sends g m released rd (CreateLease ns l) =
     (\<exists>wall. new_guard_lease (st_name (lg_settings g)) \<lparr>fc_holder_identity = lg_holder_identity g, fc_token = 1\<rparr>
       (lg_lease_duration g) wall = Inr l)"
| "guard_sends g m released rd (ReplaceLease ns n l) =
     (\<exists>c. rd = Some c \<and> (acquires g m c l \<or> renews g c l \<or> released \<and> releases g c l))"

definition same_config :: "LeaseGuard \<Rightarrow> LeaseGuard \<Rightarrow> bool" where
  "same_config g g' \<longleftrightarrow> lg_settings g' = lg_settings g \<and> lg_holder_identity g' = lg_holder_identity g \<and>
     lg_lease_duration g' = lg_lease_duration g"

definition returns_local :: "LeaseGuard \<Rightarrow> Duration \<Rightarrow> Lease option \<Rightarrow> LeaseGuard \<Rightarrow> bool" where
  "returns_local g m st g' \<longleftrightarrow> lg_local_state g' = lg_local_state g \<or> \<not> lf_active (lg_local_state g') \<or>
     (\<exists>l claim. st = Some l \<and> lease_holds_claim l claim = Inr True \<and>
        lg_local_state g' = \<lparr>lf_claim = Some claim, lf_last_success = Some m, lf_active = True\<rparr>)"

definition returns_observation :: "LeaseGuard \<Rightarrow> Duration \<Rightarrow> Lease option \<Rightarrow> LeaseGuard \<Rightarrow> bool" where
  "returns_observation g m rd g' \<longleftrightarrow> lg_observation g' = None \<or> lg_observation g' = lg_observation g \<or>
     (\<exists>c a r. rd = Some c \<and> lease_coordination_state c (lg_lease_duration g) = Inr a \<and> observation a = Some r \<and>
        lg_observation g' = Some \<lparr>oc_record = r, oc_observed_at = m\<rparr>)"

definition guard_returns :: "LeaseGuard \<Rightarrow> Duration \<Rightarrow> Lease option \<Rightarrow> Lease option \<Rightarrow> LeaseGuard \<Rightarrow> bool" where
  "guard_returns g m rd st g' \<longleftrightarrow> same_config g g' \<and> returns_local g m st g' \<and> returns_observation g m rd g'"

primrec guard_io ::
  "LeaseGuard \<Rightarrow> Duration \<Rightarrow> bool \<Rightarrow> Lease option \<Rightarrow> Lease option \<Rightarrow> LeaseGuard lease_io \<Rightarrow> bool" where
  "guard_io g m released rd st (Return g') = guard_returns g m rd st g'"
| "guard_io g m released rd st (Call q k) =
     (guard_sends g m released rd q \<and> (\<forall>r. guard_io g m released (read_of rd r) (stored_of st r) (k r)))"
| "guard_io g m released rd st (LiveClaim k) = False"

lemma all_reply: "(\<forall>r. P r) \<longleftrightarrow> (\<forall>l. P (Found l)) \<and> (\<forall>l. P (Stored l)) \<and> (\<forall>e. P (Failed e))"
  by (metis lease_reply.exhaust)

lemma guard_io_get [simp]:
  "guard_io g m b rd st (map_lease_io f (get_lease s k)) \<longleftrightarrow>
     (\<forall>l. guard_io g m b l st (map_lease_io f (k (Inr l)))) \<and>
     (\<forall>l. guard_io g m b rd (Some l) (map_lease_io f (k (Inl ApiUnavailable)))) \<and>
     (\<forall>e. guard_io g m b rd st (map_lease_io f (k (Inl e))))"
  by (simp add: get_lease_def all_reply)

lemma guard_io_create [simp]:
  "guard_io g m b rd st (map_lease_io f (create_lease s l k)) \<longleftrightarrow>
     guard_sends g m b rd (CreateLease (st_namespace s) l) \<and>
     (\<forall>l. guard_io g m b l st (map_lease_io f (k (Inl ApiUnavailable)))) \<and>
     (\<forall>l. guard_io g m b rd (Some l) (map_lease_io f (k (Inr l)))) \<and>
     (\<forall>e. guard_io g m b rd st (map_lease_io f (k (Inl e))))"
  by (simp add: create_lease_def all_reply)

lemma guard_io_replace [simp]:
  "guard_io g m b rd st (map_lease_io f (replace_lease s l k)) \<longleftrightarrow>
     guard_sends g m b rd (ReplaceLease (st_namespace s) (st_name s) l) \<and>
     (\<forall>l. guard_io g m b l st (map_lease_io f (k (Inl ApiUnavailable)))) \<and>
     (\<forall>l. guard_io g m b rd (Some l) (map_lease_io f (k (Inr l)))) \<and>
     (\<forall>e. guard_io g m b rd st (map_lease_io f (k (Inl e))))"
  by (simp add: replace_lease_def all_reply)

section \<open>The guard\<close>

lemma returns_same [simp]: "guard_returns g m rd st g"
  by (simp add: guard_returns_def same_config_def returns_local_def returns_observation_def)

lemma returns_deactivated [simp]: "guard_returns g m rd st (deactivate g)"
  by (simp add: guard_returns_def same_config_def returns_local_def returns_observation_def deactivate_def)

lemma returns_success [simp]: "guard_returns g m rd (Some l) (fst (record_success g l claim m))"
proof (cases "lease_state_from_spec l")
  case (Inr x)
  then obtain a where a: "lease_coordination_state l NANOS = Inr a" "co_holder_identity a = Some (gs_holder_identity x)"
    "co_fence_token a = gs_fence_token x"
    by (cases "lease_coordination_state l NANOS") (auto simp: lease_state_from_spec_def bindE_eq_Inr)
  show ?thesis
  proof (cases "gs_holder_identity x \<noteq> fc_holder_identity claim \<or> gs_fence_token x \<noteq> fc_token claim")
    case True
    then show ?thesis using Inr by (simp add: record_success_def)
  next
    case False
    then have "lease_holds_claim l claim = Inr True" using a by (simp add: lease_holds_claim_def)
    with False Inr show ?thesis
      by (simp add: record_success_def guard_returns_def same_config_def returns_local_def returns_observation_def)
  qed
qed (simp add: record_success_def)

lemma takeover_cases:
  "may_take_ownership g a m = (Allowed, g) \<or>
   (\<exists>d g'. may_take_ownership g a m = (d, g') \<and> d \<noteq> Allowed \<and> same_config g g' \<and> lg_local_state g' = lg_local_state g \<and>
     (g' = g \<or> (\<exists>r. observation a = Some r \<and> lg_observation g' = Some \<lparr>oc_record = r, oc_observed_at = m\<rparr>)))"
  by (auto simp: may_take_ownership_def same_config_def split: option.split)

lemma acquire_guard_io: "guard_io g m b rd st (map_lease_io fst (acquire_loop n g wall m))"
proof (induction n arbitrary: rd st)
  case (Suc n)
  have "guard_io g m b (Some c) st (map_lease_io fst (case lease_coordination_state c (lg_lease_duration g) of
            Inl err \<Rightarrow> Return (g, Inl err)
          | Inr current \<Rightarrow>
              (case may_take_ownership g current m of
                 (Observing, g) \<Rightarrow> Return (g, Inl HeldByOther)
               | (CompetitorRenewed, g) \<Rightarrow> Return (g, Inl HeldByLiveWriter)
               | (Allowed, g) \<Rightarrow>
                   (case acquire_update g c current wall of
                      Inl err \<Rightarrow> Return (g, Inl err)
                    | Inr (claim, updated) \<Rightarrow>
                        replace_lease (lg_settings g) updated (\<lambda>replaced. case replaced of
                          Inr lease \<Rightarrow> Return (record_success g lease claim m)
                        | Inl err \<Rightarrow>
                            if err = Conflict then acquire_loop n g wall m else Return (g, Inl err))))))" for c
  proof (cases "lease_coordination_state c (lg_lease_duration g)")
    case (Inr a)
    from takeover_cases [of g a m] show ?thesis
    proof
      assume allowed: "may_take_ownership g a m = (Allowed, g)"
      show ?thesis
      proof (cases "acquire_update g c a wall")
        case x: (Inr x)
        obtain claim l where "x = (claim, l)" by (cases x)
        moreover from this have "acquires g m c l" using allowed Inr x by (auto simp: acquires_def)
        ultimately show ?thesis using x allowed Inr Suc by simp
      qed (use allowed Inr in simp)
    next
      assume "\<exists>d g'. may_take_ownership g a m = (d, g') \<and> d \<noteq> Allowed \<and> same_config g g' \<and> lg_local_state g' = lg_local_state g \<and>
        (g' = g \<or> (\<exists>r. observation a = Some r \<and> lg_observation g' = Some \<lparr>oc_record = r, oc_observed_at = m\<rparr>))"
      then obtain d g' where d: "may_take_ownership g a m = (d, g')" "d \<noteq> Allowed" "same_config g g'"
        "lg_local_state g' = lg_local_state g"
        "g' = g \<or> (\<exists>r. observation a = Some r \<and> lg_observation g' = Some \<lparr>oc_record = r, oc_observed_at = m\<rparr>)" by blast
      then have "guard_returns g m (Some c) st g'"
        using Inr by (auto simp: guard_returns_def returns_local_def returns_observation_def)
      then show ?thesis using d(1,2) Inr by (cases d) simp_all
    qed
  qed simp
  then show ?case
    using Suc by (auto simp: Let_def split: sum.split option.split)
qed simp

lemma renew_loop_guard_io:
  "current_claim g = Inr claim \<Longrightarrow> guard_io g m b rd st (map_lease_io fst (renew_loop n g claim wall m))"
proof (induction n arbitrary: rd st)
  case (Suc n)
  have "guard_io g m b (Some c) st (map_lease_io fst (case lease_coordination_state c (lg_lease_duration g) of
            Inl err \<Rightarrow> Return (g, Inl err)
          | Inr current \<Rightarrow>
              if co_holder_identity current \<noteq> Some (fc_holder_identity claim) \<or> co_fence_token current \<noteq> fc_token claim
              then Return (deactivate g, Inl HeldByOther)
              else
                (case bindE (ok_or InvalidLease (checked_add (co_renewal current) 1)) (\<lambda>renewal.
                    lease_with_guard_state c claim renewal (lg_lease_duration g) wall False) of
                   Inl err \<Rightarrow> Return (g, Inl err)
                 | Inr updated \<Rightarrow>
                     replace_lease (lg_settings g) updated (\<lambda>replaced. case replaced of
                       Inr lease \<Rightarrow> Return (record_success g lease claim m)
                     | Inl err \<Rightarrow> if err = Conflict then renew_loop n g claim wall m else Return (g, Inl err)))))" for c
  proof (cases "lease_coordination_state c (lg_lease_duration g)")
    case (Inr a)
    let ?u = "bindE (ok_or InvalidLease (checked_add (co_renewal a) 1)) (\<lambda>renewal.
        lease_with_guard_state c claim renewal (lg_lease_duration g) wall False)"
    show ?thesis
    proof (cases "co_holder_identity a \<noteq> Some (fc_holder_identity claim) \<or> co_fence_token a \<noteq> fc_token claim")
      case False
      show ?thesis
      proof (cases ?u)
        case (Inr l)
        then have "renews g c l"
          using False \<open>lease_coordination_state c (lg_lease_duration g) = Inr a\<close> Suc.prems by (auto simp: renews_def bindE_eq_Inr)
        then show ?thesis using Inr False \<open>lease_coordination_state c (lg_lease_duration g) = Inr a\<close> Suc by simp
      qed (use False Inr in simp)
    qed (use Inr in simp)
  qed simp
  then show ?case using Suc by (auto split: option.split)
qed simp

lemma release_loop_guard_io:
  "current_claim g = Inr claim \<Longrightarrow> guard_io g m True rd st (map_lease_io fst (release_loop n g claim wall))"
proof (induction n arbitrary: rd st)
  case (Suc n)
  have "guard_io g m True (Some c) st (map_lease_io fst (case lease_holds_claim c claim of
            Inl err \<Rightarrow> Return (g, Inl err)
          | Inr False \<Rightarrow> Return (deactivate g, Inl HeldByOther)
          | Inr True \<Rightarrow>
              (case bindE (lease_coordination_state c (lg_lease_duration g)) (\<lambda>current.
                  bindE (ok_or InvalidLease (checked_add (co_renewal current) 1)) (\<lambda>renewal.
                  lease_with_released_state c renewal wall)) of
                 Inl err \<Rightarrow> Return (g, Inl err)
               | Inr updated \<Rightarrow>
                   replace_lease (lg_settings g) updated (\<lambda>replaced. case replaced of
                     Inr lease \<Rightarrow> Return (deactivate g, Inr ())
                   | Inl err \<Rightarrow> if err = Conflict then release_loop n g claim wall else Return (g, Inl err)))))" for c
  proof (cases "lease_holds_claim c claim = Inr True")
    case True
    let ?u = "bindE (lease_coordination_state c (lg_lease_duration g)) (\<lambda>current.
        bindE (ok_or InvalidLease (checked_add (co_renewal current) 1)) (\<lambda>renewal. lease_with_released_state c renewal wall))"
    show ?thesis
    proof (cases ?u)
      case (Inr l)
      then have "releases g c l" using True Suc.prems by (auto simp: releases_def bindE_eq_Inr)
      then show ?thesis using Inr True Suc by simp
    qed (use True in simp)
  qed (auto split: sum.split bool.split)
  then show ?case using Suc by (auto split: option.split)
qed simp

lemma guard_programs:
  "guard_io g m b rd st (map_lease_io fst (acquire_at g wall m))"
  "guard_io g m b rd st (map_lease_io fst (renew_at g wall m))"
  "guard_io g m True rd st (map_lease_io fst (release_at g wall))"
  by (auto simp: acquire_at_def renew_at_def release_at_def acquire_guard_io renew_loop_guard_io release_loop_guard_io
      split: sum.split)

section \<open>The anchor\<close>

fun authorised :: "WriterFenceClaim option \<Rightarrow> Lease \<Rightarrow> bool" where
  "authorised (Some claim) c = (lease_holds_claim c claim = Inr True)"
| "authorised None c = (\<not> lease_has_writer_coordination c)"

definition advances :: "crypto_lib \<Rightarrow> WriterFenceClaim option \<Rightarrow> Lease \<Rightarrow> Lease \<Rightarrow> bool" where
  "advances lib f c l \<longleftrightarrow> authorised f c \<and> (\<exists>current next. v3_anchor_state_from_lease_optional lib c = Inr current \<and>
     anchor_typed next \<and> \<not> stale_advance current current next \<and> l = v3_lease_with_state lib c next)"

fun anchor_sends :: "crypto_lib \<Rightarrow> WriterFenceClaim option \<Rightarrow> Lease option \<Rightarrow> lease_request \<Rightarrow> bool" where
  "anchor_sends lib f rd (GetLease ns n) = True"
| "anchor_sends lib f rd (CreateLease ns l) = (f = None \<and> (\<exists>name next. anchor_typed next \<and> l = new_v3_lease lib name next))"
| "anchor_sends lib f rd (ReplaceLease ns n l) =
     (\<exists>c. rd = Some c \<and> (advances lib f c l \<or> authorised f c \<and> l = bump_anchor_fence c))"

primrec anchor_io :: "crypto_lib \<Rightarrow> WriterFenceClaim option \<Rightarrow> Lease option \<Rightarrow> unit lease_io \<Rightarrow> bool" where
  "anchor_io lib f rd (Return u) = True"
| "anchor_io lib f rd (Call q k) = (anchor_sends lib f rd q \<and> (\<forall>r. anchor_io lib f (read_of rd r) (k r)))"
| "anchor_io lib f rd (LiveClaim k) = (\<forall>c. c = None \<or> c = f \<longrightarrow> anchor_io lib f rd (k c))"

lemma anchor_io_get [simp]:
  "anchor_io lib f rd (map_lease_io (\<lambda>_. ()) (get_lease s k)) \<longleftrightarrow>
     (\<forall>l. anchor_io lib f l (map_lease_io (\<lambda>_. ()) (k (Inr l)))) \<and> (\<forall>e. anchor_io lib f rd (map_lease_io (\<lambda>_. ()) (k (Inl e))))"
  by (auto simp: get_lease_def all_reply)

lemma anchor_io_create [simp]:
  "anchor_io lib f rd (map_lease_io (\<lambda>_. ()) (create_lease s l k)) \<longleftrightarrow>
     anchor_sends lib f rd (CreateLease (st_namespace s) l) \<and>
     (\<forall>l. anchor_io lib f l (map_lease_io (\<lambda>_. ()) (k (Inl ApiUnavailable)))) \<and>
     (\<forall>l. anchor_io lib f rd (map_lease_io (\<lambda>_. ()) (k (Inr l)))) \<and> (\<forall>e. anchor_io lib f rd (map_lease_io (\<lambda>_. ()) (k (Inl e))))"
  by (simp add: create_lease_def all_reply)

lemma anchor_io_replace [simp]:
  "anchor_io lib f rd (map_lease_io (\<lambda>_. ()) (replace_lease s l k)) \<longleftrightarrow>
     anchor_sends lib f rd (ReplaceLease (st_namespace s) (st_name s) l) \<and>
     (\<forall>l. anchor_io lib f l (map_lease_io (\<lambda>_. ()) (k (Inl ApiUnavailable)))) \<and>
     (\<forall>l. anchor_io lib f rd (map_lease_io (\<lambda>_. ()) (k (Inr l)))) \<and> (\<forall>e. anchor_io lib f rd (map_lease_io (\<lambda>_. ()) (k (Inl e))))"
  by (simp add: replace_lease_def all_reply)

lemma check_live_claim_ok: "check_live_claim c lc = Inr u \<Longrightarrow> \<exists>claim. lc = Some claim \<and> lease_holds_claim c claim = Inr True"
proof -
  assume "check_live_claim c lc = Inr u"
  then obtain claim where lc: "lc = Some claim"
    and holds: "bindE (map_err (\<lambda>_. AnchorAdvanceFailed) (lease_holds_claim c claim)) (\<lambda>holds. ensure holds AnchorAdvanceFailed) = Inr u"
    by (cases lc) (simp_all add: check_live_claim_def)
  then have "lease_holds_claim c claim = Inr True"
    by (cases "lease_holds_claim c claim") (simp_all add: map_err_def ensure_def split: if_splits)
  with lc show ?thesis by blast
qed

lemma anchor_io_fence:
  assumes "\<And>e. anchor_io lib f rd (map_lease_io (\<lambda>_. ()) (k (Inl e)))"
    and "authorised f c \<Longrightarrow> anchor_io lib f rd (map_lease_io (\<lambda>_. ()) (k (Inr ())))"
  shows "anchor_io lib f rd (map_lease_io (\<lambda>_. ()) (validate_writer_fence c (f \<noteq> None) k))"
proof (cases f)
  case None
  then show ?thesis using assms by (simp add: validate_writer_fence_def)
next
  case (Some claim)
  have "anchor_io lib f rd (map_lease_io (\<lambda>_. ()) (k (check_live_claim c lc)))" if "lc = None \<or> lc = f" for lc
  proof (cases "check_live_claim c lc")
    case (Inr u)
    then have "authorised f c" using that Some check_live_claim_ok [OF Inr] by auto
    with assms(2) Inr show ?thesis by simp
  qed (simp add: assms(1))
  with Some show ?thesis by (simp add: validate_writer_fence_def)
qed

lemma anchor_io_prepare:
  assumes "\<And>e. anchor_io lib f rd (map_lease_io (\<lambda>_. ()) (k (Inl e)))"
    and "authorised f c \<Longrightarrow> anchor_io lib f rd (map_lease_io (\<lambda>_. ()) (k (Inr (v3_lease_with_state lib c next))))"
  shows "anchor_io lib f rd (map_lease_io (\<lambda>_. ()) (v3_lease_for_anchor_advance lib c next (f \<noteq> None) k))"
  unfolding v3_lease_for_anchor_advance_def
proof (rule anchor_io_fence)
  assume a: "authorised f c"
  show "anchor_io lib f rd (map_lease_io (\<lambda>_. ()) (case Inr () of Inl err \<Rightarrow> k (Inl err) | Inr _ \<Rightarrow>
      if f \<noteq> None then LiveClaim (\<lambda>lc. k (v3_lease_with_fenced_state lib c next lc)) else k (Inr (v3_lease_with_state lib c next))))"
  proof (cases f)
    case None
    then show ?thesis using assms(2) a by simp
  next
    case (Some claim)
    have "anchor_io lib f rd (map_lease_io (\<lambda>_. ()) (k (v3_lease_with_fenced_state lib c next lc)))" if "lc = None \<or> lc = f" for lc
      using that a assms Some by (auto simp: v3_lease_with_fenced_state_def v3_lease_with_claim_def map_err_def)
    then show ?thesis using Some by simp
  qed
qed (simp add: assms(1))

lemma advance_anchor_io:
  assumes "anchor_typed next"
  shows "anchor_io lib f rd (map_lease_io (\<lambda>_. ()) (advance_loop n lib settings (f \<noteq> None) expected next))"
proof (induction n arbitrary: rd)
  case (Suc n)
  have "anchor_io lib f (Some c) (map_lease_io (\<lambda>_. ()) (v3_lease_for_anchor_advance lib c next (f \<noteq> None) (\<lambda>prepared. case prepared of
      Inl err \<Rightarrow> Return (Inl err)
    | Inr updated \<Rightarrow> replace_lease settings updated (\<lambda>replaced. case replaced of
        Inr lease \<Rightarrow> Return (v3_anchor_state_from_lease lib lease)
      | Inl err \<Rightarrow> if err = Conflict then advance_loop n lib settings (f \<noteq> None) expected next else Return (Inl AnchorAdvanceFailed)))))"
    if "v3_anchor_state_from_lease_optional lib c = Inr current" and "\<not> stale_advance expected current next" for c current
  proof (rule anchor_io_prepare)
    assume "authorised f c"
    with that assms have "advances lib f c (v3_lease_with_state lib c next)" by (auto simp: advances_def stale_advance_def)
    with Suc show "anchor_io lib f (Some c) (map_lease_io (\<lambda>_. ()) (case Inr (v3_lease_with_state lib c next) of
        Inl err \<Rightarrow> Return (Inl err)
      | Inr updated \<Rightarrow> replace_lease settings updated (\<lambda>replaced. case replaced of
          Inr lease \<Rightarrow> Return (v3_anchor_state_from_lease lib lease)
        | Inl err \<Rightarrow> if err = Conflict then advance_loop n lib settings (f \<noteq> None) expected next else Return (Inl AnchorAdvanceFailed))))"
      by (simp del: not_None_eq)
  qed simp
  then show ?case using Suc assms by (auto split: option.split sum.split simp del: not_None_eq)
qed simp

lemma fence_anchor_io: "anchor_io lib f rd (map_lease_io (\<lambda>_. ()) (fence_loop n lib settings (f \<noteq> None)))"
proof (induction n arbitrary: rd)
  case (Suc n)
  have "anchor_io lib f (Some c) (map_lease_io (\<lambda>_. ()) (validate_writer_fence c (f \<noteq> None) (\<lambda>checked. case checked of
           Inl err \<Rightarrow> Return (Inl err)
         | Inr _ \<Rightarrow>
             replace_lease settings (bump_anchor_fence c) (\<lambda>replaced. case replaced of
               Inr lease \<Rightarrow> Return (v3_anchor_state_from_lease_optional lib lease)
             | Inl err \<Rightarrow> if err = Conflict then fence_loop n lib settings (f \<noteq> None) else Return (Inl AnchorAdvanceFailed)))))" for c
    using Suc by (intro anchor_io_fence) (simp_all del: not_None_eq)
  then show ?case by (auto split: option.split simp del: not_None_eq)
qed simp

lemma anchor_programs:
  "anchor_typed next \<Longrightarrow> anchor_io lib f rd (map_lease_io (\<lambda>_. ()) (compare_and_advance_lease lib settings (f \<noteq> None) expected next))"
  "anchor_io lib f rd (map_lease_io (\<lambda>_. ()) (fence_and_read_lease lib settings (f \<noteq> None)))"
  by (simp_all add: compare_and_advance_lease_def fence_and_read_lease_def advance_anchor_io fence_anchor_io del: not_None_eq)

end
