(* ===== verification/LeaseHistory.thy ===== *)
theory LeaseHistory
  imports LeasePrograms
begin

text \<open>
  The history of a shared lease and the invariant of the system. Every write of the coordination
  fields is the next renewal of the entry that was read, so a lease says by its renewal counter
  which entry of the history it holds; the invariant ties the store, the guards, the running
  programs and the requests on their way to the history.
\<close>

section \<open>The history of the coordination fields\<close>

text \<open>
  One write after another: the owner renews or releases its epoch, or a new epoch starts after a
  release or a full lease duration, less the latency of the read that observed the old entry.
\<close>

definition epoch_step :: "Duration \<Rightarrow> lease_entry \<Rightarrow> lease_entry \<Rightarrow> bool" where
  "epoch_step delta e e' \<longleftrightarrow>
     en_token e' = en_token e \<and> en_holder e \<noteq> None \<and> en_owner e' = en_owner e \<and>
       (en_holder e' = None \<or> en_holder e' = en_holder e \<and> en_duration e' = en_duration e) \<or>
     unat (en_token e') = unat (en_token e) + 1 \<and> en_holder e' \<noteq> None \<and>
       (en_holder e = None \<or> en_time e + en_duration e \<le> en_time e' + delta)"

definition log_ok :: "Duration \<Rightarrow> Duration \<Rightarrow> lease_entry list \<Rightarrow> bool" where
  "log_ok delta now log \<longleftrightarrow> log \<noteq> [] \<and> hd log = no_entry \<and> sorted (map en_time log) \<and> (\<forall>e \<in> set log. en_time e \<le> now) \<and>
     (\<forall>i. Suc i < length log \<longrightarrow> epoch_step delta (log ! i) (log ! Suc i))"

lemma log_ok_initial: "log_ok delta now [no_entry]"
  by (simp add: log_ok_def no_entry_def)

lemma log_ok_later: "log_ok delta now log \<Longrightarrow> now \<le> now' \<Longrightarrow> log_ok delta now' log"
  by (auto simp: log_ok_def)

lemma log_ok_append:
  assumes "log_ok delta now log" and "epoch_step delta (last log) e" and "en_time e = now"
  shows "log_ok delta now (log @ [e])"
proof -
  have "epoch_step delta ((log @ [e]) ! i) ((log @ [e]) ! Suc i)" if "Suc i < length (log @ [e])" for i
  proof (cases "Suc i < length log")
    case True
    then show ?thesis using assms(1) by (simp add: log_ok_def nth_append)
  next
    case False
    then have "i = length log - 1" "log \<noteq> []" using that assms(1) by (auto simp: log_ok_def)
    then show ?thesis using assms(2) by (simp add: nth_append last_conv_nth)
  qed
  with assms(1,3) show ?thesis by (auto simp: log_ok_def sorted_append)
qed

lemma log_times: "log_ok delta now log \<Longrightarrow> i \<le> j \<Longrightarrow> j < length log \<Longrightarrow> en_time (log ! i) \<le> en_time (log ! j)"
  using sorted_nth_mono [of "map en_time log" i j] by (simp add: log_ok_def)

lemma log_time_now: "log_ok delta now log \<Longrightarrow> i < length log \<Longrightarrow> en_time (log ! i) \<le> now"
  by (simp add: log_ok_def)

lemma log_epochs:
  assumes log: "log_ok delta now log" and "i \<le> j" and "j < length log"
  shows "unat (en_token (log ! i)) \<le> unat (en_token (log ! j)) \<and>
    (en_token (log ! i) = en_token (log ! j) \<longrightarrow>
      (i < j \<longrightarrow> en_holder (log ! i) \<noteq> None) \<and>
      (en_holder (log ! i) \<noteq> None \<longrightarrow> en_owner (log ! j) = en_owner (log ! i) \<and>
        (en_holder (log ! j) = None \<or> en_holder (log ! j) = en_holder (log ! i) \<and> en_duration (log ! j) = en_duration (log ! i))))"
  using assms(2,3)
proof (induction j)
  case (Suc j)
  show ?case
  proof (cases "i = Suc j")
    case False
    then have "i \<le> j" "j < length log" using Suc.prems by simp_all
    note IH = Suc.IH [OF this]
    have step: "epoch_step delta (log ! j) (log ! Suc j)" using log Suc.prems(2) by (simp add: log_ok_def)
    show ?thesis
    proof (cases "en_token (log ! Suc j) = en_token (log ! j)")
      case True
      then have "en_holder (log ! j) \<noteq> None" "en_owner (log ! Suc j) = en_owner (log ! j)"
        "en_holder (log ! Suc j) = None \<or> en_holder (log ! Suc j) = en_holder (log ! j) \<and> en_duration (log ! Suc j) = en_duration (log ! j)"
        using step by (auto simp: epoch_step_def)
      with IH True \<open>i \<le> j\<close> show ?thesis by (cases "i = j") auto
    next
      case False
      then have "unat (en_token (log ! Suc j)) = unat (en_token (log ! j)) + 1" using step by (auto simp: epoch_step_def)
      with IH show ?thesis by auto
    qed
  qed simp
qed simp

lemma epoch_end:
  assumes "i \<le> j" and "en_token (log ! j) \<noteq> en_token (log ! i)"
  obtains k where "i \<le> k" and "k < j" and "en_token (log ! k) = en_token (log ! i)" and "en_token (log ! Suc k) \<noteq> en_token (log ! i)"
  using assms
proof (induction j arbitrary: thesis)
  case (Suc j)
  show ?case
  proof (cases "en_token (log ! j) = en_token (log ! i)")
    case True
    then show ?thesis using Suc.prems(1) [of j] Suc.prems(2,3) by (cases "i = Suc j") auto
  next
    case False
    then have "i \<le> j" using Suc.prems(2,3) by (cases "i = Suc j") auto
    with False Suc.IH [of thesis] Suc.prems(1) show ?thesis by (metis less_Suc_eq)
  qed
qed simp

text \<open>Once a later epoch has started, the lease duration of an unreleased earlier one is over, up to the latency.\<close>

lemma epoch_over:
  assumes log: "log_ok delta now log" and "i < length log" and "j < length log"
    and later: "unat (en_token (log ! i)) < unat (en_token (log ! j))" and held: "en_holder (log ! i) \<noteq> None"
    and unreleased: "\<forall>k < length log. en_owner (log ! k) = en_owner (log ! i) \<longrightarrow> 0 < k \<longrightarrow> en_holder (log ! k) \<noteq> None"
  shows "en_time (log ! i) + en_duration (log ! i) \<le> en_time (log ! j) + delta"
proof -
  have "i \<le> j" using log_epochs [OF log, of j i] assms(2) later by (metis le_cases not_less)
  moreover have "en_token (log ! j) \<noteq> en_token (log ! i)" using later by auto
  ultimately obtain k where k: "i \<le> k" "k < j" "en_token (log ! k) = en_token (log ! i)" "en_token (log ! Suc k) \<noteq> en_token (log ! i)"
    by (rule epoch_end)
  have kl: "k < length log" "Suc k < length log" using k assms(3) by simp_all
  have E: "en_owner (log ! k) = en_owner (log ! i)"
    "en_holder (log ! k) = None \<or> en_holder (log ! k) = en_holder (log ! i) \<and> en_duration (log ! k) = en_duration (log ! i)"
    using log_epochs [OF log k(1) kl(1)] k(3) held by simp_all
  have "k \<noteq> 0 \<or> en_holder (log ! k) \<noteq> None" using k(1) held by (cases "k = 0") auto
  then have "en_holder (log ! k) \<noteq> None" using unreleased kl(1) E(1) by auto
  then have "en_duration (log ! k) = en_duration (log ! i)" using E(2) by auto
  moreover have "epoch_step delta (log ! k) (log ! Suc k)" using log kl(2) by (simp add: log_ok_def)
  ultimately have "en_time (log ! k) + en_duration (log ! i) \<le> en_time (log ! Suc k) + delta"
    using k(3,4) \<open>en_holder (log ! k) \<noteq> None\<close> by (auto simp: epoch_step_def)
  moreover have "en_time (log ! i) \<le> en_time (log ! k)" "en_time (log ! Suc k) \<le> en_time (log ! j)"
    using log_times [OF log] k kl assms(3) by simp_all
  ultimately show ?thesis by linarith
qed

section \<open>Leases and the history\<close>

text \<open>The coordination fields of a lease, whatever the default duration of the reader.\<close>

definition describes :: "Lease \<Rightarrow> LeaseCoordinationState \<Rightarrow> bool" where
  "describes l a \<longleftrightarrow> lease_coordination_state l NANOS = Inr a \<and>
     (co_holder_identity a \<noteq> None \<longrightarrow> (\<forall>d. lease_coordination_state l d = Inr a))"

definition fits :: "lease_entry list \<Rightarrow> Lease \<Rightarrow> nat \<Rightarrow> bool" where
  "fits log l n \<longleftrightarrow> n < length log \<and> (\<exists>a. describes l a \<and> unat (co_renewal a) = n \<and>
     co_holder_identity a = en_holder (log ! n) \<and> co_fence_token a = en_token (log ! n) \<and>
     (co_holder_identity a \<noteq> None \<longrightarrow> co_lease_duration a = en_duration (log ! n)))"

definition entry_of :: "Duration \<Rightarrow> nat \<Rightarrow> LeaseCoordinationState \<Rightarrow> lease_entry" where
  "entry_of now p b = \<lparr>en_time = now, en_owner = p, en_holder = co_holder_identity b, en_token = co_fence_token b,
     en_duration = co_lease_duration b\<rparr>"

lemma describes_unique: "describes l a \<Longrightarrow> describes l b \<Longrightarrow> a = b"
  by (simp add: describes_def)

lemma describes_read:
  assumes "describes l a" and "lease_coordination_state l d = Inr b"
  shows "co_holder_identity b = co_holder_identity a" "co_fence_token b = co_fence_token a" "co_renewal b = co_renewal a"
    "co_holder_identity a \<noteq> None \<Longrightarrow> b = a"
proof -
  from assms(1) have a: "lease_coordination_state l NANOS = Inr a" by (simp add: describes_def)
  note eqs = coordination_default [OF assms(2) a]
  show "co_holder_identity b = co_holder_identity a" "co_fence_token b = co_fence_token a" "co_renewal b = co_renewal a"
    by (fact eqs)+
  show "b = a" if "co_holder_identity a \<noteq> None"
    using assms that by (simp add: describes_def)
qed

lemma fits_unique: "fits log l n \<Longrightarrow> fits log l n' \<Longrightarrow> n = n'"
  by (auto simp: fits_def dest: describes_unique)

lemma fits_append: "fits log l n \<Longrightarrow> fits (log @ es) l n"
  by (auto simp: fits_def nth_append)

text \<open>Resource versions do not matter for the fields.\<close>

lemma with_version_simps [simp]:
  "resource_version (with_version v l) = Some v" "le_spec (with_version v l) = le_spec l"
  "annotations (with_version v l) = annotations l" "annotations_or_empty (with_version v l) = annotations_or_empty l"
  by (simp_all add: with_version_def annotations_or_empty_def)

lemma with_version_coordination [simp]: "lease_coordination_state (with_version v l) d = lease_coordination_state l d"
  by (rule coordination_cong) simp_all

lemma with_version_describes [simp]: "describes (with_version v l) a \<longleftrightarrow> describes l a"
  by (simp add: describes_def)

lemma with_version_fits [simp]: "fits log (with_version v l) n \<longleftrightarrow> fits log l n"
  by (simp add: fits_def)

lemma with_version_anchor [simp]:
  "v3_anchor_state_from_lease_optional lib (with_version v l) = v3_anchor_state_from_lease_optional lib l"
  by (rule anchor_cong) simp_all

section \<open>Requests\<close>

definition known :: "lease_system \<Rightarrow> Lease \<Rightarrow> bool" where
  "known s c \<longleftrightarrow> (\<exists>v. resource_version c = Some v \<and> sv_versions (sy_store s) v = Some c)"

text \<open>The anchor that a store holds.\<close>

definition anchor_of :: "crypto_lib \<Rightarrow> Lease option \<Rightarrow> V3AnchorState option v3_result" where
  "anchor_of lib l = (case l of None \<Rightarrow> Inr None | Some l \<Rightarrow> v3_anchor_state_from_lease_optional lib l)"

definition owns :: "lease_system \<Rightarrow> nat \<Rightarrow> WriterFenceClaim \<Rightarrow> bool" where
  "owns s p c \<longleftrightarrow> (\<exists>n < length (sy_log s). en_owner (sy_log s ! n) = p \<and> en_holder (sy_log s ! n) \<noteq> None \<and>
     en_token (sy_log s ! n) = fc_token c)"

text \<open>A request of the guard writes the next entry and keeps the anchor.\<close>

fun renewing :: "crypto_lib \<Rightarrow> Duration \<Rightarrow> lease_system \<Rightarrow> nat \<Rightarrow> lease_request \<Rightarrow> bool" where
  "renewing lib delta s p (GetLease ns n) = False"
| "renewing lib delta s p (CreateLease ns l) =
     (\<exists>b. describes l b \<and> unat (co_renewal b) = 1 \<and> co_holder_identity b \<noteq> None \<and>
       (\<forall>t \<ge> sy_now s. epoch_step delta no_entry (entry_of t p b)) \<and>
       v3_anchor_state_from_lease_optional lib l = Inr None \<and> co_lease_duration b = lg_lease_duration (sy_guard s p))"
| "renewing lib delta s p (ReplaceLease ns m l) =
     (\<exists>c n b. known s c \<and> fits (sy_log s) c n \<and> resource_version l = resource_version c \<and> describes l b \<and>
       unat (co_renewal b) = Suc n \<and> (\<forall>t \<ge> sy_now s. epoch_step delta (sy_log s ! n) (entry_of t p b)) \<and>
       (co_holder_identity b = None \<longrightarrow> sy_released s p) \<and>
       v3_anchor_state_from_lease_optional lib l = v3_anchor_state_from_lease_optional lib c \<and>
       (co_holder_identity b \<noteq> None \<longrightarrow> co_lease_duration b = lg_lease_duration (sy_guard s p)))"

text \<open>A request of the anchor keeps the coordination fields.\<close>

fun keeping :: "crypto_lib \<Rightarrow> lease_system \<Rightarrow> nat \<Rightarrow> lease_request \<Rightarrow> bool" where
  "keeping lib s p (GetLease ns n) = True"
| "keeping lib s p (CreateLease ns l) = (\<exists>name next. anchor_typed next \<and> l = new_v3_lease lib name next)"
| "keeping lib s p (ReplaceLease ns m l) =
     (\<exists>c f. known s c \<and> (\<forall>claim. f = Some claim \<longrightarrow> owns s p claim) \<and>
       (advances lib f c l \<or> authorised f c \<and> l = bump_anchor_fence c))"

definition legal :: "crypto_lib \<Rightarrow> Duration \<Rightarrow> lease_system \<Rightarrow> nat \<times> lease_request \<Rightarrow> bool" where
  "legal lib delta s pq \<longleftrightarrow> renewing lib delta s (fst pq) (snd pq) \<or> keeping lib s (fst pq) (snd pq)"

section \<open>The invariant\<close>

definition store_inv :: "lease_system \<Rightarrow> bool" where
  "store_inv s \<longleftrightarrow>
     (\<forall>v l. sv_versions (sy_store s) v = Some l \<longrightarrow> resource_version l = Some v \<and> (\<exists>n. fits (sy_log s) l n)) \<and>
     (case sv_lease (sy_store s) of
        None \<Rightarrow> length (sy_log s) = 1
      | Some l \<Rightarrow> known s l \<and> fits (sy_log s) l (length (sy_log s) - 1)) \<and>
     (\<forall>n < length (sy_log s). 0 < n \<longrightarrow> en_holder (sy_log s ! n) = None \<longrightarrow> sy_released s (en_owner (sy_log s ! n)))"

definition guard_inv :: "Duration \<Rightarrow> lease_system \<Rightarrow> nat \<Rightarrow> bool" where
  "guard_inv delta s p \<longleftrightarrow>
     (let g = sy_guard s p; log = sy_log s in
      (\<exists>secs. duration_seconds_i32 (lg_lease_duration g) = Inr secs) \<and>
      (lf_active (lg_local_state g) \<longrightarrow>
        (\<exists>c t n. lf_claim (lg_local_state g) = Some c \<and> lf_last_success (lg_local_state g) = Some t \<and> n < length log \<and>
          en_owner (log ! n) = p \<and> en_holder (log ! n) = Some (fc_holder_identity c) \<and> en_token (log ! n) = fc_token c \<and>
          en_duration (log ! n) = lg_lease_duration g \<and> t \<le> en_time (log ! n))) \<and>
      (\<forall>x. lg_observation g = Some x \<longrightarrow>
        (let n = unat (lo_renewal (oc_record x)) in n < length log \<and> en_time (log ! n) \<le> oc_observed_at x + delta)))"

text \<open>What a read of a running guard operation is worth, and what a stored lease of it says.\<close>

definition recent :: "Duration \<Rightarrow> lease_system \<Rightarrow> Duration \<Rightarrow> Lease \<Rightarrow> bool" where
  "recent delta s m c \<longleftrightarrow> known s c \<and> (\<forall>n. fits (sy_log s) c n \<longrightarrow> en_time (sy_log s ! n) \<le> m + delta)"

definition own_entry :: "lease_system \<Rightarrow> nat \<Rightarrow> Duration \<Rightarrow> Lease \<Rightarrow> bool" where
  "own_entry s p m l \<longleftrightarrow> (\<exists>n. fits (sy_log s) l n \<and> en_owner (sy_log s ! n) = p \<and> m \<le> en_time (sy_log s ! n) \<and>
     (en_holder (sy_log s ! n) \<noteq> None \<longrightarrow> en_duration (sy_log s ! n) = lg_lease_duration (sy_guard s p)))"

definition guard_task_inv :: "Duration \<Rightarrow> lease_system \<Rightarrow> nat \<Rightarrow> Duration \<Rightarrow> LeaseGuard lease_io \<Rightarrow> bool" where
  "guard_task_inv delta s p m io \<longleftrightarrow>
     (\<exists>b rd st. guard_io (sy_guard s p) m b rd st io \<and> (b \<longrightarrow> sy_released s p) \<and> m \<le> sy_now s \<and>
       (\<forall>c. rd = Some c \<longrightarrow> recent delta s m c) \<and> (\<forall>l. st = Some l \<longrightarrow> own_entry s p m l))"

definition anchor_task_inv :: "crypto_lib \<Rightarrow> lease_system \<Rightarrow> nat \<Rightarrow> WriterFenceClaim option \<Rightarrow> unit lease_io \<Rightarrow> bool" where
  "anchor_task_inv lib s p f io \<longleftrightarrow>
     (\<exists>rd. anchor_io lib f rd io \<and> (\<forall>c. f = Some c \<longrightarrow> owns s p c) \<and> (\<forall>c. rd = Some c \<longrightarrow> known s c))"

fun task_inv :: "crypto_lib \<Rightarrow> Duration \<Rightarrow> lease_system \<Rightarrow> nat \<times> lease_task \<Rightarrow> bool" where
  "task_inv lib delta s (p, GuardTask m io) = guard_task_inv delta s p m io"
| "task_inv lib delta s (p, AnchorTask f io) = anchor_task_inv lib s p f io"

definition single_guard_task :: "lease_system \<Rightarrow> bool" where
  "single_guard_task s \<longleftrightarrow> (\<forall>t t' p m m' io io'. sy_tasks s t = Some (p, GuardTask m io) \<longrightarrow>
     sy_tasks s t' = Some (p, GuardTask m' io') \<longrightarrow> t = t')"

definition lease_inv :: "crypto_lib \<Rightarrow> Duration \<Rightarrow> lease_system \<Rightarrow> bool" where
  "lease_inv lib delta s \<longleftrightarrow> log_ok delta (sy_now s) (sy_log s) \<and> store_inv s \<and> (\<forall>p. guard_inv delta s p) \<and>
     (\<forall>t x. sy_tasks s t = Some x \<longrightarrow> task_inv lib delta s x) \<and> (\<forall>x \<in> sy_late s. legal lib delta s x) \<and> single_guard_task s"

end
