(* ===== verification/LeaseInvariant.thy ===== *)
theory LeaseInvariant
  imports LeaseHistory
begin

text \<open>
  Every step of the system keeps the invariant. The facts about entries, versions and requests
  only grow (\<open>extends\<close>), so each step has to account for what it changes and no more.
\<close>

section \<open>Growth\<close>

definition extends :: "lease_system \<Rightarrow> lease_system \<Rightarrow> bool" where
  "extends s s' \<longleftrightarrow> sy_now s \<le> sy_now s' \<and> (\<exists>es. sy_log s' = sy_log s @ es) \<and>
     sv_versions (sy_store s) \<subseteq>\<^sub>m sv_versions (sy_store s') \<and> (\<forall>p. sy_released s p \<longrightarrow> sy_released s' p) \<and>
     (\<forall>p. lg_lease_duration (sy_guard s' p) = lg_lease_duration (sy_guard s p))"

lemma extends_nth: "extends s s' \<Longrightarrow> n < length (sy_log s) \<Longrightarrow> n < length (sy_log s') \<and> sy_log s' ! n = sy_log s ! n"
  by (auto simp: extends_def nth_append)

lemma extends_known: "extends s s' \<Longrightarrow> known s c \<Longrightarrow> known s' c"
  by (auto simp: extends_def known_def map_le_def dom_def)

lemma extends_fits: "extends s s' \<Longrightarrow> fits (sy_log s) c n \<Longrightarrow> fits (sy_log s') c n"
  by (auto simp: extends_def fits_append)

lemma extends_owns: "extends s s' \<Longrightarrow> owns s p c \<Longrightarrow> owns s' p c"
  unfolding owns_def by (metis extends_nth)

lemma extends_renewing:
  assumes x: "extends s s'" and "renewing lib delta s p q"
  shows "renewing lib delta s' p q"
proof -
  have now: "t \<ge> sy_now s" if "t \<ge> sy_now s'" for t using x that by (simp add: extends_def)
  have dur: "lg_lease_duration (sy_guard s' p) = lg_lease_duration (sy_guard s p)" using x by (simp add: extends_def)
  show ?thesis
  proof (cases q)
    case (CreateLease ns l)
    with assms(2) now dur show ?thesis by auto
  next
    case (ReplaceLease ns m l)
    with assms(2) obtain c n b where c: "known s c" "fits (sy_log s) c n" "resource_version l = resource_version c" "describes l b"
      "unat (co_renewal b) = Suc n" "\<forall>t \<ge> sy_now s. epoch_step delta (sy_log s ! n) (entry_of t p b)"
      "co_holder_identity b = None \<longrightarrow> sy_released s p"
      "v3_anchor_state_from_lease_optional lib l = v3_anchor_state_from_lease_optional lib c"
      "co_holder_identity b \<noteq> None \<longrightarrow> co_lease_duration b = lg_lease_duration (sy_guard s p)" by auto
    have "n < length (sy_log s)" using c(2) by (simp add: fits_def)
    then have "sy_log s' ! n = sy_log s ! n" using extends_nth [OF x] by blast
    moreover have "sy_released s p \<longrightarrow> sy_released s' p" using x by (simp add: extends_def)
    ultimately show ?thesis
      unfolding ReplaceLease renewing.simps
      using c extends_known [OF x c(1)] extends_fits [OF x c(2)] now dur by (intro exI [of _ c] exI [of _ n] exI [of _ b]) simp
  qed (use assms(2) in simp)
qed

lemma extends_keeping:
  assumes x: "extends s s'" and "keeping lib s p q"
  shows "keeping lib s' p q"
proof (cases q)
  case (ReplaceLease ns m l)
  with assms(2) obtain c f where "known s c" "\<forall>claim. f = Some claim \<longrightarrow> owns s p claim"
    "advances lib f c l \<or> authorised f c \<and> l = bump_anchor_fence c" by auto
  with x show ?thesis unfolding ReplaceLease keeping.simps
    by (intro exI [of _ c] exI [of _ f]) (auto dest: extends_known extends_owns)
qed (use assms in auto)

lemma extends_legal: "extends s s' \<Longrightarrow> legal lib delta s x \<Longrightarrow> legal lib delta s' x"
  by (auto simp: legal_def dest: extends_renewing extends_keeping)

lemma extends_guard_inv:
  assumes x: "extends s s'" and g: "sy_guard s' p = sy_guard s p" and "guard_inv delta s p"
  shows "guard_inv delta s' p"
proof -
  note e = extends_nth [OF x]
  show ?thesis
    using assms(3) unfolding guard_inv_def g Let_def by (metis e)
qed

lemma known_fits: "store_inv s \<Longrightarrow> known s c \<Longrightarrow> \<exists>n. fits (sy_log s) c n"
  by (auto simp: store_inv_def known_def)

lemma fits_bound: "fits log l n \<Longrightarrow> n < length log"
  by (simp add: fits_def)

lemma extends_recent:
  assumes x: "extends s s'" and "store_inv s" and "recent delta s m c"
  shows "recent delta s' m c"
proof -
  have k: "known s c" using assms(3) by (simp add: recent_def)
  then obtain n where n: "fits (sy_log s) c n" using known_fits assms(2) by blast
  have "en_time (sy_log s' ! n') \<le> m + delta" if "fits (sy_log s') c n'" for n'
  proof -
    have "n' = n" using fits_unique that extends_fits [OF x n] by blast
    with n assms(3) show ?thesis using extends_nth [OF x fits_bound [OF n]] by (auto simp: recent_def)
  qed
  with extends_known [OF x k] show ?thesis by (simp add: recent_def)
qed

lemma extends_own_entry:
  assumes x: "extends s s'" and "own_entry s p m l"
  shows "own_entry s' p m l"
proof -
  obtain n where n: "fits (sy_log s) l n" "en_owner (sy_log s ! n) = p" "m \<le> en_time (sy_log s ! n)"
    "en_holder (sy_log s ! n) \<noteq> None \<longrightarrow> en_duration (sy_log s ! n) = lg_lease_duration (sy_guard s p)"
    using assms(2) by (auto simp: own_entry_def)
  have "lg_lease_duration (sy_guard s' p) = lg_lease_duration (sy_guard s p)" using x by (simp add: extends_def)
  with n show ?thesis
    unfolding own_entry_def using extends_fits [OF x n(1)] extends_nth [OF x fits_bound [OF n(1)]] by (intro exI [of _ n]) simp
qed

lemma extends_task:
  assumes x: "extends s s'" and inv: "store_inv s" and t: "task_inv lib delta s x'" and g: "sy_guard s' (fst x') = sy_guard s (fst x')"
  shows "task_inv lib delta s' x'"
proof (cases "(lib, delta, s, x')" rule: task_inv.cases)
  case (1 _ _ _ p m io)
  then obtain b rd st where *: "guard_io (sy_guard s p) m b rd st io" "b \<longrightarrow> sy_released s p" "m \<le> sy_now s"
    "\<forall>c. rd = Some c \<longrightarrow> recent delta s m c" "\<forall>l. st = Some l \<longrightarrow> own_entry s p m l"
    using t by (auto simp: guard_task_inv_def)
  have "b \<longrightarrow> sy_released s' p" "m \<le> sy_now s'" using x * by (auto simp: extends_def)
  moreover have "guard_io (sy_guard s' p) m b rd st io" using g 1 * by simp
  moreover have "\<forall>c. rd = Some c \<longrightarrow> recent delta s' m c" "\<forall>l. st = Some l \<longrightarrow> own_entry s' p m l"
    using * extends_recent [OF x inv] extends_own_entry [OF x] by blast+
  ultimately have "guard_task_inv delta s' p m io" unfolding guard_task_inv_def by blast
  with 1 show ?thesis by simp
next
  case (2 _ _ _ p f io)
  then show ?thesis using t extends_known [OF x] extends_owns [OF x] by (auto simp: anchor_task_inv_def)
qed

lemma inv_frame:
  assumes inv: "lease_inv lib delta s" and x: "extends s s'" and "log_ok delta (sy_now s') (sy_log s')" and "store_inv s'"
    and guards: "\<And>p. sy_guard s' p = sy_guard s p \<or> guard_inv delta s' p"
    and tasks: "\<And>t y. sy_tasks s' t = Some y \<Longrightarrow>
      sy_tasks s t = Some y \<and> sy_guard s' (fst y) = sy_guard s (fst y) \<or> task_inv lib delta s' y"
    and late: "\<And>y. y \<in> sy_late s' \<Longrightarrow> y \<in> sy_late s \<or> legal lib delta s' y"
    and "single_guard_task s'"
  shows "lease_inv lib delta s'"
  unfolding lease_inv_def
proof (intro conjI allI impI ballI)
  fix p show "guard_inv delta s' p" using guards [of p] extends_guard_inv [OF x] inv by (auto simp: lease_inv_def)
next
  fix t y assume "sy_tasks s' t = Some y"
  with tasks [of t y] consider "task_inv lib delta s' y" | "sy_tasks s t = Some y" "sy_guard s' (fst y) = sy_guard s (fst y)" by blast
  then show "task_inv lib delta s' y"
  proof cases
    case 2
    with inv have "store_inv s" "task_inv lib delta s y" unfolding lease_inv_def by blast+
    with 2 x show ?thesis using extends_task by blast
  qed
next
  fix y assume "y \<in> sy_late s'"
  moreover have "legal lib delta s y" if "y \<in> sy_late s" using inv that unfolding lease_inv_def by blast
  ultimately show "legal lib delta s' y" using late [of y] extends_legal [OF x] by blast
qed (use assms in simp_all)

section \<open>Writes\<close>

lemma log_write_same: "coord old = Inr a \<Longrightarrow> coord new = Inr b \<Longrightarrow> co_renewal b = co_renewal a \<Longrightarrow> log_write now p old new log = log"
  by (simp add: log_write_def)

lemma log_write_next:
  "coord old = Inr a \<Longrightarrow> coord new = Inr b \<Longrightarrow> co_renewal b \<noteq> co_renewal a \<Longrightarrow> log_write now p old new log = log @ [entry_of now p b]"
  by (simp add: log_write_def entry_of_def)

lemma log_write_get: "log_write now p l l log = log"
  by (cases "coord l") (simp_all add: log_write_def)

lemma describes_coord: "describes l b \<Longrightarrow> coord (Some l) = Inr b"
  by (simp add: coord_def describes_def)

lemma known_unique: "known s c \<Longrightarrow> known s c' \<Longrightarrow> resource_version c = resource_version c' \<Longrightarrow> c = c'"
  by (auto simp: known_def)

lemma known_version: "known s c \<Longrightarrow> resource_version c \<noteq> None"
  by (auto simp: known_def)

lemma describes_cong:
  "(\<And>d. lease_coordination_state l d = lease_coordination_state l' d) \<Longrightarrow> describes l a \<longleftrightarrow> describes l' a"
  by (simp add: describes_def)

lemma fits_cong: "(\<And>d. lease_coordination_state l d = lease_coordination_state l' d) \<Longrightarrow> fits log l n \<longleftrightarrow> fits log l' n"
  unfolding fits_def using describes_cong [of l l'] by simp

text \<open>The current entry, whether a lease is stored or not.\<close>

lemma current_entry:
  assumes "store_inv s"
  obtains a where "coord (sv_lease (sy_store s)) = Inr a" and "unat (co_renewal a) = length (sy_log s) - 1" and "sy_log s \<noteq> []"
proof (cases "sv_lease (sy_store s)")
  case None
  then have "length (sy_log s) = 1" using assms by (simp add: store_inv_def)
  moreover from this have "sy_log s \<noteq> []" by auto
  ultimately show thesis using that None by (simp add: coord_def)
next
  case (Some l)
  then have "fits (sy_log s) l (length (sy_log s) - 1)" using assms by (simp add: store_inv_def)
  then obtain a where "describes l a" "unat (co_renewal a) = length (sy_log s) - 1" "length (sy_log s) - 1 < length (sy_log s)"
    unfolding fits_def by blast
  moreover from this have "sy_log s \<noteq> []" by auto
  ultimately show thesis using that [of a] Some describes_coord by simp
qed

lemma current_base:
  assumes "store_inv s" and "sv_lease (sy_store s) = Some c0" and "known s c" and "resource_version l = resource_version c"
    and "resource_version l = None \<or> resource_version l = resource_version c0"
  shows "c0 = c" and "fits (sy_log s) c (length (sy_log s) - 1)"
proof -
  have k: "known s c0" and f: "fits (sy_log s) c0 (length (sy_log s) - 1)" using assms(1,2) by (simp_all add: store_inv_def)
  show "c0 = c" using known_unique [OF k assms(3)] known_version [OF assms(3)] assms(4,5) by auto
  with f show "fits (sy_log s) c (length (sy_log s) - 1)" by simp
qed

lemma renewing_write:
  assumes inv: "store_inv s" and log: "log_ok delta (sy_now s) (sy_log s)" and "renewing lib delta s p q"
    and acc: "accepts (sy_store s) q" and "body_of q = Some l"
  obtains b where "describes l b" and "log_write (sy_now s) p (sv_lease (sy_store s)) (Some l) (sy_log s) = sy_log s @ [entry_of (sy_now s) p b]"
    and "unat (co_renewal b) = length (sy_log s)" and "epoch_step delta (last (sy_log s)) (entry_of (sy_now s) p b)"
    and "co_holder_identity b = None \<longrightarrow> sy_released s p"
    and "co_holder_identity b \<noteq> None \<longrightarrow> co_lease_duration b = lg_lease_duration (sy_guard s p)"
    and "v3_anchor_state_from_lease_optional lib l = anchor_of lib (sv_lease (sy_store s))"
proof -
  obtain a where a: "coord (sv_lease (sy_store s)) = Inr a" "unat (co_renewal a) = length (sy_log s) - 1" "sy_log s \<noteq> []"
    using current_entry [OF inv] .
  have new: "log_write (sy_now s) p (sv_lease (sy_store s)) (Some l) (sy_log s) = sy_log s @ [entry_of (sy_now s) p b]"
    if "describes l b" "unat (co_renewal b) = length (sy_log s)" for b
  proof (rule log_write_next [OF a(1) describes_coord [OF that(1)]])
    have "length (sy_log s) \<noteq> length (sy_log s) - 1" using a(3) by (cases "sy_log s") simp_all
    then show "co_renewal b \<noteq> co_renewal a" using that(2) a(2) by metis
  qed
  show thesis
  proof (cases q)
    case (CreateLease ns l')
    then have l: "sv_lease (sy_store s) = None" "l' = l" using acc assms(5) by simp_all
    then have "length (sy_log s) = 1" using inv by (simp add: store_inv_def)
    moreover from this have "last (sy_log s) = no_entry" using log by (cases "sy_log s") (auto simp: log_ok_def)
    ultimately show thesis using CreateLease assms(3) that new l by (auto simp: anchor_of_def)
  next
    case (ReplaceLease ns m l')
    with acc assms(5) obtain c0 where c0: "sv_lease (sy_store s) = Some c0" "resource_version l = None \<or> resource_version l = resource_version c0"
      and l: "l' = l" by auto
    from assms(3) obtain c n b where c: "known s c" "fits (sy_log s) c n" "resource_version l = resource_version c" "describes l b"
      "unat (co_renewal b) = Suc n" "\<forall>t \<ge> sy_now s. epoch_step delta (sy_log s ! n) (entry_of t p b)"
      "co_holder_identity b = None \<longrightarrow> sy_released s p"
      "v3_anchor_state_from_lease_optional lib l = v3_anchor_state_from_lease_optional lib c"
      "co_holder_identity b \<noteq> None \<longrightarrow> co_lease_duration b = lg_lease_duration (sy_guard s p)"
      unfolding ReplaceLease l renewing.simps by auto
    note base = current_base [OF inv c0(1) c(1,3) c0(2)]
    have n: "n = length (sy_log s) - 1" using fits_unique c(2) base(2) by blast
    then have "unat (co_renewal b) = length (sy_log s)" using c(5) a(3) by simp
    moreover have "sy_log s ! n = last (sy_log s)" using n a(3) by (simp add: last_conv_nth)
    ultimately show thesis using that [OF c(4) new [OF c(4)]] c base(1) c0(1) by (auto simp: anchor_of_def)
  qed (use acc in simp)
qed

lemma new_v3_lease_fields: "lease_coordination_state (new_v3_lease lib name next) d = lease_coordination_state (named_lease name) d"
  by (simp add: new_v3_lease_def anchor_state_fields)

lemma named_lease_describes: "describes (named_lease name) b \<longleftrightarrow> coord None = Inr b"
  by (auto simp: describes_def coord_def lease_coordination_state_def parse_counter_annotation_def named_lease_def
      duration_seconds_i32_def NANOS_def)

lemma keeping_base:
  assumes "keeping lib s p (ReplaceLease ns m l)"
  shows "\<exists>c. known s c \<and> resource_version l = resource_version c \<and>
    (\<forall>d. lease_coordination_state l d = lease_coordination_state c d)"
proof -
  obtain c f where c: "known s c" "advances lib f c l \<or> authorised f c \<and> l = bump_anchor_fence c" using assms by auto
  then have "resource_version l = resource_version c" "\<forall>d. lease_coordination_state l d = lease_coordination_state c d"
    by (auto simp: advances_def anchor_state_fields bump_fields)
  with c(1) show ?thesis by blast
qed

lemma keeping_write:
  assumes inv: "store_inv s" and log: "log_ok delta (sy_now s) (sy_log s)" and "keeping lib s p q"
    and acc: "accepts (sy_store s) q" and "body_of q = Some l"
  shows "log_write (sy_now s) p (sv_lease (sy_store s)) (Some l) (sy_log s) = sy_log s"
    and "fits (sy_log s) l (length (sy_log s) - 1)"
proof -
  obtain a where a: "coord (sv_lease (sy_store s)) = Inr a" "unat (co_renewal a) = length (sy_log s) - 1" "sy_log s \<noteq> []"
    using current_entry [OF inv] .
  have "describes l a \<and> fits (sy_log s) l (length (sy_log s) - 1)"
  proof (cases q)
    case (CreateLease ns l')
    then have l: "sv_lease (sy_store s) = None" "l' = l" using acc assms(5) by simp_all
    from assms(3) obtain name "next" where "l = new_v3_lease lib name next" unfolding CreateLease l keeping.simps by blast
    then have d: "describes l a" using a(1) l describes_cong [OF new_v3_lease_fields] by (simp add: named_lease_describes)
    have "sy_log s = [no_entry]" using inv l log by (cases "sy_log s") (auto simp: store_inv_def log_ok_def)
    with d a l show ?thesis by (auto simp: fits_def coord_def no_entry_def)
  next
    case (ReplaceLease ns m l')
    with acc assms(5) obtain c0 where c0: "sv_lease (sy_store s) = Some c0" "resource_version l = None \<or> resource_version l = resource_version c0"
      and l: "l' = l" by auto
    from assms(3) obtain c where c: "known s c" "resource_version l = resource_version c"
      "\<forall>d. lease_coordination_state l d = lease_coordination_state c d"
      unfolding ReplaceLease l using keeping_base by blast
    note base = current_base [OF inv c0(1) c(1,2) c0(2)]
    then obtain a' where a': "describes c a'" unfolding fits_def by blast
    then have "describes c a" using describes_coord [OF a'] a(1) c0(1) base(1) by simp
    with base(2) show ?thesis using describes_cong [of l c] fits_cong [of l c] c(3) by simp
  qed (use acc in simp)
  then have d: "describes l a" and f: "fits (sy_log s) l (length (sy_log s) - 1)" by blast+
  show "log_write (sy_now s) p (sv_lease (sy_store s)) (Some l) (sy_log s) = sy_log s"
    by (rule log_write_same [OF a(1) describes_coord [OF d] refl])
  show "fits (sy_log s) l (length (sy_log s) - 1)" by (fact f)
qed

lemma answered_simps [simp]:
  "sy_now (answered p q r store s) = sy_now s" "sy_guard (answered p q r store s) = sy_guard s"
  "sy_tasks (answered p q r store s) = sy_tasks s" "sy_released (answered p q r store s) = sy_released s"
  "sy_store (answered p q r store s) = store"
  "sy_log (answered p q r store s) = log_write (sy_now s) p (sv_lease (sy_store s)) (sv_lease store) (sy_log s)"
  by (simp_all add: answered_def)

lemma log_write_version: "log_write now p old (Some (with_version v l)) log = log_write now p old (Some l) log"
  by (simp add: log_write_def coord_def)

lemma answered_write:
  fixes r :: lease_reply
  assumes inv: "store_inv s" and log: "log_ok delta (sy_now s) (sy_log s)" and legal: "legal lib delta s (p, q)"
    and acc: "accepts (sy_store s) q" and l: "body_of q = Some l" and stores: "stores l l' (sy_store s) store"
  defines "s' \<equiv> answered p q r store s"
  shows "extends s s'" and "log_ok delta (sy_now s') (sy_log s')" and "store_inv s'"
    and "fits (sy_log s') l' (length (sy_log s') - 1)"
    and "renewing lib delta s p q \<Longrightarrow> m \<le> sy_now s \<Longrightarrow> own_entry s' p m l'"
proof -
  obtain v where v: "sv_versions (sy_store s) v = None" "l' = with_version v l"
    "store = \<lparr>sv_lease = Some l', sv_versions = (sv_versions (sy_store s))(v \<mapsto> l')\<rparr>"
    using stores by (auto simp: stores_def)
  have log': "sy_log s' = log_write (sy_now s) p (sv_lease (sy_store s)) (Some l) (sy_log s)"
    by (simp add: s'_def v log_write_version)
  have ne: "sy_log s \<noteq> []" using log by (simp add: log_ok_def)
  have grow: "\<exists>es. sy_log s' = sy_log s @ es \<and> log_ok delta (sy_now s) (sy_log s') \<and>
      fits (sy_log s') l (length (sy_log s') - 1) \<and>
      (\<forall>e \<in> set es. en_holder e = None \<longrightarrow> sy_released s (en_owner e)) \<and>
      (renewing lib delta s p q \<longrightarrow> (\<exists>b. es = [entry_of (sy_now s) p b] \<and>
        (co_holder_identity b \<noteq> None \<longrightarrow> co_lease_duration b = lg_lease_duration (sy_guard s p))))"
  proof (cases "renewing lib delta s p q")
    case True
    from renewing_write [OF inv log this acc l] obtain b where b: "describes l b" "sy_log s' = sy_log s @ [entry_of (sy_now s) p b]"
      "unat (co_renewal b) = length (sy_log s)" "epoch_step delta (last (sy_log s)) (entry_of (sy_now s) p b)"
      "co_holder_identity b = None \<longrightarrow> sy_released s p"
      "co_holder_identity b \<noteq> None \<longrightarrow> co_lease_duration b = lg_lease_duration (sy_guard s p)"
      unfolding log' by metis
    have "log_ok delta (sy_now s) (sy_log s')" unfolding b(2) by (rule log_ok_append [OF log b(4)]) (simp add: entry_of_def)
    moreover have "fits (sy_log s') l (length (sy_log s') - 1)" using b(1,2,3) by (auto simp: fits_def entry_of_def)
    ultimately show ?thesis using b(2,5,6) by (auto simp: entry_of_def)
  next
    case False
    then have "keeping lib s p q" using legal by (simp add: legal_def)
    note k = keeping_write [OF inv log this acc l]
    with False log show ?thesis unfolding log' by auto
  qed
  then obtain es where es: "sy_log s' = sy_log s @ es" "log_ok delta (sy_now s) (sy_log s')" "fits (sy_log s') l (length (sy_log s') - 1)"
    "\<forall>e \<in> set es. en_holder e = None \<longrightarrow> sy_released s (en_owner e)"
    "renewing lib delta s p q \<longrightarrow> (\<exists>b. es = [entry_of (sy_now s) p b] \<and>
        (co_holder_identity b \<noteq> None \<longrightarrow> co_lease_duration b = lg_lease_duration (sy_guard s p)))" by blast
  show x: "extends s s'" using es(1) v(1,3) by (auto simp: extends_def s'_def map_le_def)
  show "log_ok delta (sy_now s') (sy_log s')" using es(2) by (simp add: s'_def)
  show fits': "fits (sy_log s') l' (length (sy_log s') - 1)" using es(3) v(2) by simp
  have vs: "sy_store s' = \<lparr>sv_lease = Some l', sv_versions = (sv_versions (sy_store s))(v \<mapsto> l')\<rparr>" by (simp add: s'_def v(3))
  have "resource_version k = Some w \<and> (\<exists>n. fits (sy_log s') k n)" if "sv_versions (sy_store s') w = Some k" for w k
  proof (cases "w = v")
    case False
    then have "sv_versions (sy_store s) w = Some k" using that unfolding vs by simp
    with inv have "resource_version k = Some w" "\<exists>n. fits (sy_log s) k n" unfolding store_inv_def by blast+
    with extends_fits [OF x] show ?thesis by blast
  qed (use that fits' v(2) vs in auto)
  moreover have "sy_released s' (en_owner (sy_log s' ! n))" if "n < length (sy_log s')" "0 < n" "en_holder (sy_log s' ! n) = None" for n
  proof (cases "n < length (sy_log s)")
    case True
    then show ?thesis using that inv unfolding es(1) by (simp add: store_inv_def nth_append s'_def)
  next
    case False
    then have "sy_log s' ! n \<in> set es" using that(1) unfolding es(1) by (simp add: nth_append)
    then show ?thesis using es(4) that(3) by (simp add: s'_def)
  qed
  ultimately show "store_inv s'" using fits' v(2) unfolding store_inv_def vs by (auto simp: known_def vs)
  show "own_entry s' p m l'" if rn: "renewing lib delta s p q" and m: "m \<le> sy_now s"
  proof -
    obtain b where "es = [entry_of (sy_now s) p b]" "co_holder_identity b \<noteq> None \<longrightarrow> co_lease_duration b = lg_lease_duration (sy_guard s p)"
      using es(5) rn by blast
    then show ?thesis unfolding own_entry_def
      using fits' m es(1) by (intro exI [of _ "length (sy_log s') - 1"]) (simp add: entry_of_def s'_def)
  qed
qed

section \<open>What the guard sends\<close>

lemma guard_state_describes:
  assumes "lease_with_guard_state c claim renewal dur wall own = Inr l"
  obtains secs where "describes l (coordination claim renewal dur secs)" and "resource_version l = resource_version c"
    and "\<And>lib. v3_anchor_state_from_lease_optional lib l = v3_anchor_state_from_lease_optional lib c"
  using guard_state_fields [OF assms] by (metis describes_def)

lemma fits_read:
  assumes "fits log c n" and "lease_coordination_state c d = Inr a"
  shows "n < length log" "unat (co_renewal a) = n" "co_holder_identity a = en_holder (log ! n)" "co_fence_token a = en_token (log ! n)"
    "co_holder_identity a \<noteq> None \<Longrightarrow> co_lease_duration a = en_duration (log ! n)"
proof -
  obtain a' where a': "describes c a'" "n < length log" "unat (co_renewal a') = n" "co_holder_identity a' = en_holder (log ! n)"
    "co_fence_token a' = en_token (log ! n)" "co_holder_identity a' \<noteq> None \<longrightarrow> co_lease_duration a' = en_duration (log ! n)"
    using assms(1) unfolding fits_def by blast
  note r = describes_read [OF a'(1) assms(2)]
  show "n < length log" "unat (co_renewal a) = n" "co_holder_identity a = en_holder (log ! n)" "co_fence_token a = en_token (log ! n)"
    using a' r by simp_all
  show "co_lease_duration a = en_duration (log ! n)" if "co_holder_identity a \<noteq> None" using a' r that by auto
qed

lemma checked_succ: "checked_add (x :: u64) 1 = Some y \<Longrightarrow> unat y = unat x + 1"
  by (auto simp: checked_add_def unat_word_ariths split: if_splits)

lemma takeover_elapsed:
  assumes "fst (may_take_ownership g a m) = Allowed" and "co_holder_identity a \<noteq> None"
  obtains x where "lg_observation g = Some x" and "lo_renewal (oc_record x) = co_renewal a"
    and "m - oc_observed_at x \<ge> co_lease_duration a"
  using assms by (auto simp: may_take_ownership_def observation_def split: option.splits if_splits)

lemma acquires_renewing:
  assumes inv: "guard_inv delta s p" and log: "log_ok delta (sy_now s) (sy_log s)" and m: "m \<le> sy_now s"
    and c: "known s c" "fits (sy_log s) c n" and acq: "acquires (sy_guard s p) m c l"
  shows "renewing lib delta s p (ReplaceLease ns name l)"
proof -
  let ?g = "sy_guard s p"
  obtain a wall token renewal where a: "lease_coordination_state c (lg_lease_duration ?g) = Inr a"
    and may: "fst (may_take_ownership ?g a m) = Allowed"
    and token: "checked_add (co_fence_token a) 1 = Some token" and renewal: "checked_add (co_renewal a) 1 = Some renewal"
    and l: "lease_with_guard_state c \<lparr>fc_holder_identity = lg_holder_identity ?g, fc_token = token\<rparr> renewal
      (lg_lease_duration ?g) wall True = Inr l"
    using acq by (auto simp: acquires_def acquire_update_def bindE_eq_Inr Let_def)
  define claim where "claim = \<lparr>fc_holder_identity = lg_holder_identity ?g, fc_token = token\<rparr>"
  then have claim: "fc_token claim = token" and l: "lease_with_guard_state c claim renewal (lg_lease_duration ?g) wall True = Inr l"
    using l by simp_all
  note r = fits_read [OF c(2) a]
  obtain secs where secs: "describes l (coordination claim renewal (lg_lease_duration ?g) secs)"
    "resource_version l = resource_version c" "v3_anchor_state_from_lease_optional lib l = v3_anchor_state_from_lease_optional lib c"
    using guard_state_describes [OF l] by metis
  have "epoch_step delta (sy_log s ! n) (entry_of t p (coordination claim renewal (lg_lease_duration ?g) secs))" if "t \<ge> sy_now s" for t
  proof -
    have "en_holder (sy_log s ! n) = None \<or> en_time (sy_log s ! n) + en_duration (sy_log s ! n) \<le> t + delta"
    proof (cases "co_holder_identity a = None")
      case False
      obtain x where x: "lg_observation ?g = Some x" "lo_renewal (oc_record x) = co_renewal a" "m - oc_observed_at x \<ge> co_lease_duration a"
        using takeover_elapsed [OF may False] .
      have "en_time (sy_log s ! n) \<le> oc_observed_at x + delta" using inv x(1,2) r(2) by (auto simp: guard_inv_def Let_def)
      moreover have "en_time (sy_log s ! n) \<le> sy_now s" using log_time_now [OF log r(1)] .
      moreover have "en_duration (sy_log s ! n) \<le> m - oc_observed_at x" using x(3) r(5) [OF False] by simp
      ultimately show ?thesis using that m by linarith
    qed (use r in simp)
    then show ?thesis using checked_succ [OF token] r(4) claim by (simp add: epoch_step_def entry_of_def coordination_def)
  qed
  moreover have "unat renewal = Suc n" using checked_succ [OF renewal] r(2) by simp
  ultimately show ?thesis
    unfolding renewing.simps using c secs
    by (intro exI [of _ c] exI [of _ n] exI [of _ "coordination claim renewal (lg_lease_duration ?g) secs"])
      (simp add: coordination_def)
qed

text \<open>A claim that the guard holds is an epoch of its own process.\<close>

lemma claim_epoch:
  assumes inv: "guard_inv delta s p" and log: "log_ok delta (sy_now s) (sy_log s)" and claim: "current_claim (sy_guard s p) = Inr claim"
    and n: "n < length (sy_log s)" "en_holder (sy_log s ! n) \<noteq> None" "en_token (sy_log s ! n) = fc_token claim"
  shows "en_owner (sy_log s ! n) = p" and "en_duration (sy_log s ! n) = lg_lease_duration (sy_guard s p)"
proof -
  obtain n' where n': "n' < length (sy_log s)" "en_owner (sy_log s ! n') = p" "en_holder (sy_log s ! n') \<noteq> None"
    "en_token (sy_log s ! n') = fc_token claim" "en_duration (sy_log s ! n') = lg_lease_duration (sy_guard s p)"
    using inv claim by (auto simp: guard_inv_def Let_def current_claim_def ok_or_def split: if_splits option.splits)
  have "en_owner (sy_log s ! n) = en_owner (sy_log s ! n') \<and> en_duration (sy_log s ! n) = en_duration (sy_log s ! n')"
  proof (cases "n \<le> n'")
    case True
    show ?thesis using log_epochs [OF log True n'(1)] n n' by auto
  next
    case False
    then show ?thesis using log_epochs [OF log, of n' n] n n' by auto
  qed
  with n' show "en_owner (sy_log s ! n) = p" "en_duration (sy_log s ! n) = lg_lease_duration (sy_guard s p)" by simp_all
qed

lemma renews_renewing:
  assumes inv: "guard_inv delta s p" and log: "log_ok delta (sy_now s) (sy_log s)"
    and c: "known s c" "fits (sy_log s) c n" and rn: "renews (sy_guard s p) c l"
  shows "renewing lib delta s p (ReplaceLease ns name l)"
proof -
  let ?g = "sy_guard s p"
  obtain a claim renewal wall where a: "lease_coordination_state c (lg_lease_duration ?g) = Inr a"
    and claim: "current_claim ?g = Inr claim" "co_holder_identity a = Some (fc_holder_identity claim)" "co_fence_token a = fc_token claim"
    and renewal: "checked_add (co_renewal a) 1 = Some renewal"
    and l: "lease_with_guard_state c claim renewal (lg_lease_duration ?g) wall False = Inr l"
    using rn by (auto simp: renews_def)
  note r = fits_read [OF c(2) a]
  obtain secs where secs: "describes l (coordination claim renewal (lg_lease_duration ?g) secs)"
    "resource_version l = resource_version c" "v3_anchor_state_from_lease_optional lib l = v3_anchor_state_from_lease_optional lib c"
    using guard_state_describes [OF l] by metis
  have h: "en_holder (sy_log s ! n) = Some (fc_holder_identity claim)" "en_token (sy_log s ! n) = fc_token claim" using r claim by simp_all
  have "epoch_step delta (sy_log s ! n) (entry_of t p (coordination claim renewal (lg_lease_duration ?g) secs))" for t
    using claim_epoch [OF inv log claim(1) r(1)] h by (simp add: epoch_step_def entry_of_def coordination_def)
  moreover have "unat renewal = Suc n" using checked_succ [OF renewal] r(2) by simp
  ultimately show ?thesis
    unfolding renewing.simps using c secs
    by (intro exI [of _ c] exI [of _ n] exI [of _ "coordination claim renewal (lg_lease_duration ?g) secs"])
      (simp add: coordination_def)
qed

lemma releases_renewing:
  assumes inv: "guard_inv delta s p" and log: "log_ok delta (sy_now s) (sy_log s)" and released: "sy_released s p"
    and c: "known s c" "fits (sy_log s) c n" and rl: "releases (sy_guard s p) c l"
  shows "renewing lib delta s p (ReplaceLease ns name l)"
proof -
  let ?g = "sy_guard s p"
  obtain a claim renewal wall where a: "lease_coordination_state c (lg_lease_duration ?g) = Inr a"
    and claim: "current_claim ?g = Inr claim" "lease_holds_claim c claim = Inr True"
    and renewal: "checked_add (co_renewal a) 1 = Some renewal" and l: "lease_with_released_state c renewal wall = Inr l"
    using rl by (auto simp: releases_def)
  obtain a' where a': "lease_coordination_state c NANOS = Inr a'" "co_holder_identity a' = Some (fc_holder_identity claim)"
    "co_fence_token a' = fc_token claim"
    using claim(2) by (auto simp: lease_holds_claim_def bindE_eq_Inr)
  note r = fits_read [OF c(2) a'(1)] and r' = fits_read [OF c(2) a]
  let ?b = "a'\<lparr>co_holder_identity := None, co_renewal := renewal\<rparr>"
  have "describes l ?b" using released_state_fields(1) [OF l a'(1)] by (simp add: describes_def)
  moreover have h: "en_holder (sy_log s ! n) = Some (fc_holder_identity claim)" "en_token (sy_log s ! n) = fc_token claim"
    using r a' by simp_all
  moreover have "epoch_step delta (sy_log s ! n) (entry_of t p ?b)" for t
    using claim_epoch [OF inv log claim(1) r(1)] h a'(3) by (simp add: epoch_step_def entry_of_def)
  moreover have "unat renewal = Suc n" using checked_succ [OF renewal] r'(2) by simp
  ultimately show ?thesis
    unfolding renewing.simps using c released released_state_fields(2,3) [OF l a'(1)]
    by (intro exI [of _ c] exI [of _ n] exI [of _ ?b]) simp
qed

lemma creates_renewing:
  assumes "new_guard_lease name \<lparr>fc_holder_identity = h, fc_token = 1\<rparr> (lg_lease_duration (sy_guard s p)) wall = Inr l"
  shows "renewing lib delta s p (CreateLease ns l)"
proof -
  let ?claim = "\<lparr>fc_holder_identity = h, fc_token = 1\<rparr>"
  obtain secs where "describes l (coordination ?claim 1 (lg_lease_duration (sy_guard s p)) secs)"
    "v3_anchor_state_from_lease_optional lib l = v3_anchor_state_from_lease_optional lib (named_lease name)"
    using guard_state_describes [OF assms [unfolded new_guard_lease_def]] by metis
  moreover have "v3_anchor_state_from_lease_optional lib (named_lease name) = Inr None"
    by (simp add: v3_anchor_state_from_lease_optional_def named_lease_def)
  ultimately show ?thesis
    unfolding renewing.simps
    by (intro exI [of _ "coordination ?claim 1 (lg_lease_duration (sy_guard s p)) secs"])
      (simp add: coordination_def epoch_step_def entry_of_def no_entry_def)
qed

lemma guard_sends_legal:
  assumes inv: "guard_inv delta s p" and log: "log_ok delta (sy_now s) (sy_log s)" and store: "store_inv s"
    and sends: "guard_sends (sy_guard s p) m b rd q" and b: "b \<longrightarrow> sy_released s p" and m: "m \<le> sy_now s"
    and rd: "\<forall>c. rd = Some c \<longrightarrow> recent delta s m c"
  shows "legal lib delta s (p, q)" and "body_of q \<noteq> None \<Longrightarrow> renewing lib delta s p q"
proof -
  have "(body_of q = None \<longrightarrow> keeping lib s p q) \<and> (body_of q \<noteq> None \<longrightarrow> renewing lib delta s p q)"
  proof (cases q)
    case (CreateLease ns l)
    then show ?thesis using sends creates_renewing by (auto simp del: renewing.simps)
  next
    case (ReplaceLease ns name l)
    then obtain c where c: "rd = Some c" "acquires (sy_guard s p) m c l \<or> renews (sy_guard s p) c l \<or> b \<and> releases (sy_guard s p) c l"
      using sends by auto
    then have k: "known s c" using rd by (simp add: recent_def)
    then obtain n where n: "fits (sy_log s) c n" using known_fits store by blast
    from c(2) b show ?thesis
      unfolding ReplaceLease
      using acquires_renewing [OF inv log m k n] renews_renewing [OF inv log k n] releases_renewing [OF inv log _ k n] by auto
  qed simp
  then show "legal lib delta s (p, q)" "body_of q \<noteq> None \<Longrightarrow> renewing lib delta s p q" by (auto simp: legal_def)
qed

section \<open>Replies\<close>

lemma same_store:
  assumes "sy_store s' = sy_store s" and "sy_log s' = sy_log s" and "\<And>p. sy_released s p \<Longrightarrow> sy_released s' p" and "store_inv s"
  shows "store_inv s'"
  using assms(3,4) by (auto simp: store_inv_def known_def assms(1,2) split: option.splits)

lemma answered_inv:
  assumes store: "store_inv s" and log: "log_ok delta (sy_now s) (sy_log s)" and legal: "legal lib delta s (p, q)"
    and reply: "documented_reply (sy_store s) q r store"
  shows "extends s (answered p q r store s)" and "log_ok delta (sy_now s) (sy_log (answered p q r store s))"
    and "store_inv (answered p q r store s)"
    and "r = Stored l' \<Longrightarrow> renewing lib delta s p q \<Longrightarrow> m \<le> sy_now s \<Longrightarrow> own_entry (answered p q r store s) p m l'"
    and "r = Stored l' \<Longrightarrow> body_of q \<noteq> None"
    and "r = Found c \<Longrightarrow> c = sv_lease (sy_store s) \<and> store = sy_store s \<and> body_of q = None"
proof -
  let ?s = "answered p q r store s"
  from reply consider (same) "store = sy_store s" "\<forall>l. r \<noteq> Stored l"
    | (wrote) l l' where "accepts (sy_store s) q" "body_of q = Some l" "stores l l' (sy_store s) store" "r = Stored l' \<or> r = Failed ApiUnavailable"
    by (auto simp: documented_reply_def split: lease_request.splits)
  then have "extends s ?s \<and> log_ok delta (sy_now s) (sy_log ?s) \<and> store_inv ?s \<and>
    (\<forall>l'. r = Stored l' \<longrightarrow> body_of q \<noteq> None \<and> (renewing lib delta s p q \<longrightarrow> m \<le> sy_now s \<longrightarrow> own_entry ?s p m l'))"
  proof cases
    case same
    then show ?thesis using log store by (auto simp: log_write_get extends_def intro: same_store [of _ s])
  next
    case (wrote l l')
    note w = answered_write [OF store log legal wrote(1-3), where r = r]
    show ?thesis using w wrote(2,4) by auto
  qed
  then show "extends s ?s" "log_ok delta (sy_now s) (sy_log ?s)" "store_inv ?s"
    "r = Stored l' \<Longrightarrow> renewing lib delta s p q \<Longrightarrow> m \<le> sy_now s \<Longrightarrow> own_entry ?s p m l'"
    "r = Stored l' \<Longrightarrow> body_of q \<noteq> None" by blast+
  show "c = sv_lease (sy_store s) \<and> store = sy_store s \<and> body_of q = None" if "r = Found c"
    using reply that by (auto simp: documented_reply_def split: lease_request.splits)
qed

section \<open>Steps\<close>

lemma invD:
  assumes "lease_inv lib delta s"
  shows "log_ok delta (sy_now s) (sy_log s)" "store_inv s" "guard_inv delta s p" "single_guard_task s"
    "sy_tasks s t = Some x \<Longrightarrow> task_inv lib delta s x" "y \<in> sy_late s \<Longrightarrow> legal lib delta s y"
  using assms unfolding lease_inv_def by blast+

lemma extends_refl: "sy_now s \<le> sy_now s' \<Longrightarrow> sy_log s' = sy_log s \<Longrightarrow> sy_store s' = sy_store s \<Longrightarrow>
    (\<And>p. sy_released s p \<Longrightarrow> sy_released s' p) \<Longrightarrow> (\<And>p. lg_lease_duration (sy_guard s' p) = lg_lease_duration (sy_guard s p)) \<Longrightarrow>
    extends s s'"
  by (simp add: extends_def)

lemma anchor_sends_legal:
  assumes "anchor_sends lib f rd q" and "\<forall>c. f = Some c \<longrightarrow> owns s p c" and "\<forall>c. rd = Some c \<longrightarrow> known s c"
  shows "legal lib delta s (p, q)"
proof -
  have "keeping lib s p q"
  proof (cases q)
    case (ReplaceLease ns n l)
    with assms obtain c where "known s c" "advances lib f c l \<or> authorised f c \<and> l = bump_anchor_fence c" by auto
    with assms(2) show ?thesis unfolding ReplaceLease keeping.simps by blast
  qed (use assms in auto)
  then show ?thesis by (simp add: legal_def)
qed

text \<open>A request that waits for its reply is legal.\<close>

lemma pending_legal:
  assumes inv: "lease_inv lib delta s" and t: "sy_tasks s t = Some (p, x)" and y: "y \<in> pending (p, x)"
  shows "legal lib delta s y"
proof -
  note ti = invD(5) [OF inv t]
  show ?thesis
  proof (cases "(p, x)" rule: pending.cases)
    case (1 p' m q k)
    with ti obtain b rd st where "guard_sends (sy_guard s p) m b rd q" "b \<longrightarrow> sy_released s p" "m \<le> sy_now s"
      "\<forall>c. rd = Some c \<longrightarrow> recent delta s m c" by (auto simp: guard_task_inv_def)
    then have "legal lib delta s (p, q)" using guard_sends_legal(1) invD(1-3) [OF inv] by blast
    with 1 y show ?thesis by simp
  next
    case (2 p' f q k)
    with ti obtain rd where "anchor_sends lib f rd q" "\<forall>c. f = Some c \<longrightarrow> owns s p c" "\<forall>c. rd = Some c \<longrightarrow> known s c"
      by (auto simp: anchor_task_inv_def)
    then have "legal lib delta s (p, q)" by (rule anchor_sends_legal)
    with 2 y show ?thesis by simp
  qed (use y in auto)
qed

lemma current_claim_owns: "guard_inv delta s p \<Longrightarrow> current_claim (sy_guard s p) = Inr c \<Longrightarrow> owns s p c"
  by (auto simp: guard_inv_def Let_def current_claim_def ok_or_def owns_def split: if_splits option.splits)

lemma single_start:
  assumes "single_guard_task s" and "sy_tasks s t = None" and "\<not> busy s p"
    and "sy_tasks s' = (sy_tasks s)(t \<mapsto> (p, GuardTask m io))"
  shows "single_guard_task s'"
  using assms unfolding single_guard_task_def busy_def by (auto split: if_splits)

lemma single_continue:
  assumes "single_guard_task s" and "\<And>t' q m io. tasks t' = Some (q, GuardTask m io) \<Longrightarrow> \<exists>m' io'. sy_tasks s t' = Some (q, GuardTask m' io')"
    and "sy_tasks s' = tasks"
  shows "single_guard_task s'"
  using assms(1,2) unfolding single_guard_task_def assms(3) by metis

lemma start_guard_inv:
  assumes inv: "lease_inv lib delta s" and t: "sy_tasks s t = None" "\<not> busy s p"
    and io: "guard_io (sy_guard s p) (sy_now s) b None None io" and b: "b \<longrightarrow> rel p" and rel: "\<And>q. sy_released s q \<Longrightarrow> rel q"
  shows "lease_inv lib delta (s\<lparr>sy_tasks := (sy_tasks s)(t \<mapsto> (p, GuardTask (sy_now s) io)), sy_released := rel\<rparr>)"
proof (rule inv_frame [OF inv])
  let ?s = "s\<lparr>sy_tasks := (sy_tasks s)(t \<mapsto> (p, GuardTask (sy_now s) io)), sy_released := rel\<rparr>"
  show "extends s ?s" using rel by (intro extends_refl) simp_all
  show "store_inv ?s" using invD(2) [OF inv] rel by (intro same_store [of ?s s]) simp_all
  show "single_guard_task ?s" using single_start [OF invD(4) [OF inv] t] by simp
  fix t' y assume "sy_tasks ?s t' = Some y"
  moreover have "guard_task_inv delta ?s p (sy_now s) io" unfolding guard_task_inv_def using io b by (intro exI [of _ b]) auto
  ultimately show "sy_tasks s t' = Some y \<and> sy_guard ?s (fst y) = sy_guard s (fst y) \<or> task_inv lib delta ?s y"
    by (auto split: if_splits)
qed (use invD(1) [OF inv] in simp_all)

lemma start_anchor_inv:
  assumes inv: "lease_inv lib delta s" and t: "sy_tasks s t = None"
    and io: "anchor_io lib f None io" and f: "\<forall>c. f = Some c \<longrightarrow> current_claim (sy_guard s p) = Inr c"
  shows "lease_inv lib delta (s\<lparr>sy_tasks := (sy_tasks s)(t \<mapsto> (p, AnchorTask f io))\<rparr>)"
proof (rule inv_frame [OF inv])
  let ?s = "s\<lparr>sy_tasks := (sy_tasks s)(t \<mapsto> (p, AnchorTask f io))\<rparr>"
  show "extends s ?s" by (intro extends_refl) simp_all
  show "store_inv ?s" using invD(2) [OF inv] by (intro same_store [of ?s s]) simp_all
  show "single_guard_task ?s" by (rule single_continue [OF invD(4) [OF inv] _ refl]) (auto split: if_splits)
  have owns: "\<forall>c. f = Some c \<longrightarrow> owns s p c" using f current_claim_owns [OF invD(3) [OF inv]] by blast
  have "anchor_task_inv lib ?s p f io" unfolding anchor_task_inv_def using io owns by (intro exI [of _ None]) (simp add: owns_def)
  then show "sy_tasks s t' = Some y \<and> sy_guard ?s (fst y) = sy_guard s (fst y) \<or> task_inv lib delta ?s y"
    if "sy_tasks ?s t' = Some y" for t' y
    using that by (auto split: if_splits)
qed (use invD(1) [OF inv] in simp_all)

lemma guard_call_inv:
  assumes inv: "lease_inv lib delta s" and t: "sy_tasks s t = Some (p, GuardTask m (Call q k))"
    and early: "body_of q = None \<longrightarrow> sy_now s \<le> m + delta" and reply: "documented_reply (sy_store s) q r store"
  shows "lease_inv lib delta ((answered p q r store s)\<lparr>sy_tasks := (sy_tasks s)(t \<mapsto> (p, GuardTask m (k r)))\<rparr>)" (is "lease_inv lib delta ?s")
    and "extends s ((answered p q r store s)\<lparr>sy_tasks := (sy_tasks s)(t \<mapsto> (p, GuardTask m (k r)))\<rparr>)"
proof -
  let ?a = "answered p q r store s"
  note log = invD(1) [OF inv] and st_inv = invD(2) [OF inv]
  obtain b rd st where io: "guard_sends (sy_guard s p) m b rd q" "guard_io (sy_guard s p) m b (read_of rd r) (stored_of st r) (k r)"
    and b: "b \<longrightarrow> sy_released s p" and m: "m \<le> sy_now s"
    and rd: "\<forall>c. rd = Some c \<longrightarrow> recent delta s m c" and st: "\<forall>l. st = Some l \<longrightarrow> own_entry s p m l"
    using invD(5) [OF inv t] by (auto simp: guard_task_inv_def)
  note legal = guard_sends_legal [OF invD(3) [OF inv] log st_inv io(1) b m rd, where lib = lib]
  note a = answered_inv [OF st_inv log legal(1) reply]
  show x: "extends s ?s" using a(1) by (simp add: extends_def)
  have xa: "extends ?a ?s" by (intro extends_refl) simp_all
  have rd': "recent delta ?s m c" if "read_of rd r = Some c" for c
  proof (cases r)
    case (Found l)
    with that a(6) have l: "sv_lease (sy_store s) = Some c" "body_of q = None" by auto
    then have "known s c" using st_inv by (simp add: store_inv_def)
    moreover have "en_time (sy_log s ! n) \<le> m + delta" if "fits (sy_log s) c n" for n
      using log_time_now [OF log fits_bound [OF that]] early l(2) by simp
    ultimately have "recent delta s m c" by (simp add: recent_def)
    then show ?thesis by (rule extends_recent [OF x st_inv])
  qed (use that rd extends_recent [OF x st_inv] in auto)
  have st': "own_entry ?s p m l" if "stored_of st r = Some l" for l
  proof (cases r)
    case (Stored l')
    then have "own_entry ?a p m l" using a(4) [OF Stored legal(2) m] a(5) [OF Stored] that by simp
    then show ?thesis by (rule extends_own_entry [OF xa])
  qed (use that st extends_own_entry [OF x] in auto)
  have task: "guard_task_inv delta ?s p m (k r)"
    unfolding guard_task_inv_def using io(2) b m rd' st'
    by (intro exI [of _ b] exI [of _ "read_of rd r"] exI [of _ "stored_of st r"]) simp
  show "lease_inv lib delta ?s"
  proof (rule inv_frame [OF inv x])
    show "log_ok delta (sy_now ?s) (sy_log ?s)" using a(2) by simp
    show "store_inv ?s" using a(3) by (intro same_store [of ?s ?a]) simp_all
    show "single_guard_task ?s" by (rule single_continue [OF invD(4) [OF inv] _ refl]) (use t in \<open>auto split: if_splits\<close>)
    show "y \<in> sy_late s \<or> legal lib delta ?s y" if "y \<in> sy_late ?s" for y
      using that extends_legal [OF x legal(1)] by (auto simp: answered_def split: if_splits)
    show "sy_tasks s t' = Some y \<and> sy_guard ?s (fst y) = sy_guard s (fst y) \<or> task_inv lib delta ?s y"
      if "sy_tasks ?s t' = Some y" for t' y
      using that task by (auto split: if_splits)
  qed simp
qed

lemma anchor_call_inv:
  assumes inv: "lease_inv lib delta s" and t: "sy_tasks s t = Some (p, AnchorTask f (Call q k))"
    and reply: "documented_reply (sy_store s) q r store"
  shows "lease_inv lib delta ((answered p q r store s)\<lparr>sy_tasks := (sy_tasks s)(t \<mapsto> (p, AnchorTask f (k r)))\<rparr>)" (is "lease_inv lib delta ?s")
    and "extends s ((answered p q r store s)\<lparr>sy_tasks := (sy_tasks s)(t \<mapsto> (p, AnchorTask f (k r)))\<rparr>)"
proof -
  let ?a = "answered p q r store s"
  note log = invD(1) [OF inv] and st_inv = invD(2) [OF inv]
  obtain rd where io: "anchor_sends lib f rd q" "anchor_io lib f (read_of rd r) (k r)"
    and f: "\<forall>c. f = Some c \<longrightarrow> owns s p c" and rd: "\<forall>c. rd = Some c \<longrightarrow> known s c"
    using invD(5) [OF inv t] by (auto simp: anchor_task_inv_def)
  note legal = anchor_sends_legal [OF io(1) f rd, where delta = delta]
  note a = answered_inv [OF st_inv log legal reply]
  show x: "extends s ?s" using a(1) by (simp add: extends_def)
  have rd': "known ?s c" if "read_of rd r = Some c" for c
  proof (cases r)
    case (Found l)
    with that a(6) have "sv_lease (sy_store s) = Some c" by auto
    then have "known s c" using st_inv by (simp add: store_inv_def)
    then show ?thesis by (rule extends_known [OF x])
  qed (use that rd extends_known [OF x] in auto)
  have task: "anchor_task_inv lib ?s p f (k r)"
    unfolding anchor_task_inv_def using io(2) f extends_owns [OF x] rd' by blast
  show "lease_inv lib delta ?s"
  proof (rule inv_frame [OF inv x])
    show "log_ok delta (sy_now ?s) (sy_log ?s)" using a(2) by simp
    show "store_inv ?s" using a(3) by (intro same_store [of ?s ?a]) simp_all
    show "single_guard_task ?s" by (rule single_continue [OF invD(4) [OF inv] _ refl]) (use t in \<open>auto split: if_splits\<close>)
    show "y \<in> sy_late s \<or> legal lib delta ?s y" if "y \<in> sy_late ?s" for y
      using that extends_legal [OF x legal] by (auto simp: answered_def split: if_splits)
    show "sy_tasks s t' = Some y \<and> sy_guard ?s (fst y) = sy_guard s (fst y) \<or> task_inv lib delta ?s y"
      if "sy_tasks ?s t' = Some y" for t' y
      using that task by (auto split: if_splits)
  qed simp
qed

lemma late_inv:
  assumes inv: "lease_inv lib delta s" and y: "(p, q) \<in> sy_late s" and reply: "documented_reply (sy_store s) q r store"
  shows "lease_inv lib delta (answered p q r store s)" and "extends s (answered p q r store s)"
proof -
  let ?s = "answered p q r store s"
  note legal = invD(6) [OF inv y]
  note a = answered_inv [OF invD(2,1) [OF inv] legal reply]
  show x: "extends s ?s" by (fact a(1))
  show "lease_inv lib delta ?s"
  proof (rule inv_frame [OF inv x])
    show "log_ok delta (sy_now ?s) (sy_log ?s)" using a(2) by simp
    show "store_inv ?s" by (fact a(3))
    show "single_guard_task ?s" by (rule single_continue [OF invD(4) [OF inv] _ refl]) auto
    show "y \<in> sy_late s \<or> legal lib delta ?s y" if "y \<in> sy_late ?s" for y
      using that extends_legal [OF x legal] by (auto simp: answered_def split: if_splits)
  qed simp_all
qed

lemma guard_done_inv:
  assumes inv: "lease_inv lib delta s" and t: "sy_tasks s t = Some (p, GuardTask m (Return g))"
  shows "lease_inv lib delta (s\<lparr>sy_guard := (sy_guard s)(p := g), sy_tasks := (sy_tasks s)(t := None)\<rparr>)" (is "lease_inv lib delta ?s")
    and "extends s (s\<lparr>sy_guard := (sy_guard s)(p := g), sy_tasks := (sy_tasks s)(t := None)\<rparr>)"
proof -
  note log = invD(1) [OF inv] and st_inv = invD(2) [OF inv] and g_inv = invD(3) [OF inv, of p]
  obtain rd st where ret: "guard_returns (sy_guard s p) m rd st g"
    and rd: "\<forall>c. rd = Some c \<longrightarrow> recent delta s m c" and st: "\<forall>l. st = Some l \<longrightarrow> own_entry s p m l"
    using invD(5) [OF inv t] by (auto simp: guard_task_inv_def)
  have dur: "lg_lease_duration g = lg_lease_duration (sy_guard s p)" and loc: "returns_local (sy_guard s p) m st g"
    and obs: "returns_observation (sy_guard s p) m rd g"
    using ret by (simp_all add: guard_returns_def same_config_def)
  show x: "extends s ?s" using dur by (intro extends_refl) simp_all
  have active: "\<exists>c t n. lf_claim (lg_local_state g) = Some c \<and> lf_last_success (lg_local_state g) = Some t \<and> n < length (sy_log s) \<and>
      en_owner (sy_log s ! n) = p \<and> en_holder (sy_log s ! n) = Some (fc_holder_identity c) \<and> en_token (sy_log s ! n) = fc_token c \<and>
      en_duration (sy_log s ! n) = lg_lease_duration g \<and> t \<le> en_time (sy_log s ! n)" if "lf_active (lg_local_state g)"
  proof -
    from loc that consider "lg_local_state g = lg_local_state (sy_guard s p)"
      | l claim where "st = Some l" "lease_holds_claim l claim = Inr True"
        "lg_local_state g = \<lparr>lf_claim = Some claim, lf_last_success = Some m, lf_active = True\<rparr>"
      by (auto simp: returns_local_def)
    then show ?thesis
    proof cases
      case 1
      then show ?thesis using g_inv that dur by (simp add: guard_inv_def Let_def)
    next
      case (2 l claim)
      obtain n where n: "fits (sy_log s) l n" "en_owner (sy_log s ! n) = p" "m \<le> en_time (sy_log s ! n)"
        "en_holder (sy_log s ! n) \<noteq> None \<longrightarrow> en_duration (sy_log s ! n) = lg_lease_duration (sy_guard s p)"
        using st 2(1) by (auto simp: own_entry_def)
      obtain a where a: "lease_coordination_state l NANOS = Inr a" "co_holder_identity a = Some (fc_holder_identity claim)"
        "co_fence_token a = fc_token claim"
        using 2(2) by (auto simp: lease_holds_claim_def bindE_eq_Inr)
      have h: "en_holder (sy_log s ! n) = Some (fc_holder_identity claim)" "en_token (sy_log s ! n) = fc_token claim"
        using fits_read [OF n(1) a(1)] a by simp_all
      show ?thesis
        by (rule exI [of _ claim], rule exI [of _ m], rule exI [of _ n]) (use n h fits_bound [OF n(1)] 2(3) dur in simp)
    qed
  qed
  have observed: "unat (lo_renewal (oc_record y)) < length (sy_log s) \<and>
      en_time (sy_log s ! unat (lo_renewal (oc_record y))) \<le> oc_observed_at y + delta" if y: "lg_observation g = Some y" for y
  proof -
    from obs y consider "lg_observation (sy_guard s p) = Some y"
      | c a r where "rd = Some c" "lease_coordination_state c (lg_lease_duration (sy_guard s p)) = Inr a" "observation a = Some r"
        "y = \<lparr>oc_record = r, oc_observed_at = m\<rparr>"
      by (auto simp: returns_observation_def)
    then show ?thesis
    proof cases
      case 1
      then show ?thesis using g_inv by (auto simp: guard_inv_def Let_def)
    next
      case (2 c a r)
      then have "recent delta s m c" using rd by simp
      then obtain n where n: "fits (sy_log s) c n" "en_time (sy_log s ! n) \<le> m + delta"
        using known_fits [OF st_inv] by (auto simp: recent_def)
      have "lo_renewal r = co_renewal a" using 2(3) by (auto simp: observation_def)
      with fits_read [OF n(1) 2(2)] n(2) 2(4) show ?thesis by simp
    qed
  qed
  have g': "guard_inv delta ?s p"
    using g_inv active observed dur by (auto simp: guard_inv_def Let_def)
  have alone: "\<not> (q = p \<and> (\<exists>m' io. y = GuardTask m' io))" if "sy_tasks ?s t' = Some (q, y)" for t' q y
    using that t invD(4) [OF inv] unfolding single_guard_task_def by (auto split: if_splits)
  show "lease_inv lib delta ?s"
  proof (rule inv_frame [OF inv x])
    show "store_inv ?s" using st_inv by (intro same_store [of ?s s]) simp_all
    show "single_guard_task ?s" by (rule single_continue [OF invD(4) [OF inv] _ refl]) (auto split: if_splits)
    show "sy_guard ?s q = sy_guard s q \<or> guard_inv delta ?s q" for q using g' by auto
    show "sy_tasks s t' = Some y \<and> sy_guard ?s (fst y) = sy_guard s (fst y) \<or> task_inv lib delta ?s y"
      if "sy_tasks ?s t' = Some y" for t' y
    proof (cases y)
      case (Pair q z)
      have old: "sy_tasks s t' = Some (q, z)" using that Pair by (auto split: if_splits)
      show ?thesis
      proof (cases z)
        case (GuardTask m' io)
        then show ?thesis using old alone [of t' q z] that Pair by auto
      next
        case (AnchorTask f io)
        then have "anchor_task_inv lib s q f io" using invD(5) [OF inv old] by simp
        then have "anchor_task_inv lib ?s q f io" by (simp add: anchor_task_inv_def owns_def known_def)
        then show ?thesis using Pair AnchorTask by simp
      qed
    qed
  qed (use log in simp_all)
qed

lemma crash_inv:
  assumes inv: "lease_inv lib delta s"
  shows "lease_inv lib delta (crashed p s)" and "extends s (crashed p s)"
proof -
  let ?s = "crashed p s"
  have eqs: "sy_now ?s = sy_now s" "sy_store ?s = sy_store s" "sy_log ?s = sy_log s" "sy_released ?s = sy_released s"
    "sy_guard ?s = (sy_guard s)(p := deactivate (sy_guard s p))"
    by (simp_all add: crashed_def)
  show x: "extends s ?s" by (intro extends_refl) (simp_all add: eqs deactivate_def)
  have left: "sy_tasks s t = Some y \<and> fst y \<noteq> p" if "sy_tasks ?s t = Some y" for t y
    using that by (auto simp: crashed_def split: option.splits prod.splits if_splits)
  show "lease_inv lib delta ?s"
  proof (rule inv_frame [OF inv x])
    show "store_inv ?s" using invD(2) [OF inv] by (intro same_store [of ?s s]) (simp_all add: eqs)
    show "single_guard_task ?s" by (rule single_continue [OF invD(4) [OF inv] _ refl]) (use left in blast)
    have "guard_inv delta ?s p" using invD(3) [OF inv, of p] by (simp add: guard_inv_def eqs deactivate_def Let_def)
    then show "sy_guard ?s q = sy_guard s q \<or> guard_inv delta ?s q" for q by (auto simp: eqs)
    show "sy_tasks s t' = Some y \<and> sy_guard ?s (fst y) = sy_guard s (fst y) \<or> task_inv lib delta ?s y"
      if "sy_tasks ?s t' = Some y" for t' y
      using left [OF that] by (simp add: eqs)
    show "y \<in> sy_late s \<or> legal lib delta ?s y" if "y \<in> sy_late ?s" for y
    proof -
      from that have "y \<in> sy_late s \<or> (\<exists>t q x. sy_tasks s t = Some (q, x) \<and> y \<in> pending (q, x))"
        by (auto simp: crashed_def split: option.splits if_splits) metis
      then show ?thesis using pending_legal [OF inv] extends_legal [OF x] by blast
    qed
  qed (use invD(1) [OF inv] eqs in simp_all)
qed

lemma tick_inv:
  assumes inv: "lease_inv lib delta s"
  shows "lease_inv lib delta (s\<lparr>sy_now := sy_now s + d\<rparr>)" (is "lease_inv lib delta ?s") and "extends s (s\<lparr>sy_now := sy_now s + d\<rparr>)"
proof -
  show x: "extends s ?s" by (intro extends_refl) simp_all
  show "lease_inv lib delta ?s"
  proof (rule inv_frame [OF inv x])
    show "log_ok delta (sy_now ?s) (sy_log ?s)" using log_ok_later [OF invD(1) [OF inv]] by simp
    show "store_inv ?s" using invD(2) [OF inv] by (intro same_store [of ?s s]) simp_all
    show "single_guard_task ?s" by (rule single_continue [OF invD(4) [OF inv] _ refl]) auto
  qed simp_all
qed

lemma anchor_local_inv:
  assumes inv: "lease_inv lib delta s" and t: "sy_tasks s t = Some (p, AnchorTask f io)"
    and io': "case x of None \<Rightarrow> True | Some y \<Rightarrow> \<exists>io'. y = (p, AnchorTask f io') \<and> (\<forall>rd. anchor_io lib f rd io \<longrightarrow> anchor_io lib f rd io')"
  shows "lease_inv lib delta (s\<lparr>sy_tasks := (sy_tasks s)(t := x)\<rparr>)" (is "lease_inv lib delta ?s")
    and "extends s (s\<lparr>sy_tasks := (sy_tasks s)(t := x)\<rparr>)"
proof -
  show x: "extends s ?s" by (intro extends_refl) simp_all
  have "anchor_task_inv lib s p f io" using invD(5) [OF inv t] by simp
  then obtain rd where rd: "anchor_io lib f rd io" "\<forall>c. f = Some c \<longrightarrow> owns ?s p c" "\<forall>c. rd = Some c \<longrightarrow> known ?s c"
    by (auto simp: anchor_task_inv_def owns_def known_def)
  then have new: "task_inv lib delta ?s y" if "x = Some y" for y
  proof -
    from io' that obtain io2 where "y = (p, AnchorTask f io2)" "anchor_io lib f rd io2" using rd(1) by auto
    moreover from this rd(2,3) have "anchor_task_inv lib ?s p f io2" unfolding anchor_task_inv_def by blast
    ultimately show ?thesis by simp
  qed
  show "lease_inv lib delta ?s"
  proof (rule inv_frame [OF inv x])
    show "store_inv ?s" using invD(2) [OF inv] by (intro same_store [of ?s s]) simp_all
    show "single_guard_task ?s"
      by (rule single_continue [OF invD(4) [OF inv] _ refl]) (use io' in \<open>auto split: if_splits option.splits\<close>)
    show "sy_tasks s t' = Some y \<and> sy_guard ?s (fst y) = sy_guard s (fst y) \<or> task_inv lib delta ?s y"
      if "sy_tasks ?s t' = Some y" for t' y
      using that new by (auto split: if_splits)
  qed (use invD(1) [OF inv] in simp_all)
qed

theorem step_inv:
  assumes law: "lease_api_law api" and step: "lease_step lib api delta s s'" and inv: "lease_inv lib delta s"
  shows "lease_inv lib delta s'" and "extends s s'"
proof -
  have doc: "documented_reply st q r st'" if "api st q r st'" for st q r st' using law that by (simp add: lease_api_law_def)
  from step have "lease_inv lib delta s' \<and> extends s s'"
  proof cases
    case (start_acquire t p wall)
    then show ?thesis using start_guard_inv [OF inv start_acquire(2,3) guard_programs(1) [where b = False], of "sy_released s"]
      by (simp add: extends_refl)
  next
    case (start_renew t p wall)
    then show ?thesis using start_guard_inv [OF inv start_renew(2,3) guard_programs(2) [where b = False], of "sy_released s"]
      by (simp add: extends_refl)
  next
    case (start_release t p wall)
    then show ?thesis using start_guard_inv [OF inv start_release(2,3) guard_programs(3), of "(sy_released s)(p := True)"]
      by (simp add: extends_refl)
  next
    case (start_advance t "next" f p settings expected)
    then show ?thesis using start_anchor_inv [OF inv start_advance(2) anchor_programs(1) [OF start_advance(3)] start_advance(4)]
      by (simp add: extends_refl)
  next
    case (start_fence t f p settings)
    then show ?thesis using start_anchor_inv [OF inv start_fence(2) anchor_programs(2) start_fence(3)] by (simp add: extends_refl)
  next
    case (guard_call t p m q k r store)
    then show ?thesis using guard_call_inv [OF inv guard_call(2,3) doc [OF guard_call(4)]] by simp
  next
    case (anchor_call t p f q k r store)
    then show ?thesis using anchor_call_inv [OF inv anchor_call(2) doc [OF anchor_call(3)]] by simp
  next
    case (anchor_claim t p f k)
    have "Option.bind f (\<lambda>c. live_claim_at (sy_guard s p) c (sy_now s)) \<in> {None, f}"
      by (cases f) (auto simp: live_claim_at_def split: option.splits)
    then show ?thesis unfolding anchor_claim(1) by (intro conjI anchor_local_inv [OF inv anchor_claim(2)]) auto
  next
    case (late p q r store)
    then show ?thesis using late_inv [OF inv late(2) doc [OF late(3)]] by simp
  next
    case (guard_done t p m g)
    then show ?thesis using guard_done_inv [OF inv guard_done(2)] by simp
  next
    case (anchor_done t p f u)
    then show ?thesis using anchor_local_inv [OF inv anchor_done(2), of None] by simp
  qed (use tick_inv [OF inv] crash_inv [OF inv] in auto)
  then show "lease_inv lib delta s'" "extends s s'" by blast+
qed

end
