(* ===== verification/LeaseSafety.thy ===== *)
theory LeaseSafety
  imports LeaseInvariant
begin

text \<open>
  What the invariant says about reachable systems: who may be live, who may change the anchor, and
  that fence tokens and the sequence of the anchor never go back.
\<close>

section \<open>Reachable systems\<close>

lemma new_guard_fields:
  assumes "LeaseGuard_new settings identity duration = Inr g"
  shows "\<exists>secs. duration_seconds_i32 (lg_lease_duration g) = Inr secs" "lg_observation g = None"
    "\<not> lf_active (lg_local_state g)"
  using assms by (auto simp: LeaseGuard_new_def LocalFenceState_inactive_def bindE_eq_Inr split: if_splits)

lemma fresh_lease_fits:
  assumes "bt_get (annotations_or_empty l) WRITER_FENCE_ANNOTATION = None"
    and "bt_get (annotations_or_empty l) WRITER_RENEWAL_ANNOTATION = None"
    and "Option.bind (le_spec l) sp_holder_identity = None" and "Option.bind (le_spec l) sp_lease_duration_seconds = None"
  shows "fits [no_entry] l 0"
proof -
  have "parse_counter_annotation (annotations l) WRITER_FENCE_ANNOTATION = Inr 0"
    "parse_counter_annotation (annotations l) WRITER_RENEWAL_ANNOTATION = Inr 0"
    using assms(1,2) by (cases "annotations l"; simp add: parse_counter_annotation_def annotations_or_empty_def)+
  then show ?thesis using assms(3,4)
    by (simp add: fits_def describes_def lease_coordination_state_def no_entry_def duration_seconds_i32_def NANOS_def)
qed

lemma initial_inv:
  assumes "initial s"
  shows "lease_inv lib delta s"
proof -
  have log: "sy_log s = [no_entry]" and tasks: "sy_tasks s = Map.empty" and late: "sy_late s = {}"
    using assms by (simp_all add: initial_def)
  have "guard_inv delta s p" for p
  proof -
    obtain settings identity duration where "LeaseGuard_new settings identity duration = Inr (sy_guard s p)"
      using assms unfolding initial_def by blast
    from new_guard_fields [OF this] show ?thesis by (simp add: guard_inv_def Let_def)
  qed
  moreover have "store_inv s"
  proof (cases "sv_lease (sy_store s)")
    case None
    then have "sv_versions (sy_store s) = Map.empty" using assms by (simp add: initial_def)
    with None log show ?thesis by (simp add: store_inv_def)
  next
    case (Some l)
    then obtain v where v: "resource_version l = Some v" "sv_versions (sy_store s) = [v \<mapsto> l]" and f: "fits [no_entry] l 0"
      using assms fresh_lease_fits [of l] by (auto simp: initial_def)
    then show ?thesis using Some log by (auto simp: store_inv_def known_def split: if_splits)
  qed
  ultimately show ?thesis using tasks late log log_ok_initial by (simp add: lease_inv_def single_guard_task_def)
qed

lemma extends_trans: "extends s s' \<Longrightarrow> extends s' s'' \<Longrightarrow> extends s s''"
  by (auto simp: extends_def intro: map_le_trans)

lemma steps_inv:
  assumes "(lease_step lib api delta)\<^sup>*\<^sup>* s s'" and law: "lease_api_law api" and "lease_inv lib delta s"
  shows "lease_inv lib delta s'" and "extends s s'"
proof -
  have "lease_inv lib delta s' \<and> extends s s'" using assms(1)
  proof induction
    case base
    show ?case using assms(3) by (simp add: extends_def)
  next
    case (step t u)
    then show ?case using step_inv [OF law step(2)] extends_trans by blast
  qed
  then show "lease_inv lib delta s'" "extends s s'" by blast+
qed

lemma reachable_inv: "reachable lib api delta s \<Longrightarrow> lease_api_law api \<Longrightarrow> lease_inv lib delta s"
  unfolding reachable_def using initial_inv steps_inv(1) by blast

text \<open>A property that a run ends without was lost at one of its steps.\<close>

lemma steps_change:
  assumes "r\<^sup>*\<^sup>* s s'" and "P s" and "\<not> P s'"
  shows "\<exists>t u. r\<^sup>*\<^sup>* s t \<and> r t u \<and> P t \<and> \<not> P u"
  using assms
proof (induction rule: rtranclp_induct)
  case (step t u)
  then show ?case by (cases "P t") auto
qed simp

section \<open>Live writers\<close>

lemma live_entry:
  assumes "guard_inv delta s p" and "live s p c"
  obtains n where "n < length (sy_log s)" and "en_owner (sy_log s ! n) = p" and "en_holder (sy_log s ! n) = Some (fc_holder_identity c)"
    and "en_token (sy_log s ! n) = fc_token c" and "sy_now s < en_time (sy_log s ! n) + en_duration (sy_log s ! n)"
proof -
  let ?l = "lg_local_state (sy_guard s p)"
  have a: "lf_active ?l" "lf_claim ?l = Some c"
    and t: "\<And>t. lf_last_success ?l = Some t \<Longrightarrow> sy_now s - t < lg_lease_duration (sy_guard s p)"
    using assms(2) by (auto simp: live_def live_claim_at_def split: if_splits option.splits)
  obtain t n where n: "lf_last_success ?l = Some t" "n < length (sy_log s)" "en_owner (sy_log s ! n) = p"
    "en_holder (sy_log s ! n) = Some (fc_holder_identity c)" "en_token (sy_log s ! n) = fc_token c"
    "en_duration (sy_log s ! n) = lg_lease_duration (sy_guard s p)" "t \<le> en_time (sy_log s ! n)"
    using assms(1) a by (auto simp: guard_inv_def Let_def)
  then show thesis using that [of n] t [OF n(1)] by simp
qed

lemma live_takeover:
  assumes inv: "lease_inv lib delta s" and "live s p c" and "\<not> sy_released s p" and e: "e \<in> set (sy_log s)"
    and later: "unat (fc_token c) < unat (en_token e)"
  shows "sy_now s < en_time e + delta"
proof -
  obtain n where n: "n < length (sy_log s)" "en_owner (sy_log s ! n) = p" "en_holder (sy_log s ! n) = Some (fc_holder_identity c)"
    "en_token (sy_log s ! n) = fc_token c" "sy_now s < en_time (sy_log s ! n) + en_duration (sy_log s ! n)"
    using live_entry [OF invD(3) [OF inv] assms(2)] .
  obtain j where j: "j < length (sy_log s)" "e = sy_log s ! j" using e by (auto simp: in_set_conv_nth)
  have "\<forall>k < length (sy_log s). en_owner (sy_log s ! k) = en_owner (sy_log s ! n) \<longrightarrow> 0 < k \<longrightarrow> en_holder (sy_log s ! k) \<noteq> None"
    using invD(2) [OF inv] assms(3) n(2) unfolding store_inv_def by metis
  then have "en_time (sy_log s ! n) + en_duration (sy_log s ! n) \<le> en_time e + delta"
    using epoch_over [OF invD(1) [OF inv] n(1) j(1)] later n(3,4) j(2) by simp
  with n(5) show ?thesis by linarith
qed

text \<open>An epoch has one owner.\<close>

lemma same_epoch:
  assumes log: "log_ok delta now log" and "i < length log" and "j < length log"
    and "en_token (log ! i) = en_token (log ! j)" and "en_holder (log ! i) \<noteq> None" and "en_holder (log ! j) \<noteq> None"
  shows "en_owner (log ! i) = en_owner (log ! j)" and "en_holder (log ! i) = en_holder (log ! j)"
proof -
  have "en_owner (log ! i) = en_owner (log ! j) \<and> en_holder (log ! i) = en_holder (log ! j)"
  proof (cases "i \<le> j")
    case True
    then show ?thesis using log_epochs [OF log True assms(3)] assms(4-6) by auto
  next
    case False
    then show ?thesis using log_epochs [OF log, of j i] assms by auto
  qed
  then show "en_owner (log ! i) = en_owner (log ! j)" "en_holder (log ! i) = en_holder (log ! j)" by blast+
qed

section \<open>Fence tokens\<close>

lemma current_fields:
  assumes "store_inv s" and "log_ok delta now (sy_log s)" and "coord (sv_lease (sy_store s)) = Inr a"
  shows "co_holder_identity a = en_holder (last (sy_log s))" and "co_fence_token a = en_token (last (sy_log s))"
proof -
  have ne: "sy_log s \<noteq> []" and hd: "hd (sy_log s) = no_entry" using assms(2) by (simp_all add: log_ok_def)
  have "co_holder_identity a = en_holder (last (sy_log s)) \<and> co_fence_token a = en_token (last (sy_log s))"
  proof (cases "sv_lease (sy_store s)")
    case None
    then have "length (sy_log s) = 1" using assms(1) by (simp add: store_inv_def)
    then have "sy_log s = [no_entry]" using hd by (cases "sy_log s") simp_all
    with None assms(3) show ?thesis by (auto simp: coord_def no_entry_def)
  next
    case (Some l)
    then have f: "fits (sy_log s) l (length (sy_log s) - 1)" using assms(1) by (simp add: store_inv_def)
    have "lease_coordination_state l NANOS = Inr a" using Some assms(3) by (simp add: coord_def)
    from fits_read [OF f this] ne show ?thesis by (simp add: last_conv_nth)
  qed
  then show "co_holder_identity a = en_holder (last (sy_log s))" "co_fence_token a = en_token (last (sy_log s))" by blast+
qed

lemma token_steps:
  assumes inv: "lease_inv lib delta s" and inv': "lease_inv lib delta s'" and x: "extends s s'"
    and a: "coord (sv_lease (sy_store s)) = Inr a" and b: "coord (sv_lease (sy_store s')) = Inr b"
  shows "unat (co_fence_token a) \<le> unat (co_fence_token b)"
    and "co_fence_token b = co_fence_token a \<Longrightarrow> co_holder_identity b = co_holder_identity a \<or> co_holder_identity b = None"
proof -
  let ?i = "length (sy_log s) - 1" and ?j = "length (sy_log s') - 1"
  have ne: "sy_log s \<noteq> []" "sy_log s' \<noteq> []" using invD(1) inv inv' unfolding log_ok_def by blast+
  then have ij: "?i < length (sy_log s)" "?j < length (sy_log s')" "?i \<le> ?j" using x by (auto simp: extends_def)
  have "sy_log s' ! ?i = last (sy_log s)" "sy_log s' ! ?j = last (sy_log s')"
    using extends_nth [OF x ij(1)] ne by (simp_all add: last_conv_nth)
  note eqs = this current_fields [OF invD(2,1) [OF inv] a] current_fields [OF invD(2,1) [OF inv'] b]
  note e = log_epochs [OF invD(1) [OF inv'] ij(3,2)]
  show "unat (co_fence_token a) \<le> unat (co_fence_token b)" using e eqs by simp
  show "co_holder_identity b = co_holder_identity a \<or> co_holder_identity b = None" if "co_fence_token b = co_fence_token a"
  proof (cases "?i = ?j")
    case False
    then show ?thesis using e eqs that ij(3) by auto
  qed (use eqs in simp)
qed

section \<open>The anchor\<close>

definition in_flight :: "lease_system \<Rightarrow> (nat \<times> lease_request) set" where
  "in_flight s = sy_late s \<union> {y. \<exists>t x. sy_tasks s t = Some x \<and> y \<in> pending x}"

lemma in_flight_legal: "lease_inv lib delta s \<Longrightarrow> y \<in> in_flight s \<Longrightarrow> legal lib delta s y"
  by (auto simp: in_flight_def dest: invD(6) pending_legal)

lemma step_store:
  assumes "lease_step lib api delta s s'"
  shows "sy_store s' = sy_store s \<or> (\<exists>p q r. (p, q) \<in> in_flight s \<and> api (sy_store s) q r (sy_store s'))"
  using assms
proof cases
  case (guard_call t p m q k r store)
  then have "(p, q) \<in> in_flight s" unfolding in_flight_def by fastforce
  with guard_call show ?thesis by auto
next
  case (anchor_call t p f q k r store)
  then have "(p, q) \<in> in_flight s" unfolding in_flight_def by fastforce
  with anchor_call show ?thesis by auto
qed (auto simp: in_flight_def crashed_def)

lemma holds_claim_read:
  assumes "lease_holds_claim c claim = Inr True"
  obtains a where "lease_coordination_state c NANOS = Inr a" and "co_holder_identity a = Some (fc_holder_identity claim)"
    and "co_fence_token a = fc_token claim"
  using assms by (auto simp: lease_holds_claim_def bindE_eq_Inr)

text \<open>The process whose claim an update of the anchor carries owns the current epoch.\<close>

lemma authorised_current:
  assumes inv: "lease_inv lib delta s" and l: "sv_lease (sy_store s) = Some c" and a: "authorised f c"
    and f: "\<forall>claim. f = Some claim \<longrightarrow> owns s p claim"
  shows "\<not> lease_has_writer_coordination c \<or> en_holder (last (sy_log s)) \<noteq> None \<and> en_owner (last (sy_log s)) = p"
proof (cases f)
  case (Some claim)
  note log = invD(1) [OF inv]
  obtain b where b: "lease_coordination_state c NANOS = Inr b" "co_holder_identity b = Some (fc_holder_identity claim)"
    "co_fence_token b = fc_token claim"
    using a Some holds_claim_read [of c claim] by auto
  then have "coord (sv_lease (sy_store s)) = Inr b" using l by (simp add: coord_def)
  note cur = current_fields [OF invD(2) [OF inv] log this]
  obtain n where n: "n < length (sy_log s)" "en_owner (sy_log s ! n) = p" "en_holder (sy_log s ! n) \<noteq> None"
    "en_token (sy_log s ! n) = fc_token claim"
    using f Some by (auto simp: owns_def)
  have ne: "sy_log s \<noteq> []" using log by (simp add: log_ok_def)
  then have j: "length (sy_log s) - 1 < length (sy_log s)" by simp
  have h: "en_holder (sy_log s ! (length (sy_log s) - 1)) = Some (fc_holder_identity claim)"
    "en_token (sy_log s ! (length (sy_log s) - 1)) = fc_token claim"
    using cur b ne by (simp_all add: last_conv_nth)
  have "en_owner (sy_log s ! (length (sy_log s) - 1)) = p" using same_epoch(1) [OF log n(1) j] n(2,3,4) h by simp
  with h(1) ne show ?thesis by (simp add: last_conv_nth)
qed (use a in simp)

lemma has_v2_read: "v3_anchor_state_from_lease_optional lib c = Inr x \<Longrightarrow> \<not> has_v2_key (annotations_or_empty c)"
  by (cases "annotations c")
    (simp_all add: v3_anchor_state_from_lease_optional_def annotations_or_empty_def has_v2_key_def bt_keys_def split: if_splits)

lemma anchor_reply:
  assumes inv: "lease_inv lib delta s" and hex: "hex_law lib" and y: "(p, q) \<in> in_flight s"
    and reply: "documented_reply (sy_store s) q r store"
    and changed: "anchor_of lib (sv_lease store) \<noteq> anchor_of lib (sv_lease (sy_store s))"
  obtains current "next" where "anchor_of lib (sv_lease (sy_store s)) = Inr current"
    and "anchor_of lib (sv_lease store) = Inr (Some next)" and "\<not> stale_advance current current next"
    and "case sv_lease (sy_store s) of None \<Rightarrow> True | Some c \<Rightarrow>
      \<not> lease_has_writer_coordination c \<or> en_holder (last (sy_log s)) \<noteq> None \<and> en_owner (last (sy_log s)) = p"
proof -
  note st = invD(2) [OF inv] and log = invD(1) [OF inv]
  have legal: "legal lib delta s (p, q)" using in_flight_legal [OF inv y] .
  have "store \<noteq> sy_store s" using changed by blast
  then obtain l l' where w: "accepts (sy_store s) q" "body_of q = Some l" "stores l l' (sy_store s) store"
    using reply by (auto simp: documented_reply_def)
  then have new: "anchor_of lib (sv_lease store) = v3_anchor_state_from_lease_optional lib l"
    by (auto simp: stores_def anchor_of_def)
  have "\<not> renewing lib delta s p q" using renewing_write [OF st log _ w(1,2)] new changed by metis
  then have keep: "keeping lib s p q" using legal by (simp add: legal_def)
  show thesis
  proof (cases q)
    case (CreateLease ns k)
    then have "sv_lease (sy_store s) = None" "k = l" using w by simp_all
    moreover from this keep CreateLease obtain name "next" where "anchor_typed next" "l = new_v3_lease lib name next" by auto
    moreover from this have "v3_anchor_state_from_lease_optional lib l = Inr (Some next)"
      unfolding new_v3_lease_def using anchor_state_roundtrip(2) [OF _ hex, of "next" "named_lease name"]
      by (simp add: has_v2_key_def bt_keys_def)
    ultimately show thesis using that [of None "next"] new by (simp add: anchor_of_def stale_advance_def)
  next
    case (ReplaceLease ns m k)
    then obtain c0 where c0: "sv_lease (sy_store s) = Some c0" "resource_version l = None \<or> resource_version l = resource_version c0" and k: "k = l"
      using w by auto
    from keep obtain c f where c: "known s c" "\<forall>claim. f = Some claim \<longrightarrow> owns s p claim"
      "advances lib f c l \<or> authorised f c \<and> l = bump_anchor_fence c" unfolding ReplaceLease k by auto
    have rv: "resource_version l = resource_version c" using c(3) by (auto simp: advances_def anchor_state_fields bump_fields)
    have [simp]: "c0 = c" using current_base(1) [OF st c0(1) c(1) rv c0(2)] .
    have "l \<noteq> bump_anchor_fence c" using changed c0(1) new by (auto simp: anchor_of_def bump_fields)
    with c(3) obtain current "next" where adv: "authorised f c" "v3_anchor_state_from_lease_optional lib c = Inr current"
      "anchor_typed next" "\<not> stale_advance current current next" "l = v3_lease_with_state lib c next"
      by (auto simp: advances_def)
    have "v3_anchor_state_from_lease_optional lib l = Inr (Some next)"
      using anchor_state_roundtrip(2) [OF adv(3) hex has_v2_read [OF adv(2)]] adv(5) by simp
    then show thesis using that [of current "next"] adv(2,4) c0(1) new authorised_current [OF inv c0(1) _ c(2)] adv(1)
      by (simp add: anchor_of_def)
  qed (use w in simp)
qed

lemma anchor_steps:
  assumes "(lease_step lib api delta)\<^sup>*\<^sup>* s s'" and law: "lease_api_law api" and hex: "hex_law lib" and inv: "lease_inv lib delta s"
    and x: "anchor_of lib (sv_lease (sy_store s)) = Inr (Some x)"
  shows "\<exists>y. anchor_of lib (sv_lease (sy_store s')) = Inr (Some y) \<and> (y = x \<or> an_sequence x < an_sequence y)"
  using assms(1)
proof induction
  case (step t u)
  then obtain y where y: "anchor_of lib (sv_lease (sy_store t)) = Inr (Some y)" "y = x \<or> an_sequence x < an_sequence y" by blast
  have inv_t: "lease_inv lib delta t" using steps_inv(1) [OF step(1) law inv] .
  show ?case
  proof (cases "anchor_of lib (sv_lease (sy_store u)) = anchor_of lib (sv_lease (sy_store t))")
    case False
    then obtain p q r where q: "(p, q) \<in> in_flight t" "api (sy_store t) q r (sy_store u)" using step_store [OF step(2)] by auto
    then have "documented_reply (sy_store t) q r (sy_store u)" using law by (simp add: lease_api_law_def)
    from anchor_reply [OF inv_t hex q(1) this False] y(1) obtain z where
      z: "anchor_of lib (sv_lease (sy_store u)) = Inr (Some z)" "\<not> stale_advance (Some y) (Some y) z" by auto
    then have "z = y \<or> an_sequence y < an_sequence z" by (auto simp: stale_advance_def)
    with y(2) z(1) show ?thesis by auto
  qed (use y in simp)
qed (use x in simp)

section \<open>Requests that are too late\<close>

text \<open>A write never brings an old version back.\<close>

lemma old_version_stays:
  assumes "(lease_step lib api delta)\<^sup>*\<^sup>* s s'" and law: "lease_api_law api"
    and old: "sv_versions (sy_store s) v \<noteq> None" and "\<forall>c. sv_lease (sy_store s) = Some c \<longrightarrow> resource_version c \<noteq> Some v"
  shows "sv_versions (sy_store s') v \<noteq> None \<and> (\<forall>c. sv_lease (sy_store s') = Some c \<longrightarrow> resource_version c \<noteq> Some v)"
  using assms(1)
proof induction
  case (step t u)
  show ?case
  proof (cases "sy_store u = sy_store t")
    case False
    then obtain q r where "api (sy_store t) q r (sy_store u)" using step_store [OF step(2)] by auto
    then have "documented_reply (sy_store t) q r (sy_store u)" using law by (simp add: lease_api_law_def)
    with False obtain l l' where "stores l l' (sy_store t) (sy_store u)" by (auto simp: documented_reply_def)
    then show ?thesis using step.IH by (auto simp: stores_def)
  qed (use step.IH in simp)
qed (use assms in simp)

lemma stale_request:
  assumes "(lease_step lib api delta)\<^sup>*\<^sup>* s s'" and law: "lease_api_law api" and inv: "lease_inv lib delta s"
    and q: "(p, ReplaceLease ns n l) \<in> in_flight s" and c: "sv_lease (sy_store s) = Some c" and "resource_version l \<noteq> resource_version c"
  shows "\<not> accepts (sy_store s') (ReplaceLease ns n l)"
proof -
  have "legal lib delta s (p, ReplaceLease ns n l)" using in_flight_legal [OF inv q] .
  then have "renewing lib delta s p (ReplaceLease ns n l) \<or> keeping lib s p (ReplaceLease ns n l)" by (simp add: legal_def)
  then obtain b where b: "known s b" "resource_version l = resource_version b"
    using keeping_base [of lib s p ns n l] unfolding renewing.simps by blast
  then obtain v where v: "resource_version l = Some v" "sv_versions (sy_store s) v \<noteq> None" by (auto simp: known_def)
  from old_version_stays [OF assms(1) law v(2)] v(1) c assms(6) show ?thesis by auto
qed

end
