(* ===== verification/LeaseRuns.thy ===== *)
theory LeaseRuns
  imports LeaseSafety
begin

text \<open>
  The waiting loops of the guard, and uncontended runs of the programs: an API that answers every
  request (a parameter, \<open>serves\<close> states what it does) and no other client in between. These runs
  show that the programs make progress: they acquire, renew, release, take over an abandoned
  lease and advance the anchor.
\<close>

section \<open>Waiting for the lease\<close>

primrec bind_io :: "'a lease_io \<Rightarrow> ('a \<Rightarrow> 'b lease_io) \<Rightarrow> 'b lease_io" where
  "bind_io (Return a) f = f a"
| "bind_io (Call q k) f = Call q (\<lambda>r. bind_io (k r) f)"
| "bind_io (LiveClaim k) f = LiveClaim (\<lambda>c. bind_io (k c) f)"

text \<open>
  The loops poll for ever; here they run for a given sequence of clock readings (wall and
  monotonic), one for every poll, and have not returned when the readings are used up.
\<close>

primrec acquire_unless_live_writer ::
  "(Timestamp \<times> Duration) list \<Rightarrow> LeaseGuard \<Rightarrow> (LeaseGuard \<times> (LeaseGuardError + LeaseGuardState) option) lease_io" where
  "acquire_unless_live_writer [] g = Return (g, None)"
| "acquire_unless_live_writer (reading # readings) g =
     bind_io (acquire_at g (fst reading) (snd reading)) (\<lambda>(g, result).
       if result = Inl HeldByOther then acquire_unless_live_writer readings g else Return (g, Some result))"

primrec acquire ::
  "(Timestamp \<times> Duration) list \<Rightarrow> LeaseGuard \<Rightarrow> (LeaseGuard \<times> (LeaseGuardError + LeaseGuardState) option) lease_io" where
  "acquire [] g = Return (g, None)"
| "acquire (reading # readings) g =
     bind_io (acquire_at g (fst reading) (snd reading)) (\<lambda>(g, result).
       if result = Inl HeldByOther \<or> result = Inl HeldByLiveWriter then acquire readings g else Return (g, Some result))"

text \<open>The fence of a guard, as the maintenance guard of the repository.\<close>

definition is_live :: "LeaseGuard \<Rightarrow> WriterFenceClaim \<Rightarrow> Duration \<Rightarrow> bool" where
  "is_live g claim now \<longleftrightarrow> live_claim_at g claim now \<noteq> None"

definition verify_v3_maintenance :: "LeaseGuard \<Rightarrow> WriterFenceClaim \<Rightarrow> Duration \<Rightarrow> unit v3_result" where
  "verify_v3_maintenance g claim now = (if is_live g claim now then Inr () else Inl MaintenanceAccessRequired)"

definition read_v3 :: "crypto_lib \<Rightarrow> LeaseSettings \<Rightarrow> V3AnchorState option v3_result lease_io" where
  "read_v3 lib settings = get_lease settings (\<lambda>got. case got of
     Inr (Some lease) \<Rightarrow> Return (v3_anchor_state_from_lease_optional lib lease)
   | Inr None \<Rightarrow> Return (Inr None)
   | Inl _ \<Rightarrow> Return (Inl AnchorReadFailed))"

section \<open>Uncontended runs\<close>

type_synonym lease_server = "Lease option \<Rightarrow> lease_request \<Rightarrow> lease_reply \<times> Lease option"

definition serves :: "lease_server \<Rightarrow> bool" where
  "serves srv \<longleftrightarrow>
     (\<forall>st ns n. srv st (GetLease ns n) = (Found st, st)) \<and>
     (\<forall>ns l. \<exists>v. srv None (CreateLease ns l) = (Stored (with_version v l), Some (with_version v l))) \<and>
     (\<forall>c ns n l. resource_version l = resource_version c \<longrightarrow>
        (\<exists>v. srv (Some c) (ReplaceLease ns n l) = (Stored (with_version v l), Some (with_version v l))))"

text \<open>The claim is the one that the fence reports live throughout the run.\<close>

primrec exec :: "lease_server \<Rightarrow> WriterFenceClaim option \<Rightarrow> 'r lease_io \<Rightarrow> Lease option \<Rightarrow> 'r \<times> Lease option" where
  "exec srv lc (Return r) = (\<lambda>st. (r, st))"
| "exec srv lc (Call q k) = (\<lambda>st. case srv st q of (r, st') \<Rightarrow> exec srv lc (k r) st')"
| "exec srv lc (LiveClaim k) = exec srv lc (k lc)"

lemma exec_bind: "exec srv lc (bind_io io f) st = (case exec srv lc io st of (a, st') \<Rightarrow> exec srv lc (f a) st')"
  by (induction io arbitrary: st) (auto split: prod.split)

lemma exec_get: "serves srv \<Longrightarrow> exec srv lc (get_lease s k) st = exec srv lc (k (Inr st)) st"
  by (simp add: get_lease_def serves_def)

lemma exec_create:
  assumes "serves srv"
  shows "\<exists>v. \<forall>k. exec srv lc (create_lease s l k) None = exec srv lc (k (Inr (with_version v l))) (Some (with_version v l))"
proof -
  obtain v where "srv None (CreateLease (st_namespace s) l) = (Stored (with_version v l), Some (with_version v l))"
    using assms unfolding serves_def by blast
  then show ?thesis by (intro exI [of _ v]) (simp add: create_lease_def)
qed

lemma exec_replace:
  assumes "serves srv" and "resource_version l = resource_version c"
  shows "\<exists>v. \<forall>k. exec srv lc (replace_lease s l k) (Some c) = exec srv lc (k (Inr (with_version v l))) (Some (with_version v l))"
proof -
  obtain v where "srv (Some c) (ReplaceLease (st_namespace s) (st_name s) l) = (Stored (with_version v l), Some (with_version v l))"
    using assms unfolding serves_def by blast
  then show ?thesis by (intro exI [of _ v]) (simp add: replace_lease_def)
qed

section \<open>Writes of the guard succeed\<close>

definition transitions_left :: "Lease \<Rightarrow> str \<Rightarrow> bool" where
  "transitions_left c h \<longleftrightarrow> (case le_spec c of None \<Rightarrow> True | Some spec \<Rightarrow>
     sp_holder_identity spec = None \<or> sp_holder_identity spec = Some h \<or>
     (case sp_lease_transitions spec of None \<Rightarrow> True | Some n \<Rightarrow> sint n < 2 ^ 31 - 1))"

lemma guard_state_succeeds:
  assumes "duration_seconds_i32 dur = Inr secs" and "own \<longrightarrow> transitions_left c (fc_holder_identity claim)"
  shows "\<exists>l. lease_with_guard_state c claim renewal dur wall own = Inr l"
proof -
  define spec where "spec = (case le_spec c of None \<Rightarrow> LeaseSpec_default | Some spec \<Rightarrow> spec)"
  have "\<exists>spec'. (if own \<and> sp_holder_identity spec \<noteq> Some (fc_holder_identity claim) then
      (let transitions = (case sp_lease_transitions spec of None \<Rightarrow> 0 | Some n \<Rightarrow> n) in
       bindE (if sp_holder_identity spec \<noteq> None then ok_or InvalidLease (checked_succ_i32 transitions) else Inr transitions) (\<lambda>transitions.
       Inr (spec\<lparr>sp_lease_transitions := Some transitions, sp_acquire_time := Some wall\<rparr>)))
    else Inr spec) = Inr spec'"
    using assms(2) unfolding spec_def
    by (cases "le_spec c") (auto simp: transitions_left_def LeaseSpec_default_def checked_succ_i32_def ok_or_def split: option.splits)
  then show ?thesis using assms(1) by (auto simp: lease_with_guard_state_def Let_def spec_def bindE_eq_Inr)
qed

lemma with_version_state [simp]: "lease_state_from_spec (with_version v l) = lease_state_from_spec l"
  by (simp add: lease_state_from_spec_def)

lemma with_version_holds [simp]: "lease_holds_claim (with_version v l) claim = lease_holds_claim l claim"
  by (simp add: lease_holds_claim_def)

definition holding :: "LeaseGuard \<Rightarrow> WriterFenceClaim \<Rightarrow> Duration \<Rightarrow> LeaseGuard" where
  "holding g claim m = g\<lparr>lg_local_state := \<lparr>lf_claim = Some claim, lf_last_success = Some m, lf_active = True\<rparr>, lg_observation := None\<rparr>"

lemma holding_simps [simp]:
  "lg_settings (holding g claim m) = lg_settings g" "lg_holder_identity (holding g claim m) = lg_holder_identity g"
  "lg_lease_duration (holding g claim m) = lg_lease_duration g" "lg_observation (holding g claim m) = None"
  "current_claim (holding g claim m) = Inr claim" "holding (holding g claim m) claim' m' = holding g claim' m'"
  by (simp_all add: holding_def current_claim_def)

lemma holding_live: "live_claim_at (holding g claim m) claim t = (if t - m < lg_lease_duration g then Some claim else None)"
  by (auto simp: holding_def live_claim_at_def)

text \<open>The lease after a write of the guard, and what the guard makes of it.\<close>

lemma guard_write:
  assumes "lease_with_guard_state c claim renewal dur wall own = Inr l"
  obtains secs gs where "duration_seconds_i32 dur = Inr secs"
    and "\<And>d. lease_coordination_state l d = Inr (coordination claim renewal dur secs)"
    and "resource_version l = resource_version c"
    and "\<And>lib. v3_anchor_state_from_lease_optional lib l = v3_anchor_state_from_lease_optional lib c"
    and "\<And>v g m. record_success g (with_version v l) claim m = (holding g claim m, Inr gs)"
    and "gs_holder_identity gs = fc_holder_identity claim" and "gs_fence_token gs = fc_token claim" and "gs_renewal gs = renewal"
proof -
  obtain secs where s: "duration_seconds_i32 dur = Inr secs" "\<forall>d. lease_coordination_state l d = Inr (coordination claim renewal dur secs)"
    "resource_version l = resource_version c" "\<forall>lib. v3_anchor_state_from_lease_optional lib l = v3_anchor_state_from_lease_optional lib c"
    "Option.bind (le_spec l) sp_renew_time = Some wall"
    by (rule guard_state_fields [OF assms]) blast
  then obtain spec where "le_spec l = Some spec" "sp_renew_time spec = Some wall" by (cases "le_spec l") auto
  then have "lease_state_from_spec l = Inr \<lparr>gs_holder_identity = fc_holder_identity claim, gs_fence_token = fc_token claim,
      gs_renewal = renewal, gs_lease_duration_seconds = secs, gs_renew_time = wall\<rparr>" (is "_ = Inr ?gs")
    using s(2) by (simp add: lease_state_from_spec_def coordination_def)
  then have "record_success g (with_version v l) claim m = (holding g claim m, Inr ?gs)" for v g m
    by (simp add: record_success_def holding_def)
  with s show thesis using that [of secs ?gs] by simp
qed

section \<open>Single operations\<close>

text \<open>The lease that a guard leaves: its claim, a renewal counter and its duration; the anchor is the one before.\<close>

definition left_by :: "Lease option \<Rightarrow> LeaseGuard \<Rightarrow> WriterFenceClaim \<Rightarrow> u64 \<Rightarrow> Lease \<Rightarrow> bool" where
  "left_by st g claim renewal l \<longleftrightarrow>
     (\<exists>secs. \<forall>d. lease_coordination_state l d = Inr (coordination claim renewal (lg_lease_duration g) secs)) \<and>
     (\<exists>secs. duration_seconds_i32 (lg_lease_duration g) = Inr secs) \<and>
     (\<forall>lib. v3_anchor_state_from_lease_optional lib l = anchor_of lib st)"

lemma attempts: "MAX_UPDATE_ATTEMPTS = Suc 15" "MAX_ADVANCE_ATTEMPTS = Suc 15"
  by (simp_all add: MAX_UPDATE_ATTEMPTS_def MAX_ADVANCE_ATTEMPTS_def)

lemma acquire_allowed:
  assumes srv: "serves srv" and a: "lease_coordination_state c (lg_lease_duration g) = Inr a"
    and may: "may_take_ownership g a m = (Allowed, g)" and dur: "duration_seconds_i32 (lg_lease_duration g) = Inr secs"
    and tr: "transitions_left c (lg_holder_identity g)"
    and token: "checked_add (co_fence_token a) 1 = Some token" and renewal: "checked_add (co_renewal a) 1 = Some renewal"
  shows "\<exists>gs l. exec srv lc (acquire_at g wall m) (Some c) =
      ((holding g \<lparr>fc_holder_identity = lg_holder_identity g, fc_token = token\<rparr> m, Inr gs), Some l) \<and>
    left_by (Some c) g \<lparr>fc_holder_identity = lg_holder_identity g, fc_token = token\<rparr> renewal l"
proof -
  let ?claim = "\<lparr>fc_holder_identity = lg_holder_identity g, fc_token = token\<rparr>"
  obtain l where l: "lease_with_guard_state c ?claim renewal (lg_lease_duration g) wall True = Inr l"
    using guard_state_succeeds [OF dur, of True c ?claim] tr by auto
  obtain secs gs where w: "\<forall>d. lease_coordination_state l d = Inr (coordination ?claim renewal (lg_lease_duration g) secs)"
    "resource_version l = resource_version c" "\<forall>lib. v3_anchor_state_from_lease_optional lib l = v3_anchor_state_from_lease_optional lib c"
    "\<forall>v g m. record_success g (with_version v l) ?claim m = (holding g ?claim m, Inr gs)"
    by (rule guard_write [OF l]) blast
  have u: "acquire_update g c a wall = Inr (?claim, l)" using token renewal l by (simp add: acquire_update_def Let_def)
  obtain v where v: "\<forall>k :: _ \<Rightarrow> (LeaseGuard \<times> (LeaseGuardError + LeaseGuardState)) lease_io. exec srv lc (replace_lease (lg_settings g) l k) (Some c) = exec srv lc (k (Inr (with_version v l))) (Some (with_version v l))"
    using exec_replace [OF srv w(2)] by blast
  have "exec srv lc (acquire_at g wall m) (Some c) = ((holding g ?claim m, Inr gs), Some (with_version v l))"
    unfolding acquire_at_def attempts acquire_loop.simps by (simp add: exec_get [OF srv] v a may u w(4))
  then show ?thesis using w(1,3) dur by (auto simp: left_by_def anchor_of_def)
qed

lemma acquire_absent:
  assumes srv: "serves srv" and dur: "duration_seconds_i32 (lg_lease_duration g) = Inr secs"
  shows "\<exists>gs l. exec srv lc (acquire_at g wall m) None =
      ((holding g \<lparr>fc_holder_identity = lg_holder_identity g, fc_token = 1\<rparr> m, Inr gs), Some l) \<and>
    left_by None g \<lparr>fc_holder_identity = lg_holder_identity g, fc_token = 1\<rparr> 1 l \<and> (\<forall>h. transitions_left l h)"
proof -
  let ?claim = "\<lparr>fc_holder_identity = lg_holder_identity g, fc_token = 1\<rparr>"
  let ?c = "named_lease (st_name (lg_settings g))"
  have "transitions_left ?c (lg_holder_identity g)" by (simp add: transitions_left_def)
  then obtain l where l: "lease_with_guard_state ?c ?claim 1 (lg_lease_duration g) wall True = Inr l"
    using guard_state_succeeds [OF dur, of True ?c ?claim] by auto
  obtain secs gs where w: "\<forall>d. lease_coordination_state l d = Inr (coordination ?claim 1 (lg_lease_duration g) secs)"
    "\<forall>lib. v3_anchor_state_from_lease_optional lib l = v3_anchor_state_from_lease_optional lib ?c"
    "\<forall>v g m. record_success g (with_version v l) ?claim m = (holding g ?claim m, Inr gs)"
    by (rule guard_write [OF l]) blast
  obtain v where v: "\<forall>k :: _ \<Rightarrow> (LeaseGuard \<times> (LeaseGuardError + LeaseGuardState)) lease_io. exec srv lc (create_lease (lg_settings g) l k) None = exec srv lc (k (Inr (with_version v l))) (Some (with_version v l))"
    using exec_create [OF srv] by blast
  have "exec srv lc (acquire_at g wall m) None = ((holding g ?claim m, Inr gs), Some (with_version v l))"
    unfolding acquire_at_def attempts acquire_loop.simps Let_def new_guard_lease_def by (simp add: exec_get [OF srv] v l w(3))
  moreover have "v3_anchor_state_from_lease_optional lib ?c = Inr None" for lib
    by (simp add: v3_anchor_state_from_lease_optional_def named_lease_def)
  moreover have "transitions_left (with_version v l) h" for h
    using l by (auto simp: lease_with_guard_state_def Let_def bindE_eq_Inr transitions_left_def LeaseSpec_default_def)
  ultimately show ?thesis using w(1,2) dur by (auto simp: left_by_def anchor_of_def)
qed

lemma counter_steps:
  assumes "unat (token :: u64) + 1 < 2 ^ 64" and "unat (renewal :: u64) + 3 < 2 ^ 64"
  shows "checked_add token 1 = Some (token + 1)" "checked_add renewal 1 = Some (renewal + 1)"
    "checked_add (renewal + 1) 1 = Some (renewal + 2)" "checked_add (renewal + 2) 1 = Some (renewal + 3)" "token + 1 \<noteq> 0"
proof -
  have u: "unat (token + 1) = unat token + 1" "unat (renewal + 1) = unat renewal + 1" "unat (renewal + 2) = unat renewal + 2"
    using assms by (simp_all add: unat_word_ariths)
  have e: "renewal + 1 + 1 = renewal + 2" "renewal + 2 + 1 = renewal + 3" by (simp_all add: add.assoc)
  show "checked_add token 1 = Some (token + 1)" "checked_add renewal 1 = Some (renewal + 1)"
    "checked_add (renewal + 1) 1 = Some (renewal + 2)" "checked_add (renewal + 2) 1 = Some (renewal + 3)"
    using assms u unfolding checked_add_def e by simp_all
  show "token + 1 \<noteq> 0" using u(1) by (metis Suc_eq_plus1 nat.distinct(1) unat_0)
qed

text \<open>A lease that is absent or has no holder can be acquired at once.\<close>

lemma acquire_free:
  assumes srv: "serves srv" and dur: "duration_seconds_i32 (lg_lease_duration g) = Inr secs"
    and st: "case st of None \<Rightarrow> token = 0 \<and> renewal = 0
      | Some c \<Rightarrow> \<exists>a. lease_coordination_state c (lg_lease_duration g) = Inr a \<and> co_holder_identity a = None \<and>
          co_fence_token a = token \<and> co_renewal a = renewal"
    and adds: "checked_add token 1 = Some token'" "checked_add renewal 1 = Some renewal'"
  shows "\<exists>gs l. exec srv lc (acquire_at g wall m) st =
      ((holding g \<lparr>fc_holder_identity = lg_holder_identity g, fc_token = token'\<rparr> m, Inr gs), Some l) \<and>
    left_by st g \<lparr>fc_holder_identity = lg_holder_identity g, fc_token = token'\<rparr> renewal' l"
proof (cases st)
  case None
  then have "token' = 1" "renewal' = 1" using st adds by (auto simp: checked_add_def)
  with None show ?thesis using acquire_absent [OF srv dur, of lc wall m] by auto
next
  case (Some c)
  then obtain a where a: "lease_coordination_state c (lg_lease_duration g) = Inr a" "co_holder_identity a = None"
    "co_fence_token a = token" "co_renewal a = renewal" using st by auto
  have may: "may_take_ownership g a m = (Allowed, g)" using a(2) by (simp add: may_take_ownership_def observation_def)
  have "Option.bind (le_spec c) sp_holder_identity = None" using a(1,2) by (auto simp: lease_coordination_state_def bindE_eq_Inr)
  then have "transitions_left c (lg_holder_identity g)" by (cases "le_spec c") (simp_all add: transitions_left_def)
  from acquire_allowed [OF srv a(1) may dur this] a(3,4) adds Some show ?thesis by simp
qed

lemma renew_held:
  assumes srv: "serves srv" and g: "current_claim g = Inr claim" and l: "left_by st g claim renewal c" and dur: "duration_seconds_i32 (lg_lease_duration g) = Inr secs"
    and renewal: "checked_add renewal 1 = Some renewal'"
  shows "\<exists>gs l. exec srv lc (renew_at g wall m) (Some c) = ((holding g claim m, Inr gs), Some l) \<and> left_by (Some c) g claim renewal' l"
proof -
  obtain a where a: "lease_coordination_state c (lg_lease_duration g) = Inr a" "co_holder_identity a = Some (fc_holder_identity claim)"
    "co_fence_token a = fc_token claim" "co_renewal a = renewal"
    using l by (auto simp: left_by_def coordination_def)
  obtain l where l: "lease_with_guard_state c claim renewal' (lg_lease_duration g) wall False = Inr l"
    using guard_state_succeeds [OF dur, of False c claim] by auto
  obtain secs gs where w: "\<forall>d. lease_coordination_state l d = Inr (coordination claim renewal' (lg_lease_duration g) secs)"
    "resource_version l = resource_version c" "\<forall>lib. v3_anchor_state_from_lease_optional lib l = v3_anchor_state_from_lease_optional lib c"
    "\<forall>v g m. record_success g (with_version v l) claim m = (holding g claim m, Inr gs)"
    by (rule guard_write [OF l]) blast
  obtain v where v: "\<forall>k :: _ \<Rightarrow> (LeaseGuard \<times> (LeaseGuardError + LeaseGuardState)) lease_io. exec srv lc (replace_lease (lg_settings g) l k) (Some c) = exec srv lc (k (Inr (with_version v l))) (Some (with_version v l))"
    using exec_replace [OF srv w(2)] by blast
  have "exec srv lc (renew_at g wall m) (Some c) = ((holding g claim m, Inr gs), Some (with_version v l))"
    unfolding renew_at_def attempts renew_loop.simps by (simp add: exec_get [OF srv] v a g renewal l w(4))
  then show ?thesis using w(1,3) dur by (auto simp: left_by_def anchor_of_def)
qed

lemma released_state_succeeds:
  assumes "lease_coordination_state c d = Inr a" and "co_holder_identity a \<noteq> None" and "co_fence_token a \<noteq> 0"
  shows "\<exists>l. lease_with_released_state c renewal wall = Inr l"
proof -
  have f: "parse_counter_annotation (annotations c) WRITER_FENCE_ANNOTATION = Inr (co_fence_token a)"
    and h: "Option.bind (le_spec c) sp_holder_identity = co_holder_identity a"
    using assms(1) by (auto simp: lease_coordination_state_def bindE_eq_Inr)
  obtain m where m: "annotations c = Some m" "bt_get m WRITER_FENCE_ANNOTATION \<noteq> None"
    using f assms(3) by (cases "annotations c") (auto simp: parse_counter_annotation_def split: option.splits)
  obtain spec where "le_spec c = Some spec" using h assms(2) by (cases "le_spec c") auto
  with m show ?thesis by (simp add: lease_with_released_state_def)
qed

lemma release_held:
  assumes srv: "serves srv" and g: "current_claim g = Inr claim" and l: "left_by st g claim renewal c" and token: "fc_token claim \<noteq> 0"
    and renewal: "checked_add renewal 1 = Some renewal'"
  shows "\<exists>l a. exec srv lc (release_at g wall) (Some c) = ((deactivate g, Inr ()), Some l) \<and>
    lease_coordination_state l NANOS = Inr a \<and> co_holder_identity a = None \<and> co_fence_token a = fc_token claim \<and> co_renewal a = renewal' \<and>
    (\<forall>lib. v3_anchor_state_from_lease_optional lib l = anchor_of lib (Some c))"
proof -
  obtain a where a: "\<forall>d. lease_coordination_state c d = Inr a" "co_holder_identity a = Some (fc_holder_identity claim)"
    "co_fence_token a = fc_token claim" "co_renewal a = renewal"
    using l by (auto simp: left_by_def coordination_def)
  then have h: "lease_holds_claim c claim = Inr True" by (simp add: lease_holds_claim_def)
  obtain l where l: "lease_with_released_state c renewal' wall = Inr l"
    using released_state_succeeds [of c NANOS a renewal' wall] a token by auto
  note r = released_state_fields [OF l a(1) [rule_format, of NANOS]]
  obtain v where v: "\<forall>k :: _ \<Rightarrow> (LeaseGuard \<times> (LeaseGuardError + unit)) lease_io.
      exec srv lc (replace_lease (lg_settings g) l k) (Some c) = exec srv lc (k (Inr (with_version v l))) (Some (with_version v l))"
    using exec_replace [OF srv r(2)] by blast
  have "exec srv lc (release_at g wall) (Some c) = ((deactivate g, Inr ()), Some (with_version v l))"
    unfolding release_at_def attempts release_loop.simps by (simp add: exec_get [OF srv] v a g h renewal l)
  then show ?thesis using r a by (auto simp: anchor_of_def)
qed

section \<open>Taking over an abandoned lease\<close>

lemma acquire_observing:
  assumes srv: "serves srv" and a: "lease_coordination_state c (lg_lease_duration g) = Inr a"
    and may: "may_take_ownership g a m = (Observing, g')"
  shows "exec srv lc (acquire_at g wall m) (Some c) = ((g', Inl HeldByOther), Some c)"
  unfolding acquire_at_def attempts acquire_loop.simps by (simp add: exec_get [OF srv] a may)

lemma poll_observing:
  assumes srv: "serves srv" and a: "lease_coordination_state c (lg_lease_duration g) = Inr a" and r: "observation a = Some r"
    and g: "lg_observation g = Some \<lparr>oc_record = r, oc_observed_at = m0\<rparr>"
    and early: "\<forall>x \<in> set early. snd x - m0 < co_lease_duration a"
  shows "exec srv lc (acquire_unless_live_writer (early @ polls) g) (Some c) = exec srv lc (acquire_unless_live_writer polls g) (Some c)"
  using early
proof (induction early)
  case (Cons x early)
  have "may_take_ownership g a (snd x) = (Observing, g)" using Cons.prems r g by (simp add: may_take_ownership_def)
  from acquire_observing [OF srv a this] Cons show ?case by (simp add: exec_bind)
qed simp

text \<open>While the polls are within the lease duration of the first observation, the guard only waits.\<close>

lemma early_polls_wait:
  assumes srv: "serves srv" and a: "lease_coordination_state c (lg_lease_duration g) = Inr a" and r: "observation a = Some r"
    and g: "lg_observation g = None"
    and early: "\<forall>x \<in> set early. snd x - m0 < co_lease_duration a"
  shows "exec srv lc (acquire_unless_live_writer ((w0, m0) # early) g) (Some c) =
      ((g\<lparr>lg_observation := Some \<lparr>oc_record = r, oc_observed_at = m0\<rparr>\<rparr>, None), Some c)"
proof -
  let ?g = "g\<lparr>lg_observation := Some \<lparr>oc_record = r, oc_observed_at = m0\<rparr>\<rparr>"
  have "exec srv lc (acquire_at g w0 m0) (Some c) = ((?g, Inl HeldByOther), Some c)"
    using r g by (intro acquire_observing [OF srv a]) (simp add: may_take_ownership_def)
  moreover have "lease_coordination_state c (lg_lease_duration ?g) = Inr a" using a by simp
  from poll_observing [OF srv this r _ early, where polls = "[]"]
  have "exec srv lc (acquire_unless_live_writer early ?g) (Some c) = ((?g, None), Some c)" by simp
  ultimately show ?thesis by (simp add: exec_bind)
qed

lemma poll_takeover:
  assumes srv: "serves srv" and a: "lease_coordination_state c (lg_lease_duration g) = Inr a" and r: "observation a = Some r"
    and g: "lg_observation g = None" and dur: "duration_seconds_i32 (lg_lease_duration g) = Inr secs"
    and early: "\<forall>x \<in> set early. snd x - m0 < co_lease_duration a" and late: "co_lease_duration a \<le> m1 - m0"
    and tr: "transitions_left c (lg_holder_identity g)"
    and token: "checked_add (co_fence_token a) 1 = Some token" and renewal: "checked_add (co_renewal a) 1 = Some renewal"
  shows "\<exists>gs l. exec srv lc (acquire_unless_live_writer ((w0, m0) # early @ [(w1, m1)]) g) (Some c) =
      ((holding g \<lparr>fc_holder_identity = lg_holder_identity g, fc_token = token\<rparr> m1, Some (Inr gs)), Some l) \<and>
    left_by (Some c) g \<lparr>fc_holder_identity = lg_holder_identity g, fc_token = token\<rparr> renewal l"
proof -
  let ?g = "g\<lparr>lg_observation := Some \<lparr>oc_record = r, oc_observed_at = m0\<rparr>\<rparr>"
  let ?claim = "\<lparr>fc_holder_identity = lg_holder_identity g, fc_token = token\<rparr>"
  have first: "exec srv lc (acquire_at g w0 m0) (Some c) = ((?g, Inl HeldByOther), Some c)"
    using r g by (intro acquire_observing [OF srv a]) (simp add: may_take_ownership_def)
  have a': "lease_coordination_state c (lg_lease_duration ?g) = Inr a" using a by simp
  have "may_take_ownership ?g a m1 = (Allowed, ?g)" using r late by (simp add: may_take_ownership_def)
  from acquire_allowed [OF srv a' this _ _ token renewal, of secs lc w1] dur tr
  obtain gs l where last: "exec srv lc (acquire_at ?g w1 m1) (Some c) = ((holding ?g ?claim m1, Inr gs), Some l)"
    and l: "left_by (Some c) ?g ?claim renewal l" by auto
  have "holding ?g ?claim m1 = holding g ?claim m1" by (simp add: holding_def)
  then have "exec srv lc (acquire_unless_live_writer [(w1, m1)] ?g) (Some c) = ((holding g ?claim m1, Some (Inr gs)), Some l)"
    using last by (simp add: exec_bind)
  with poll_observing [OF srv a' r _ early, where polls = "[(w1, m1)]"] first
  have "exec srv lc (acquire_unless_live_writer ((w0, m0) # early @ [(w1, m1)]) g) (Some c) =
      ((holding g ?claim m1, Some (Inr gs)), Some l)" by (simp add: exec_bind)
  moreover have "left_by (Some c) g ?claim renewal l" using l by (simp add: left_by_def)
  ultimately show ?thesis by blast
qed

text \<open>Waiting also for live writers gives the same result when none was seen.\<close>

lemma acquire_same:
  "exec srv lc (acquire_unless_live_writer polls g) st = ((g', Some (Inr gs)), st') \<Longrightarrow>
   exec srv lc (acquire polls g) st = ((g', Some (Inr gs)), st')"
  by (induction polls arbitrary: g st) (auto simp: exec_bind split: prod.splits if_splits)

lemma acquire_same_waiting:
  "exec srv lc (acquire_unless_live_writer polls g) st = ((g', None), st') \<Longrightarrow>
   exec srv lc (acquire polls g) st = ((g', None), st')"
  by (induction polls arbitrary: g st) (auto simp: exec_bind split: prod.splits if_splits)

section \<open>Advancing the anchor\<close>

definition permitted :: "bool \<Rightarrow> WriterFenceClaim option \<Rightarrow> Lease option \<Rightarrow> bool" where
  "permitted fenced lc st \<longleftrightarrow> (case st of
     None \<Rightarrow> \<not> fenced
   | Some c \<Rightarrow> if fenced then (case lc of None \<Rightarrow> False | Some claim \<Rightarrow> lease_holds_claim c claim = Inr True)
       else \<not> lease_has_writer_coordination c)"

text \<open>The contract of a compare-and-set of the anchor.\<close>

definition advance_spec ::
  "V3AnchorState option v3_result \<Rightarrow> bool \<Rightarrow> V3AnchorState option \<Rightarrow> V3AnchorState \<Rightarrow> V3AnchorState v3_result" where
  "advance_spec stored allowed expected next = (case stored of
     Inl err \<Rightarrow> Inl err
   | Inr current \<Rightarrow>
       if expected \<noteq> current then Inl StaleAnchor
       else if \<exists>c. current = Some c \<and> next \<noteq> c \<and> an_sequence next \<le> an_sequence c then Inl StaleAnchor
       else if allowed then Inr next else Inl AnchorAdvanceFailed)"

lemma fence_permitted:
  "exec srv lc (validate_writer_fence c fenced k) st =
     exec srv lc (k (if permitted fenced lc (Some c) then Inr () else Inl AnchorAdvanceFailed)) st"
proof (cases fenced)
  case True
  have "check_live_claim c lc = (if permitted True lc (Some c) then Inr () else Inl AnchorAdvanceFailed)"
  proof (cases lc)
    case (Some claim)
    then show ?thesis
      by (cases "lease_holds_claim c claim") (auto simp: check_live_claim_def permitted_def map_err_def ensure_def)
  qed (simp add: check_live_claim_def permitted_def)
  with True show ?thesis by (simp add: validate_writer_fence_def)
qed (simp add: validate_writer_fence_def permitted_def)

lemma prepare_permitted:
  "exec srv lc (v3_lease_for_anchor_advance lib c next fenced k) st =
     exec srv lc (k (if permitted fenced lc (Some c) then Inr (v3_lease_with_state lib c next) else Inl AnchorAdvanceFailed)) st"
proof (cases "permitted fenced lc (Some c)")
  case True
  show ?thesis
  proof (cases fenced)
    case fenced: True
    then obtain claim where "lc = Some claim" "lease_holds_claim c claim = Inr True" using True by (auto simp: permitted_def split: option.splits)
    then have "v3_lease_with_fenced_state lib c next lc = Inr (v3_lease_with_state lib c next)"
      by (simp add: v3_lease_with_fenced_state_def v3_lease_with_claim_def map_err_def)
    with True fenced show ?thesis by (simp add: v3_lease_for_anchor_advance_def fence_permitted)
  qed (use True in \<open>simp add: v3_lease_for_anchor_advance_def fence_permitted\<close>)
qed (simp add: v3_lease_for_anchor_advance_def fence_permitted)

lemma advance_exec:
  assumes srv: "serves srv" and hex: "hex_law lib" and typed: "anchor_typed next"
  obtains st' where "exec srv lc (compare_and_advance_lease lib settings fenced expected next) st =
      (advance_spec (anchor_of lib st) (permitted fenced lc st) expected next, st')"
    and "case advance_spec (anchor_of lib st) (permitted fenced lc st) expected next of
      Inl err \<Rightarrow> st' = st
    | Inr _ \<Rightarrow> anchor_of lib st' = Inr (Some next) \<and> coord st' = coord st"
proof (cases st)
  case None
  define l where "l = new_v3_lease lib (st_name settings) next"
  have rt: "v3_anchor_state_from_lease lib l = Inr next" "v3_anchor_state_from_lease_optional lib l = Inr (Some next)"
    using anchor_state_roundtrip [OF typed hex, of "named_lease (st_name settings)"]
    by (simp_all add: l_def new_v3_lease_def has_v2_key_def bt_keys_def)
  have rv: "v3_anchor_state_from_lease lib (with_version v l) = Inr next" for v
    using rt(2) with_version_anchor [of lib v l]
    by (cases "annotations l") (auto simp: v3_anchor_state_from_lease_optional_def bindE_eq_Inr split: if_splits)
  have co: "coord (Some (with_version v l)) = coord None" for v
    using named_lease_describes [of "st_name settings"] describes_coord [of "named_lease (st_name settings)"]
    by (simp add: coord_def l_def new_v3_lease_fields)
  obtain v where v: "\<forall>k :: _ \<Rightarrow> V3AnchorState v3_result lease_io.
      exec srv lc (create_lease settings l k) None = exec srv lc (k (Inr (with_version v l))) (Some (with_version v l))"
    using exec_create [OF srv] by blast
  show thesis
    using that [of "if expected \<noteq> None \<or> fenced then None else Some (with_version v l)"] None rt rv co v
    unfolding compare_and_advance_lease_def attempts advance_loop.simps
    by (simp add: exec_get [OF srv] l_def [symmetric] advance_spec_def permitted_def anchor_of_def)
next
  case (Some c)
  define l where "l = v3_lease_with_state lib c next"
  show thesis
  proof (cases "v3_anchor_state_from_lease_optional lib c")
    case (Inl err)
    then show thesis using that [of st] Some
      unfolding compare_and_advance_lease_def attempts advance_loop.simps
      by (simp add: exec_get [OF srv] advance_spec_def anchor_of_def)
  next
    case (Inr current)
    have rt: "v3_anchor_state_from_lease lib l = Inr next" "v3_anchor_state_from_lease_optional lib l = Inr (Some next)"
      using anchor_state_roundtrip [OF typed hex has_v2_read [OF Inr]] by (simp_all add: l_def)
    have rv: "v3_anchor_state_from_lease lib (with_version v l) = Inr next" for v
      using rt(2) with_version_anchor [of lib v l]
      by (cases "annotations l") (auto simp: v3_anchor_state_from_lease_optional_def bindE_eq_Inr split: if_splits)
    have "resource_version l = resource_version c" by (simp add: l_def anchor_state_fields)
    then obtain v where v: "\<forall>k :: _ \<Rightarrow> V3AnchorState v3_result lease_io.
        exec srv lc (replace_lease settings l k) (Some c) = exec srv lc (k (Inr (with_version v l))) (Some (with_version v l))"
      using exec_replace [OF srv] by blast
    have co: "coord (Some (with_version v l)) = coord (Some c)" by (simp add: coord_def l_def anchor_state_fields)
    have spec: "advance_spec (anchor_of lib st) (permitted fenced lc st) expected next =
        (if stale_advance expected current next then Inl StaleAnchor
         else if permitted fenced lc (Some c) then Inr next else Inl AnchorAdvanceFailed)"
      using Some Inr by (auto simp: advance_spec_def anchor_of_def stale_advance_def split: option.split)
    have run: "exec srv lc (compare_and_advance_lease lib settings fenced expected next) st =
        (advance_spec (anchor_of lib st) (permitted fenced lc st) expected next,
         if stale_advance expected current next \<or> \<not> permitted fenced lc (Some c) then st else Some (with_version v l))"
      unfolding spec compare_and_advance_lease_def attempts advance_loop.simps
      using Some Inr v by (simp add: exec_get [OF srv] prepare_permitted l_def [symmetric] rv)
    show thesis
    proof (rule that [OF run])
      show "case advance_spec (anchor_of lib st) (permitted fenced lc st) expected next of
          Inl err \<Rightarrow> (if stale_advance expected current next \<or> \<not> permitted fenced lc (Some c) then st else Some (with_version v l)) = st
        | Inr _ \<Rightarrow> anchor_of lib (if stale_advance expected current next \<or> \<not> permitted fenced lc (Some c) then st else Some (with_version v l)) = Inr (Some next) \<and>
            coord (if stale_advance expected current next \<or> \<not> permitted fenced lc (Some c) then st else Some (with_version v l)) = coord st"
        unfolding spec using rt co unfolding Some by (simp add: anchor_of_def)
    qed
  qed
qed

end
