(* ===== verification/LeaseExample.thy ===== *)
theory LeaseExample
  imports LeaseRuns
begin

text \<open>
  A concrete API server and concrete runs of it: whole operations one after another, as steps of
  the system. They show that the situations the theorems about leases speak of are reachable.
\<close>

section \<open>A server\<close>

text \<open>Resource versions grow by one symbol with every write.\<close>

definition next_version :: "Lease option \<Rightarrow> str" where
  "next_version l = (case l of None \<Rightarrow> [] | Some c \<Rightarrow> 0 # (case resource_version c of None \<Rightarrow> [] | Some v \<Rightarrow> v))"

definition store_lease :: "lease_store \<Rightarrow> Lease \<Rightarrow> lease_reply \<times> lease_store" where
  "store_lease s l =
     (let v = next_version (sv_lease s); l' = with_version v l in
      if sv_versions s v = None
      then (Stored l', \<lparr>sv_lease = Some l', sv_versions = (sv_versions s)(v \<mapsto> l')\<rparr>)
      else (Failed ApiUnavailable, s))"

fun serve :: "lease_store \<Rightarrow> lease_request \<Rightarrow> lease_reply \<times> lease_store" where
  "serve s (GetLease ns n) = (Found (sv_lease s), s)"
| "serve s (CreateLease ns l) = (if sv_lease s = None then store_lease s l else (Failed Conflict, s))"
| "serve s (ReplaceLease ns n l) =
     (case sv_lease s of
        None \<Rightarrow> (Failed Conflict, s)
      | Some c \<Rightarrow> if resource_version l = None \<or> resource_version l = resource_version c then store_lease s l else (Failed Conflict, s))"

definition serve_api :: lease_api where
  "serve_api s q r s' \<longleftrightarrow> serve s q = (r, s')"

lemma serve_api_law: "lease_api_law serve_api"
  unfolding lease_api_law_def
proof (intro allI impI)
  fix s q r s' assume "serve_api s q r s'"
  then show "documented_reply s q r s'"
    by (cases q) (auto simp: serve_api_def documented_reply_def store_lease_def stores_def Let_def split: option.splits if_splits)
qed

text \<open>The same server for the uncontended runs.\<close>

fun lease_serve :: lease_server where
  "lease_serve st (GetLease ns n) = (Found st, st)"
| "lease_serve st (CreateLease ns l) =
     (if st = None then (Stored (with_version (next_version st) l), Some (with_version (next_version st) l)) else (Failed Conflict, st))"
| "lease_serve st (ReplaceLease ns n l) =
     (case st of None \<Rightarrow> (Failed Conflict, st)
      | Some c \<Rightarrow> if resource_version l = None \<or> resource_version l = resource_version c
          then (Stored (with_version (next_version st) l), Some (with_version (next_version st) l)) else (Failed Conflict, st))"

lemma lease_serve_serves: "serves lease_serve"
  by (auto simp: serves_def)

section \<open>Whole operations\<close>

primrec run_io :: "nat \<Rightarrow> WriterFenceClaim option \<Rightarrow> 'r lease_io \<Rightarrow> lease_system \<Rightarrow> 'r \<times> lease_system" where
  "run_io p f (Return r) = (\<lambda>s. (r, s))"
| "run_io p f (Call q k) = (\<lambda>s. case serve (sy_store s) q of (r, store) \<Rightarrow> run_io p f (k r) (answered p q r store s))"
| "run_io p f (LiveClaim k) = (\<lambda>s. run_io p f (k (Option.bind f (\<lambda>c. live_claim_at (sy_guard s p) c (sy_now s)))) s)"

definition after_guard :: "nat \<Rightarrow> (LeaseGuard \<Rightarrow> 'a guard_io) \<Rightarrow> lease_system \<Rightarrow> lease_system" where
  "after_guard p operation s = (case run_io p None (map_lease_io fst (operation (sy_guard s p))) s of (g, s') \<Rightarrow> s'\<lparr>sy_guard := (sy_guard s')(p := g)\<rparr>)"

definition after_anchor :: "nat \<Rightarrow> WriterFenceClaim option \<Rightarrow> 'a lease_io \<Rightarrow> lease_system \<Rightarrow> lease_system" where
  "after_anchor p f operation s = snd (run_io p f (map_lease_io (\<lambda>_. ()) operation) s)"

definition idle :: "lease_system \<Rightarrow> bool" where
  "idle s \<longleftrightarrow> sy_tasks s = Map.empty"

lemma run_io_frame:
  "sy_now (snd (run_io p f io s)) = sy_now s \<and> sy_guard (snd (run_io p f io s)) = sy_guard s \<and>
   sy_tasks (snd (run_io p f io s)) = sy_tasks s"
proof (induction io arbitrary: s)
  case (Call q k)
  then show ?case by (cases "serve (sy_store s) q") simp
qed simp_all

lemma run_guard_task:
  assumes "guard_io g m b rd st io" and "sy_now s = m"
  shows "(lease_step lib serve_api delta)\<^sup>*\<^sup>*
    (s\<lparr>sy_tasks := [t \<mapsto> (p, GuardTask m io)]\<rparr>)
    ((snd (run_io p None io s))\<lparr>sy_tasks := [t \<mapsto> (p, GuardTask m (Return (fst (run_io p None io s))))]\<rparr>)"
  using assms
proof (induction io arbitrary: s rd st)
  case (Call q k)
  obtain r store where r: "serve (sy_store s) q = (r, store)" by (cases "serve (sy_store s) q")
  let ?s = "s\<lparr>sy_tasks := [t \<mapsto> (p, GuardTask m (Call q k))]\<rparr>"
  have "lease_step lib serve_api delta ?s ((answered p q r store ?s)\<lparr>sy_tasks := (sy_tasks ?s)(t \<mapsto> (p, GuardTask m (k r)))\<rparr>)"
    by (rule guard_call) (use r Call.prems in \<open>auto simp: serve_api_def\<close>)
  also have "(answered p q r store ?s)\<lparr>sy_tasks := (sy_tasks ?s)(t \<mapsto> (p, GuardTask m (k r)))\<rparr> =
      (answered p q r store s)\<lparr>sy_tasks := [t \<mapsto> (p, GuardTask m (k r))]\<rparr>" by (simp add: answered_def)
  finally have step: "lease_step lib serve_api delta ?s \<dots>" .
  have "guard_io g m b (read_of rd r) (stored_of st r) (k r)" using Call.prems(1) by simp
  moreover have "sy_now (answered p q r store s) = m" using Call.prems(2) by simp
  ultimately show ?case unfolding run_io.simps r prod.case
    by (rule converse_rtranclp_into_rtranclp [where r = "lease_step lib serve_api delta", OF step Call.IH [OF rangeI]])
qed simp_all

lemma run_anchor_task:
  "(lease_step lib serve_api delta)\<^sup>*\<^sup>*
    (s\<lparr>sy_tasks := [t \<mapsto> (p, AnchorTask f io)]\<rparr>)
    ((snd (run_io p f io s))\<lparr>sy_tasks := [t \<mapsto> (p, AnchorTask f (Return ()))]\<rparr>)"
proof (induction io arbitrary: s)
  case (Call q k)
  obtain r store where r: "serve (sy_store s) q = (r, store)" by (cases "serve (sy_store s) q")
  let ?s = "s\<lparr>sy_tasks := [t \<mapsto> (p, AnchorTask f (Call q k))]\<rparr>"
  have "lease_step lib serve_api delta ?s ((answered p q r store ?s)\<lparr>sy_tasks := (sy_tasks ?s)(t \<mapsto> (p, AnchorTask f (k r)))\<rparr>)"
    by (rule anchor_call) (use r in \<open>auto simp: serve_api_def\<close>)
  also have "(answered p q r store ?s)\<lparr>sy_tasks := (sy_tasks ?s)(t \<mapsto> (p, AnchorTask f (k r)))\<rparr> =
      (answered p q r store s)\<lparr>sy_tasks := [t \<mapsto> (p, AnchorTask f (k r))]\<rparr>" by (simp add: answered_def)
  finally have step: "lease_step lib serve_api delta ?s \<dots>" .
  from Call.IH [OF rangeI, of r "answered p q r store s"] show ?case unfolding run_io.simps r prod.case
    by (rule converse_rtranclp_into_rtranclp [where r = "lease_step lib serve_api delta", OF step])
next
  case (LiveClaim k)
  let ?c = "Option.bind f (\<lambda>c. live_claim_at (sy_guard s p) c (sy_now s))"
  let ?s = "s\<lparr>sy_tasks := [t \<mapsto> (p, AnchorTask f (LiveClaim k))]\<rparr>"
  have "lease_step lib serve_api delta ?s (s\<lparr>sy_tasks := [t \<mapsto> (p, AnchorTask f (k ?c))]\<rparr>)"
    using anchor_claim [of ?s t p f k lib serve_api delta] by simp
  then show ?case unfolding run_io.simps
    by (rule converse_rtranclp_into_rtranclp [where r = "lease_step lib serve_api delta", OF _ LiveClaim.IH [OF rangeI]])
qed simp

lemma idle_task: "idle s \<Longrightarrow> s\<lparr>sy_tasks := Map.empty\<rparr> = s"
  by (simp add: idle_def)

lemma idle_start: "idle s \<Longrightarrow> sy_tasks s t = None \<and> \<not> busy s p"
  by (simp add: idle_def busy_def)

lemma steps_after_guard:
  assumes "idle s"
    and start: "lease_step lib serve_api delta s (s\<lparr>sy_tasks := [0 \<mapsto> (p, GuardTask (sy_now s) (map_lease_io fst (operation (sy_guard s p))))]\<rparr>)"
    and io: "guard_io (sy_guard s p) (sy_now s) b None None (map_lease_io fst (operation (sy_guard s p)))"
  shows "(lease_step lib serve_api delta)\<^sup>*\<^sup>* s (after_guard p operation s) \<and> idle (after_guard p operation s)"
proof -
  let ?io = "map_lease_io fst (operation (sy_guard s p))"
  obtain g s' where r: "run_io p None ?io s = (g, s')" by (cases "run_io p None ?io s")
  have s': "sy_tasks s' = Map.empty" using run_io_frame [of p None ?io s] r assms(1) by (simp add: idle_def)
  have "lease_step lib serve_api delta (s'\<lparr>sy_tasks := [0 \<mapsto> (p, GuardTask (sy_now s) (Return g))]\<rparr>)
      (s'\<lparr>sy_guard := (sy_guard s')(p := g)\<rparr>)"
    using guard_done [of "s'\<lparr>sy_tasks := [0 \<mapsto> (p, GuardTask (sy_now s) (Return g))]\<rparr>" 0 p "sy_now s" g lib serve_api delta] s'
      idle_task [of "s'\<lparr>sy_guard := (sy_guard s')(p := g)\<rparr>"] by (simp add: idle_def)
  moreover have "(lease_step lib serve_api delta)\<^sup>*\<^sup>* (s\<lparr>sy_tasks := [0 \<mapsto> (p, GuardTask (sy_now s) ?io)]\<rparr>)
      (s'\<lparr>sy_tasks := [0 \<mapsto> (p, GuardTask (sy_now s) (Return g))]\<rparr>)"
    using run_guard_task [OF io refl, of lib delta 0 p] r by simp
  ultimately have "(lease_step lib serve_api delta)\<^sup>*\<^sup>* s (s'\<lparr>sy_guard := (sy_guard s')(p := g)\<rparr>)"
    using start by (meson converse_rtranclp_into_rtranclp rtranclp.rtrancl_into_rtrancl)
  then show ?thesis using r s' by (simp add: after_guard_def idle_def)
qed

lemma steps_after_anchor:
  assumes "idle s"
    and start: "lease_step lib serve_api delta s (s\<lparr>sy_tasks := [0 \<mapsto> (p, AnchorTask f (map_lease_io (\<lambda>_. ()) operation))]\<rparr>)"
  shows "(lease_step lib serve_api delta)\<^sup>*\<^sup>* s (after_anchor p f operation s) \<and> idle (after_anchor p f operation s)"
proof -
  let ?io = "map_lease_io (\<lambda>_. ()) operation"
  let ?s = "snd (run_io p f ?io s)"
  have s': "sy_tasks ?s = Map.empty" using run_io_frame [of p f ?io s] assms(1) by (simp add: idle_def)
  have "lease_step lib serve_api delta (?s\<lparr>sy_tasks := [0 \<mapsto> (p, AnchorTask f (Return ()))]\<rparr>) ?s"
    using anchor_done [of "?s\<lparr>sy_tasks := [0 \<mapsto> (p, AnchorTask f (Return ()))]\<rparr>" 0 p f "()" lib serve_api delta] s' idle_task [of ?s] by (simp add: idle_def)
  then have "(lease_step lib serve_api delta)\<^sup>*\<^sup>* s ?s"
    using start run_anchor_task [where lib = lib and delta = delta and s = s and t = 0 and p = p and f = f and io = ?io] by (meson converse_rtranclp_into_rtranclp rtranclp.rtrancl_into_rtrancl)
  then show ?thesis using s' by (simp add: after_anchor_def idle_def)
qed

lemma steps_acquire:
  assumes "idle s"
  shows "(lease_step lib serve_api delta)\<^sup>*\<^sup>* s (after_guard p (\<lambda>g. acquire_at g wall (sy_now s)) s) \<and>
    idle (after_guard p (\<lambda>g. acquire_at g wall (sy_now s)) s)"
proof (rule steps_after_guard [where operation = "\<lambda>g. acquire_at g wall (sy_now s)", OF assms _ guard_programs(1) [where b = False]])
  show "lease_step lib serve_api delta s (s\<lparr>sy_tasks := [0 \<mapsto> (p, GuardTask (sy_now s) (map_lease_io fst (acquire_at (sy_guard s p) wall (sy_now s))))]\<rparr>)"
    using start_acquire [of s 0 p lib serve_api delta wall] assms idle_start [OF assms] by (simp add: idle_def)
qed

lemma steps_renew:
  assumes "idle s"
  shows "(lease_step lib serve_api delta)\<^sup>*\<^sup>* s (after_guard p (\<lambda>g. renew_at g wall (sy_now s)) s) \<and>
    idle (after_guard p (\<lambda>g. renew_at g wall (sy_now s)) s)"
proof (rule steps_after_guard [where operation = "\<lambda>g. renew_at g wall (sy_now s)", OF assms _ guard_programs(2) [where b = False]])
  show "lease_step lib serve_api delta s (s\<lparr>sy_tasks := [0 \<mapsto> (p, GuardTask (sy_now s) (map_lease_io fst (renew_at (sy_guard s p) wall (sy_now s))))]\<rparr>)"
    using start_renew [of s 0 p lib serve_api delta wall] assms idle_start [OF assms] by (simp add: idle_def)
qed

lemma steps_advance:
  assumes "idle s" and "anchor_typed next" and "\<forall>c. f = Some c \<longrightarrow> current_claim (sy_guard s p) = Inr c"
  shows "(lease_step lib serve_api delta)\<^sup>*\<^sup>* s (after_anchor p f (compare_and_advance_lease lib settings (f \<noteq> None) expected next) s) \<and>
    idle (after_anchor p f (compare_and_advance_lease lib settings (f \<noteq> None) expected next) s)"
proof (rule steps_after_anchor [OF assms(1)])
  show "lease_step lib serve_api delta s (s\<lparr>sy_tasks := [0 \<mapsto> (p, AnchorTask f (map_lease_io (\<lambda>_. ())
      (compare_and_advance_lease lib settings (f \<noteq> None) expected next)))]\<rparr>)"
    using start_advance [of s 0 "next" f p lib serve_api delta settings expected] assms by (simp add: idle_def)
qed

section \<open>Two gateways\<close>

definition example_settings :: LeaseSettings where
  "example_settings = \<lparr>st_namespace = lit ''rs3'', st_name = lit ''anchor'', st_field_manager = lit ''rs3''\<rparr>"

definition example_guard :: "nat \<Rightarrow> LeaseGuard" where
  "example_guard p = \<lparr>lg_settings = example_settings, lg_holder_identity = (if p = 0 then lit ''a'' else lit ''b''),
     lg_lease_duration = 15 * NANOS, lg_observation = None, lg_local_state = LocalFenceState_inactive\<rparr>"

definition example_start :: lease_system where
  "example_start = \<lparr>sy_now = 0, sy_store = \<lparr>sv_lease = None, sv_versions = Map.empty\<rparr>, sy_guard = example_guard,
     sy_tasks = Map.empty, sy_late = {}, sy_released = (\<lambda>_. False), sy_log = [no_entry]\<rparr>"

definition wait :: "Duration \<Rightarrow> lease_system \<Rightarrow> lease_system" where
  "wait d s = s\<lparr>sy_now := sy_now s + d\<rparr>"

text \<open>Gateway 0 acquires the lease; gateway 1 observes it, and takes over after a lease duration.\<close>

definition example_held :: lease_system where
  "example_held = after_guard 0 (\<lambda>g. acquire_at g 0 0) example_start"

definition example_watched :: lease_system where
  "example_watched = after_guard 1 (\<lambda>g. acquire_at g 0 0) example_held"

definition example_taken :: lease_system where
  "example_taken = after_guard 1 (\<lambda>g. acquire_at g 0 (15 * NANOS)) (wait (15 * NANOS) example_watched)"

section \<open>Runs of the server as uncontended runs\<close>

definition numbered :: "lease_store \<Rightarrow> bool" where
  "numbered s \<longleftrightarrow> (\<forall>v. sv_versions s v \<noteq> None \<longrightarrow> length v < length (next_version (sv_lease s)))"

lemma numbered_serve:
  assumes "numbered s"
  shows "fst (serve s q) = fst (lease_serve (sv_lease s) q)" and "sv_lease (snd (serve s q)) = snd (lease_serve (sv_lease s) q)"
    and "numbered (snd (serve s q))"
proof -
  have v: "sv_versions s (next_version (sv_lease s)) = None" using assms by (force simp: numbered_def)
  have w: "store_lease s l = (Stored (with_version (next_version (sv_lease s)) l),
      \<lparr>sv_lease = Some (with_version (next_version (sv_lease s)) l),
       sv_versions = (sv_versions s)(next_version (sv_lease s) \<mapsto> with_version (next_version (sv_lease s)) l)\<rparr>)" for l
    using v by (simp add: store_lease_def Let_def)
  have n: "numbered (snd (store_lease s l))" for l
    unfolding w using assms by (auto simp: numbered_def next_version_def [of "Some _"] less_Suc_eq)
  show "fst (serve s q) = fst (lease_serve (sv_lease s) q)" "sv_lease (snd (serve s q)) = snd (lease_serve (sv_lease s) q)"
    by (cases q; simp add: w split: option.split)+
  show "numbered (snd (serve s q))" using n assms by (cases q) (simp_all split: option.split)
qed

lemma run_exec:
  assumes "numbered (sy_store s)" and "lc = Option.bind f (\<lambda>c. live_claim_at (sy_guard s p) c (sy_now s))"
  shows "fst (run_io p f io s) = fst (exec lease_serve lc io (sv_lease (sy_store s))) \<and>
    sv_lease (sy_store (snd (run_io p f io s))) = snd (exec lease_serve lc io (sv_lease (sy_store s))) \<and>
    numbered (sy_store (snd (run_io p f io s))) \<and> sy_released (snd (run_io p f io s)) = sy_released s"
  using assms
proof (induction io arbitrary: s)
  case (Call q k)
  obtain r store where r: "serve (sy_store s) q = (r, store)" by (cases "serve (sy_store s) q")
  have e: "lease_serve (sv_lease (sy_store s)) q = (r, sv_lease store)" "numbered store"
    using numbered_serve [OF Call.prems(1), of q] r by (auto simp: prod_eq_iff)
  from Call.IH [OF rangeI, of "answered p q r store s" r] e Call.prems(2) show ?case by (simp add: r)
qed simp_all

lemma exec_map: "exec srv lc (map_lease_io h io) st = (case exec srv lc io st of (a, st') \<Rightarrow> (h a, st'))"
  by (induction io arbitrary: st) (auto split: prod.split)

lemma after_guard_now: "sy_now (after_guard p operation s) = sy_now s"
  using run_io_frame [of p None "map_lease_io fst (operation (sy_guard s p))" s] by (auto simp: after_guard_def split: prod.split)

lemma after_guard_exec:
  assumes "numbered (sy_store s)" and "exec lease_serve None (operation (sy_guard s p)) (sv_lease (sy_store s)) = ((g, r), st)"
  shows "sy_guard (after_guard p operation s) = (sy_guard s)(p := g)" "sv_lease (sy_store (after_guard p operation s)) = st"
    "numbered (sy_store (after_guard p operation s))" "sy_released (after_guard p operation s) = sy_released s"
    "sy_now (after_guard p operation s) = sy_now s"
  using run_exec [OF assms(1), where lc = None and f = None and p = p and io = "map_lease_io fst (operation (sy_guard s p))"] assms(2)
    run_io_frame [of p None "map_lease_io fst (operation (sy_guard s p))" s]
  by (auto simp: after_guard_def exec_map split: prod.split)

lemma after_anchor_exec:
  assumes "numbered (sy_store s)" and "exec lease_serve (Option.bind f (\<lambda>c. live_claim_at (sy_guard s p) c (sy_now s))) operation (sv_lease (sy_store s)) = (r, st)"
  shows "sy_guard (after_anchor p f operation s) = sy_guard s" "sv_lease (sy_store (after_anchor p f operation s)) = st"
    "numbered (sy_store (after_anchor p f operation s))" "sy_released (after_anchor p f operation s) = sy_released s"
    "sy_now (after_anchor p f operation s) = sy_now s"
  using run_exec [OF assms(1) refl, where f = f and p = p and io = "map_lease_io (\<lambda>_. ()) operation"] assms(2)
    run_io_frame [of p f "map_lease_io (\<lambda>_. ()) operation" s]
  by (auto simp: after_anchor_def exec_map)

section \<open>What the gateways see\<close>

definition claim_a :: WriterFenceClaim where "claim_a = \<lparr>fc_holder_identity = lit ''a'', fc_token = 1\<rparr>"
definition claim_b :: WriterFenceClaim where "claim_b = \<lparr>fc_holder_identity = lit ''b'', fc_token = 2\<rparr>"

lemma example_duration: "duration_seconds_i32 (15 * NANOS) = Inr 15"
  by (simp add: duration_seconds_i32_def NANOS_def)

lemma example_guard_simps [simp]:
  "lg_lease_duration (example_guard p) = 15 * NANOS" "lg_observation (example_guard p) = None"
  "lg_holder_identity (example_guard 0) = lit ''a''" "lg_holder_identity (example_guard (Suc 0)) = lit ''b''"
  by (simp_all add: example_guard_def)

lemma example_start_simps [simp]:
  "sy_now example_start = 0" "sv_lease (sy_store example_start) = None" "sy_guard example_start = example_guard"
  "numbered (sy_store example_start)" "idle example_start" "sy_released example_start = (\<lambda>_. False)"
  by (simp_all add: example_start_def numbered_def idle_def)

lemma example_initial: "initial example_start"
proof -
  have "LeaseGuard_new example_settings (if p = 0 then lit ''a'' else lit ''b'') (15 * NANOS) = Inr (example_guard p)" for p
    by (simp add: LeaseGuard_new_def example_settings_def example_duration example_guard_def lit_def)
  then show ?thesis unfolding initial_def by (simp add: example_start_def) blast
qed

lemma example_held_facts:
  "sy_guard example_held = example_guard(0 := holding (example_guard 0) claim_a 0)"
  "\<exists>l. sv_lease (sy_store example_held) = Some l \<and> left_by None (example_guard 0) claim_a 1 l \<and> transitions_left l (lit ''b'')"
  "numbered (sy_store example_held)" "sy_released example_held = (\<lambda>_. False)" "sy_now example_held = 0"
proof -
  obtain gs l where r: "exec lease_serve None (acquire_at (example_guard 0) 0 0) None = ((holding (example_guard 0) claim_a 0, Inr gs), Some l)"
    and l: "left_by None (example_guard 0) claim_a 1 l" "transitions_left l (lit ''b'')"
    using acquire_absent [OF lease_serve_serves, of "example_guard 0" 15 None 0 0] by (auto simp: example_duration claim_a_def)
  note f = after_guard_exec [of example_start "\<lambda>g. acquire_at g 0 0" 0, simplified, OF r, folded example_held_def]
  show "sy_guard example_held = example_guard(0 := holding (example_guard 0) claim_a 0)"
    "\<exists>l. sv_lease (sy_store example_held) = Some l \<and> left_by None (example_guard 0) claim_a 1 l \<and> transitions_left l (lit ''b'')"
    "numbered (sy_store example_held)" "sy_released example_held = (\<lambda>_. False)" "sy_now example_held = 0"
    using f l by simp_all
qed

lemma example_taken_facts:
  "sy_guard example_taken = example_guard(0 := holding (example_guard 0) claim_a 0, 1 := holding (example_guard 1) claim_b (15 * NANOS))"
  "\<exists>c l. sv_lease (sy_store example_taken) = Some l \<and> left_by (Some c) (example_guard 1) claim_b 2 l \<and>
     v3_anchor_state_from_lease_optional plain_lib c = Inr None"
  "numbered (sy_store example_taken)" "sy_released example_taken = (\<lambda>_. False)" "sy_now example_taken = 15 * NANOS"
proof -
  obtain c where c: "sv_lease (sy_store example_held) = Some c" "left_by None (example_guard 0) claim_a 1 c" "transitions_left c (lit ''b'')"
    using example_held_facts(2) by blast
  then obtain secs where a: "\<forall>d. lease_coordination_state c d = Inr (coordination claim_a 1 (15 * NANOS) secs)" by (auto simp: left_by_def)
  let ?a = "coordination claim_a 1 (15 * NANOS) secs"
  obtain r where r: "observation ?a = Some r" by (simp add: observation_def coordination_def)
  let ?g = "(example_guard 1)\<lparr>lg_observation := Some \<lparr>oc_record = r, oc_observed_at = 0\<rparr>\<rparr>"
  have "may_take_ownership (example_guard 1) ?a 0 = (Observing, ?g)" using r by (simp add: may_take_ownership_def)
  from acquire_observing [OF lease_serve_serves _ this, of c None 0]
  have "exec lease_serve None (acquire_at (sy_guard example_held 1) 0 0) (sv_lease (sy_store example_held)) = ((?g, Inl HeldByOther), Some c)"
    using a c(1) by (simp add: example_held_facts(1))
  note f = after_guard_exec [where operation = "\<lambda>g. acquire_at g 0 0", OF example_held_facts(3) this, folded example_watched_def, unfolded example_held_facts(1,4,5)]
  have "may_take_ownership ?g ?a (15 * NANOS) = (Allowed, ?g)" using r by (simp add: may_take_ownership_def coordination_def)
  from acquire_allowed [OF lease_serve_serves _ this, of c 15 2 2 None 0]
  obtain gs l where l: "exec lease_serve None (acquire_at ?g 0 (15 * NANOS)) (Some c) = ((holding ?g claim_b (15 * NANOS), Inr gs), Some l)"
    "left_by (Some c) ?g claim_b 2 l"
    using a c(3) by (auto simp: example_duration claim_b_def coordination_def claim_a_def checked_add_def)
  have h: "holding ?g claim_b (15 * NANOS) = holding (example_guard 1) claim_b (15 * NANOS)" by (simp add: holding_def)
  have w: "numbered (sy_store (wait (15 * NANOS) example_watched))" "sy_guard (wait (15 * NANOS) example_watched) 1 = ?g"
    "sv_lease (sy_store (wait (15 * NANOS) example_watched)) = Some c"
    using f by (simp_all add: wait_def)
  note t = after_guard_exec [of "wait (15 * NANOS) example_watched" "\<lambda>g. acquire_at g 0 (15 * NANOS)" 1, OF w(1),
      unfolded w(2,3), OF l(1), folded example_taken_def]
  show "sy_guard example_taken = example_guard(0 := holding (example_guard 0) claim_a 0, 1 := holding (example_guard 1) claim_b (15 * NANOS))"
    "numbered (sy_store example_taken)" "sy_released example_taken = (\<lambda>_. False)" "sy_now example_taken = 15 * NANOS"
    using t f h by (auto simp: wait_def)
  have "v3_anchor_state_from_lease_optional plain_lib c = Inr None" using c(2) by (simp add: left_by_def anchor_of_def)
  moreover have "left_by (Some c) (example_guard 1) claim_b 2 l" using l(2) by (simp add: left_by_def)
  ultimately show "\<exists>c l. sv_lease (sy_store example_taken) = Some l \<and> left_by (Some c) (example_guard 1) claim_b 2 l \<and>
     v3_anchor_state_from_lease_optional plain_lib c = Inr None"
    using t(2) by blast
qed

lemma example_runs:
  "(lease_step lib serve_api delta)\<^sup>*\<^sup>* example_start example_held" "idle example_held"
  "(lease_step lib serve_api delta)\<^sup>*\<^sup>* example_held (wait (15 * NANOS) example_watched)" "idle (wait (15 * NANOS) example_watched)"
  "(lease_step lib serve_api delta)\<^sup>*\<^sup>* example_held example_taken" "idle example_taken"
proof -
  let ?w = "wait (15 * NANOS) example_watched"
  show a: "(lease_step lib serve_api delta)\<^sup>*\<^sup>* example_start example_held" "idle example_held"
    using steps_acquire [of example_start lib delta 0 0] by (simp_all add: example_held_def)
  have b: "(lease_step lib serve_api delta)\<^sup>*\<^sup>* example_held example_watched" "idle example_watched"
    using steps_acquire [OF a(2), of lib delta 1 0] by (simp_all add: example_watched_def example_held_facts(5))
  have "lease_step lib serve_api delta example_watched ?w" unfolding wait_def by (rule tick)
  then show c: "(lease_step lib serve_api delta)\<^sup>*\<^sup>* example_held ?w" using b(1) by (rule rtranclp.rtrancl_into_rtrancl [rotated])
  show d: "idle ?w" using b(2) by (simp add: idle_def wait_def)
  have now: "sy_now ?w = 15 * NANOS"
    by (simp add: wait_def example_watched_def after_guard_now example_held_facts(5))
  show "(lease_step lib serve_api delta)\<^sup>*\<^sup>* example_held example_taken" "idle example_taken"
    using steps_acquire [OF d, of lib delta 1 0] rtranclp_trans [OF c] unfolding example_taken_def now by blast+
qed

section \<open>Two commits\<close>

definition example_anchor :: "u64 \<Rightarrow> V3AnchorState" where
  "example_anchor n = \<lparr>an_sequence = n, an_commit_key = lit ''commit'', an_body_digest = replicate 32 0, an_version_id = None,
     an_signing_key_id = lit ''signing'', an_format_ref = \<lparr>fr_generation = 1, fr_digest = lit ''00'', fr_object_id = lit ''format'', fr_version_id = None\<rparr>\<rparr>"

definition example_commit :: "V3AnchorState option \<Rightarrow> V3AnchorState \<Rightarrow> lease_system \<Rightarrow> lease_system" where
  "example_commit expected next = after_anchor 1 (Some claim_b) (compare_and_advance_lease plain_lib example_settings True expected next)"

definition example_first :: lease_system where
  "example_first = example_commit None (example_anchor 1) example_taken"

definition example_second :: lease_system where
  "example_second = example_commit (Some (example_anchor 1)) (example_anchor 2) example_first"

lemma example_anchor_typed: "anchor_typed (example_anchor n)"
proof -
  have "valid_name (lit ''commit'')" "valid_name (lit ''signing'')" "valid_name (lit ''format'')" "lit ''00'' \<noteq> []"
    by (simp_all add: valid_name_def from_utf8_ok_def trim_is_empty_def is_whitespace_def utf8_chars.simps lit_def)
  then show ?thesis by (simp add: anchor_typed_def example_anchor_def)
qed

lemma holds_coord: "coord st = coord st' \<Longrightarrow> st = Some l \<Longrightarrow> st' = Some l' \<Longrightarrow> lease_holds_claim l claim = lease_holds_claim l' claim"
  by (simp add: coord_def lease_holds_claim_def)

text \<open>Gateway 1 is the writer: its guard holds the lease, and the lease says so.\<close>

definition writing :: "lease_system \<Rightarrow> V3AnchorState option \<Rightarrow> bool" where
  "writing s x \<longleftrightarrow> idle s \<and> numbered (sy_store s) \<and> sy_now s = 15 * NANOS \<and>
     sy_guard s 1 = holding (example_guard 1) claim_b (15 * NANOS) \<and>
     (\<exists>l. sv_lease (sy_store s) = Some l \<and> lease_holds_claim l claim_b = Inr True \<and> v3_anchor_state_from_lease_optional plain_lib l = Inr x)"

lemma commit_writing:
  assumes w: "writing s x" and fresh: "\<forall>y. x = Some y \<longrightarrow> an_sequence y < an_sequence next" and typed: "anchor_typed next"
  shows "writing (example_commit x next s) (Some next)"
    and "(lease_step plain_lib serve_api delta)\<^sup>*\<^sup>* s (example_commit x next s)"
proof -
  let ?op = "compare_and_advance_lease plain_lib example_settings True x next"
  let ?lc = "Option.bind (Some claim_b) (\<lambda>c. live_claim_at (sy_guard s 1) c (sy_now s))"
  obtain l where l: "sv_lease (sy_store s) = Some l" "lease_holds_claim l claim_b = Inr True"
    "v3_anchor_state_from_lease_optional plain_lib l = Inr x" using w by (auto simp: writing_def)
  have lc: "?lc = Some claim_b" using w by (simp add: writing_def holding_live NANOS_def)
  have spec: "advance_spec (anchor_of plain_lib (Some l)) (permitted True ?lc (Some l)) x next = Inr next"
    using l fresh unfolding lc by (auto simp: advance_spec_def anchor_of_def permitted_def)
  obtain st where st: "exec lease_serve ?lc ?op (Some l) = (Inr next, st)" "anchor_of plain_lib st = Inr (Some next)" "coord st = coord (Some l)"
    using advance_exec [OF lease_serve_serves plain_lib_laws(5) typed, of ?lc example_settings True x "Some l"] unfolding spec by auto
  then obtain l' where l': "st = Some l'" by (cases st) (auto simp: anchor_of_def)
  have idle: "idle s" and numbered: "numbered (sy_store s)" using w by (simp_all add: writing_def)
  note f = after_anchor_exec [OF numbered, of "Some claim_b" 1 ?op, unfolded l(1), OF st(1)]
  have "current_claim (sy_guard s 1) = Inr claim_b" using w by (simp add: writing_def)
  then have r: "(lease_step plain_lib serve_api delta)\<^sup>*\<^sup>* s (example_commit x next s) \<and> idle (example_commit x next s)"
    using steps_advance [OF idle typed, of "Some claim_b" 1 plain_lib delta example_settings x] by (simp add: example_commit_def)
  then show "(lease_step plain_lib serve_api delta)\<^sup>*\<^sup>* s (example_commit x next s)" by blast
  show "writing (example_commit x next s) (Some next)"
    unfolding writing_def using r f w st(2) l' holds_coord [OF st(3) l' refl, of claim_b] l(2)
    by (simp add: example_commit_def writing_def anchor_of_def)
qed

lemma example_commits:
  "writing example_taken None" "writing example_first (Some (example_anchor 1))" "writing example_second (Some (example_anchor 2))"
  "(lease_step plain_lib serve_api delta)\<^sup>*\<^sup>* example_taken example_first"
  "(lease_step plain_lib serve_api delta)\<^sup>*\<^sup>* example_first example_second"
proof -
  have x: "an_sequence (example_anchor n) = n" for n by (simp add: example_anchor_def)
  obtain c l where l: "sv_lease (sy_store example_taken) = Some l" "left_by (Some c) (example_guard 1) claim_b 2 l"
    "v3_anchor_state_from_lease_optional plain_lib c = Inr None"
    using example_taken_facts(2) by blast
  then have "lease_holds_claim l claim_b = Inr True" "v3_anchor_state_from_lease_optional plain_lib l = Inr None"
    by (auto simp: left_by_def lease_holds_claim_def coordination_def anchor_of_def)
  with l(1) show w: "writing example_taken None"
    using example_runs(6) example_taken_facts by (simp add: writing_def)
  have "\<forall>y. None = Some y \<longrightarrow> an_sequence y < an_sequence (example_anchor 1)" by simp
  note a = commit_writing [OF w this example_anchor_typed, folded example_first_def]
  show f: "writing example_first (Some (example_anchor 1))" and "(lease_step plain_lib serve_api delta)\<^sup>*\<^sup>* example_taken example_first"
    using a by blast+
  have "\<forall>y. Some (example_anchor 1) = Some y \<longrightarrow> an_sequence y < an_sequence (example_anchor 2)" using x by auto
  note b = commit_writing [OF f this example_anchor_typed, folded example_second_def]
  show "writing example_second (Some (example_anchor 2))" "(lease_step plain_lib serve_api delta)\<^sup>*\<^sup>* example_first example_second"
    using b by blast+
qed

section \<open>A late request\<close>

text \<open>Gateway 3 has read the anchor and sent its update, and crashes; gateway 2 commits before the update arrives.\<close>

definition unfenced_commit :: "nat \<Rightarrow> V3AnchorState option \<Rightarrow> V3AnchorState \<Rightarrow> lease_system \<Rightarrow> lease_system" where
  "unfenced_commit p expected next = after_anchor p None (compare_and_advance_lease plain_lib example_settings False expected next)"

definition example_update :: "lease_system \<Rightarrow> lease_request" where
  "example_update s = ReplaceLease (lit ''rs3'') (lit ''anchor'') (v3_lease_with_state plain_lib (the (sv_lease (sy_store s))) (example_anchor 2))"

definition example_created :: lease_system where
  "example_created = unfenced_commit 2 None (example_anchor 1) example_start"

definition example_sent :: lease_system where
  "example_sent = example_created\<lparr>sy_guard := (sy_guard example_created)(3 := deactivate (sy_guard example_created 3)),
     sy_late := insert (3, example_update example_created) (sy_late example_created)\<rparr>"

definition example_overtaken :: lease_system where
  "example_overtaken = unfenced_commit 2 (Some (example_anchor 1)) (example_anchor 3) example_sent"

definition unheld :: "Lease option \<Rightarrow> bool" where
  "unheld st \<longleftrightarrow> (\<exists>a. coord st = Inr a \<and> co_holder_identity a = None)"

lemma unheld_permitted: "unheld st \<Longrightarrow> permitted False lc st"
  by (auto simp: unheld_def permitted_def coord_def lease_has_writer_coordination_def lease_coordination_state_def bindE_eq_Inr split: option.splits)

lemma unfenced_commit_facts:
  assumes n: "numbered (sy_store s)" and i: "idle s"
    and st: "anchor_of plain_lib (sv_lease (sy_store s)) = Inr x" "unheld (sv_lease (sy_store s))"
    and fresh: "\<forall>y. x = Some y \<longrightarrow> an_sequence y < an_sequence next" and typed: "anchor_typed next"
  shows "anchor_of plain_lib (sv_lease (sy_store (unfenced_commit p x next s))) = Inr (Some next)"
    and "unheld (sv_lease (sy_store (unfenced_commit p x next s)))"
    and "numbered (sy_store (unfenced_commit p x next s))" and "idle (unfenced_commit p x next s)"
    and "(lease_step plain_lib serve_api delta)\<^sup>*\<^sup>* s (unfenced_commit p x next s)"
proof -
  let ?op = "compare_and_advance_lease plain_lib example_settings False x next" and ?st = "sv_lease (sy_store s)"
  have spec: "advance_spec (anchor_of plain_lib ?st) (permitted False None ?st) x next = Inr next"
    using st fresh unheld_permitted by (auto simp: advance_spec_def)
  obtain st' where st': "exec lease_serve None ?op ?st = (Inr next, st')" "anchor_of plain_lib st' = Inr (Some next)" "coord st' = coord ?st"
    using advance_exec [OF lease_serve_serves plain_lib_laws(5) typed, of None example_settings False x ?st] unfolding spec by auto
  note f = after_anchor_exec [OF n, where f = None and p = p and operation = ?op, simplified, OF st'(1)]
  show "anchor_of plain_lib (sv_lease (sy_store (unfenced_commit p x next s))) = Inr (Some next)"
    "unheld (sv_lease (sy_store (unfenced_commit p x next s)))" "numbered (sy_store (unfenced_commit p x next s))"
    using f st'(2,3) st(2) by (simp_all add: unfenced_commit_def unheld_def)
  show "idle (unfenced_commit p x next s)" "(lease_step plain_lib serve_api delta)\<^sup>*\<^sup>* s (unfenced_commit p x next s)"
    using steps_advance [OF i typed, of None p plain_lib delta example_settings x] by (simp_all add: unfenced_commit_def)
qed

lemma run_io_late: "sy_late s \<subseteq> sy_late (snd (run_io p f io s))"
proof (induction io arbitrary: s)
  case (Call q k)
  obtain r store where r: "serve (sy_store s) q = (r, store)" by (cases "serve (sy_store s) q")
  have "sy_late s \<subseteq> sy_late (answered p q r store s)" by (auto simp: answered_def)
  also have "\<dots> \<subseteq> sy_late (snd (run_io p f (k r) (answered p q r store s)))" by (rule Call.IH) simp
  finally show ?case by (simp add: r)
qed auto

lemma send_and_crash:
  assumes i: "idle s" and start: "lease_step lib serve_api delta s (s\<lparr>sy_tasks := [0 \<mapsto> (p, AnchorTask f (Call (GetLease ns n) k))]\<rparr>)"
    and k: "k (Found (sv_lease (sy_store s))) = Call q k'"
  shows "(lease_step lib serve_api delta)\<^sup>*\<^sup>* s
    (s\<lparr>sy_guard := (sy_guard s)(p := deactivate (sy_guard s p)), sy_late := insert (p, q) (sy_late s)\<rparr>)"
proof -
  let ?s1 = "s\<lparr>sy_tasks := [0 \<mapsto> (p, AnchorTask f (Call (GetLease ns n) k))]\<rparr>"
  let ?s2 = "s\<lparr>sy_tasks := [0 \<mapsto> (p, AnchorTask f (Call q k'))]\<rparr>"
  have get: "lease_step lib serve_api delta ?s1 ?s2"
    using anchor_call [of ?s1 0 p f "GetLease ns n" k serve_api "Found (sv_lease (sy_store s))" "sy_store s" lib delta] k
    by (simp add: serve_api_def answered_def log_write_get)
  have eq: "crashed p ?s2 = s\<lparr>sy_guard := (sy_guard s)(p := deactivate (sy_guard s p)), sy_late := insert (p, q) (sy_late s)\<rparr>"
  proof -
    have "(\<lambda>t. case sy_tasks ?s2 t of Some (q, x) \<Rightarrow> if q = p then None else Some (q, x) | None \<Rightarrow> None) = Map.empty" by (auto simp: fun_eq_iff)
    moreover have "(\<Union>t. case sy_tasks ?s2 t of Some (q, x) \<Rightarrow> if q = p then pending (q, x) else {} | None \<Rightarrow> {}) = {(p, q)}"
      by (auto split: if_splits)
    ultimately show ?thesis
      using idle_task [of "s\<lparr>sy_guard := (sy_guard s)(p := deactivate (sy_guard s p)), sy_late := insert (p, q) (sy_late s)\<rparr>"] i
      unfolding crashed_def by (simp add: idle_def)
  qed
  have "lease_step lib serve_api delta ?s2 (crashed p ?s2)" by (rule crash)
  then show ?thesis
    unfolding eq by (rule rtranclp.rtrancl_into_rtrancl [OF rtranclp.rtrancl_into_rtrancl [OF r_into_rtranclp [of "lease_step lib serve_api delta", OF start] get]])
qed

lemma example_created_facts:
  "anchor_of plain_lib (sv_lease (sy_store example_created)) = Inr (Some (example_anchor 1))"
  "unheld (sv_lease (sy_store example_created))" "numbered (sy_store example_created)" "idle example_created"
  "(lease_step plain_lib serve_api delta)\<^sup>*\<^sup>* example_start example_created"
proof -
  have "unheld (sv_lease (sy_store example_start))" "anchor_of plain_lib (sv_lease (sy_store example_start)) = Inr None"
    by (simp_all add: unheld_def coord_def anchor_of_def)
  then show "anchor_of plain_lib (sv_lease (sy_store example_created)) = Inr (Some (example_anchor 1))"
    "unheld (sv_lease (sy_store example_created))" "numbered (sy_store example_created)" "idle example_created"
    "(lease_step plain_lib serve_api delta)\<^sup>*\<^sup>* example_start example_created"
    unfolding example_created_def using unfenced_commit_facts [OF _ _ _ _ _ example_anchor_typed, of example_start None] by simp_all
qed

lemma example_sent_run: "(lease_step plain_lib serve_api delta)\<^sup>*\<^sup>* example_created example_sent"
proof -
  obtain c where c: "sv_lease (sy_store example_created) = Some c" "v3_anchor_state_from_lease_optional plain_lib c = Inr (Some (example_anchor 1))"
    using example_created_facts(1) by (cases "sv_lease (sy_store example_created)") (auto simp: anchor_of_def)
  have n: "\<not> lease_has_writer_coordination c" using unheld_permitted [OF example_created_facts(2), of None] c(1) by (simp add: permitted_def)
  have s: "\<not> stale_advance (Some (example_anchor 1)) (Some (example_anchor 1)) (example_anchor 2)"
    by (simp add: stale_advance_def example_anchor_def word_le_nat_alt)
  let ?op = "compare_and_advance_lease plain_lib example_settings False (Some (example_anchor 1)) (example_anchor 2)"
  obtain k where k: "map_lease_io (\<lambda>_. ()) ?op = Call (GetLease (lit ''rs3'') (lit ''anchor'')) k"
    and kc: "k (Found (Some c)) = map_lease_io (\<lambda>_. ()) (v3_lease_for_anchor_advance plain_lib c (example_anchor 2) False (\<lambda>prepared. case prepared of
                  Inl err \<Rightarrow> Return (Inl err)
                | Inr updated \<Rightarrow>
                    replace_lease example_settings updated (\<lambda>replaced. case replaced of
                      Inr lease \<Rightarrow> Return (v3_anchor_state_from_lease plain_lib lease)
                    | Inl err \<Rightarrow>
                        if err = Conflict then advance_loop 15 plain_lib example_settings False (Some (example_anchor 1)) (example_anchor 2)
                        else Return (Inl AnchorAdvanceFailed))))"
    unfolding compare_and_advance_lease_def attempts advance_loop.simps get_lease_def using c(2) s by (simp add: example_settings_def)
  have k': "\<exists>k'. k (Found (Some c)) = Call (example_update example_created) k'"
    unfolding kc using n c(1)
    by (simp add: v3_lease_for_anchor_advance_def validate_writer_fence_def replace_lease_def example_update_def example_settings_def)
  have "lease_step plain_lib serve_api delta example_created (example_created\<lparr>sy_tasks := [0 \<mapsto> (3, AnchorTask None (map_lease_io (\<lambda>_. ()) ?op))]\<rparr>)"
    using start_advance [OF _ example_anchor_typed, of example_created 0 None 3 plain_lib serve_api delta example_settings] example_created_facts(4)
    by (simp add: idle_def)
  from send_and_crash [OF example_created_facts(4) this [unfolded k]] k' c(1) show ?thesis by (auto simp: example_sent_def)
qed

lemma example_late:
  "(lease_step plain_lib serve_api delta)\<^sup>*\<^sup>* example_start example_overtaken"
  "(3, example_update example_created) \<in> in_flight example_overtaken"
  "\<exists>c c'. sv_lease (sy_store example_created) = Some c \<and> sv_lease (sy_store example_overtaken) = Some c' \<and> resource_version c \<noteq> resource_version c'"
proof -
  have x: "\<forall>y. Some (example_anchor 1) = Some y \<longrightarrow> an_sequence y < an_sequence (example_anchor 3)" by (simp add: example_anchor_def)
  have e: "sy_store example_sent = sy_store example_created" "idle example_sent"
    using example_created_facts(4) by (simp_all add: example_sent_def idle_def)
  note f = unfenced_commit_facts [of example_sent, unfolded e(1), OF example_created_facts(3) e(2) example_created_facts(1,2) x example_anchor_typed,
      where p = 2, folded example_overtaken_def]
  note run = rtranclp_trans [OF example_created_facts(5) example_sent_run]
  have steps: "(lease_step plain_lib serve_api delta)\<^sup>*\<^sup>* example_start example_overtaken" for delta
    using rtranclp_trans [OF run f(5)] .
  then show "(lease_step plain_lib serve_api delta)\<^sup>*\<^sup>* example_start example_overtaken" .
  show "(3, example_update example_created) \<in> in_flight example_overtaken"
    unfolding in_flight_def example_overtaken_def unfenced_commit_def after_anchor_def
    using run_io_late [of example_sent] by (auto simp: example_sent_def)
  have inv: "lease_inv plain_lib 0 example_sent" "lease_inv plain_lib 0 example_overtaken"
    using steps_inv(1) [OF run serve_api_law initial_inv [OF example_initial]] steps_inv(1) [OF steps serve_api_law initial_inv [OF example_initial]] .
  have x: "extends example_sent example_overtaken" using steps_inv(2) [OF f(5) serve_api_law inv(1)] .
  obtain c where c: "sv_lease (sy_store example_created) = Some c" "v3_anchor_state_from_lease_optional plain_lib c = Inr (Some (example_anchor 1))"
    using example_created_facts(1) by (cases "sv_lease (sy_store example_created)") (auto simp: anchor_of_def)
  obtain c' where c': "sv_lease (sy_store example_overtaken) = Some c'" "v3_anchor_state_from_lease_optional plain_lib c' = Inr (Some (example_anchor 3))"
    using f(1) by (cases "sv_lease (sy_store example_overtaken)") (auto simp: anchor_of_def)
  have "known example_sent c" using invD(2) [OF inv(1)] c(1) e(1) by (simp add: store_inv_def)
  then have "known example_overtaken c" by (rule extends_known [OF x])
  moreover have "known example_overtaken c'" using invD(2) [OF inv(2)] c'(1) by (simp add: store_inv_def)
  moreover have "c \<noteq> c'" using c(2) c'(2) by (auto simp: example_anchor_def)
  ultimately have "resource_version c \<noteq> resource_version c'" using known_unique by blast
  with c(1) c'(1) show "\<exists>c c'. sv_lease (sy_store example_created) = Some c \<and> sv_lease (sy_store example_overtaken) = Some c' \<and>
      resource_version c \<noteq> resource_version c'" by blast
qed

end
