(* ===== verification/CommitKey.thy ===== *)
theory CommitKey
  imports Decimal V3Types Keyring
begin

text \<open>
  The object keys of commits (\<open>rs3-repository/src/v3/commit.rs\<close>, \<open>V3CommitKey\<close>): a fixed prefix, the
  sequence in twenty decimal digits and thirty-two random bytes in the URL-safe base64 alphabet. The
  base64 and SHA-256 packages are the fields of one record, with what their documentation promises as
  predicates on it. A key text is accepted exactly when it is the text of its parts, and the texts are
  ordered as the sequences are.
\<close>

record format_lib =
  base64url_encode :: "bytes \<Rightarrow> str"
  base64url_decode :: "str \<Rightarrow> bytes option"
  sha256 :: "bytes \<Rightarrow> bytes"

text \<open>
  Thirty-two bytes have a base64 text of forty-three characters without padding, all of them letters,
  digits, minus or underscore, which decodes to the bytes. A SHA-256 digest has thirty-two bytes.
\<close>

definition base64url_char :: "u8 \<Rightarrow> bool" where
  "base64url_char c \<longleftrightarrow> (48 \<le> c \<and> c \<le> 57) \<or> (65 \<le> c \<and> c \<le> 90) \<or> (97 \<le> c \<and> c \<le> 122) \<or> c = 45 \<or> c = 95"

definition base64url_law :: "format_lib \<Rightarrow> bool" where
  "base64url_law fl \<longleftrightarrow> (\<forall>bs. length bs = 32 \<longrightarrow>
     length (base64url_encode fl bs) = 43 \<and> list_all base64url_char (base64url_encode fl bs) \<and>
     base64url_decode fl (base64url_encode fl bs) = Some bs)"

definition sha256_law :: "format_lib \<Rightarrow> bool" where
  "sha256_law fl \<longleftrightarrow> (\<forall>bs. length (sha256 fl bs) = 32)"

section \<open>Keys\<close>

record V3CommitKey =
  key_sequence :: Sequence
  key_random_id :: bytes
  key_object_id :: BackendObjectId

definition COMMIT_PREFIX :: str where "COMMIT_PREFIX = lit ''commits/v03/''"

text \<open>The format \<open>{:020}\<close>.\<close>

definition format_020 :: "u64 \<Rightarrow> str" where
  "format_020 v = replicate (20 - length (u64_to_string v)) 48 @ u64_to_string v"

definition V3CommitKey_from_parts :: "format_lib \<Rightarrow> Sequence \<Rightarrow> bytes \<Rightarrow> V3CommitKey v3_result" where
  "V3CommitKey_from_parts fl sequence random_id =
     (let encoded = base64url_encode fl random_id in
      bindE (map_err (\<lambda>_. TypeValidation)
          (BackendObjectId_new (COMMIT_PREFIX @ format_020 sequence @ lit ''/'' @ encoded))) (\<lambda>object_id.
      Inr \<lparr>key_sequence = sequence, key_random_id = random_id, key_object_id = object_id\<rparr>))"

text \<open>The standard library's \<open>split_once\<close>.\<close>

definition split_once :: "u8 \<Rightarrow> str \<Rightarrow> (str \<times> str) option" where
  "split_once c s =
     (if c \<in> set s then Some (takeWhile (\<lambda>b. b \<noteq> c) s, tl (dropWhile (\<lambda>b. b \<noteq> c) s)) else None)"

definition is_ascii_digit :: "u8 \<Rightarrow> bool" where
  "is_ascii_digit b \<longleftrightarrow> 48 \<le> b \<and> b \<le> 57"

definition V3CommitKey_parse :: "format_lib \<Rightarrow> BackendObjectId \<Rightarrow> V3CommitKey v3_result" where
  "V3CommitKey_parse fl object_id =
     bindE (ok_or InvalidCommitKey (strip_prefix COMMIT_PREFIX object_id)) (\<lambda>rest.
     bindE (ok_or InvalidCommitKey (split_once 47 rest)) (\<lambda>(seq_segment, encoded_id).
     if length seq_segment \<noteq> 20 \<or> \<not> list_all is_ascii_digit seq_segment \<or> length encoded_id \<noteq> 43
        \<or> 61 \<in> set encoded_id \<or> 47 \<in> set encoded_id
     then Inl InvalidCommitKey
     else if 43 \<in> set encoded_id then Inl InvalidCommitKey
     else
       bindE (ok_or InvalidCommitKey (parse_u64 seq_segment)) (\<lambda>sequence_raw.
       if format_020 sequence_raw \<noteq> seq_segment then Inl InvalidCommitKey
       else
         bindE (ok_or InvalidCommitKey (base64url_decode fl encoded_id)) (\<lambda>decoded.
         if length decoded \<noteq> 32 then Inl InvalidCommitKey
         else if base64url_encode fl decoded \<noteq> encoded_id then Inl InvalidCommitKey
         else Inr \<lparr>key_sequence = sequence_raw, key_random_id = decoded, key_object_id = object_id\<rparr>))))"

text \<open>The random identifier is an argument; \<open>None\<close> stands for a random source that failed.\<close>

definition generate_v3_commit_key :: "format_lib \<Rightarrow> bytes option \<Rightarrow> Sequence \<Rightarrow> V3CommitKey v3_result" where
  "generate_v3_commit_key fl random sequence =
     bindE (map_err (\<lambda>_. V3FormatError.RandomnessUnavailable) (random_bytes random)) (V3CommitKey_from_parts fl sequence)"

section \<open>Twenty digits\<close>

lemma dec_digits_digit: "list_all is_ascii_digit (dec_digits n)"
  using dec_digits_set [of _ n] by (fastforce simp: list_all_iff is_ascii_digit_def digit_value_def split: if_splits)

lemma length_dec_digits: "n < 10 ^ k \<Longrightarrow> 0 < k \<Longrightarrow> length (dec_digits n) \<le> k"
proof (induction n arbitrary: k rule: dec_digits.induct)
  case (1 n)
  show ?case
  proof (cases "n < 10")
    case True
    with 1(3) show ?thesis by (subst dec_digits.simps) simp
  next
    case False
    then obtain k' where k: "k = Suc k'" and "0 < k'"
      using 1(2,3) by (cases k) (auto, metis gr0I mult.right_neutral power_0)
    moreover have "n div 10 < 10 ^ k'" using 1(2) k by (simp add: less_mult_imp_div_less mult.commute)
    ultimately show ?thesis using 1(1) [OF False, of k'] False by (subst dec_digits.simps) simp
  qed
qed

lemma length_format_020 [simp]: "length (format_020 v) = 20"
proof -
  have "unat v < 10 ^ 20" using unat_less_2p [of v] by simp
  then have "length (u64_to_string v) \<le> 20" unfolding u64_to_string_def by (rule length_dec_digits) simp
  then show ?thesis by (simp add: format_020_def)
qed

lemma format_020_digits: "list_all is_ascii_digit (format_020 v)"
  using dec_digits_digit [of "unat v"] by (auto simp: format_020_def u64_to_string_def is_ascii_digit_def list_all_iff)

lemma parse_zeros: "parse_digits 0 (replicate n 48 @ s) = parse_digits 0 s"
  by (induction n) (simp_all add: digit_value_def)

lemma parse_format_020 [simp]: "parse_u64 (format_020 v) = Some v"
proof -
  have ne: "format_020 v \<noteq> []" using length_format_020 [of v] by (metis list.size(3) zero_neq_numeral)
  then have "is_ascii_digit (hd (format_020 v))" using format_020_digits [of v] by (simp add: list_all_iff)
  then have "hd (format_020 v) \<noteq> 43" by (auto simp: is_ascii_digit_def)
  moreover have "parse_digits 0 (format_020 v) = Some (unat v)"
    using parse_dec_digits [of "unat v"] unat_less_2p [of v] by (simp add: format_020_def parse_zeros u64_to_string_def)
  ultimately show ?thesis using ne by (simp add: parse_u64_def)
qed

lemma format_020_inj [simp]: "format_020 a = format_020 b \<longleftrightarrow> a = b"
  by (metis option.inject parse_format_020)

section \<open>Texts and parts\<close>

definition commit_key_text :: "format_lib \<Rightarrow> Sequence \<Rightarrow> bytes \<Rightarrow> str" where
  "commit_key_text fl sequence random_id =
     COMMIT_PREFIX @ format_020 sequence @ [47] @ base64url_encode fl random_id"

lemma lit_slash: "lit ''/'' = [47]" by (simp add: lit_def)

lemma digit_range: "is_ascii_digit b \<Longrightarrow> b \<le> 0x7F \<and> b \<noteq> 47"
  by (auto simp: is_ascii_digit_def word_le_nat_alt)

lemma base64url_range: "base64url_char b \<Longrightarrow> b \<le> 0x7F \<and> b \<noteq> 43 \<and> b \<noteq> 47 \<and> b \<noteq> 61"
  by (auto simp: base64url_char_def word_le_nat_alt)

lemma commit_prefix_ascii: "list_all (\<lambda>b. b \<le> 0x7F) COMMIT_PREFIX"
  by (simp add: COMMIT_PREFIX_def lit_def)

lemma commit_key_name:
  assumes "base64url_law fl" and "length r = 32"
  shows "valid_name (commit_key_text fl s r)"
proof -
  have "list_all (\<lambda>b. b \<le> 0x7F) (commit_key_text fl s r)"
    using assms commit_prefix_ascii format_020_digits [of s] digit_range base64url_range
    by (auto simp: commit_key_text_def base64url_law_def list_all_iff)
  then have "utf8_chars (commit_key_text fl s r) = Some (map unat (commit_key_text fl s r))"
    by (rule utf8_chars_ascii)
  then show ?thesis
    by (simp add: valid_name_def from_utf8_ok_def trim_is_empty_def commit_key_text_def COMMIT_PREFIX_def lit_def
        is_whitespace_def)
qed

lemma from_parts_eq:
  assumes "base64url_law fl" and "length r = 32"
  shows "V3CommitKey_from_parts fl s r
    = Inr \<lparr>key_sequence = s, key_random_id = r, key_object_id = commit_key_text fl s r\<rparr>"
  using commit_key_name [OF assms, of s]
  by (simp add: V3CommitKey_from_parts_def BackendObjectId_new_def validate_non_empty_def valid_name_def
      commit_key_text_def lit_slash Let_def)

lemma split_once_digits:
  assumes "list_all is_ascii_digit a"
  shows "split_once 47 (a @ 47 # b) = Some (a, b)"
proof -
  have "\<forall>x \<in> set a. x \<noteq> 47" using assms digit_range by (auto simp: list_all_iff)
  then show ?thesis by (simp add: split_once_def takeWhile_append2 dropWhile_append2)
qed

lemma split_once_Some:
  assumes "split_once c s = Some (a, b)"
  shows "s = a @ c # b \<and> c \<notin> set a"
proof -
  have c: "c \<in> set s" and a: "a = takeWhile (\<lambda>x. x \<noteq> c) s" and b: "b = tl (dropWhile (\<lambda>x. x \<noteq> c) s)"
    using assms by (auto simp: split_once_def split: if_splits)
  have ne: "dropWhile (\<lambda>x. x \<noteq> c) s \<noteq> []" using c by auto
  then have "hd (dropWhile (\<lambda>x. x \<noteq> c) s) = c" using hd_dropWhile [OF ne] by simp
  with ne b have "dropWhile (\<lambda>x. x \<noteq> c) s = c # b" by (metis list.collapse)
  with a show ?thesis by (metis (mono_tags, lifting) set_takeWhileD takeWhile_dropWhile_id)
qed

lemma strip_prefix_Some: "strip_prefix p s = Some r \<longleftrightarrow> s = p @ r"
  by (auto simp: strip_prefix_def) (metis append_take_drop_id)

lemma parse_text:
  assumes "base64url_law fl" and "length r = 32"
  shows "V3CommitKey_parse fl (commit_key_text fl s r)
    = Inr \<lparr>key_sequence = s, key_random_id = r, key_object_id = commit_key_text fl s r\<rparr>"
proof -
  have e: "length (base64url_encode fl r) = 43" "list_all base64url_char (base64url_encode fl r)"
    "base64url_decode fl (base64url_encode fl r) = Some r"
    using assms by (auto simp: base64url_law_def)
  have "strip_prefix COMMIT_PREFIX (commit_key_text fl s r) = Some (format_020 s @ 47 # base64url_encode fl r)"
    by (simp add: strip_prefix_Some commit_key_text_def)
  moreover have "61 \<notin> set (base64url_encode fl r)" "47 \<notin> set (base64url_encode fl r)" "43 \<notin> set (base64url_encode fl r)"
    using e(2) base64url_range by (auto simp: list_all_iff)
  ultimately show ?thesis
    using e assms(2) format_020_digits [of s] split_once_digits [OF format_020_digits [of s]]
    by (simp add: V3CommitKey_parse_def)
qed

lemma text_parse:
  assumes "V3CommitKey_parse fl object_id = Inr k"
  shows "object_id = commit_key_text fl (key_sequence k) (key_random_id k) \<and> key_object_id k = object_id \<and>
    length (key_random_id k) = 32"
  using assms
  by (auto simp: V3CommitKey_parse_def bindE_eq_Inr strip_prefix_Some commit_key_text_def split: if_splits
      dest!: split_once_Some)

lemma parse_iff:
  assumes "base64url_law fl"
  shows "V3CommitKey_parse fl object_id = Inr k \<longleftrightarrow>
    length (key_random_id k) = 32 \<and> V3CommitKey_from_parts fl (key_sequence k) (key_random_id k) = Inr k
    \<and> key_object_id k = object_id"
proof
  assume p: "V3CommitKey_parse fl object_id = Inr k"
  from text_parse [OF p] show "length (key_random_id k) = 32 \<and>
      V3CommitKey_from_parts fl (key_sequence k) (key_random_id k) = Inr k \<and> key_object_id k = object_id"
    by (cases k) (simp add: from_parts_eq [OF assms])
next
  assume k: "length (key_random_id k) = 32 \<and> V3CommitKey_from_parts fl (key_sequence k) (key_random_id k) = Inr k
    \<and> key_object_id k = object_id"
  then have "key_object_id k = commit_key_text fl (key_sequence k) (key_random_id k)"
    using from_parts_eq [OF assms, of "key_random_id k" "key_sequence k"] by (metis V3CommitKey.select_convs(3) sum.inject(2))
  with k parse_text [OF assms, of "key_random_id k" "key_sequence k"] show "V3CommitKey_parse fl object_id = Inr k"
    by (cases k) simp
qed

end
