(* ===== verification/Commit.thy ===== *)
theory Commit
  imports CommitKey Cbor
begin

text \<open>
  Commit objects (\<open>rs3-repository/src/v3/commit.rs\<close>): the header with its references, its section
  table, its canonical encoding as integer-keyed maps, the signature over the header span with the
  signature field zeroed, the section layout and the digests over the section bytes, and the shapes a
  commit of each kind may have. An object is the fixed forty-byte prefix, the header and the sections.
\<close>

abbreviation (input) V3_HEADER_META_LEN :: nat where "V3_HEADER_META_LEN \<equiv> 40"
abbreviation (input) V3_MAX_HEADER_SIZE :: nat where "V3_MAX_HEADER_SIZE \<equiv> 8192"
abbreviation (input) MAX_HEADER_CBOR_LEN :: nat where "MAX_HEADER_CBOR_LEN \<equiv> V3_MAX_HEADER_SIZE - V3_HEADER_META_LEN"
abbreviation (input) V3_MAX_COMMIT_SECTIONS :: nat where "V3_MAX_COMMIT_SECTIONS \<equiv> 3"
abbreviation (input) V3_FORMAT_VERSION :: u32 where "V3_FORMAT_VERSION \<equiv> 3"
abbreviation (input) V3_MIN_READER_VERSION :: u32 where "V3_MIN_READER_VERSION \<equiv> 3"
abbreviation (input) V3_SECTION_FLAG_MUST_UNDERSTAND :: u8 where "V3_SECTION_FLAG_MUST_UNDERSTAND \<equiv> 1"
abbreviation (input) V3_SECTION_FLAG_COMPRESSED :: u8 where "V3_SECTION_FLAG_COMPRESSED \<equiv> 2"

definition V3_COMMIT_MAGIC :: bytes where "V3_COMMIT_MAGIC = lit ''rs3:cmt'' @ [10]"

section \<open>Data\<close>

datatype V3CommitKind = Delta | Root

fun V3CommitKind_to_wire :: "V3CommitKind \<Rightarrow> u8" where
  "V3CommitKind_to_wire Delta = 1"
| "V3CommitKind_to_wire Root = 2"

definition V3CommitKind_from_wire :: "u64 \<Rightarrow> V3CommitKind v3_result" where
  "V3CommitKind_from_wire value =
     (if value = 1 then Inr Delta else if value = 2 then Inr Root else Inl InvalidHeaderField)"

datatype V3SectionType = IndexRun | IndexRoot | PayloadPack | Recovery | Unknown u16

fun V3SectionType_to_wire :: "V3SectionType \<Rightarrow> u16" where
  "V3SectionType_to_wire IndexRun = 0x0005"
| "V3SectionType_to_wire IndexRoot = 0x0006"
| "V3SectionType_to_wire PayloadPack = 0x0007"
| "V3SectionType_to_wire Recovery = 0x0008"
| "V3SectionType_to_wire (Unknown value) = value"

definition V3SectionType_from_wire :: "u16 \<Rightarrow> V3SectionType" where
  "V3SectionType_from_wire value =
     (if value = 0x0005 then IndexRun else if value = 0x0006 then IndexRoot
      else if value = 0x0007 then PayloadPack else if value = 0x0008 then Recovery else Unknown value)"

definition section_is_supported :: "V3SectionType \<Rightarrow> bool" where
  "section_is_supported t \<longleftrightarrow> \<not> (case t of Unknown _ \<Rightarrow> True | _ \<Rightarrow> False)"

record V3CommitSelfRef =
  sr_sequence :: Sequence
  sr_commit_key :: BackendObjectId

record V3CommitParentRef =
  pr_sequence :: Sequence
  pr_commit_key :: BackendObjectId
  pr_body_digest :: bytes
  pr_version_id :: "BackendVersionId option"

record V3Algorithms =
  al_signature :: str
  al_payload_aead :: str
  al_index_aead :: str
  al_digest :: str
  al_kdf :: str

definition V3Algorithms_v03 :: V3Algorithms where
  "V3Algorithms_v03 = \<lparr>al_signature = lit ''Ed25519'', al_payload_aead = lit ''XChaCha20-Poly1305'',
     al_index_aead = lit ''AES-256-GCM-SIV-Random-Nonce-v1'', al_digest = lit ''SHA-256'',
     al_kdf = lit ''HMAC-SHA256''\<rparr>"

record V3KeyringEnvelopeRef =
  ke_object_id :: BackendObjectId
  ke_digest :: bytes

record V3SectionDescriptor =
  sd_section_type :: V3SectionType
  sd_offset :: u64
  sd_length :: u64
  sd_flags :: u8
  sd_digest :: bytes

record V3CommitHeader =
  ch_self_ref :: V3CommitSelfRef
  ch_parent :: "V3CommitParentRef option"
  ch_publish_time_ms :: i64
  ch_kind :: V3CommitKind
  ch_algorithms :: V3Algorithms
  ch_keyring_envelope_ref :: V3KeyringEnvelopeRef
  ch_section_index :: "V3SectionDescriptor list"
  ch_body_digest :: bytes
  ch_signature :: bytes
  ch_signing_key_id :: KeyId

record V3ParsedCommitHeader =
  ph_header :: V3CommitHeader
  ph_header_len :: nat
  ph_sections_start :: nat

record V3ParsedCommit =
  pc_parsed_header :: V3ParsedCommitHeader
  pc_version_id :: "BackendVersionId option"
  pc_body :: bytes

datatype SignatureMode = Actual | Zero

section \<open>Encoding\<close>

definition encode_self_ref :: "bytes \<Rightarrow> V3CommitSelfRef \<Rightarrow> bytes" where
  "encode_self_ref out self_ref =
     (let out = write_map_len out 2;
          out = write_u64 out 1; out = write_u64 out (sr_sequence self_ref);
          out = write_u64 out 2
      in write_text out (sr_commit_key self_ref))"

definition encode_parent_ref :: "bytes \<Rightarrow> V3CommitParentRef \<Rightarrow> bytes" where
  "encode_parent_ref out parent =
     (let out = write_map_len out 4;
          out = write_u64 out 1; out = write_u64 out (pr_sequence parent);
          out = write_u64 out 2; out = write_text out (pr_commit_key parent);
          out = write_u64 out 3; out = write_bytes out (pr_body_digest parent);
          out = write_u64 out 4
      in case pr_version_id parent of
           Some version_id \<Rightarrow> write_bytes out version_id
         | None \<Rightarrow> write_null out)"

definition encode_algorithms :: "bytes \<Rightarrow> V3Algorithms \<Rightarrow> bytes" where
  "encode_algorithms out algorithms =
     (let out = write_map_len out 5;
          out = write_u64 out 1; out = write_text out (al_signature algorithms);
          out = write_u64 out 2; out = write_text out (al_payload_aead algorithms);
          out = write_u64 out 3; out = write_text out (al_index_aead algorithms);
          out = write_u64 out 4; out = write_text out (al_digest algorithms);
          out = write_u64 out 5
      in write_text out (al_kdf algorithms))"

definition encode_keyring_ref :: "bytes \<Rightarrow> V3KeyringEnvelopeRef \<Rightarrow> bytes" where
  "encode_keyring_ref out reference =
     (let out = write_map_len out 2;
          out = write_u64 out 1; out = write_text out (ke_object_id reference);
          out = write_u64 out 2
      in write_bytes out (ke_digest reference))"

definition encode_section :: "bytes \<Rightarrow> V3SectionDescriptor \<Rightarrow> bytes" where
  "encode_section out s =
     (let out = write_map_len out 5;
          out = write_u64 out 1; out = write_u64 out (ucast (V3SectionType_to_wire (sd_section_type s)));
          out = write_u64 out 2; out = write_u64 out (sd_offset s);
          out = write_u64 out 3; out = write_u64 out (sd_length s);
          out = write_u64 out 4; out = write_u64 out (ucast (sd_flags s));
          out = write_u64 out 5
      in write_bytes out (sd_digest s))"

definition encode_header_cbor :: "V3CommitHeader \<Rightarrow> SignatureMode \<Rightarrow> bytes v3_result" where
  "encode_header_cbor header signature_mode =
     (let out = write_map_len [] 10;
          out = encode_self_ref (write_u64 out 1) (ch_self_ref header);
          out = write_u64 out 2;
          out = (case ch_parent header of Some parent \<Rightarrow> encode_parent_ref out parent | None \<Rightarrow> write_null out);
          out = write_i64 (write_u64 out 3) (ch_publish_time_ms header);
          out = write_u64 (write_u64 out 4) (ucast (V3CommitKind_to_wire (ch_kind header)));
          out = encode_algorithms (write_u64 out 5) (ch_algorithms header);
          out = encode_keyring_ref (write_u64 out 6) (ch_keyring_envelope_ref header);
          out = write_array_len (write_u64 out 7) (length (ch_section_index header));
          out = foldl encode_section out (ch_section_index header);
          out = write_bytes (write_u64 out 8) (ch_body_digest header);
          out = write_u64 out 9;
          out = (case signature_mode of
                   Actual \<Rightarrow> write_bytes out (ch_signature header)
                 | Zero \<Rightarrow> write_bytes out (replicate 64 0));
          out = write_bytes (write_u64 out 10) (ch_signing_key_id header)
      in Inr out)"

definition header_span :: "V3CommitHeader \<Rightarrow> SignatureMode \<Rightarrow> bytes v3_result" where
  "header_span header signature_mode =
     bindE (encode_header_cbor header signature_mode) (\<lambda>cbor.
     if length cbor > MAX_HEADER_CBOR_LEN then Inl HeaderTooLarge
     else Inr (V3_COMMIT_MAGIC @ u32_to_be_bytes V3_FORMAT_VERSION @ u32_to_be_bytes V3_MIN_READER_VERSION @
       u32_to_be_bytes (of_nat (length cbor)) @ replicate 20 0 @ cbor))"

section \<open>Decoding\<close>

definition read_ordered_key :: "Reader \<Rightarrow> u64 \<Rightarrow> V3FormatError + u64 \<times> Reader" where
  "read_ordered_key r last_key =
     bindE (map_err (\<lambda>_. MalformedCbor) (read_u64 r)) (\<lambda>(key, r).
     if key \<le> last_key then Inl MalformedCbor else Inr (key, r))"

text \<open>
  The loop over the entries of a map: each entry has a key above the last one and a value that the
  body reads into the fields found so far.
\<close>

primrec map_entries ::
  "('s \<Rightarrow> u64 \<Rightarrow> Reader \<Rightarrow> V3FormatError + 's \<times> Reader) \<Rightarrow> nat \<Rightarrow> u64 \<Rightarrow> 's \<Rightarrow> Reader \<Rightarrow>
   V3FormatError + 's \<times> Reader" where
  "map_entries entry 0 last_key found r = Inr (found, r)"
| "map_entries entry (Suc n) last_key found r =
     bindE (read_ordered_key r last_key) (\<lambda>(key, r).
     bindE (entry found key r) (\<lambda>(found, r). map_entries entry n key found r))"

definition decode_exact :: "nat \<Rightarrow> Reader \<Rightarrow> V3FormatError + bytes \<times> Reader" where
  "decode_exact n r =
     bindE (map_err (\<lambda>_. MalformedCbor) (read_bytes r)) (\<lambda>(bs, r).
     if length bs = n then Inr (bs, r) else Inl InvalidHeaderField)"

definition decode_digest :: "Reader \<Rightarrow> V3FormatError + bytes \<times> Reader" where
  "decode_digest r = decode_exact 32 r"

definition decode_signature :: "Reader \<Rightarrow> V3FormatError + bytes \<times> Reader" where
  "decode_signature r = decode_exact 64 r"

definition bytes_to_string :: "bytes \<Rightarrow> str v3_result" where
  "bytes_to_string bs = (if from_utf8_ok bs then Inr bs else Inl InvalidHeaderField)"

definition decode_key_id :: "Reader \<Rightarrow> V3FormatError + KeyId \<times> Reader" where
  "decode_key_id r =
     bindE (map_err (\<lambda>_. MalformedCbor) (read_bytes r)) (\<lambda>(bs, r).
     bindE (bytes_to_string bs) (\<lambda>text.
     bindE (map_err (\<lambda>_. TypeValidation) (KeyId_new text)) (\<lambda>key_id. Inr (key_id, r))))"

definition decode_object_id :: "Reader \<Rightarrow> V3FormatError + BackendObjectId \<times> Reader" where
  "decode_object_id r =
     bindE (map_err (\<lambda>_. MalformedCbor) (read_text r)) (\<lambda>(text, r).
     bindE (map_err (\<lambda>_. TypeValidation) (BackendObjectId_new text)) (\<lambda>object_id. Inr (object_id, r)))"

definition decode_version_id :: "Reader \<Rightarrow> V3FormatError + BackendVersionId option \<times> Reader" where
  "decode_version_id r =
     (if next_is_null r then bindE (map_err (\<lambda>_. MalformedCbor) (read_null r)) (\<lambda>(_, r). Inr (None, r))
      else
        bindE (map_err (\<lambda>_. MalformedCbor) (read_bytes r)) (\<lambda>(bs, r).
        bindE (bytes_to_string bs) (\<lambda>text.
        bindE (map_err (\<lambda>_. TypeValidation) (BackendVersionId_new text)) (\<lambda>version_id.
        Inr (Some version_id, r)))))"

definition self_ref_entry ::
  "Sequence option \<times> BackendObjectId option \<Rightarrow> u64 \<Rightarrow> Reader \<Rightarrow>
   V3FormatError + (Sequence option \<times> BackendObjectId option) \<times> Reader" where
  "self_ref_entry f key r =
     (case f of (sequence, commit_key) \<Rightarrow>
     if key = 1 then
       bindE (map_err (\<lambda>_. MalformedCbor) (read_u64 r)) (\<lambda>(value, r). Inr ((Some value, commit_key), r))
     else if key = 2 then bindE (decode_object_id r) (\<lambda>(value, r). Inr ((sequence, Some value), r))
     else Inl InvalidHeaderField)"

definition decode_self_ref :: "Reader \<Rightarrow> V3FormatError + V3CommitSelfRef \<times> Reader" where
  "decode_self_ref r =
     bindE (map_err (\<lambda>_. MalformedCbor) (read_map_len r)) (\<lambda>(len, r).
     if len \<noteq> 2 then Inl MissingHeaderField
     else
       bindE (map_entries self_ref_entry len 0 (None, None) r) (\<lambda>((sequence, commit_key), r).
       bindE (ok_or MissingHeaderField sequence) (\<lambda>sequence.
       bindE (ok_or MissingHeaderField commit_key) (\<lambda>commit_key.
       Inr (\<lparr>sr_sequence = sequence, sr_commit_key = commit_key\<rparr>, r)))))"

record parent_fields =
  pf_sequence :: "Sequence option"
  pf_commit_key :: "BackendObjectId option"
  pf_body_digest :: "bytes option"
  pf_version_id :: "BackendVersionId option option"

definition parent_ref_entry :: "parent_fields \<Rightarrow> u64 \<Rightarrow> Reader \<Rightarrow> V3FormatError + parent_fields \<times> Reader" where
  "parent_ref_entry f key r =
     (if key = 1 then
        bindE (map_err (\<lambda>_. MalformedCbor) (read_u64 r)) (\<lambda>(value, r). Inr (f\<lparr>pf_sequence := Some value\<rparr>, r))
      else if key = 2 then bindE (decode_object_id r) (\<lambda>(value, r). Inr (f\<lparr>pf_commit_key := Some value\<rparr>, r))
      else if key = 3 then bindE (decode_digest r) (\<lambda>(value, r). Inr (f\<lparr>pf_body_digest := Some value\<rparr>, r))
      else if key = 4 then bindE (decode_version_id r) (\<lambda>(value, r). Inr (f\<lparr>pf_version_id := Some value\<rparr>, r))
      else Inl InvalidHeaderField)"

definition decode_parent_ref :: "Reader \<Rightarrow> V3FormatError + V3CommitParentRef \<times> Reader" where
  "decode_parent_ref r =
     bindE (map_err (\<lambda>_. MalformedCbor) (read_map_len r)) (\<lambda>(len, r).
     if len \<noteq> 4 then Inl MissingHeaderField
     else
       bindE (map_entries parent_ref_entry len 0
           \<lparr>pf_sequence = None, pf_commit_key = None, pf_body_digest = None, pf_version_id = None\<rparr> r) (\<lambda>(f, r).
       bindE (ok_or MissingHeaderField (pf_sequence f)) (\<lambda>sequence.
       bindE (ok_or MissingHeaderField (pf_commit_key f)) (\<lambda>commit_key.
       bindE (ok_or MissingHeaderField (pf_body_digest f)) (\<lambda>body_digest.
       bindE (ok_or MissingHeaderField (pf_version_id f)) (\<lambda>version_id.
       Inr (\<lparr>pr_sequence = sequence, pr_commit_key = commit_key, pr_body_digest = body_digest,
         pr_version_id = version_id\<rparr>, r)))))))"

text \<open>The value is read before the key is looked at.\<close>

record algorithm_fields =
  af_signature :: "str option"
  af_payload_aead :: "str option"
  af_index_aead :: "str option"
  af_digest :: "str option"
  af_kdf :: "str option"

definition algorithms_entry :: "algorithm_fields \<Rightarrow> u64 \<Rightarrow> Reader \<Rightarrow> V3FormatError + algorithm_fields \<times> Reader" where
  "algorithms_entry f key r =
     bindE (map_err (\<lambda>_. MalformedCbor) (read_text r)) (\<lambda>(value, r).
     if key = 1 then Inr (f\<lparr>af_signature := Some value\<rparr>, r)
     else if key = 2 then Inr (f\<lparr>af_payload_aead := Some value\<rparr>, r)
     else if key = 3 then Inr (f\<lparr>af_index_aead := Some value\<rparr>, r)
     else if key = 4 then Inr (f\<lparr>af_digest := Some value\<rparr>, r)
     else if key = 5 then Inr (f\<lparr>af_kdf := Some value\<rparr>, r)
     else Inl InvalidHeaderField)"

definition decode_algorithms :: "Reader \<Rightarrow> V3FormatError + V3Algorithms \<times> Reader" where
  "decode_algorithms r =
     bindE (map_err (\<lambda>_. MalformedCbor) (read_map_len r)) (\<lambda>(len, r).
     if len \<noteq> 5 then Inl MissingHeaderField
     else
       bindE (map_entries algorithms_entry len 0
           \<lparr>af_signature = None, af_payload_aead = None, af_index_aead = None, af_digest = None, af_kdf = None\<rparr> r)
         (\<lambda>(f, r).
       bindE (ok_or MissingHeaderField (af_signature f)) (\<lambda>signature.
       bindE (ok_or MissingHeaderField (af_payload_aead f)) (\<lambda>payload_aead.
       bindE (ok_or MissingHeaderField (af_index_aead f)) (\<lambda>index_aead.
       bindE (ok_or MissingHeaderField (af_digest f)) (\<lambda>digest.
       bindE (ok_or MissingHeaderField (af_kdf f)) (\<lambda>kdf.
       Inr (\<lparr>al_signature = signature, al_payload_aead = payload_aead, al_index_aead = index_aead,
         al_digest = digest, al_kdf = kdf\<rparr>, r))))))))"

definition keyring_ref_entry ::
  "BackendObjectId option \<times> bytes option \<Rightarrow> u64 \<Rightarrow> Reader \<Rightarrow>
   V3FormatError + (BackendObjectId option \<times> bytes option) \<times> Reader" where
  "keyring_ref_entry f key r =
     (case f of (object_id, digest) \<Rightarrow>
     if key = 1 then bindE (decode_object_id r) (\<lambda>(value, r). Inr ((Some value, digest), r))
     else if key = 2 then bindE (decode_digest r) (\<lambda>(value, r). Inr ((object_id, Some value), r))
     else Inl InvalidHeaderField)"

definition decode_keyring_ref :: "Reader \<Rightarrow> V3FormatError + V3KeyringEnvelopeRef \<times> Reader" where
  "decode_keyring_ref r =
     bindE (map_err (\<lambda>_. MalformedCbor) (read_map_len r)) (\<lambda>(len, r).
     if len \<noteq> 2 then Inl MissingHeaderField
     else
       bindE (map_entries keyring_ref_entry len 0 (None, None) r) (\<lambda>((object_id, digest), r).
       bindE (ok_or MissingHeaderField object_id) (\<lambda>object_id.
       bindE (ok_or MissingHeaderField digest) (\<lambda>digest.
       Inr (\<lparr>ke_object_id = object_id, ke_digest = digest\<rparr>, r)))))"

record section_fields =
  tf_section_type :: "V3SectionType option"
  tf_offset :: "u64 option"
  tf_length :: "u64 option"
  tf_flags :: "u8 option"
  tf_digest :: "bytes option"

definition section_entry :: "section_fields \<Rightarrow> u64 \<Rightarrow> Reader \<Rightarrow> V3FormatError + section_fields \<times> Reader" where
  "section_entry f key r =
     (if key = 1 then
        bindE (map_err (\<lambda>_. MalformedCbor) (read_u64 r)) (\<lambda>(value, r).
        if unat value < 2 ^ 16 then Inr (f\<lparr>tf_section_type := Some (V3SectionType_from_wire (ucast value))\<rparr>, r)
        else Inl InvalidHeaderField)
      else if key = 2 then
        bindE (map_err (\<lambda>_. MalformedCbor) (read_u64 r)) (\<lambda>(value, r). Inr (f\<lparr>tf_offset := Some value\<rparr>, r))
      else if key = 3 then
        bindE (map_err (\<lambda>_. MalformedCbor) (read_u64 r)) (\<lambda>(value, r). Inr (f\<lparr>tf_length := Some value\<rparr>, r))
      else if key = 4 then
        bindE (map_err (\<lambda>_. MalformedCbor) (read_u64 r)) (\<lambda>(value, r).
        if unat value < 2 ^ 8 then Inr (f\<lparr>tf_flags := Some (ucast value)\<rparr>, r) else Inl InvalidHeaderField)
      else if key = 5 then bindE (decode_digest r) (\<lambda>(value, r). Inr (f\<lparr>tf_digest := Some value\<rparr>, r))
      else Inl InvalidHeaderField)"

definition decode_section :: "Reader \<Rightarrow> V3FormatError + V3SectionDescriptor \<times> Reader" where
  "decode_section r =
     bindE (map_err (\<lambda>_. MalformedCbor) (read_map_len r)) (\<lambda>(len, r).
     if len \<noteq> 5 then Inl MissingHeaderField
     else
       bindE (map_entries section_entry len 0
           \<lparr>tf_section_type = None, tf_offset = None, tf_length = None, tf_flags = None, tf_digest = None\<rparr> r)
         (\<lambda>(f, r).
       bindE (ok_or MissingHeaderField (tf_section_type f)) (\<lambda>section_type.
       bindE (ok_or MissingHeaderField (tf_offset f)) (\<lambda>offset.
       bindE (ok_or MissingHeaderField (tf_length f)) (\<lambda>len.
       bindE (ok_or MissingHeaderField (tf_flags f)) (\<lambda>flags.
       bindE (ok_or MissingHeaderField (tf_digest f)) (\<lambda>digest.
       Inr (\<lparr>sd_section_type = section_type, sd_offset = offset, sd_length = len, sd_flags = flags,
         sd_digest = digest\<rparr>, r))))))))"

definition decode_sections :: "Reader \<Rightarrow> V3FormatError + V3SectionDescriptor list \<times> Reader" where
  "decode_sections r =
     bindE (map_err (\<lambda>_. MalformedCbor) (read_array_len r)) (\<lambda>(len, r).
     if len > V3_MAX_COMMIT_SECTIONS then Inl InvalidHeaderField else repeatE decode_section len r)"

record header_fields =
  hf_self_ref :: "V3CommitSelfRef option"
  hf_parent :: "V3CommitParentRef option option"
  hf_publish_time_ms :: "i64 option"
  hf_kind :: "V3CommitKind option"
  hf_algorithms :: "V3Algorithms option"
  hf_keyring_envelope_ref :: "V3KeyringEnvelopeRef option"
  hf_section_index :: "V3SectionDescriptor list option"
  hf_body_digest :: "bytes option"
  hf_signature :: "bytes option"
  hf_signing_key_id :: "KeyId option"

definition decode_parent :: "Reader \<Rightarrow> V3FormatError + V3CommitParentRef option \<times> Reader" where
  "decode_parent r =
     (if next_is_null r then bindE (map_err (\<lambda>_. MalformedCbor) (read_null r)) (\<lambda>(_, r). Inr (None, r))
      else bindE (decode_parent_ref r) (\<lambda>(parent, r). Inr (Some parent, r)))"

definition decode_kind :: "Reader \<Rightarrow> V3FormatError + V3CommitKind \<times> Reader" where
  "decode_kind r =
     bindE (map_err (\<lambda>_. MalformedCbor) (read_u64 r)) (\<lambda>(value, r).
     bindE (V3CommitKind_from_wire value) (\<lambda>kind. Inr (kind, r)))"

definition header_entry :: "header_fields \<Rightarrow> u64 \<Rightarrow> Reader \<Rightarrow> V3FormatError + header_fields \<times> Reader" where
  "header_entry f key r =
     (if key = 1 then bindE (decode_self_ref r) (\<lambda>(value, r). Inr (f\<lparr>hf_self_ref := Some value\<rparr>, r))
      else if key = 2 then bindE (decode_parent r) (\<lambda>(value, r). Inr (f\<lparr>hf_parent := Some value\<rparr>, r))
      else if key = 3 then
        bindE (map_err (\<lambda>_. MalformedCbor) (read_i64 r)) (\<lambda>(value, r). Inr (f\<lparr>hf_publish_time_ms := Some value\<rparr>, r))
      else if key = 4 then bindE (decode_kind r) (\<lambda>(value, r). Inr (f\<lparr>hf_kind := Some value\<rparr>, r))
      else if key = 5 then bindE (decode_algorithms r) (\<lambda>(value, r). Inr (f\<lparr>hf_algorithms := Some value\<rparr>, r))
      else if key = 6 then
        bindE (decode_keyring_ref r) (\<lambda>(value, r). Inr (f\<lparr>hf_keyring_envelope_ref := Some value\<rparr>, r))
      else if key = 7 then bindE (decode_sections r) (\<lambda>(value, r). Inr (f\<lparr>hf_section_index := Some value\<rparr>, r))
      else if key = 8 then bindE (decode_digest r) (\<lambda>(value, r). Inr (f\<lparr>hf_body_digest := Some value\<rparr>, r))
      else if key = 9 then bindE (decode_signature r) (\<lambda>(value, r). Inr (f\<lparr>hf_signature := Some value\<rparr>, r))
      else if key = 10 then bindE (decode_key_id r) (\<lambda>(value, r). Inr (f\<lparr>hf_signing_key_id := Some value\<rparr>, r))
      else Inl InvalidHeaderField)"

definition no_header_fields :: header_fields where
  "no_header_fields = \<lparr>hf_self_ref = None, hf_parent = None, hf_publish_time_ms = None, hf_kind = None,
     hf_algorithms = None, hf_keyring_envelope_ref = None, hf_section_index = None, hf_body_digest = None,
     hf_signature = None, hf_signing_key_id = None\<rparr>"

definition header_of_fields :: "header_fields \<Rightarrow> V3CommitHeader v3_result" where
  "header_of_fields f =
     bindE (ok_or MissingHeaderField (hf_self_ref f)) (\<lambda>self_ref.
     bindE (ok_or MissingHeaderField (hf_parent f)) (\<lambda>parent.
     bindE (ok_or MissingHeaderField (hf_publish_time_ms f)) (\<lambda>publish_time_ms.
     bindE (ok_or MissingHeaderField (hf_kind f)) (\<lambda>kind.
     bindE (ok_or MissingHeaderField (hf_algorithms f)) (\<lambda>algorithms.
     bindE (ok_or MissingHeaderField (hf_keyring_envelope_ref f)) (\<lambda>keyring_envelope_ref.
     bindE (ok_or MissingHeaderField (hf_section_index f)) (\<lambda>section_index.
     bindE (ok_or MissingHeaderField (hf_body_digest f)) (\<lambda>body_digest.
     bindE (ok_or MissingHeaderField (hf_signature f)) (\<lambda>signature.
     bindE (ok_or MissingHeaderField (hf_signing_key_id f)) (\<lambda>signing_key_id.
     Inr \<lparr>ch_self_ref = self_ref, ch_parent = parent, ch_publish_time_ms = publish_time_ms, ch_kind = kind,
       ch_algorithms = algorithms, ch_keyring_envelope_ref = keyring_envelope_ref,
       ch_section_index = section_index, ch_body_digest = body_digest, ch_signature = signature,
       ch_signing_key_id = signing_key_id\<rparr>))))))))))"

definition decode_header_cbor :: "bytes \<Rightarrow> V3CommitHeader v3_result" where
  "decode_header_cbor bs =
     bindE (map_err (\<lambda>_. MalformedCbor) (read_map_len (Reader_new bs))) (\<lambda>(len, r).
     if len \<noteq> 10 then Inl MissingHeaderField
     else
       bindE (map_entries header_entry len 0 no_header_fields r) (\<lambda>(f, r).
       if \<not> is_finished r then Inl MalformedCbor else header_of_fields f))"

section \<open>Section layout and shapes\<close>

definition section_step :: "u64 \<Rightarrow> u64 \<Rightarrow> V3SectionDescriptor \<Rightarrow> u64 v3_result" where
  "section_step section_region_len next_start s =
     (if sd_flags s AND NOT (V3_SECTION_FLAG_MUST_UNDERSTAND OR V3_SECTION_FLAG_COMPRESSED) \<noteq> 0
      then Inl ReservedSectionFlags
      else if sd_flags s AND V3_SECTION_FLAG_MUST_UNDERSTAND \<noteq> 0 \<and> \<not> section_is_supported (sd_section_type s)
      then Inl UnsupportedSection
      else
        bindE (ok_or SectionBounds (checked_add (sd_offset s) (sd_length s))) (\<lambda>stop.
        if sd_offset s \<noteq> next_start \<or> stop > section_region_len then Inl SectionBounds else Inr stop))"

definition validate_section_layout :: "V3SectionDescriptor list \<Rightarrow> u64 \<Rightarrow> unit v3_result" where
  "validate_section_layout section_index section_region_len =
     (if length section_index > V3_MAX_COMMIT_SECTIONS then Inl InvalidHeaderField
      else
        bindE (foldE (section_step section_region_len) 0 section_index) (\<lambda>next_start.
        if next_start \<noteq> section_region_len then Inl SectionBounds else Inr ()))"

definition validate_commit_section_semantics :: "V3CommitHeader \<Rightarrow> unit v3_result" where
  "validate_commit_section_semantics header =
     (if (case ch_parent header of
            None \<Rightarrow> sr_sequence (ch_self_ref header) \<noteq> 1
          | Some parent \<Rightarrow> checked_next (pr_sequence parent) \<noteq> Some (sr_sequence (ch_self_ref header)))
      then Inl InvalidHeaderField
      else if list_ex (\<lambda>s. sd_flags s \<noteq> V3_SECTION_FLAG_MUST_UNDERSTAND) (ch_section_index header)
      then Inl InvalidHeaderField
      else
        let types = map sd_section_type (ch_section_index header);
            valid = (case ch_kind header of
                Root \<Rightarrow> types = [IndexRoot] \<or> types = [IndexRoot, Recovery]
              | Delta \<Rightarrow> ch_parent header \<noteq> None \<and>
                  (types = [IndexRun] \<or> types = [PayloadPack, IndexRun] \<or> types = [IndexRun, Recovery]
                   \<or> types = [PayloadPack, IndexRun, Recovery]))
        in if \<not> valid then Inl InvalidHeaderField else Inr ())"

definition validate_v3_commit_object_len :: "V3ParsedCommitHeader \<Rightarrow> u64 \<Rightarrow> unit v3_result" where
  "validate_v3_commit_object_len parsed object_len =
     (if ph_sections_start parsed \<ge> 2 ^ 64 then Inl SectionBounds
      else if unat object_len < ph_sections_start parsed then Inl TruncatedBody
      else
        bindE (validate_section_layout (ch_section_index (ph_header parsed))
            (object_len - of_nat (ph_sections_start parsed))) (\<lambda>_.
        validate_commit_section_semantics (ph_header parsed)))"

section \<open>Digests\<close>

text \<open>The running hasher is the bytes it has absorbed.\<close>

definition digest_v3_section :: "format_lib \<Rightarrow> bytes \<Rightarrow> bytes" where
  "digest_v3_section fl section_bytes = sha256 fl section_bytes"

definition section_slice :: "bytes \<Rightarrow> V3SectionDescriptor \<Rightarrow> bytes" where
  "section_slice section_region s = take (unat (sd_length s)) (drop (unat (sd_offset s)) section_region)"

definition digest_step :: "format_lib \<Rightarrow> bytes \<Rightarrow> bytes \<Rightarrow> V3SectionDescriptor \<Rightarrow> bytes v3_result" where
  "digest_step fl section_region absorbed s =
     bindE (ok_or SectionBounds (usize_add (unat (sd_offset s)) (unat (sd_length s)))) (\<lambda>_.
     let section_bytes = section_slice section_region s in
     if digest_v3_section fl section_bytes \<noteq> sd_digest s then Inl SectionDigestMismatch
     else Inr (absorbed @ section_bytes))"

definition body_digest_for_v3_sections ::
  "format_lib \<Rightarrow> V3SectionDescriptor list \<Rightarrow> bytes \<Rightarrow> bytes v3_result" where
  "body_digest_for_v3_sections fl section_index section_region =
     (if length section_region \<ge> 2 ^ 64 then Inl SectionBounds
      else
        bindE (validate_section_layout section_index (of_nat (length section_region))) (\<lambda>_.
        bindE (foldE (digest_step fl section_region) [] section_index) (\<lambda>absorbed.
        Inr (sha256 fl absorbed))))"

section \<open>Signing, writing and reading\<close>

definition sign_with_keyring :: "crypto_lib \<Rightarrow> KeyRing \<Rightarrow> V3CommitHeader \<Rightarrow> V3CommitHeader v3_result" where
  "sign_with_keyring lib keyring h =
     bindE (map_err (\<lambda>_. CryptoOperation) (primary_key_id keyring CheckpointSigning)) (\<lambda>key_id.
     let h = h\<lparr>ch_signing_key_id := key_id, ch_signature := replicate 64 0\<rparr> in
     bindE (header_span h Zero) (\<lambda>signing_bytes.
     bindE (map_err (\<lambda>_. CryptoOperation) (sign_checkpoint_payload lib keyring signing_bytes)) (\<lambda>signature.
     if length (cs_signature signature) \<noteq> 64 then Inl InvalidHeaderField
     else Inr (h\<lparr>ch_signing_key_id := cs_key_id signature, ch_signature := cs_signature signature\<rparr>))))"

definition encode_object :: "format_lib \<Rightarrow> V3CommitHeader \<Rightarrow> bytes \<Rightarrow> bytes v3_result" where
  "encode_object fl h section_region =
     bindE (validate_commit_section_semantics h) (\<lambda>_.
     bindE (body_digest_for_v3_sections fl (ch_section_index h) section_region) (\<lambda>digest.
     if digest \<noteq> ch_body_digest h then Inl BodyDigestMismatch
     else bindE (header_span h Actual) (\<lambda>span. Inr (span @ section_region))))"

record FixedHeader =
  fh_header_len :: nat
  fh_header_span_len :: nat

definition header_word :: "bytes \<Rightarrow> nat \<Rightarrow> u32" where
  "header_word bs start = from_be_bytes (take 4 (drop start bs))"

definition parse_fixed_header :: "bytes \<Rightarrow> FixedHeader v3_result" where
  "parse_fixed_header bs =
     (if length bs < V3_HEADER_META_LEN \<or> take 8 bs \<noteq> V3_COMMIT_MAGIC then Inl TruncatedHeader
      else if header_word bs 8 \<noteq> V3_FORMAT_VERSION then Inl UnsupportedFormatVersion
      else if header_word bs 12 \<noteq> V3_MIN_READER_VERSION then Inl UnsupportedReaderVersion
      else if list_ex (\<lambda>b. b \<noteq> 0) (take 8 (drop 20 bs)) then Inl UnsupportedCapabilities
      else if list_ex (\<lambda>b. b \<noteq> 0) (take 12 (drop 28 bs)) then Inl NonzeroReserved
      else
        let header_len = unat (header_word bs 16) in
        if header_len > MAX_HEADER_CBOR_LEN then Inl HeaderTooLarge
        else Inr \<lparr>fh_header_len = header_len, fh_header_span_len = V3_HEADER_META_LEN + header_len\<rparr>)"

definition v3_commit_header_span_len :: "bytes \<Rightarrow> nat v3_result" where
  "v3_commit_header_span_len bs = bindE (parse_fixed_header bs) (\<lambda>fixed. Inr (fh_header_span_len fixed))"

definition parse_v3_commit_header ::
  "crypto_lib \<Rightarrow> format_lib \<Rightarrow> BackendObjectId \<Rightarrow> bytes \<Rightarrow> KeyRing \<Rightarrow> V3ParsedCommitHeader v3_result" where
  "parse_v3_commit_header lib fl object_id bs keyring =
     bindE (parse_fixed_header bs) (\<lambda>fixed.
     if length bs < fh_header_span_len fixed then Inl TruncatedHeader
     else
       let header_cbor = take (fh_header_len fixed) (drop V3_HEADER_META_LEN bs) in
       bindE (decode_header_cbor header_cbor) (\<lambda>header.
       bindE (encode_header_cbor header Actual) (\<lambda>canonical.
       if canonical \<noteq> header_cbor then Inl NonCanonicalCbor
       else if ch_algorithms header \<noteq> V3Algorithms_v03 then Inl InvalidAlgorithms
       else
         bindE (V3CommitKey_parse fl (sr_commit_key (ch_self_ref header))) (\<lambda>commit_key.
         if key_sequence commit_key \<noteq> sr_sequence (ch_self_ref header) then Inl SelfKeyMismatch
         else if sr_commit_key (ch_self_ref header) \<noteq> object_id then Inl SelfKeyMismatch
         else
           bindE (header_span header Zero) (\<lambda>signing_bytes.
           bindE (map_err (\<lambda>_. SignatureVerification)
               (verify_checkpoint_payload lib keyring (ch_signing_key_id header) signing_bytes
                 (ch_signature header))) (\<lambda>_.
           Inr \<lparr>ph_header = header, ph_header_len = fh_header_len fixed,
             ph_sections_start = fh_header_span_len fixed\<rparr>))))))"

definition parse_v3_commit_object ::
  "crypto_lib \<Rightarrow> format_lib \<Rightarrow> BackendObjectId \<Rightarrow> bytes \<Rightarrow> KeyRing \<Rightarrow> V3ParsedCommit v3_result" where
  "parse_v3_commit_object lib fl object_id body keyring =
     bindE (parse_v3_commit_header lib fl object_id body keyring) (\<lambda>parsed.
     if length body < ph_sections_start parsed then Inl TruncatedBody
     else
       let section_region = drop (ph_sections_start parsed) body in
       bindE (body_digest_for_v3_sections fl (ch_section_index (ph_header parsed)) section_region) (\<lambda>digest.
       if digest \<noteq> ch_body_digest (ph_header parsed) then Inl BodyDigestMismatch
       else
         bindE (validate_commit_section_semantics (ph_header parsed)) (\<lambda>_.
         Inr \<lparr>pc_parsed_header = parsed, pc_version_id = None, pc_body = body\<rparr>)))"

end
