(* ===== verification/CommitCodec.thy ===== *)
theory CommitCodec
  imports Commit
begin

text \<open>
  The header codec of commit objects: each field reader with its writer is a canonical codec, the
  entries of a map are its keys in order, and the decoder accepts exactly the encoding of a well-typed
  header.
\<close>

lemma guard_iff:
  "(if c then Inl e else m) = Inr x \<longleftrightarrow> \<not> c \<and> m = Inr x"
  "(if c then m else Inl e) = Inr x \<longleftrightarrow> c \<and> m = Inr x"
  by simp_all

section \<open>Entries in order\<close>

lemma read_ordered_key_iff:
  "read_ordered_key r last_key = Inr (key, r') \<longleftrightarrow> read_u64 r = Inr (key, r') \<and> last_key < key"
  by (auto simp: read_ordered_key_def bindE_eq_Inr guard_iff)

lemma map_entries_Suc:
  "map_entries entry (Suc n) last_key f r = Inr x \<longleftrightarrow>
     (\<exists>key r1 f' r2. read_u64 r = Inr (key, r1) \<and> last_key < key \<and> entry f key r1 = Inr (f', r2) \<and>
       map_entries entry n key f' r2 = Inr x)"
  by (auto simp: bindE_eq_Inr read_ordered_key_iff)

lemma map_entries_bound:
  assumes "\<forall>f k r x. entry f k r = Inr x \<longrightarrow> unat k \<le> N"
  shows "map_entries entry n last_key f r = Inr x \<Longrightarrow> n = 0 \<or> unat last_key + n \<le> N"
proof (induction n arbitrary: last_key f r)
  case (Suc n)
  from Suc.prems obtain key r1 f' r2 where k: "last_key < key" and e: "entry f key r1 = Inr (f', r2)"
    and m: "map_entries entry n key f' r2 = Inr x"
    unfolding map_entries_Suc by blast
  from k have "unat last_key < unat key" by (simp add: word_less_nat_alt)
  moreover have "unat key \<le> N" using e assms by blast
  ultimately show ?case using Suc.IH [OF m] by auto
qed simp

text \<open>When as many entries are left as keys, the next key is the next number.\<close>

lemma map_entries_next_Suc:
  assumes bound: "\<forall>f k r x. entry f k r = Inr x \<longrightarrow> unat k \<le> N" and N: "unat last_key + Suc n = N" "N < 2 ^ 64"
  shows "map_entries entry (Suc n) last_key f r = Inr x \<longleftrightarrow>
    (\<exists>r1 f' r2. read_u64 r = Inr (last_key + 1, r1) \<and> entry f (last_key + 1) r1 = Inr (f', r2) \<and>
      map_entries entry n (last_key + 1) f' r2 = Inr x)" (is "?L \<longleftrightarrow> ?R")
proof
  have s: "unat (last_key + 1) = unat last_key + 1" using N by (simp add: unat_word_ariths)
  {
    assume ?L
    then obtain key r1 f' r2 where r: "read_u64 r = Inr (key, r1)" and k: "last_key < key"
      and e: "entry f key r1 = Inr (f', r2)" and m: "map_entries entry n key f' r2 = Inr x"
      unfolding map_entries_Suc by blast
    have "unat key \<le> N" using e bound by blast
    moreover have "n = 0 \<or> unat key + n \<le> N" by (rule map_entries_bound [OF bound m])
    ultimately have "unat key \<le> unat last_key + 1" using N(1) by auto
    with k s have "unat key = unat (last_key + 1)" by (simp add: word_less_nat_alt)
    then have "key = last_key + 1" by (simp only: unat_arith_simps)
    with r e m show ?R by blast
  next
    assume ?R
    moreover have "last_key < last_key + 1" using s by (simp add: word_less_nat_alt)
    ultimately show ?L unfolding map_entries_Suc by blast
  }
qed

lemma map_entries_next:
  assumes "\<forall>f k r x. entry f k r = Inr x \<longrightarrow> unat k \<le> N" and "0 < n" and "unat last_key + n = N" and "N < 2 ^ 64"
  shows "map_entries entry n last_key f r = Inr x \<longleftrightarrow>
    (\<exists>r1 f' r2. read_u64 r = Inr (last_key + 1, r1) \<and> entry f (last_key + 1) r1 = Inr (f', r2) \<and>
      map_entries entry (n - 1) (last_key + 1) f' r2 = Inr x)"
  using map_entries_next_Suc [of entry N last_key "n - 1" f r x] assms by simp

declare map_entries.simps(2) [simp del]

lemma map_entries_wire:
  assumes "0 < n" and "last_key < key"
  shows "map_entries entry n last_key f (at_pos p (write_u64 [] key @ s)) =
    bindE (entry f key (at_pos (p @ write_u64 [] key) s)) (\<lambda>(f, r). map_entries entry (n - 1) key f r)"
  using assms by (cases n) (auto simp: read_ordered_key_def cb_u64.read_wire map_entries.simps(2))

section \<open>Fields\<close>

lemma decode_exact_iff:
  "n < 2 ^ 64 \<Longrightarrow> decode_exact n (at_pos p bs) = Inr (x, rd) \<longleftrightarrow>
     length x = n \<and> (\<exists>s. bs = write_bytes [] x @ s \<and> rd = at_pos (p @ write_bytes [] x) s)"
  by (auto simp: decode_exact_def read_bytes_def bindE_eq_Inr cb_bytes.read_iff guard_iff)

lemmas fixed_read_iff = decode_digest_def decode_signature_def

interpretation cm_digest: codec at_pos "write_bytes []" decode_digest "\<lambda>x. length x = 32"
  by unfold_locales (simp_all add: fixed_read_iff decode_exact_iff)

interpretation cm_signature: codec at_pos "write_bytes []" decode_signature "\<lambda>x. length x = 64"
  by unfold_locales (simp_all add: fixed_read_iff decode_exact_iff)

definition name_ok :: "str \<Rightarrow> bool" where
  "name_ok s \<longleftrightarrow> valid_name s \<and> length s < 2 ^ 64"

lemma decode_key_id_iff:
  "decode_key_id (at_pos p bs) = Inr (x, rd) \<longleftrightarrow>
     name_ok x \<and> (\<exists>s. bs = write_bytes [] x @ s \<and> rd = at_pos (p @ write_bytes [] x) s)"
  by (auto simp: decode_key_id_def read_bytes_def bindE_eq_Inr cb_bytes.read_iff bytes_to_string_def
      KeyId_new_def name_ok_def valid_name_def guard_iff)

lemma decode_object_id_iff:
  "decode_object_id (at_pos p bs) = Inr (x, rd) \<longleftrightarrow>
     name_ok x \<and> (\<exists>s. bs = write_text [] x @ s \<and> rd = at_pos (p @ write_text [] x) s)"
  by (auto simp: decode_object_id_def read_text_def bindE_eq_Inr cb_text.read_iff
      BackendObjectId_new_def name_ok_def valid_name_def guard_iff)

interpretation cm_key_id: codec at_pos "write_bytes []" decode_key_id name_ok
  by unfold_locales (simp_all add: decode_key_id_iff)

interpretation cm_object_id: codec at_pos "write_text []" decode_object_id name_ok
  by unfold_locales (simp_all add: decode_object_id_iff)

text \<open>A byte string and a map do not start like null.\<close>

lemma type_len_not_null:
  assumes "unat m < 7"
  shows "write_type_len [] m v @ s \<noteq> 0xf6 # t"
proof
  assume e: "write_type_len [] m v @ s = 0xf6 # t"
  have "read_type_len (at_pos [] (write_type_len [] m v @ s)) = Inr ((m, v), at_pos ([] @ write_type_len [] m v) s)"
    using assms by (simp add: read_type_len_wire)
  then have "drop_bit 5 (0xf6 :: u8) = m"
    unfolding e by (auto simp: read_type_len_def read_initial_def bindE_eq_Inr)
  moreover have "drop_bit 5 (0xf6 :: u8) = 7" by simp
  ultimately show False using assms by auto
qed

lemma write_bytes_not_null: "write_bytes [] x @ s \<noteq> 0xf6 # t"
  using type_len_not_null [of 2 "of_nat (length x)" "x @ s" t] by (simp add: write_bytes_def)

lemma write_map_not_null: "write_map_len [] n @ s \<noteq> 0xf6 # t"
  using type_len_not_null [of 5 "of_nat n" s t] by (simp add: write_map_len_def)

fun version_wire :: "BackendVersionId option \<Rightarrow> bytes" where
  "version_wire None = write_null []"
| "version_wire (Some v) = write_bytes [] v"

lemma decode_version_id_iff:
  "decode_version_id (at_pos p bs) = Inr (x, rd) \<longleftrightarrow>
     (\<forall>v. x = Some v \<longrightarrow> name_ok v) \<and> (\<exists>s. bs = version_wire x @ s \<and> rd = at_pos (p @ version_wire x) s)"
proof (cases "\<exists>t. bs = 0xf6 # t")
  case True
  then obtain t where "bs = 0xf6 # t" by blast
  then show ?thesis
    using write_bytes_not_null [of _ _ t, THEN not_sym]
    by (cases x) (auto simp: decode_version_id_def read_null_def write_null_def)
next
  case False
  then show ?thesis
    by (cases x) (auto simp: decode_version_id_def read_bytes_def bindE_eq_Inr cb_bytes.read_iff bytes_to_string_def
        BackendVersionId_new_def name_ok_def valid_name_def write_null_def guard_iff)
qed

interpretation cm_version: codec at_pos version_wire decode_version_id "\<lambda>x. \<forall>v. x = Some v \<longrightarrow> name_ok v"
  by unfold_locales (simp_all add: decode_version_id_iff)

section \<open>References\<close>

text \<open>A key above the last field is refused.\<close>

lemma self_ref_entry_bound: "\<forall>f k r x. self_ref_entry f k r = Inr x \<longrightarrow> unat k \<le> 2"
proof (intro allI impI, rule ccontr)
  fix f r x and k :: u64
  assume "\<not> unat k \<le> 2"
  then have "k \<notin> {1, 2}" by auto
  then show "self_ref_entry f k r = Inr x \<Longrightarrow> False" by (auto simp: self_ref_entry_def split_beta)
qed

lemma parent_ref_entry_bound: "\<forall>f k r x. parent_ref_entry f k r = Inr x \<longrightarrow> unat k \<le> 4"
proof (intro allI impI, rule ccontr)
  fix f r x and k :: u64
  assume "\<not> unat k \<le> 4"
  then have "k \<notin> {1, 2, 3, 4}" by auto
  then show "parent_ref_entry f k r = Inr x \<Longrightarrow> False" by (auto simp: parent_ref_entry_def)
qed

lemma algorithms_entry_bound: "\<forall>f k r x. algorithms_entry f k r = Inr x \<longrightarrow> unat k \<le> 5"
proof (intro allI impI, rule ccontr)
  fix f r x and k :: u64
  assume "\<not> unat k \<le> 5"
  then have "k \<notin> {1, 2, 3, 4, 5}" by auto
  then show "algorithms_entry f k r = Inr x \<Longrightarrow> False" by (auto simp: algorithms_entry_def bindE_eq_Inr)
qed

lemma keyring_ref_entry_bound: "\<forall>f k r x. keyring_ref_entry f k r = Inr x \<longrightarrow> unat k \<le> 2"
proof (intro allI impI, rule ccontr)
  fix f r x and k :: u64
  assume "\<not> unat k \<le> 2"
  then have "k \<notin> {1, 2}" by auto
  then show "keyring_ref_entry f k r = Inr x \<Longrightarrow> False" by (auto simp: keyring_ref_entry_def split_beta)
qed

lemma section_entry_bound: "\<forall>f k r x. section_entry f k r = Inr x \<longrightarrow> unat k \<le> 5"
proof (intro allI impI, rule ccontr)
  fix f r x and k :: u64
  assume "\<not> unat k \<le> 5"
  then have "k \<notin> {1, 2, 3, 4, 5}" by auto
  then show "section_entry f k r = Inr x \<Longrightarrow> False" by (auto simp: section_entry_def)
qed

lemma header_entry_bound: "\<forall>f k r x. header_entry f k r = Inr x \<longrightarrow> unat k \<le> 10"
proof (intro allI impI, rule ccontr)
  fix f r x and k :: u64
  assume "\<not> unat k \<le> 10"
  then have "k \<notin> {1, 2, 3, 4, 5, 6, 7, 8, 9, 10}" by auto
  then show "header_entry f k r = Inr x \<Longrightarrow> False" by (auto simp: header_entry_def)
qed

lemmas entries_next =
  map_entries_next [OF self_ref_entry_bound] map_entries_next [OF parent_ref_entry_bound]
  map_entries_next [OF algorithms_entry_bound] map_entries_next [OF keyring_ref_entry_bound]
  map_entries_next [OF section_entry_bound] map_entries_next [OF header_entry_bound]

lemmas self_ref_entry_keys =
  self_ref_entry_def [where key = 1, simplified] self_ref_entry_def [where key = 2, simplified]

lemmas parent_ref_entry_keys =
  parent_ref_entry_def [where key = 1, simplified] parent_ref_entry_def [where key = 2, simplified]
  parent_ref_entry_def [where key = 3, simplified] parent_ref_entry_def [where key = 4, simplified]

lemmas algorithms_entry_keys =
  algorithms_entry_def [where key = 1, simplified] algorithms_entry_def [where key = 2, simplified]
  algorithms_entry_def [where key = 3, simplified] algorithms_entry_def [where key = 4, simplified]
  algorithms_entry_def [where key = 5, simplified]

lemmas keyring_ref_entry_keys =
  keyring_ref_entry_def [where key = 1, simplified] keyring_ref_entry_def [where key = 2, simplified]

lemmas section_entry_keys =
  section_entry_def [where key = 1, simplified] section_entry_def [where key = 2, simplified]
  section_entry_def [where key = 3, simplified] section_entry_def [where key = 4, simplified]
  section_entry_def [where key = 5, simplified]

lemmas header_entry_keys =
  header_entry_def [where key = 1, simplified] header_entry_def [where key = 2, simplified]
  header_entry_def [where key = 3, simplified] header_entry_def [where key = 4, simplified]
  header_entry_def [where key = 5, simplified] header_entry_def [where key = 6, simplified]
  header_entry_def [where key = 7, simplified] header_entry_def [where key = 8, simplified]
  header_entry_def [where key = 9, simplified] header_entry_def [where key = 10, simplified]

definition self_ref_ok :: "V3CommitSelfRef \<Rightarrow> bool" where
  "self_ref_ok x \<longleftrightarrow> name_ok (sr_commit_key x)"

interpretation cm_self_ref: codec at_pos "encode_self_ref []" decode_self_ref self_ref_ok
proof unfold_locales
  show "decode_self_ref (at_pos p (encode_self_ref [] x @ s)) = Inr (x, at_pos (p @ encode_self_ref [] x) s)"
    if "self_ref_ok x" for x p s
    using that
    by (simp add: decode_self_ref_def encode_self_ref_def write_appends Let_def cb_map.read_wire map_entries_wire
        self_ref_entry_keys cb_u64.read_wire cm_object_id.read_wire self_ref_ok_def)
  show "self_ref_ok x \<and> (\<exists>s. bs = encode_self_ref [] x @ s \<and> rd = at_pos (p @ encode_self_ref [] x) s)"
    if "decode_self_ref (at_pos p bs) = Inr (x, rd)" for p bs x rd
    using that
    by (auto simp: decode_self_ref_def encode_self_ref_def write_appends Let_def bindE_eq_Inr cb_map.read_iff guard_iff
        entries_next self_ref_entry_keys cb_u64.read_iff decode_object_id_iff self_ref_ok_def)
qed simp

definition parent_ref_ok :: "V3CommitParentRef \<Rightarrow> bool" where
  "parent_ref_ok x \<longleftrightarrow> name_ok (pr_commit_key x) \<and> length (pr_body_digest x) = 32 \<and>
     (\<forall>v. pr_version_id x = Some v \<longrightarrow> name_ok v)"

lemma encode_parent_ref_alt:
  "encode_parent_ref out x = out @ write_map_len [] 4 @ write_u64 [] 1 @ write_u64 [] (pr_sequence x) @
     write_u64 [] 2 @ write_text [] (pr_commit_key x) @ write_u64 [] 3 @ write_bytes [] (pr_body_digest x) @
     write_u64 [] 4 @ version_wire (pr_version_id x)"
  by (cases "pr_version_id x") (simp_all add: encode_parent_ref_def write_appends write_map_len_append [of out] Let_def)

interpretation cm_parent_ref: codec at_pos "encode_parent_ref []" decode_parent_ref parent_ref_ok
proof unfold_locales
  show "decode_parent_ref (at_pos p (encode_parent_ref [] x @ s)) = Inr (x, at_pos (p @ encode_parent_ref [] x) s)"
    if "parent_ref_ok x" for x p s
    using that
    by (simp add: decode_parent_ref_def encode_parent_ref_alt cb_map.read_wire map_entries_wire parent_ref_entry_keys
        cb_u64.read_wire cm_object_id.read_wire cm_digest.read_wire cm_version.read_wire parent_ref_ok_def)
  show "parent_ref_ok x \<and> (\<exists>s. bs = encode_parent_ref [] x @ s \<and> rd = at_pos (p @ encode_parent_ref [] x) s)"
    if "decode_parent_ref (at_pos p bs) = Inr (x, rd)" for p bs x rd
    using that
    by (auto simp: decode_parent_ref_def encode_parent_ref_alt bindE_eq_Inr cb_map.read_iff guard_iff
        entries_next parent_ref_entry_keys cb_u64.read_iff decode_object_id_iff cm_digest.read_iff
        decode_version_id_iff parent_ref_ok_def)
qed simp

definition text_ok :: "str \<Rightarrow> bool" where
  "text_ok s \<longleftrightarrow> from_utf8_ok s \<and> length s < 2 ^ 64"

interpretation cm_text: codec at_pos "write_text []" read_text text_ok
  by unfold_locales (auto simp: read_text_def cb_text.read_iff text_ok_def)

definition algorithms_ok :: "V3Algorithms \<Rightarrow> bool" where
  "algorithms_ok x \<longleftrightarrow> text_ok (al_signature x) \<and> text_ok (al_payload_aead x) \<and> text_ok (al_index_aead x) \<and>
     text_ok (al_digest x) \<and> text_ok (al_kdf x)"

interpretation cm_algorithms: codec at_pos "encode_algorithms []" decode_algorithms algorithms_ok
proof unfold_locales
  show "decode_algorithms (at_pos p (encode_algorithms [] x @ s)) = Inr (x, at_pos (p @ encode_algorithms [] x) s)"
    if "algorithms_ok x" for x p s
    using that
    by (simp add: decode_algorithms_def encode_algorithms_def write_appends Let_def cb_map.read_wire map_entries_wire
        algorithms_entry_keys cm_text.read_wire algorithms_ok_def)
  show "algorithms_ok x \<and> (\<exists>s. bs = encode_algorithms [] x @ s \<and> rd = at_pos (p @ encode_algorithms [] x) s)"
    if "decode_algorithms (at_pos p bs) = Inr (x, rd)" for p bs x rd
    using that
    by (auto simp: decode_algorithms_def encode_algorithms_def write_appends Let_def bindE_eq_Inr cb_map.read_iff
        guard_iff entries_next algorithms_entry_keys cb_u64.read_iff cm_text.read_iff algorithms_ok_def)
qed simp

definition keyring_ref_ok :: "V3KeyringEnvelopeRef \<Rightarrow> bool" where
  "keyring_ref_ok x \<longleftrightarrow> name_ok (ke_object_id x) \<and> length (ke_digest x) = 32"

interpretation cm_keyring_ref: codec at_pos "encode_keyring_ref []" decode_keyring_ref keyring_ref_ok
proof unfold_locales
  show "decode_keyring_ref (at_pos p (encode_keyring_ref [] x @ s)) = Inr (x, at_pos (p @ encode_keyring_ref [] x) s)"
    if "keyring_ref_ok x" for x p s
    using that
    by (simp add: decode_keyring_ref_def encode_keyring_ref_def write_appends Let_def cb_map.read_wire map_entries_wire
        keyring_ref_entry_keys cm_object_id.read_wire cm_digest.read_wire keyring_ref_ok_def)
  show "keyring_ref_ok x \<and> (\<exists>s. bs = encode_keyring_ref [] x @ s \<and> rd = at_pos (p @ encode_keyring_ref [] x) s)"
    if "decode_keyring_ref (at_pos p bs) = Inr (x, rd)" for p bs x rd
    using that
    by (auto simp: decode_keyring_ref_def encode_keyring_ref_def write_appends Let_def bindE_eq_Inr cb_map.read_iff
        guard_iff entries_next keyring_ref_entry_keys cb_u64.read_iff decode_object_id_iff cm_digest.read_iff
        keyring_ref_ok_def)
qed simp

section \<open>Sections\<close>

text \<open>A section type that is not the unknown form of a known code.\<close>

definition type_ok :: "V3SectionType \<Rightarrow> bool" where
  "type_ok x \<longleftrightarrow> V3SectionType_from_wire (V3SectionType_to_wire x) = x"

lemma type_from_ok: "type_ok (V3SectionType_from_wire w)" "V3SectionType_to_wire (V3SectionType_from_wire w) = w"
  by (simp_all add: type_ok_def V3SectionType_from_wire_def)

definition section_ok :: "V3SectionDescriptor \<Rightarrow> bool" where
  "section_ok x \<longleftrightarrow> type_ok (sd_section_type x) \<and> length (sd_digest x) = 32"

definition section_wire :: "V3SectionDescriptor \<Rightarrow> bytes" where
  "section_wire x = write_map_len [] 5 @ write_u64 [] 1 @ write_u64 [] (ucast (V3SectionType_to_wire (sd_section_type x))) @
     write_u64 [] 2 @ write_u64 [] (sd_offset x) @ write_u64 [] 3 @ write_u64 [] (sd_length x) @
     write_u64 [] 4 @ write_u64 [] (ucast (sd_flags x)) @ write_u64 [] 5 @ write_bytes [] (sd_digest x)"

lemma encode_section_wire: "encode_section out x = out @ section_wire x"
  by (simp add: encode_section_def section_wire_def write_appends write_map_len_append [of out] Let_def)

lemma encode_sections_wire: "foldl encode_section out xs = out @ concat (map section_wire xs)"
  by (induction xs arbitrary: out) (simp_all add: encode_section_wire)

lemma unat_ucast_field: "unat (ucast (w :: u16) :: u64) < 65536" "unat (ucast (v :: u8) :: u64) < 256"
  using unat_less_2p [of w] unat_less_2p [of v] by (simp_all add: unat_ucast_up)

lemma ucast_ucast_field: "ucast (ucast (w :: u16) :: u64) = w" "ucast (ucast (v :: u8) :: u64) = v"
  using unat_less_2p [of w] unat_less_2p [of v]
  by (simp_all add: word_unat_eq_iff unat_ucast_up unat_ucast_down)

lemma ucast_field_down:
  "unat (v :: u64) < 65536 \<Longrightarrow> ucast (ucast v :: u16) = v"
  "unat (v :: u64) < 256 \<Longrightarrow> ucast (ucast v :: u8) = v"
  by (simp_all add: ucast_ucast_small)

interpretation cm_section: codec at_pos section_wire decode_section section_ok
proof unfold_locales
  show "decode_section (at_pos p (section_wire x @ s)) = Inr (x, at_pos (p @ section_wire x) s)"
    if "section_ok x" for x p s
    using that
    by (simp add: decode_section_def section_wire_def cb_map.read_wire map_entries_wire section_entry_keys
        cb_u64.read_wire cm_digest.read_wire section_ok_def type_ok_def unat_ucast_field ucast_ucast_field)
  show "section_ok x \<and> (\<exists>s. bs = section_wire x @ s \<and> rd = at_pos (p @ section_wire x) s)"
    if "decode_section (at_pos p bs) = Inr (x, rd)" for p bs x rd
    using that
    by (auto simp: decode_section_def section_wire_def bindE_eq_Inr cb_map.read_iff guard_iff entries_next
        section_entry_keys cb_u64.read_iff cm_digest.read_iff section_ok_def type_from_ok ucast_field_down)
qed simp

definition sections_wire :: "V3SectionDescriptor list \<Rightarrow> bytes" where
  "sections_wire xs = write_array_len [] (length xs) @ concat (map section_wire xs)"

definition sections_ok :: "V3SectionDescriptor list \<Rightarrow> bool" where
  "sections_ok xs \<longleftrightarrow> length xs \<le> 3 \<and> list_all section_ok xs"

interpretation cm_sections: codec at_pos sections_wire decode_sections sections_ok
proof unfold_locales
  show "decode_sections (at_pos p (sections_wire x @ s)) = Inr (x, at_pos (p @ sections_wire x) s)"
    if "sections_ok x" for x p s
    using that cm_section.many_wire [of x "p @ write_array_len [] (length x)" s]
    by (simp add: decode_sections_def sections_wire_def cb_array.read_wire sections_ok_def)
  show "sections_ok x \<and> (\<exists>s. bs = sections_wire x @ s \<and> rd = at_pos (p @ sections_wire x) s)"
    if "decode_sections (at_pos p bs) = Inr (x, rd)" for p bs x rd
    using that
    by (auto simp: decode_sections_def sections_wire_def bindE_eq_Inr cb_array.read_iff guard_iff sections_ok_def
        dest!: cm_section.wire_many)
qed simp

section \<open>The header\<close>

fun parent_wire :: "V3CommitParentRef option \<Rightarrow> bytes" where
  "parent_wire None = write_null []"
| "parent_wire (Some x) = encode_parent_ref [] x"

interpretation cm_parent: codec at_pos parent_wire decode_parent "\<lambda>x. \<forall>v. x = Some v \<longrightarrow> parent_ref_ok v"
proof unfold_locales
  show "decode_parent (at_pos p (parent_wire x @ s)) = Inr (x, at_pos (p @ parent_wire x) s)"
    if "\<forall>v. x = Some v \<longrightarrow> parent_ref_ok v" for x p s
  proof (cases x)
    case (Some v)
    have "\<not> (\<exists>t. encode_parent_ref [] v @ s = 0xf6 # t)"
      using write_map_not_null by (simp add: encode_parent_ref_alt)
    with Some that show ?thesis by (simp add: decode_parent_def cm_parent_ref.read_wire)
  qed (simp add: decode_parent_def read_null_def write_null_def)
  show "(\<forall>v. x = Some v \<longrightarrow> parent_ref_ok v) \<and> (\<exists>s. bs = parent_wire x @ s \<and> rd = at_pos (p @ parent_wire x) s)"
    if "decode_parent (at_pos p bs) = Inr (x, rd)" for p bs x rd
    using that by (auto simp: decode_parent_def bindE_eq_Inr cb_null.read_iff cm_parent_ref.read_iff split: if_splits)
qed simp

definition kind_wire :: "V3CommitKind \<Rightarrow> bytes" where
  "kind_wire x = write_u64 [] (ucast (V3CommitKind_to_wire x))"

lemma kind_from_wire_iff: "V3CommitKind_from_wire v = Inr x \<longleftrightarrow> v = ucast (V3CommitKind_to_wire x)"
  by (cases x) (auto simp: V3CommitKind_from_wire_def)

interpretation cm_kind: codec at_pos kind_wire decode_kind "\<lambda>_. True"
  by unfold_locales
    (auto simp: decode_kind_def kind_wire_def bindE_eq_Inr cb_u64.read_iff cb_u64.read_wire kind_from_wire_iff
      kind_from_wire_iff [THEN iffD2])

definition header_wire :: "V3CommitHeader \<Rightarrow> bytes \<Rightarrow> bytes" where
  "header_wire h sig = write_map_len [] 10 @
     write_u64 [] 1 @ encode_self_ref [] (ch_self_ref h) @
     write_u64 [] 2 @ parent_wire (ch_parent h) @
     write_u64 [] 3 @ write_i64 [] (ch_publish_time_ms h) @
     write_u64 [] 4 @ kind_wire (ch_kind h) @
     write_u64 [] 5 @ encode_algorithms [] (ch_algorithms h) @
     write_u64 [] 6 @ encode_keyring_ref [] (ch_keyring_envelope_ref h) @
     write_u64 [] 7 @ sections_wire (ch_section_index h) @
     write_u64 [] 8 @ write_bytes [] (ch_body_digest h) @
     write_u64 [] 9 @ write_bytes [] sig @
     write_u64 [] 10 @ write_bytes [] (ch_signing_key_id h)"

fun signature_field :: "SignatureMode \<Rightarrow> V3CommitHeader \<Rightarrow> bytes" where
  "signature_field Actual h = ch_signature h"
| "signature_field Zero h = replicate 64 0"

lemma encode_refs_append:
  "encode_self_ref (out @ w) a = out @ w @ encode_self_ref [] a"
  "encode_algorithms (out @ w) b = out @ w @ encode_algorithms [] b"
  "encode_keyring_ref (out @ w) c = out @ w @ encode_keyring_ref [] c"
  by (simp_all add: encode_self_ref_def encode_algorithms_def encode_keyring_ref_def write_appends
      write_map_len_append [of "out @ w"] Let_def)

lemma encode_header_wire: "encode_header_cbor h md = Inr (header_wire h (signature_field md h))"
proof -
  have "(case ch_parent h of Some parent \<Rightarrow> encode_parent_ref out parent | None \<Rightarrow> write_null out) = out @ parent_wire (ch_parent h)" for out
    by (cases "ch_parent h") (simp_all add: encode_parent_ref_alt write_null_def)
  moreover have "(case md of Actual \<Rightarrow> write_bytes out (ch_signature h) | Zero \<Rightarrow> write_bytes out (replicate 64 0))
      = out @ write_bytes [] (signature_field md h)" for out
    by (cases md) (simp_all add: write_bytes_append [of out])
  ultimately show ?thesis
    by (simp add: encode_header_cbor_def header_wire_def sections_wire_def kind_wire_def encode_refs_append
        encode_sections_wire write_appends Let_def)
qed

definition header_ok :: "V3CommitHeader \<Rightarrow> bool" where
  "header_ok h \<longleftrightarrow> self_ref_ok (ch_self_ref h) \<and> (\<forall>v. ch_parent h = Some v \<longrightarrow> parent_ref_ok v) \<and>
     algorithms_ok (ch_algorithms h) \<and> keyring_ref_ok (ch_keyring_envelope_ref h) \<and>
     sections_ok (ch_section_index h) \<and> length (ch_body_digest h) = 32 \<and> length (ch_signature h) = 64 \<and>
     name_ok (ch_signing_key_id h)"

lemmas field_reads =
  cb_map.read_wire cb_u64.read_wire cb_i64.read_wire cm_self_ref.read_wire cm_parent.read_wire cm_kind.read_wire
  cm_algorithms.read_wire cm_keyring_ref.read_wire cm_sections.read_wire cm_digest.read_wire
  cm_signature.read_wire cm_key_id.read_wire [where s = "[]", simplified]

lemma decode_header_wire:
  assumes "header_ok h"
  shows "decode_header_cbor (header_wire h (ch_signature h)) = Inr h"
  using assms
  by (cases h)
    (simp add: decode_header_cbor_def header_wire_def Reader_new_at header_ok_def map_entries_wire header_entry_keys
      field_reads no_header_fields_def header_of_fields_def)

lemmas field_iffs =
  cb_map.read_iff cb_u64.read_iff cb_i64.read_iff cm_self_ref.read_iff cm_parent.read_iff cm_kind.read_iff
  cm_algorithms.read_iff cm_keyring_ref.read_iff cm_sections.read_iff cm_digest.read_iff
  cm_signature.read_iff decode_key_id_iff

lemma header_wire_decode:
  assumes "decode_header_cbor bs = Inr h"
  shows "header_ok h \<and> bs = header_wire h (ch_signature h)"
  using assms unfolding decode_header_cbor_def Reader_new_at
  by (clarsimp simp: bindE_eq_Inr guard_iff field_iffs entries_next header_entry_keys no_header_fields_def
      header_of_fields_def header_wire_def header_ok_def)

lemma decode_header_iff:
  "decode_header_cbor bs = Inr h \<longleftrightarrow> header_ok h \<and> encode_header_cbor h Actual = Inr bs"
  using header_wire_decode decode_header_wire by (auto simp: encode_header_wire)

end
