(* ===== verification/CommitParse.thy ===== *)
theory CommitParse
  imports CommitCodec
begin

text \<open>
  What the checks of a commit object establish: a section table is accepted exactly when it tiles the
  section region; the digests then cover every byte of the region; the fixed prefix is exact; and an
  object is accepted exactly when it is the encoding of a well-formed, signed header under its own key
  with a region its digests match.
\<close>

section \<open>Section layout\<close>

text \<open>The sections follow each other from one position to another.\<close>

fun contiguous :: "nat \<Rightarrow> V3SectionDescriptor list \<Rightarrow> nat \<Rightarrow> bool" where
  "contiguous a [] b \<longleftrightarrow> a = b"
| "contiguous a (s # ss) b \<longleftrightarrow> unat (sd_offset s) = a \<and> contiguous (a + unat (sd_length s)) ss b"

definition flags_ok :: "V3SectionDescriptor \<Rightarrow> bool" where
  "flags_ok s \<longleftrightarrow> sd_flags s \<in> {0, 1, 2, 3} \<and> (sd_flags s \<in> {1, 3} \<longrightarrow> section_is_supported (sd_section_type s))"

lemma contiguous_le: "contiguous a ss b \<Longrightarrow> a \<le> b"
  by (induction ss arbitrary: a) fastforce+

lemma flag_table: "list_all (\<lambda>n. ((of_nat n :: u8) AND NOT (1 OR 2) = 0) = (n < 4)) [0..<256]"
  by code_simp

lemma flag_bits:
  "(f :: u8) AND NOT (1 OR 2) = 0 \<longleftrightarrow> f \<in> {0, 1, 2, 3}"
  "f \<in> {0, 1, 2, 3} \<Longrightarrow> f AND 1 = 0 \<longleftrightarrow> f \<notin> {1, 3}"
proof -
  have "unat f < 256" using unat_less_2p [of f] by simp
  then have "((of_nat (unat f) :: u8) AND NOT (1 OR 2) = 0) = (unat f < 4)"
    using flag_table unfolding list_all_iff by (metis atLeastLessThan_iff atLeastLessThan_upt zero_le)
  moreover have "(of_nat (unat f) :: u8) = f" by simp
  ultimately have "f AND NOT (1 OR 2) = 0 \<longleftrightarrow> unat f < 4" by (simp only:)
  also have "\<dots> \<longleftrightarrow> f \<in> {0, 1, 2, 3}"
    by (auto simp: word_unat_eq_iff)
  finally show "f AND NOT (1 OR 2) = 0 \<longleftrightarrow> f \<in> {0, 1, 2, 3}" .
  show "f \<in> {0, 1, 2, 3} \<Longrightarrow> f AND 1 = 0 \<longleftrightarrow> f \<notin> {1, 3}" by auto
qed

lemma section_step_iff:
  "section_step n a s = Inr b \<longleftrightarrow>
     flags_ok s \<and> sd_offset s = a \<and> unat b = unat a + unat (sd_length s) \<and> b \<le> n"
proof -
  have "section_step n a s = Inr b \<longleftrightarrow> sd_flags s AND NOT (1 OR 2) = 0 \<and>
      \<not> (sd_flags s AND 1 \<noteq> 0 \<and> \<not> section_is_supported (sd_section_type s)) \<and>
      checked_add (sd_offset s) (sd_length s) = Some b \<and> sd_offset s = a \<and> b \<le> n"
    unfolding section_step_def by (auto simp: bindE_eq_Inr guard_iff simp del: or_numerals or_one_eq)
  then show ?thesis
    unfolding flag_bits(1) by (auto simp: flags_ok_def checked_add_Some flag_bits(2))
qed

lemma sections_fold:
  "foldE (section_step n) a ss = Inr b \<Longrightarrow> list_all flags_ok ss \<and> contiguous (unat a) ss (unat b) \<and> (b \<le> n \<or> ss = [])"
proof (induction ss arbitrary: a)
  case (Cons s ss)
  then obtain c where c: "section_step n a s = Inr c" and f: "foldE (section_step n) c ss = Inr b"
    by (auto simp: bindE_eq_Inr)
  with Cons.IH [OF f] show ?case by (auto simp: section_step_iff)
qed simp

lemma fold_sections:
  assumes "list_all flags_ok ss" and "contiguous (unat a) ss (unat b)" and "unat b \<le> unat n"
  shows "foldE (section_step n) a ss = Inr b"
  using assms
proof (induction ss arbitrary: a)
  case (Cons s ss)
  define c :: u64 where "c = of_nat (unat a + unat (sd_length s))"
  have o: "sd_offset s = a" and r: "contiguous (unat a + unat (sd_length s)) ss (unat b)"
    using Cons.prems(2) by (auto simp: word_unat_eq_iff)
  have le: "unat a + unat (sd_length s) \<le> unat b" by (rule contiguous_le [OF r])
  then have c: "unat c = unat a + unat (sd_length s)"
    unfolding c_def using unat_less_2p [of b] by (intro unat_of_nat_small) simp
  with le Cons.prems o have "section_step n a s = Inr c" by (simp add: section_step_iff word_le_nat_alt)
  moreover have "foldE (section_step n) c ss = Inr b"
    using Cons.IH [of c] Cons.prems(1,3) r c by simp
  ultimately show ?case by simp
qed (simp add: word_unat_eq_iff)

lemma layout_iff:
  "validate_section_layout ss n = Inr () \<longleftrightarrow>
     length ss \<le> 3 \<and> list_all flags_ok ss \<and> contiguous 0 ss (unat n)"
proof -
  have "validate_section_layout ss n = Inr () \<longleftrightarrow> length ss \<le> 3 \<and> foldE (section_step n) 0 ss = Inr n"
    by (auto simp: validate_section_layout_def bindE_eq_Inr)
  then show ?thesis using sections_fold [of n 0 ss n] fold_sections [of ss 0 n n] by auto
qed

section \<open>Digests\<close>

lemma contiguous_slices:
  "contiguous a ss (length region) \<Longrightarrow> concat (map (section_slice region) ss) = drop a region \<and>
     list_all (\<lambda>s. length (section_slice region s) = unat (sd_length s)) ss"
proof (induction ss arbitrary: a)
  case (Cons s ss)
  then have o: "unat (sd_offset s) = a" and r: "contiguous (a + unat (sd_length s)) ss (length region)" by simp_all
  have "take (unat (sd_length s)) (drop a region) @ drop (a + unat (sd_length s)) region = drop a region"
    by (metis append_take_drop_id drop_drop add.commute)
  moreover have "a + unat (sd_length s) \<le> length region" by (rule contiguous_le [OF r])
  ultimately show ?case using Cons.IH [OF r] o by (simp add: section_slice_def)
qed simp

lemma digest_fold:
  "(\<And>s. s \<in> set ss \<Longrightarrow> unat (sd_offset s) + unat (sd_length s) < 2 ^ 64) \<Longrightarrow>
   foldE (digest_step fl region) absorbed ss = Inr d \<longleftrightarrow>
     (\<forall>s \<in> set ss. sha256 fl (section_slice region s) = sd_digest s) \<and>
     d = absorbed @ concat (map (section_slice region) ss)"
proof (induction ss arbitrary: absorbed)
  case (Cons s ss)
  then show ?case
    by (auto simp: digest_step_def digest_v3_section_def Let_def bindE_eq_Inr)
qed auto

lemma contiguous_end: "contiguous a ss b \<Longrightarrow> s \<in> set ss \<Longrightarrow> unat (sd_offset s) + unat (sd_length s) \<le> b"
  by (induction ss arbitrary: a) (auto dest: contiguous_le)

lemma body_digest_iff:
  "body_digest_for_v3_sections fl ss region = Inr d \<longleftrightarrow>
     length region < 2 ^ 64 \<and> length ss \<le> 3 \<and> list_all flags_ok ss \<and> contiguous 0 ss (length region) \<and>
     (\<forall>s \<in> set ss. sha256 fl (section_slice region s) = sd_digest s) \<and> d = sha256 fl region"
proof (cases "length region < 2 ^ 64 \<and> length ss \<le> 3 \<and> list_all flags_ok ss \<and> contiguous 0 ss (length region)")
  case True
  then have n: "unat (of_nat (length region) :: u64) = length region" by (intro unat_of_nat_small) simp
  have b: "s \<in> set ss \<Longrightarrow> unat (sd_offset s) + unat (sd_length s) < 2 ^ 64" for s
    using True contiguous_end [of 0 ss "length region" s] by simp
  have "validate_section_layout ss (of_nat (length region)) = Inr ()" using True n by (simp add: layout_iff)
  then show ?thesis
    using True digest_fold [OF b, of ss fl region "[]"] contiguous_slices [of 0 ss region]
    by (auto simp: body_digest_for_v3_sections_def bindE_eq_Inr)
next
  case False
  have "length region < 2 ^ 64 \<Longrightarrow> unat (of_nat (length region) :: u64) = length region" by (rule unat_of_nat_small) simp
  with False show ?thesis by (auto simp: body_digest_for_v3_sections_def bindE_eq_Inr layout_iff)
qed

section \<open>The fixed prefix\<close>

definition header_prefix :: "nat \<Rightarrow> bytes" where
  "header_prefix n = V3_COMMIT_MAGIC @ u32_to_be_bytes 3 @ u32_to_be_bytes 3 @ u32_to_be_bytes (of_nat n) @ replicate 20 0"

lemma length_magic [simp]: "length V3_COMMIT_MAGIC = 8"
  by (simp add: V3_COMMIT_MAGIC_def lit_def)

lemma length_header_prefix [simp]: "length (header_prefix n) = 40"
  by (simp add: header_prefix_def)

lemma split_prefix:
  "bs = take 8 bs @ take 4 (drop 8 bs) @ take 4 (drop 12 bs) @ take 4 (drop 16 bs) @ take 8 (drop 20 bs) @
     take 12 (drop 28 bs) @ drop 40 bs"
proof -
  have "drop a bs = take n (drop a bs) @ drop (a + n) bs" for a n
    by (metis append_take_drop_id drop_drop add.commute)
  from this [of 0 8] this [of 8 4] this [of 12 4] this [of 16 4] this [of 20 8] this [of 28 12]
  show ?thesis by simp
qed

lemma word_bytes: "40 \<le> length bs \<Longrightarrow> a \<le> 36 \<Longrightarrow> take 4 (drop a bs) = u32_to_be_bytes (header_word bs a)"
  unfolding header_word_def by (rule to_be_from_be(2) [symmetric]) simp

lemma zero_bytes: "\<not> list_ex (\<lambda>b. b \<noteq> 0) xs \<longleftrightarrow> xs = replicate (length xs) (0 :: u8)"
  using replicate_eqI [of xs "length xs" 0] by (auto simp: list_ex_iff) (metis in_set_replicate)

lemma parse_fixed_header_prefix:
  assumes "n \<le> 8152"
  shows "parse_fixed_header (header_prefix n @ rest) = Inr \<lparr>fh_header_len = n, fh_header_span_len = 40 + n\<rparr>"
proof -
  let ?bs = "header_prefix n @ rest"
  have "take 8 ?bs = V3_COMMIT_MAGIC" "header_word ?bs 8 = 3" "header_word ?bs 12 = 3"
    "header_word ?bs 16 = of_nat n" "take 8 (drop 20 ?bs) = replicate 8 0" "take 12 (drop 28 ?bs) = replicate 12 0"
    by (simp_all add: header_prefix_def header_word_def from_be_to_be)
  moreover have "unat (of_nat n :: u32) = n" using assms by (intro unat_of_nat_small) simp
  ultimately show ?thesis using assms by (simp add: parse_fixed_header_def list_ex_iff Let_def)
qed

lemma parse_fixed_header_iff:
  "parse_fixed_header bs = Inr f \<longleftrightarrow>
     (\<exists>n rest. n \<le> 8152 \<and> bs = header_prefix n @ rest \<and> f = \<lparr>fh_header_len = n, fh_header_span_len = 40 + n\<rparr>)"
proof
  assume "parse_fixed_header bs = Inr f"
  then have l: "40 \<le> length bs" and m: "take 8 bs = V3_COMMIT_MAGIC" and w: "header_word bs 8 = 3" "header_word bs 12 = 3"
    and z: "take 8 (drop 20 bs) = replicate 8 0" "take 12 (drop 28 bs) = replicate 12 0"
    and n: "unat (header_word bs 16) \<le> 8152"
    and f: "f = \<lparr>fh_header_len = unat (header_word bs 16), fh_header_span_len = 40 + unat (header_word bs 16)\<rparr>"
    by (auto simp: parse_fixed_header_def Let_def zero_bytes split: if_splits)
  have "bs = header_prefix (unat (header_word bs 16)) @ drop 40 bs"
    using split_prefix [of bs] word_bytes [OF l, of 8] word_bytes [OF l, of 12] word_bytes [OF l, of 16] m w z
      replicate_add [of 8 12 "0 :: u8"]
    by (simp add: header_prefix_def)
  with n f show "\<exists>n rest. n \<le> 8152 \<and> bs = header_prefix n @ rest \<and> f = \<lparr>fh_header_len = n, fh_header_span_len = 40 + n\<rparr>"
    by blast
qed (auto simp: parse_fixed_header_prefix)

lemma header_span_eq:
  "header_span h md =
     (let w = header_wire h (signature_field md h)
      in if length w > 8152 then Inl HeaderTooLarge else Inr (header_prefix (length w) @ w))"
  by (simp add: header_span_def encode_header_wire header_prefix_def Let_def)

lemma length_header_wire: "length s = length s' \<Longrightarrow> length (header_wire h s) = length (header_wire h s')"
  by (simp add: header_wire_def write_bytes_def)

section \<open>Accepted objects\<close>

text \<open>What a reader requires of the header besides its encoding.\<close>

definition header_trusted :: "crypto_lib \<Rightarrow> format_lib \<Rightarrow> KeyRing \<Rightarrow> BackendObjectId \<Rightarrow> V3CommitHeader \<Rightarrow> bool" where
  "header_trusted lib fl keys object_id h \<longleftrightarrow> header_ok h \<and> ch_algorithms h = V3Algorithms_v03 \<and>
     sr_commit_key (ch_self_ref h) = object_id \<and>
     (\<exists>k. V3CommitKey_parse fl object_id = Inr k \<and> key_sequence k = sr_sequence (ch_self_ref h)) \<and>
     (\<exists>signed. header_span h Zero = Inr signed \<and>
        verify_checkpoint_payload lib keys (ch_signing_key_id h) signed (ch_signature h) = Inr ())"

lemma header_span_Actual:
  assumes "header_ok h"
  shows "header_span h Actual = Inr span \<longleftrightarrow>
    length (header_wire h (ch_signature h)) \<le> 8152 \<and>
    span = header_prefix (length (header_wire h (ch_signature h))) @ header_wire h (ch_signature h)"
  by (auto simp: header_span_eq Let_def)

lemma length_header_span: "header_span h md = Inr span \<Longrightarrow> length span = 40 + length (header_wire h (signature_field md h))"
  by (auto simp: header_span_eq Let_def split: if_splits)

lemma parse_header_iff:
  "parse_v3_commit_header lib fl object_id bs keys = Inr p \<longleftrightarrow>
     (\<exists>h span region. header_trusted lib fl keys object_id h \<and> header_span h Actual = Inr span \<and>
        bs = span @ region \<and>
        p = \<lparr>ph_header = h, ph_header_len = length span - 40, ph_sections_start = length span\<rparr>)"
proof
  assume "parse_v3_commit_header lib fl object_id bs keys = Inr p"
  then obtain n rest h k signed where n: "n \<le> 8152" and bs: "bs = header_prefix n @ rest" and l: "\<not> length rest < n"
    and d: "decode_header_cbor (take n rest) = Inr h" and al: "ch_algorithms h = V3Algorithms_v03"
    and k: "V3CommitKey_parse fl (sr_commit_key (ch_self_ref h)) = Inr k" "key_sequence k = sr_sequence (ch_self_ref h)"
    and o: "sr_commit_key (ch_self_ref h) = object_id" and sp: "header_span h Zero = Inr signed"
    and v: "verify_checkpoint_payload lib keys (ch_signing_key_id h) signed (ch_signature h) = Inr ()"
    and p: "p = \<lparr>ph_header = h, ph_header_len = n, ph_sections_start = 40 + n\<rparr>"
    by (auto simp: parse_v3_commit_header_def bindE_eq_Inr parse_fixed_header_iff guard_iff Let_def)
  from d have h: "header_ok h" and w: "take n rest = header_wire h (ch_signature h)"
    by (auto simp: decode_header_iff encode_header_wire)
  have len: "length (header_wire h (ch_signature h)) = n" using l by (simp flip: w)
  then have "header_span h Actual = Inr (header_prefix n @ take n rest)"
    using n w by (simp add: header_span_Actual [OF h])
  moreover have "bs = (header_prefix n @ take n rest) @ drop n rest" using bs by simp
  moreover have "header_trusted lib fl keys object_id h"
    unfolding header_trusted_def using h al k o sp v by blast
  ultimately show "\<exists>h span region. header_trusted lib fl keys object_id h \<and> header_span h Actual = Inr span \<and>
      bs = span @ region \<and> p = \<lparr>ph_header = h, ph_header_len = length span - 40, ph_sections_start = length span\<rparr>"
    using p l by (intro exI [of _ h] exI [of _ "header_prefix n @ take n rest"] exI [of _ "drop n rest"]) simp
next
  assume "\<exists>h span region. header_trusted lib fl keys object_id h \<and> header_span h Actual = Inr span \<and>
      bs = span @ region \<and> p = \<lparr>ph_header = h, ph_header_len = length span - 40, ph_sections_start = length span\<rparr>"
  then obtain h span region where t: "header_trusted lib fl keys object_id h" and s: "header_span h Actual = Inr span"
    and bs: "bs = span @ region" and p: "p = \<lparr>ph_header = h, ph_header_len = length span - 40, ph_sections_start = length span\<rparr>"
    by blast
  let ?w = "header_wire h (ch_signature h)"
  have h: "header_ok h" using t by (simp add: header_trusted_def)
  then have "length ?w \<le> 8152" and span: "span = header_prefix (length ?w) @ ?w"
    using s by (auto simp: header_span_Actual)
  then have "parse_fixed_header bs = Inr \<lparr>fh_header_len = length ?w, fh_header_span_len = 40 + length ?w\<rparr>"
    using bs by (simp add: parse_fixed_header_prefix)
  then show "parse_v3_commit_header lib fl object_id bs keys = Inr p"
    using t bs span p decode_header_wire [OF h]
    by (auto simp: parse_v3_commit_header_def header_trusted_def encode_header_wire Let_def)
qed

lemma parse_object_iff:
  "parse_v3_commit_object lib fl object_id body keys = Inr c \<longleftrightarrow>
     (\<exists>h region. header_trusted lib fl keys object_id h \<and> encode_object fl h region = Inr body \<and>
        c = \<lparr>pc_parsed_header = \<lparr>ph_header = h, ph_header_len = length body - length region - 40,
               ph_sections_start = length body - length region\<rparr>,
             pc_version_id = None, pc_body = body\<rparr>)"
proof
  assume "parse_v3_commit_object lib fl object_id body keys = Inr c"
  then obtain p where p: "parse_v3_commit_header lib fl object_id body keys = Inr p"
    and d: "body_digest_for_v3_sections fl (ch_section_index (ph_header p)) (drop (ph_sections_start p) body)
      = Inr (ch_body_digest (ph_header p))"
    and v: "validate_commit_section_semantics (ph_header p) = Inr ()"
    and c: "c = \<lparr>pc_parsed_header = p, pc_version_id = None, pc_body = body\<rparr>"
    by (auto simp: parse_v3_commit_object_def bindE_eq_Inr guard_iff Let_def)
  from p obtain h span region where t: "header_trusted lib fl keys object_id h" and s: "header_span h Actual = Inr span"
    and b: "body = span @ region" and ph: "p = \<lparr>ph_header = h, ph_header_len = length span - 40, ph_sections_start = length span\<rparr>"
    unfolding parse_header_iff by blast
  have "encode_object fl h region = Inr body" using d v s b ph by (simp add: encode_object_def)
  with t c ph b show "\<exists>h region. header_trusted lib fl keys object_id h \<and> encode_object fl h region = Inr body \<and>
      c = \<lparr>pc_parsed_header = \<lparr>ph_header = h, ph_header_len = length body - length region - 40,
             ph_sections_start = length body - length region\<rparr>, pc_version_id = None, pc_body = body\<rparr>"
    by (intro exI [of _ h] exI [of _ region]) simp
next
  assume "\<exists>h region. header_trusted lib fl keys object_id h \<and> encode_object fl h region = Inr body \<and>
      c = \<lparr>pc_parsed_header = \<lparr>ph_header = h, ph_header_len = length body - length region - 40,
             ph_sections_start = length body - length region\<rparr>, pc_version_id = None, pc_body = body\<rparr>"
  then obtain h region where t: "header_trusted lib fl keys object_id h" and e: "encode_object fl h region = Inr body"
    and c: "c = \<lparr>pc_parsed_header = \<lparr>ph_header = h, ph_header_len = length body - length region - 40,
             ph_sections_start = length body - length region\<rparr>, pc_version_id = None, pc_body = body\<rparr>"
    by blast
  from e obtain span where v: "validate_commit_section_semantics h = Inr ()"
    and d: "body_digest_for_v3_sections fl (ch_section_index h) region = Inr (ch_body_digest h)"
    and s: "header_span h Actual = Inr span" and b: "body = span @ region"
    by (auto simp: encode_object_def bindE_eq_Inr guard_iff)
  have "parse_v3_commit_header lib fl object_id body keys
      = Inr \<lparr>ph_header = h, ph_header_len = length span - 40, ph_sections_start = length span\<rparr>"
    unfolding parse_header_iff using t s b by blast
  then show "parse_v3_commit_object lib fl object_id body keys = Inr c"
    using v d b c by (simp add: parse_v3_commit_object_def)
qed

text \<open>What an accepted object is made of.\<close>

lemma checked_next_iff: "checked_next a = Some b \<longleftrightarrow> unat b = unat a + 1"
  using checked_add_Some [of a 1 b] by (auto simp: checked_next_def split: option.splits)

lemma semantics_iff:
  "validate_commit_section_semantics h = Inr () \<longleftrightarrow>
     (case ch_parent h of None \<Rightarrow> sr_sequence (ch_self_ref h) = 1
      | Some q \<Rightarrow> unat (sr_sequence (ch_self_ref h)) = unat (pr_sequence q) + 1) \<and>
     list_all (\<lambda>s. sd_flags s = 1) (ch_section_index h) \<and>
     map sd_section_type (ch_section_index h) \<in>
       (case ch_kind h of
          Root \<Rightarrow> {[IndexRoot], [IndexRoot, Recovery]}
        | Delta \<Rightarrow> if ch_parent h = None then {}
            else {[IndexRun], [PayloadPack, IndexRun], [IndexRun, Recovery], [PayloadPack, IndexRun, Recovery]})"
proof -
  let ?types = "map sd_section_type (ch_section_index h)"
  have 1: "(case ch_parent h of None \<Rightarrow> sr_sequence (ch_self_ref h) \<noteq> 1
      | Some q \<Rightarrow> checked_next (pr_sequence q) \<noteq> Some (sr_sequence (ch_self_ref h))) \<longleftrightarrow>
    \<not> (case ch_parent h of None \<Rightarrow> sr_sequence (ch_self_ref h) = 1
      | Some q \<Rightarrow> unat (sr_sequence (ch_self_ref h)) = unat (pr_sequence q) + 1)"
    by (cases "ch_parent h") (simp_all add: checked_next_iff)
  have 2: "list_ex (\<lambda>s. sd_flags s \<noteq> 1) (ch_section_index h) \<longleftrightarrow> \<not> list_all (\<lambda>s. sd_flags s = 1) (ch_section_index h)"
    by (simp add: list_all_iff list_ex_iff)
  have 3: "(case ch_kind h of Root \<Rightarrow> ts = [IndexRoot] \<or> ts = [IndexRoot, Recovery]
      | Delta \<Rightarrow> ch_parent h \<noteq> None \<and> (ts = [IndexRun] \<or> ts = [PayloadPack, IndexRun] \<or> ts = [IndexRun, Recovery]
          \<or> ts = [PayloadPack, IndexRun, Recovery])) \<longleftrightarrow>
    ts \<in> (case ch_kind h of Root \<Rightarrow> {[IndexRoot], [IndexRoot, Recovery]}
        | Delta \<Rightarrow> if ch_parent h = None then {}
            else {[IndexRun], [PayloadPack, IndexRun], [IndexRun, Recovery], [PayloadPack, IndexRun, Recovery]})" for ts
    by (cases "ch_kind h") simp_all
  show ?thesis
    unfolding validate_commit_section_semantics_def Let_def 1 2 3 guard_iff not_not by (rule iffI) simp_all
qed

lemma semantics_types_ok:
  assumes "validate_commit_section_semantics h = Inr ()"
  shows "list_all (\<lambda>s. type_ok (sd_section_type s)) (ch_section_index h) \<and> length (ch_section_index h) \<le> 3"
proof -
  have shape: "ts \<in> (case kind of Root \<Rightarrow> {[IndexRoot], [IndexRoot, Recovery]}
      | Delta \<Rightarrow> if c then {} else {[IndexRun], [PayloadPack, IndexRun], [IndexRun, Recovery], [PayloadPack, IndexRun, Recovery]}) \<Longrightarrow>
      length ts \<le> 3 \<and> list_all type_ok ts" for ts kind c
    by (cases kind; cases c) (auto simp: type_ok_def V3SectionType_from_wire_def)
  show ?thesis
    using shape [where ts = "map sd_section_type (ch_section_index h)" and kind = "ch_kind h" and c = "ch_parent h = None"] assms
    unfolding semantics_iff by (auto simp: list_all_iff)
qed

section \<open>Signing\<close>

text \<open>Ed25519 signatures have sixty-four bytes.\<close>

definition ed25519_len_law :: "crypto_lib \<Rightarrow> bool" where
  "ed25519_len_law lib \<longleftrightarrow> (\<forall>s m. length s = 32 \<longrightarrow> length (ed25519_sign lib s m) = 64)"

lemma sign_length:
  assumes "hmac_law lib" and "ed25519_len_law lib" and "primary_key keys CheckpointSigning = Inr k"
    and "sign_checkpoint_payload lib keys payload = Inr sg"
  shows "cs_key_id sg = km_id k \<and> length (cs_signature sg) = 64"
proof -
  obtain seed where seed: "checkpoint_signing_key lib (km_secret k) = Inr seed"
    and sg: "sg = \<lparr>cs_key_id = km_id k, cs_signature = ed25519_sign lib seed payload\<rparr>"
    using assms(3,4) by (auto simp: sign_checkpoint_payload_def bindE_eq_Inr)
  obtain d where "derive_hmac lib (km_secret k) (lit ''rs3:checkpoint-ed25519-seed:v1'') (lit ''ed25519'') = Inr d" "length d = 32"
    by (rule derive_hmac_ok [OF assms(1)])
  with seed have "length seed = 32" by (simp add: checkpoint_signing_key_def split: if_splits)
  with assms(2) sg show ?thesis by (simp add: ed25519_len_law_def)
qed

lemma header_wire_signature [simp]: "header_wire (h\<lparr>ch_signature := x\<rparr>) s = header_wire h s"
  by (simp add: header_wire_def)

lemma header_span_Zero_signature [simp]: "header_span (h\<lparr>ch_signature := x\<rparr>) Zero = header_span h Zero"
  by (simp add: header_span_eq)

lemma sign_header:
  assumes laws: "hmac_law lib" "ed25519_law lib" "ed25519_len_law lib" "keyring_ok lib keys'"
    and key: "primary_key keys CheckpointSigning = Inr k" "keeps_key keys' k"
    and span: "header_span (h\<lparr>ch_signing_key_id := km_id k\<rparr>) Zero = Inr payload"
  obtains sg where "sign_with_keyring lib keys h = Inr (h\<lparr>ch_signing_key_id := km_id k, ch_signature := sg\<rparr>)"
    and "length sg = 64" and "verify_checkpoint_payload lib keys' (km_id k) payload sg = Inr ()"
proof -
  obtain s where s: "sign_checkpoint_payload lib keys payload = Inr s"
    and v: "verify_checkpoint_payload lib keys' (cs_key_id s) payload (cs_signature s) = Inr ()"
    using sign_then_verify [OF laws(1,2,4) key] by blast
  note l = sign_length [OF laws(1,3) key(1) s]
  have "primary_key_id keys CheckpointSigning = Inr (km_id k)" using key(1) by (simp add: primary_key_id_def)
  moreover have "header_span (h\<lparr>ch_signing_key_id := km_id k, ch_signature := replicate 64 0\<rparr>) Zero = Inr payload"
    using span by simp
  ultimately have "sign_with_keyring lib keys h = Inr (h\<lparr>ch_signing_key_id := km_id k, ch_signature := cs_signature s\<rparr>)"
    using s l by (simp add: sign_with_keyring_def)
  with l v show thesis using that by simp
qed

text \<open>The signed bytes determine every field of the header but the signature.\<close>

lemma signed_bytes_inj:
  assumes "header_ok h" and "header_ok h'" and "header_span h Zero = Inr s" and "header_span h' Zero = Inr s"
  shows "h' = h\<lparr>ch_signature := ch_signature h'\<rparr>"
proof -
  let ?z = "replicate 64 0 :: bytes"
  have "header_wire h ?z = header_wire h' ?z"
    using assms(3,4) by (auto simp: header_span_eq Let_def split: if_splits)
  moreover have "header_ok (h\<lparr>ch_signature := ?z\<rparr>)" "header_ok (h'\<lparr>ch_signature := ?z\<rparr>)"
    using assms(1,2) by (simp_all add: header_ok_def)
  ultimately have "h\<lparr>ch_signature := ?z\<rparr> = h'\<lparr>ch_signature := ?z\<rparr>"
    using decode_header_wire [of "h\<lparr>ch_signature := ?z\<rparr>"] decode_header_wire [of "h'\<lparr>ch_signature := ?z\<rparr>"] by simp
  then show ?thesis by (cases h; cases h') simp
qed

lemma algorithms_v03_ok: "algorithms_ok V3Algorithms_v03"
proof -
  have "text_ok s" if "list_all (\<lambda>b. b \<le> 0x7F) s" "length s < 2 ^ 64" for s
    using that utf8_chars_ascii [of s] by (simp add: text_ok_def from_utf8_ok_def)
  then show ?thesis by (simp add: algorithms_ok_def V3Algorithms_v03_def lit_def)
qed

text \<open>A header made for a fresh key, with a section table that matches its region, is well-formed once signed.\<close>

lemma signed_header_ok:
  assumes laws: "base64url_law fl" "sha256_law fl"
    and key: "V3CommitKey_from_parts fl sequence random_id = Inr key" "length random_id = 32"
    and self: "ch_self_ref h = \<lparr>sr_sequence = sequence, sr_commit_key = key_object_id key\<rparr>"
    and fields: "ch_algorithms h = V3Algorithms_v03" "\<forall>q. ch_parent h = Some q \<longrightarrow> parent_ref_ok q"
      "keyring_ref_ok (ch_keyring_envelope_ref h)" "name_ok key_id" "length sg = 64"
    and body: "validate_commit_section_semantics h = Inr ()"
      "body_digest_for_v3_sections fl (ch_section_index h) region = Inr (ch_body_digest h)"
  shows "header_ok (h\<lparr>ch_signing_key_id := key_id, ch_signature := sg\<rparr>)"
proof -
  have k: "key_object_id key = commit_key_text fl sequence random_id"
    using key(1) from_parts_eq [OF laws(1) key(2), of sequence] by auto
  have "length (commit_key_text fl sequence random_id) < 2 ^ 64"
    using laws(1) key(2) by (simp add: commit_key_text_def base64url_law_def COMMIT_PREFIX_def lit_def)
  then have "self_ref_ok (ch_self_ref h)"
    using commit_key_name [OF laws(1) key(2), of sequence] self k by (simp add: self_ref_ok_def name_ok_def)
  moreover have d: "\<forall>s \<in> set (ch_section_index h). length (sd_digest s) = 32" "length (ch_body_digest h) = 32"
    using body(2) laws(2) unfolding body_digest_iff sha256_law_def by metis+
  then have "sections_ok (ch_section_index h)"
    using semantics_types_ok [OF body(1)] by (simp add: sections_ok_def section_ok_def list_all_iff)
  ultimately show ?thesis
    using fields d(2) algorithms_v03_ok by (simp add: header_ok_def)
qed

lemma semantics_signature [simp]:
  "validate_commit_section_semantics (h\<lparr>ch_signing_key_id := a, ch_signature := b\<rparr>) = validate_commit_section_semantics h"
  by (cases "ch_parent h"; cases "ch_kind h") (simp_all add: validate_commit_section_semantics_def)

lemma header_span_lengths:
  assumes "header_span h Zero = Inr payload" and "length (ch_signature h) = 64"
  shows "\<exists>span. header_span h Actual = Inr span \<and> length span = length payload"
  using assms length_header_wire [of "ch_signature h" "replicate 64 0" h]
  by (auto simp: header_span_eq Let_def split: if_splits)

text \<open>Signing, writing and reading back.\<close>

lemma sign_encode_parse:
  assumes "hmac_law lib" and "ed25519_law lib" and "ed25519_len_law lib" and "base64url_law fl" and "sha256_law fl"
    and "keyring_ok lib keys'" and "primary_key keys CheckpointSigning = Inr k" and "keeps_key keys' k"
    and "name_ok (km_id k)"
    and "V3CommitKey_from_parts fl sequence random_id = Inr key" and "length random_id = 32"
    and "ch_self_ref h = \<lparr>sr_sequence = sequence, sr_commit_key = key_object_id key\<rparr>"
    and "ch_algorithms h = V3Algorithms_v03" and "\<forall>q. ch_parent h = Some q \<longrightarrow> parent_ref_ok q"
    and "keyring_ref_ok (ch_keyring_envelope_ref h)"
    and "validate_commit_section_semantics h = Inr ()"
    and "body_digest_for_v3_sections fl (ch_section_index h) region = Inr (ch_body_digest h)"
    and "header_span (h\<lparr>ch_signing_key_id := km_id k\<rparr>) Zero = Inr payload"
  shows "\<exists>sg body.
    sign_with_keyring lib keys h = Inr (h\<lparr>ch_signing_key_id := km_id k, ch_signature := sg\<rparr>) \<and>
    encode_object fl (h\<lparr>ch_signing_key_id := km_id k, ch_signature := sg\<rparr>) region = Inr body \<and>
    parse_v3_commit_object lib fl (key_object_id key) body keys' =
      Inr \<lparr>pc_parsed_header =
             \<lparr>ph_header = h\<lparr>ch_signing_key_id := km_id k, ch_signature := sg\<rparr>,
              ph_header_len = length payload - 40, ph_sections_start = length payload\<rparr>,
           pc_version_id = None, pc_body = body\<rparr>"
proof -
  obtain sg where sg: "sign_with_keyring lib keys h = Inr (h\<lparr>ch_signing_key_id := km_id k, ch_signature := sg\<rparr>)"
    "length sg = 64" "verify_checkpoint_payload lib keys' (km_id k) payload sg = Inr ()"
    by (rule sign_header [OF assms(1-3,6-8,18)])
  let ?h = "h\<lparr>ch_signing_key_id := km_id k, ch_signature := sg\<rparr>"
  have z: "header_span ?h Zero = Inr payload" using assms(18) by simp
  then obtain span where span: "header_span ?h Actual = Inr span" "length span = length payload"
    using header_span_lengths [OF z] sg(2) by auto
  have e: "encode_object fl ?h region = Inr (span @ region)"
    using assms(16,17) span(1) by (simp add: encode_object_def)
  have "V3CommitKey_parse fl (key_object_id key) = Inr key" "key_sequence key = sequence"
    using assms(10,11) by (auto simp: parse_iff [OF assms(4)] from_parts_eq [OF assms(4)])
  then have "header_trusted lib fl keys' (key_object_id key) ?h"
    using signed_header_ok [OF assms(4,5,10-15,9) sg(2) assms(16,17)] assms(12,13) z sg(3)
    by (simp add: header_trusted_def)
  with e span(2) have "parse_v3_commit_object lib fl (key_object_id key) (span @ region) keys' =
      Inr \<lparr>pc_parsed_header = \<lparr>ph_header = ?h, ph_header_len = length payload - 40, ph_sections_start = length payload\<rparr>,
        pc_version_id = None, pc_body = span @ region\<rparr>"
    unfolding parse_object_iff by (intro exI [of _ ?h] exI [of _ region]) simp
  with sg(1) e show ?thesis by blast
qed

section \<open>Offsets\<close>

lemma contiguous_offsets:
  "contiguous a ss b \<Longrightarrow> i < length ss \<Longrightarrow>
     unat (sd_offset (ss ! i)) = a + sum_list (map (\<lambda>s. unat (sd_length s)) (take i ss))"
proof (induction ss arbitrary: a i)
  case (Cons s ss)
  then show ?case by (cases i) auto
qed simp

lemma accepted_parts:
  assumes "parse_v3_commit_object lib fl object_id body keys = Inr c"
  obtains h region where "ph_header (pc_parsed_header c) = h" and "drop (ph_sections_start (pc_parsed_header c)) body = region"
    and "header_trusted lib fl keys object_id h" and "encode_object fl h region = Inr body"
    and "validate_commit_section_semantics h = Inr ()"
    and "body_digest_for_v3_sections fl (ch_section_index h) region = Inr (ch_body_digest h)"
proof -
  obtain h region where h: "header_trusted lib fl keys object_id h" and e: "encode_object fl h region = Inr body"
    and c: "ph_header (pc_parsed_header c) = h" "ph_sections_start (pc_parsed_header c) = length body - length region"
    using assms unfolding parse_object_iff by auto
  moreover have "drop (length body - length region) body = region" "validate_commit_section_semantics h = Inr ()"
    "body_digest_for_v3_sections fl (ch_section_index h) region = Inr (ch_body_digest h)"
    using e by (auto simp: encode_object_def bindE_eq_Inr guard_iff)
  ultimately show thesis using that by simp
qed

end
