(* ===== verification/CommitExample.thy ===== *)
theory CommitExample
  imports CommitParse SealExample
begin

text \<open>
  Concrete packages and a concrete genesis commit: base64 of thirty-two bytes, a digest that keeps the
  first bytes, signatures of sixty-four bytes of which the last is free, and a root commit with one section of three bytes. They
  show that the hypotheses on commit objects can be met together.
\<close>

section \<open>Packages\<close>

fun base64_digits :: "nat \<Rightarrow> nat \<Rightarrow> nat list" where
  "base64_digits 0 v = []"
| "base64_digits (Suc n) v = base64_digits n (v div 64) @ [v mod 64]"

definition base64_char :: "nat \<Rightarrow> u8" where
  "base64_char n = of_nat (if n < 26 then 65 + n else if n < 52 then 71 + n else if n < 62 then n - 4
     else if n = 62 then 45 else 95)"

definition base64_value :: "u8 \<Rightarrow> nat" where
  "base64_value c = (let n = unat c in if 65 \<le> n \<and> n \<le> 90 then n - 65 else if 97 \<le> n \<and> n \<le> 122 then n - 71
     else if 48 \<le> n \<and> n \<le> 57 then n + 4 else if n = 45 then 62 else 63)"

definition example_format_lib :: format_lib where
  "example_format_lib =
     \<lparr>base64url_encode = (\<lambda>bs. map base64_char (base64_digits 43 (be_val 0 bs * 4))),
      base64url_decode = (\<lambda>s. Some (be_bytes 32 (foldl (\<lambda>a c. a * 64 + base64_value c) 0 s div 4))),
      sha256 = pad_to 32\<rparr>"

lemma base64_table:
  "list_all (\<lambda>n. base64url_char (base64_char n) \<and> base64_value (base64_char n) = n) [0..<64]"
  by code_simp

lemma base64_char_ok: "n < 64 \<Longrightarrow> base64url_char (base64_char n)" "n < 64 \<Longrightarrow> base64_value (base64_char n) = n"
  using base64_table by (simp_all add: list_all_iff)

lemma base64_digits_small: "list_all (\<lambda>d. d < 64) (base64_digits n v)"
  by (induction n arbitrary: v) simp_all

lemma length_base64_digits [simp]: "length (base64_digits n v) = n"
  by (induction n arbitrary: v) simp_all

lemma base64_digits_value: "foldl (\<lambda>a c. a * 64 + base64_value c) 0 (map base64_char (base64_digits n v)) = v mod 64 ^ n"
proof (induction n arbitrary: v)
  case (Suc n)
  have "v div 64 mod 64 ^ n * 64 + v mod 64 = v mod 64 ^ Suc n"
    by (simp add: mod_mult2_eq mult.commute)
  with Suc show ?case by (simp add: base64_char_ok)
qed simp

lemma pad_to_length [simp]: "length (pad_to n bs) = n"
  by (simp add: pad_to_def)

lemma example_format_laws: "base64url_law example_format_lib" "sha256_law example_format_lib"
proof -
  show "base64url_law example_format_lib"
    unfolding base64url_law_def
  proof (intro allI impI)
    fix bs :: bytes
    assume n: "length bs = 32"
    let ?v = "be_val 0 bs * 4"
    have "be_val 0 bs < 256 ^ 32" using be_val_bound [of bs] n by simp
    then have "?v mod 64 ^ 43 = ?v" by simp
    then have "foldl (\<lambda>a c. a * 64 + base64_value c) 0 (map base64_char (base64_digits 43 ?v)) = ?v"
      by (simp only: base64_digits_value)
    then have "base64url_decode example_format_lib (base64url_encode example_format_lib bs) = Some bs"
      using be_bytes_be_val [of bs] n by (simp add: example_format_lib_def)
    moreover have "list_all base64url_char (base64url_encode example_format_lib bs)"
      using base64_digits_small [of 43 ?v] base64_char_ok(1) by (auto simp: example_format_lib_def list_all_iff)
    ultimately show "length (base64url_encode example_format_lib bs) = 43 \<and>
        list_all base64url_char (base64url_encode example_format_lib bs) \<and>
        base64url_decode example_format_lib (base64url_encode example_format_lib bs) = Some bs"
      by (simp add: example_format_lib_def)
  qed
  show "sha256_law example_format_lib" by (simp add: sha256_law_def example_format_lib_def)
qed

text \<open>
  Signatures end in a byte that the verification ignores, as two signatures of one message may both
  be valid.
\<close>

definition signing_lib :: "u8 \<Rightarrow> crypto_lib" where
  "signing_lib b = plain_lib
     \<lparr>ed25519_sign := (\<lambda>s m. pad_to 63 (s @ m) @ [b]),
      ed25519_verify := (\<lambda>p m sg. length sg = 64 \<and> take 63 sg = pad_to 63 (p @ m))\<rparr>"

abbreviation example_crypto_lib :: crypto_lib where
  "example_crypto_lib \<equiv> signing_lib 0"

lemma example_crypto_laws:
  "hmac_law (signing_lib b)" "ed25519_law (signing_lib b)" "ed25519_len_law (signing_lib b)"
  by (simp_all add: signing_lib_def hmac_law_def ed25519_law_def ed25519_len_law_def plain_lib_def)

lemma parse_any_signer:
  "parse_v3_commit_object (signing_lib b) fl object_id body keys = parse_v3_commit_object example_crypto_lib fl object_id body keys"
proof -
  have fields: "hmac_sha256 (signing_lib b) = hmac_sha256 example_crypto_lib" "hex_decode (signing_lib b) = hex_decode example_crypto_lib"
    "ed25519_public (signing_lib b) = ed25519_public example_crypto_lib" "ed25519_verify (signing_lib b) = ed25519_verify example_crypto_lib"
    by (simp_all add: signing_lib_def)
  have same: "verify_checkpoint_payload (signing_lib b) = verify_checkpoint_payload example_crypto_lib"
    unfolding fun_eq_iff verify_checkpoint_payload_def checkpoint_public_key_bytes_def prefixed_ed25519_public_key_bytes_def
      derive_checkpoint_public_key_def checkpoint_signing_key_def derive_hmac_def fields by simp
  show ?thesis unfolding parse_v3_commit_object_def parse_v3_commit_header_def same ..
qed

lemma example_rings_ok: "keyring_ok lib example_keys" "keyring_ok lib rotated_keys"
  using example_keys_ok by (simp_all add: keyring_ok_def example_key_defs public_key_matches_def)

abbreviation signing_key :: KeyMaterial where
  "signing_key \<equiv> example_material ''s1'' CheckpointSigning Primary 4"

lemma example_signing_kept: "keeps_key rotated_keys signing_key"
  by (simp add: keeps_key_def example_key_defs)

section \<open>A genesis commit\<close>

definition example_commit_key :: V3CommitKey where
  "example_commit_key = \<lparr>key_sequence = 1, key_random_id = replicate 32 9,
     key_object_id = commit_key_text example_format_lib 1 (replicate 32 9)\<rparr>"

lemma example_commit_key_parts: "V3CommitKey_from_parts example_format_lib 1 (replicate 32 9) = Inr example_commit_key"
  by (simp add: from_parts_eq [OF example_format_laws(1)] example_commit_key_def)

definition example_region :: bytes where "example_region = [1, 2, 3]"

definition example_header :: V3CommitHeader where
  "example_header =
     \<lparr>ch_self_ref = \<lparr>sr_sequence = 1, sr_commit_key = key_object_id example_commit_key\<rparr>, ch_parent = None,
      ch_publish_time_ms = 5, ch_kind = Root, ch_algorithms = V3Algorithms_v03,
      ch_keyring_envelope_ref = \<lparr>ke_object_id = lit ''k'', ke_digest = replicate 32 0\<rparr>,
      ch_section_index =
        [\<lparr>sd_section_type = IndexRoot, sd_offset = 0, sd_length = 3, sd_flags = 1, sd_digest = pad_to 32 [1, 2, 3]\<rparr>],
      ch_body_digest = pad_to 32 [1, 2, 3], ch_signature = replicate 64 0, ch_signing_key_id = lit ''s1''\<rparr>"

lemma short_names: "name_ok (lit ''s1'')" "name_ok (lit ''k'')"
  by (simp_all add: name_ok_def valid_name_def from_utf8_ok_def trim_is_empty_def utf8_chars_ascii lit_def is_whitespace_def)

lemma example_body_digest:
  "body_digest_for_v3_sections example_format_lib (ch_section_index example_header) example_region = Inr (ch_body_digest example_header)"
  by (simp add: body_digest_iff example_header_def example_region_def flags_ok_def section_is_supported_def
      section_slice_def example_format_lib_def)

lemma example_semantics: "validate_commit_section_semantics example_header = Inr ()"
  by (simp add: semantics_iff example_header_def)

lemma example_header_fields:
  "ch_self_ref example_header = \<lparr>sr_sequence = 1, sr_commit_key = key_object_id example_commit_key\<rparr>"
  "ch_algorithms example_header = V3Algorithms_v03" "\<forall>q. ch_parent example_header = Some q \<longrightarrow> parent_ref_ok q"
  "keyring_ref_ok (ch_keyring_envelope_ref example_header)" "name_ok (km_id signing_key)"
  using short_names by (simp_all add: example_header_def keyring_ref_ok_def example_material_def)

lemma length_example_key: "length (key_object_id example_commit_key) = 76"
  using example_format_laws(1)
  by (simp add: example_commit_key_def commit_key_text_def base64url_law_def COMMIT_PREFIX_def lit_def)

lemma example_span:
  obtains payload where "header_span (example_header\<lparr>ch_signing_key_id := km_id signing_key\<rparr>) Zero = Inr payload"
proof -
  have "length (header_wire (example_header\<lparr>ch_signing_key_id := km_id signing_key\<rparr>) (replicate 64 0)) \<le> 8152"
    using length_example_key
    by (simp add: header_wire_def example_header_def encode_self_ref_def encode_algorithms_def encode_keyring_ref_def
        sections_wire_def section_wire_def kind_wire_def V3Algorithms_v03_def example_material_def Let_def lit_def
        write_u64_def write_i64_def write_text_def write_bytes_def write_null_def write_map_len_def
        write_array_len_def write_type_len_def)
  then show thesis using that by (simp add: header_span_eq Let_def)
qed

text \<open>The object that the genesis commit is written as, with the last byte of its signature.\<close>

lemma example_commit_object:
  obtains sg body c where
    "sign_with_keyring (signing_lib b) example_keys example_header
      = Inr (example_header\<lparr>ch_signing_key_id := lit ''s1'', ch_signature := sg\<rparr>)"
    and "encode_object example_format_lib (example_header\<lparr>ch_signing_key_id := lit ''s1'', ch_signature := sg\<rparr>) example_region = Inr body"
    and "parse_v3_commit_object example_crypto_lib example_format_lib (key_object_id example_commit_key) body rotated_keys = Inr c"
    and "ph_header (pc_parsed_header c) = example_header\<lparr>ch_signing_key_id := lit ''s1'', ch_signature := sg\<rparr>"
    and "drop (ph_sections_start (pc_parsed_header c)) body = example_region" and "last sg = b"
proof -
  obtain payload where "header_span (example_header\<lparr>ch_signing_key_id := km_id signing_key\<rparr>) Zero = Inr payload"
    by (rule example_span)
  from sign_encode_parse [OF example_crypto_laws [of b] example_format_laws example_rings_ok(2) example_primary(3)
      example_signing_kept example_header_fields(5) example_commit_key_parts _ example_header_fields(1-4) example_semantics
      example_body_digest this]
  obtain sg body c where s: "sign_with_keyring (signing_lib b) example_keys example_header
      = Inr (example_header\<lparr>ch_signing_key_id := lit ''s1'', ch_signature := sg\<rparr>)"
    and e: "encode_object example_format_lib (example_header\<lparr>ch_signing_key_id := lit ''s1'', ch_signature := sg\<rparr>) example_region = Inr body"
    and p: "parse_v3_commit_object example_crypto_lib example_format_lib (key_object_id example_commit_key) body rotated_keys = Inr c"
    and h: "ph_header (pc_parsed_header c) = example_header\<lparr>ch_signing_key_id := lit ''s1'', ch_signature := sg\<rparr>"
    by (auto simp: example_material_def parse_any_signer [where b = b])
  obtain region where "drop (ph_sections_start (pc_parsed_header c)) body = region"
    "encode_object example_format_lib (example_header\<lparr>ch_signing_key_id := lit ''s1'', ch_signature := sg\<rparr>) region = Inr body"
    using accepted_parts [OF p] h by metis
  with e have "drop (ph_sections_start (pc_parsed_header c)) body = example_region"
    by (auto simp: encode_object_def bindE_eq_Inr guard_iff)
  moreover have "last sg = b"
    using s by (auto simp: sign_with_keyring_def sign_checkpoint_payload_def bindE_eq_Inr map_err_eq_Inr guard_iff Let_def
        signing_lib_def example_header_def)
  ultimately show thesis using that s e p h by blast
qed

end
