(* ===== verification/Spec2Isabelle.thy ===== *)
theory Spec2Isabelle
  imports RunExample SealExample NamespaceIndex LeaseExample CommitExample
begin

text \<open>
  Verification of rs3, an encrypting S3 gateway. Clients read and write objects through the
  gateway; the gateway keeps an index of the objects in memory, writes sealed payloads, index runs
  and signed commits to an object store, keeps decrypted segments in a cache, and serialises the
  writers of one repository by a Kubernetes Lease that also carries the anchor (the reference of
  the newest accepted commit). This theory imports the whole development and states the
  properties that its parts have together; every property is a theorem under a comment with its
  number.

  \<^bold>\<open>How programs are modelled.\<close> A function of the source is a HOL function of the same name (a method
  has its type in front where the bare name is taken). Machine integers are words, with the checked, wrapping
  and saturating operations of the source; a \<open>usize\<close> is a natural number checked against
  \<open>2 ^ 64\<close> where the source checks; strings are UTF-8 byte lists; durations are nanoseconds.
  Every \<open>Err\<close> and every early return is a value of a sum type; the error enumerations are
  datatypes with the constructors of the source. Code that is not under \<open>src/\<close> is a parameter: the
  crypto packages are the record \<open>crypto_lib\<close> with named laws (\<open>hmac_law\<close>, \<open>xchacha_law\<close>,
  \<open>xchacha_auth_law\<close>, \<open>gcm_siv_law\<close>, \<open>ed25519_law\<close>, \<open>hex_law\<close>, \<open>ct_eq_law\<close>), the Kubernetes API is a relation with
  \<open>lease_api_law\<close> (or a function with \<open>serves\<close>); \<open>plain_lib\<close>, \<open>tagged_lib\<close> (with a tag that is
  checked), \<open>serve_api\<close> and \<open>lease_serve\<close> are instances that satisfy them. No law excludes two inputs
  with the same tag or digest; where that matters the property says so.

  \<^bold>\<open>Foundations.\<close> \<open>Prelude\<close> (results, checked arithmetic, byte images), \<open>Codec\<close> (the interface of
  encoders and readers: round trip and canonicity, interpreted for every wire field), \<open>RustStd\<close>
  and \<open>Decimal\<close> (UTF-8, white space, decimal numbers), \<open>OrdMap\<close> (\<open>BTreeMap\<close> with its laws as a
  locale).

  \<^bold>\<open>Values.\<close> \<open>Types\<close>, \<open>Etag\<close>, \<open>Checksum\<close>, \<open>Cbor\<close> model \<open>rs3-types/src/lib.rs\<close>, \<open>etag.rs\<close>, \<open>checksum.rs\<close>
  and \<open>cbor.rs\<close>. \<open>Payload\<close> models the payload descriptors of \<open>rs3-index/src/lib.rs\<close>.

  \<^bold>\<open>Index runs\<close> (\<open>rs3-index/src/run.rs\<close>). \<open>RunModel\<close> (data, limits, validation), \<open>RunWire\<close> (bounded
  writer, reader, varints), \<open>RunEncode\<close>, \<open>RunDecode\<close>; \<open>RunFields\<close>, \<open>RunFrames\<close>, \<open>RunTables\<close>,
  \<open>RunProjections\<close> and \<open>RunRoundtrip\<close> prove field by field, frame by frame and for the two
  projections (namespace order and listing order) that decoding inverts encoding. The decoder loops
  recurse over the frames and over record counts read from the headers, so they end by structural
  recursion. \<open>RunExample\<close> is a run that exercises every kind of record.

  \<^bold>\<open>Index and receipts.\<close> \<open>NamespaceIndex\<close> (\<open>rs3-index/src/lib.rs\<close>): upsert, remove, snapshot and
  restore as updates of one finite map (\<open>snapshot_key\<close> and \<open>restore_key\<close> are public but have no caller
  outside the tests; the repository undoes a failed commit through its pending checkpoints, in
  \<open>v3/service.rs\<close>, which are not modelled). \<open>Completion\<close> (\<open>rs3-index/src/completion.rs\<close>): the bounded
  set of newest receipts and its codec.

  \<^bold>\<open>Crypto\<close> (\<open>rs3-crypto/src\<close>). \<open>CryptoLib\<close> (boundary, errors, secrets, keyed hash), \<open>Keyring\<close>
  (validation, lookups, derived keys, checkpoint signatures, sealed metadata), \<open>SegmentCrypto\<close>
  (associated data, nonces, sealing and opening of one segment; what opens is what was sealed there).

  \<^bold>\<open>Payloads and caches\<close> (\<open>rs3-repository/src\<close>). \<open>RepoTypes\<close> (errors, ranges), \<open>PayloadSegments\<close>
  (\<open>payload.rs\<close>: layouts, sealer, ranges, opening; \<open>seal_payload_object\<close> and its loop \<open>seal_chunks\<close>
  are the producer that the tests and fuzz targets use, while the streaming writers, which call the
  same sealer for each segment, are asynchronous and not modelled), \<open>PayloadReads\<close> (what a layout means), \<open>Lru\<close>
  (\<open>lru.rs\<close>: the linked hash map and its abstraction to a list), \<open>SegmentCache\<close> (both byte-bounded
  caches, of decrypted segments and of the stored bytes of payload sections; their eviction loops are
  partial functions, shown to return), \<open>SegmentReads\<close> (\<open>service.rs\<close> and the two section cache accesses
  of \<open>v3/service.rs\<close>: reads through the caches, with poisoned locks). \<open>SealExample\<close> has concrete keys and objects.

  \<^bold>\<open>Lease and anchor\<close> (\<open>rs3-k8s/src\<close>). \<open>WriterLease\<close> (\<open>lease_guard.rs\<close>: coordination fields, local
  fence, acquire, renew and release as programs that call the API and go on with its reply),
  \<open>V3Types\<close> (error values, anchor state), \<open>Anchor\<close> (\<open>lib.rs\<close>: annotations, fence checks,
  compare-and-advance, fence-and-read). The retry loops are bounded by the 16 attempts of the
  source. \<open>LeaseFields\<close> shows what each update writes and keeps. \<open>LeaseSystem\<close> puts any number of
  gateways on one Lease: an inductive step relation over time, API calls in any order, replies
  that are lost, requests that are applied late, crashes; \<open>LeasePrograms\<close> shows what the programs
  can send whatever the replies; \<open>LeaseHistory\<close> and \<open>LeaseInvariant\<close> have the invariant (the
  history of coordination writes, indexed by the renewal counter) and that every step keeps it;
  \<open>LeaseSafety\<close> draws the consequences; \<open>LeaseRuns\<close> has the waiting loops, which the source runs without
  bound, for any finite sequence of clock readings (\<open>None\<close> when the readings end before the loop does),
  and uncontended runs; \<open>LeaseExample\<close> has a server and concrete runs.

  \<^bold>\<open>Commits\<close> (\<open>rs3-repository/src/v3/commit.rs\<close>). \<open>CommitKey\<close> (object keys; base64 and SHA-256 are the
  record \<open>format_lib\<close> with \<open>base64url_law\<close> and \<open>sha256_law\<close>), \<open>Commit\<close> (headers, section tables,
  signing, writing, parsing, with every check and error), \<open>CommitCodec\<close> (each field reader is a
  canonical codec; the keys of a map come in order, so the decoder accepts one encoding only),
  \<open>CommitParse\<close> (layout, digests, acceptance, signing), \<open>CommitExample\<close> (instances of the packages
  and a genesis commit).

  \<^bold>\<open>Not modelled.\<close> The object stores, the S3 protocol adapter, HTTP endpoints, command line and
  configuration are I/O and glue around packages that are not under \<open>src/\<close>. The asynchronous
  orchestration of the repository (coordinator, recovery, maintenance, service) runs over those
  stores and is not modelled beyond the caches and reads above. Metrics, tracing, \<open>Debug\<close> and
  \<open>Display\<close> implementations, zeroisation of secrets and lock poisoning outside the two caches
  have no counterpart. The remaining repository codecs (index roots, payload packs, format roots,
  recovery envelopes) are not modelled yet.
\<close>

section \<open>Index runs\<close>

text \<open>
  C1: Decoding the frames of an index run gives the run back. For all limits that allow fewer than
  \<open>2 ^ 32\<close> records, and however the encoder has split the records into frames, the frames that \<open>encode_index_run_frames\<close>
  returns for a run are accepted by \<open>decode_index_run_frames\<close> under the same limits, and the
  decoded run is the encoded one: same sequence, same packs, same streams, same receipt and the
  mutations in their original order.
\<close>

theorem frames_roundtrip:
  assumes "run_typed run" and "limits_typed limits" and "encode_index_run_frames run limits = Inr frames"
  shows "decode_index_run_frames (map ef_bytes frames) limits = Inr run"
  using assms by (intro index_run_frames_roundtrip)

theorem frames_roundtrip_witness:
  "\<exists>frames. encode_index_run_frames example_run example_limits = Inr frames \<and>
     decode_index_run_frames (map ef_bytes frames) example_limits = Inr example_run"
proof -
  obtain frames where "encode_index_run_frames example_run example_limits = Inr frames"
    using example_frames by (cases "encode_index_run_frames example_run example_limits") auto
  with frames_roundtrip [of example_run example_limits frames] example_typed show ?thesis by blast
qed

text \<open>
  C2: The length-prefixed bundle of frames round-trips: \<open>decode_index_run\<close> gives back the run
  that \<open>encode_index_run\<close> wrote.
\<close>

theorem bundle_roundtrip:
  assumes "run_typed run" and "limits_typed limits" and "encode_index_run run limits = Inr bs"
  shows "decode_index_run bs limits = Inr run"
  using assms by (intro index_run_roundtrip)

theorem bundle_roundtrip_witness:
  "\<exists>bs. encode_index_run example_run example_limits = Inr bs \<and> decode_index_run bs example_limits = Inr example_run"
proof -
  obtain bs where "encode_index_run example_run example_limits = Inr bs"
    using example_bundle by (cases "encode_index_run example_run example_limits") auto
  with bundle_roundtrip [of example_run example_limits bs] example_typed show ?thesis by blast
qed

section \<open>Sealed payload objects\<close>

text \<open>
  C3: Any byte range of a sealed object of several parts reads back exactly. For a layout that
  passes validation, parts sealed segment by segment under the primary content key of one key
  ring, and any key ring that still has that key for lookups (for instance after a rotation):
  the layout and the sealing succeed, the body has the length that the layout announces, and
  \<open>open_payload_object\<close> returns for every range exactly those bytes of the concatenated parts, and
  the range error for a range that is empty or reaches past the end.
\<close>

theorem multipart_object_read:
  assumes "hmac_law lib" and "xchacha_law lib" and "keyring_ok lib keys" and "keyring_ok lib keys'"
    and "primary_key keys Content = Inr k" and "pl_key_id ref = km_id k" and "keeps_key keys' k"
    and "layout_ok ref" and "layout_len ref < 2 ^ 64"
    and "length (pl_carrier_id ref) = 32" and "list_all (\<lambda>p. length (pp_attempt_id p) = 32) (pl_parts ref)"
    and "ctx \<noteq> []" and "length ctx \<le> 4096" and "length oid \<le> 1024"
    and "map length pts = map plen (pl_parts ref)"
  shows "\<exists>l body. SegmentedPayloadLayout_new ref ctx = Inr l \<and> seal_parts lib keys oid l (pl_parts ref) pts = Inr body \<and>
    length body = layout_len ref \<and>
    (\<forall>rg. open_payload_object lib keys' oid l body rg = range_of (concat pts) rg)"
  using assms by (rule multipart_read_exact)

theorem multipart_object_read_witness:
  "\<exists>l body. SegmentedPayloadLayout_new example_payload [1] = Inr l \<and>
     seal_parts plain_lib example_keys [2] l (pl_parts example_payload) example_parts = Inr body \<and> length body = 55 \<and>
     open_payload_object plain_lib rotated_keys [2] l body Full = Inr [10, 11, 12, 13, 14, 15, 16] \<and>
     open_payload_object plain_lib rotated_keys [2] l body (Slice 3 3) = Inr [13, 14, 15] \<and>
     open_payload_object plain_lib rotated_keys [2] l body (Slice 5 3) = Inl invalid_range"
  using multipart_object_read [OF plain_lib_laws(1,2) example_keys_ok example_primary(1) example_payload_ok(3) example_keeps
      example_payload_ok(1) _ example_payload_ok(4,5) _ _ _ example_payload_ok(6), of "[1]" "[2]"]
  by (auto simp: example_payload_ok(2) example_parts_def)

text \<open>
  C4: Sealing an object of one part always succeeds and it can always be read back. With a usable
  primary content key, an attempt identifier from the random source, and a plaintext and segment
  size within the limits, \<open>seal_payload_object\<close> returns a body and a layout; the body is the
  plaintext plus one tag per segment, and every range of it reads back exactly. This function is the
  producer of the tests and the fuzz targets; it uses the sealer, the layout and the segment sealing
  of the streaming writers.
\<close>

theorem object_put_get:
  assumes "hmac_law lib" and "xchacha_law lib" and "keyring_ok lib keys" and "keyring_ok lib keys'"
    and "primary_key keys Content = Inr k" and "km_id k \<noteq> []" and "length (km_id k) \<le> 255" and "keeps_key keys' k"
    and "length carrier = 32" and "length attempt = 32" and "ctx \<noteq> []" and "length ctx \<le> 4096" and "length oid \<le> 1024"
    and "0 < chunk" and "chunk \<le> MAX_PAYLOAD_SEGMENT_SIZE"
    and "pt \<noteq> []" and "length pt + (length pt + chunk - 1) div chunk * 16 < 2 ^ 64"
  shows "\<exists>body l. seal_payload_object lib keys (Some attempt) oid pt chunk ctx carrier = Inr (body, l) \<and>
    length body = length pt + (length pt + chunk - 1) div chunk * 16 \<and> sl_plaintext_len l = of_nat (length pt) \<and>
    (\<forall>rg. open_payload_object lib keys' oid l body rg = range_of pt rg)"
  using assms unfolding sealed_len_def [symmetric] by (rule seal_payload_object_exact)

theorem object_put_get_witness:
  "\<exists>body l. seal_payload_object plain_lib example_keys (Some (replicate 32 1)) [2] [1, 2, 3, 4, 5] 2 [1] (replicate 32 0) = Inr (body, l) \<and>
     length body = 53 \<and> open_payload_object plain_lib rotated_keys [2] l body (Slice 1 3) = Inr [2, 3, 4]"
  using object_put_get [OF plain_lib_laws(1,2) example_keys_ok example_primary(1) _ _ example_keeps,
      of "replicate 32 0" "replicate 32 1" "[1]" "[2]" 2 "[1, 2, 3, 4, 5]"]
  by (auto simp: example_material_def lit_def MAX_PAYLOAD_SEGMENT_SIZE_def)

section \<open>Reads through the cache of decrypted segments\<close>

text \<open>
  C5: The cache never serves wrong bytes. From an empty cache, after any interleaving of touches
  and of inserts of decrypted segments by concurrent readers of any objects, a lookup of a range
  of a sealed object returns without error, and what it serves, if anything, is exactly that
  range of the plaintext, whether or not the lookup gets the write lock to record the use.
\<close>

theorem cached_read_is_exact:
  assumes "sealed_object lib keys keys' oid ref ctx pts l body"
    and "(cache_step w)\<^sup>*\<^sup>* (DecryptedSegmentCache_with_max_bytes m) (rr_decrypted_segments res)" and "unat m < 2 ^ 63"
    and "\<not> rr_poisoned res" and "di_payload_id ident = oid"
    and "w (di_cache_ref ident) = plain_segments (unat (pl_chunk_size ref)) pts"
    and "range_of (concat pts) rg = Inr data"
  shows "\<exists>found res'. open_cached_decrypted_segments free res ident l rg = Inr (found, res') \<and>
    (found = None \<or> found = Some data)"
  using assms by (rule cached_read_exact)

theorem cached_read_is_exact_witness:
  "\<exists>l body res res'. sealed_object plain_lib example_keys rotated_keys [2] example_payload [1] example_parts l body \<and>
     (cache_step example_contents)\<^sup>*\<^sup>* (DecryptedSegmentCache_with_max_bytes 1024) (rr_decrypted_segments res) \<and>
     open_cached_decrypted_segments True res example_identity l (Slice 3 3) = Inr (Some [13, 14, 15], res')"
proof -
  obtain l body where o: "sealed_object plain_lib example_keys rotated_keys [2] example_payload [1] example_parts l body"
    using example_object by blast
  obtain res found res' where warm: "(cache_step example_contents)\<^sup>*\<^sup>* (DecryptedSegmentCache_with_max_bytes 1024) (rr_decrypted_segments res)"
    "\<not> rr_poisoned res" "open_cached_decrypted_segments True res example_identity l (Slice 3 3) = Inr (found, res')" "found \<noteq> None"
    by (rule example_warm [OF o])
  from cached_read_is_exact [OF o warm(1) _ warm(2) example_resources_facts(2,5,3), of True] warm(3,4)
  have "found = Some [13, 14, 15]" by auto
  with o warm(1,3) show ?thesis by blast
qed

text \<open>
  C6: A read that goes to the store returns the range and warms the cache. Opening the ciphertext
  span of a range on a coherent cache, whatever its limits, gives exactly the range, ends (the
  eviction loops return), changes the cache by inserts of true segments only and leaves it coherent.
  A lookup of the same range afterwards gives
  exactly the range or nothing, and it gives the range when the object fits the limits of the cache.
\<close>

theorem store_read_warms_cache:
  assumes "sealed_object lib keys keys' oid ref ctx pts l body"
    and "coherent w (rr_decrypted_segments res)"
    and "\<not> rr_poisoned res" and "di_payload_id ident = oid"
    and "w (di_cache_ref ident) = plain_segments (unat (pl_chunk_size ref)) pts"
    and "range_of (concat pts) rg = Inr data"
  shows "\<exists>sp res' found res''. segmented_ciphertext_span l rg = Inr sp \<and>
    open_and_cache_decrypted_segments lib res keys' ident l rg sp
      (take (unat (sp_offset sp + sp_len sp) - unat (sp_offset sp)) (drop (unat (sp_offset sp)) body)) =
      Some (Inr (data, res')) \<and>
    (cache_step w)\<^sup>*\<^sup>* (rr_decrypted_segments res) (rr_decrypted_segments res') \<and>
    coherent w (rr_decrypted_segments res') \<and> \<not> rr_poisoned res' \<and>
    open_cached_decrypted_segments free res' ident l rg = Inr (found, res'') \<and>
    coherent w (rr_decrypted_segments res'') \<and> (found = None \<or> found = Some data) \<and>
    (length (w (di_cache_ref ident)) \<le> bc_max_entries (rr_decrypted_segments res) \<and>
      length (concat pts) \<le> unat (bc_max_bytes (rr_decrypted_segments res)) \<longrightarrow> found = Some data)"
  using assms by (rule fill_read_exact)

theorem store_read_warms_cache_witness:
  "\<exists>l body sp res' res''. segmented_ciphertext_span l (Slice 3 3) = Inr sp \<and>
     open_and_cache_decrypted_segments plain_lib example_resources rotated_keys example_identity l (Slice 3 3) sp
       (take (unat (sp_offset sp + sp_len sp) - unat (sp_offset sp)) (drop (unat (sp_offset sp)) body)) =
       Some (Inr ([13, 14, 15], res')) \<and>
     open_cached_decrypted_segments False res' example_identity l (Slice 3 3) = Inr (Some [13, 14, 15], res'')"
proof -
  obtain l body where o: "sealed_object plain_lib example_keys rotated_keys [2] example_payload [1] example_parts l body"
    using example_object by blast
  from store_read_warms_cache [OF o example_resources_facts(4,1,2,5,3), of False] example_resources_facts(6,7) show ?thesis by blast
qed

text \<open>
  C7: The accounting of the cache of decrypted segments is exact in every reachable state: some
  order of use represents it, the byte counter is the total size of the kept segments, that total
  and the number of entries are within the limits, and every kept segment is the true segment of
  its object.
\<close>

theorem cache_accounting:
  assumes "(cache_step w)\<^sup>*\<^sup>* (DecryptedSegmentCache_with_max_bytes m) c" and "unat m < 2 ^ 63"
  shows "\<exists>xs. lru_rep (bc_entries c) xs \<and> unat (bc_current_bytes c) = held_bytes xs \<and>
    held_bytes xs \<le> unat (bc_max_bytes c) \<and> length xs \<le> bc_max_entries c \<and>
    (\<forall>r i p. segment_cache_peek c r i = Some p \<longrightarrow> true_segment w r i p)"
proof -
  have "coherent w c" using assms by (rule coherent_reachable)
  then show ?thesis by (auto simp: coherent_def cache_ok_def cache_rep_def)
qed

theorem cache_accounting_witness:
  "\<exists>o' c xs. segment_cache_insert (di_cache_ref example_identity) 0 [10, 11, 12, 13] (DecryptedSegmentCache_with_max_bytes 1024) = Some (o', c) \<and>
     lru_rep (bc_entries c) xs \<and> unat (bc_current_bytes c) = held_bytes xs"
proof -
  have t: "true_segment example_contents (di_cache_ref example_identity) 0 [10, 11, 12, 13]"
    by (simp add: true_segment_def example_cache_defs plain_segments_def example_parts_def chunks_def upt_rec)
  have "coherent example_contents (DecryptedSegmentCache_with_max_bytes 1024)" by (simp add: coherent_new)
  from coherent_insert [OF this t] obtain o' c where
    c: "segment_cache_insert (di_cache_ref example_identity) 0 [10, 11, 12, 13] (DecryptedSegmentCache_with_max_bytes 1024) = Some (o', c)"
    by blast
  have "cache_step example_contents (DecryptedSegmentCache_with_max_bytes 1024) c" by (rule cache_step.inserted [OF t c])
  with cache_accounting [of example_contents 1024 c] c show ?thesis by auto
qed



text \<open>
  C9: Inserting the stored bytes of a payload section always returns: the eviction loop of the
  section cache, which may remove entries until both limits hold, ends on every cache whose counters
  are exact and whose limits are sensible (at least one entry, and both limits below \<open>2 ^ 63\<close>).
  Afterwards the limits hold again, the counters are exact, and a section that fits the cache is
  kept as the most recently used one.
\<close>

theorem section_insert_returns:
  assumes "cache_ok c xs" and "limits_ok c"
  shows "\<exists>c' ys. section_cache_insert k v c = Some c' \<and> cache_ok c' ys \<and> same_limits c c' \<and>
    (if bc_max_bytes c = 0 \<or> bc_max_bytes c < u64_len v then c' = c else \<exists>zs. ys = zs @ [(k, v)])"
  using assms by (rule section_cache_insert_total)

theorem section_insert_returns_witness:
  "\<exists>c' zs. section_cache_insert example_section [1, 2] (V3PayloadSectionCache_with_max_bytes 3) = Some c' \<and>
     cache_ok c' (zs @ [(example_section, [1, 2])])"
  using section_insert_returns [OF cache_ok_new(2) [of 3], of example_section "[1, 2]"]
  by (auto simp: limits_ok_def V3PayloadSectionCache_with_max_bytes_def u64_len_def)

section \<open>The namespace index\<close>

text \<open>
  C10: The namespace index refines a plain map from blind keys to entries with prefix tokens. After
  any history of upserts and removals, \<open>index_head\<close> returns the entry of the last change of a key,
  and \<open>list_prefix\<close> returns, in key order and each once, exactly the live entries whose last upsert
  carried the token: the three maps of the index stay consistent and no membership is left behind.
\<close>

theorem index_refines_map:
  "index_head (foldl index_apply NamespaceIndex_new ops) k = map_option fst (foldl view_apply Map.empty ops k) \<and>
   list_prefix (foldl index_apply NamespaceIndex_new ops) t =
     map (\<lambda>k. fst (the (foldl view_apply Map.empty ops k)))
       (sorted_list_of_set {k. \<exists>e T. foldl view_apply Map.empty ops k = Some (e, T) \<and> t \<in> T})"
  using index_history [of ops] list_prefix_view [of "foldl index_apply NamespaceIndex_new ops" t] by (simp add: index_head_view)

text \<open>
  C11: Restoring the snapshot of a key undoes every later change of that key. Whatever upserts and
  removals of the key were staged after the snapshot, \<open>restore_key\<close> gives back exactly the index as
  it was, including the prefix memberships, for every index that any history can build.
\<close>

theorem rollback_restores:
  assumes "\<forall>(e, ts) \<in> set (List.map_filter id changes). ne_blind_key e = k"
  shows "restore_key (foldl (staged k) (foldl index_apply NamespaceIndex_new ops) changes)
      (snapshot_key (foldl index_apply NamespaceIndex_new ops) k) = foldl index_apply NamespaceIndex_new ops"
  using assms index_history by (intro rollback_exact) simp_all

theorem rollback_restores_witness:
  "restore_key (foldl (staged [1]) (index_upsert NamespaceIndex_new (example_entry [1] 1) [[7]])
       [Some (example_entry [1] 2, [[8], [9]]), None, Some (example_entry [1] 3, [])])
     (snapshot_key (index_upsert NamespaceIndex_new (example_entry [1] 1) [[7]]) [1]) =
   index_upsert NamespaceIndex_new (example_entry [1] 1) [[7]]"
  using rollback_restores [of "[Some (example_entry [1] 2, [[8], [9]]), None, Some (example_entry [1] 3, [])]" "[1]"
      "[Inl (example_entry [1] 1, [[7]])]"]
  by (simp add: example_entry_def List.map_filter_simps)

section \<open>Keys\<close>

text \<open>
  C12: The authenticated data and the nonce input identify a segment. For contexts within the limits
  of \<open>associated_data\<close> and with carrier and attempt identifiers of 32 bytes: the associated data determines
  the whole context (repository, object, section, carrier, attempt, part, segment, length, finality,
  layout) and the key identifier; the nonce context determines, and is determined by, carrier, attempt,
  part and segment; the framed pair of both, from which the nonce is derived, determines everything.
  So under one key no two segments feed the same bytes to the derivation of the nonce.
\<close>

theorem segment_binding_injective:
  assumes "context_typed c" and "context_typed c'"
    and "associated_data c k = Inr a" and "associated_data c' k' = Inr a'"
  shows "(a = a' \<longleftrightarrow> c = c' \<and> k = k') \<and>
    (framed a @ framed (nonce_context c) = framed a' @ framed (nonce_context c') \<longleftrightarrow> c = c' \<and> k = k') \<and>
    (nonce_context c = nonce_context c' \<longleftrightarrow> sc_carrier_id c = sc_carrier_id c' \<and> sc_attempt_id c = sc_attempt_id c' \<and>
       sc_part_ordinal c = sc_part_ordinal c' \<and> sc_segment_ordinal c = sc_segment_ordinal c')"
  using associated_data_inj [of c k a c' k'] nonce_material_inj [OF assms(3,4,1,2)] nonce_context_eq [OF assms(1,2), of "[]" "[]"]
    assms by auto

theorem segment_binding_injective_witness:
  "\<exists>a a'. associated_data (example_segment 0) [1] = Inr a \<and> associated_data (example_segment 1) [1] = Inr a' \<and> a \<noteq> a' \<and>
     nonce_context (example_segment 0) \<noteq> nonce_context (example_segment 1)"
proof -
  obtain a a' where "associated_data (example_segment 0) [1] = Inr a" "associated_data (example_segment 1) [1] = Inr a'"
    using example_associated by blast
  with segment_binding_injective [of "example_segment 0" "example_segment 1" "[1]" a "[1]" a'] show ?thesis
    by (simp add: context_typed_def example_segment_def)
qed

text \<open>
  C13: What opens in a context is exactly what sealing gives there. With a cipher whose decryption
  checks the tag, a ciphertext (of fewer than \<open>2 ^ 64\<close> bytes) opens to a plaintext in a context exactly
  when sealing that plaintext in that context gives this ciphertext; so bytes that were changed, cut
  or moved to another context open only if sealing some plaintext there would give the same bytes
  with the same tag. The writer seals with the primary content key of one ring, the reader opens with
  any valid ring that keeps this key.
\<close>

theorem segment_opens_iff_sealed:
  assumes "hmac_law lib" and "xchacha_law lib" and "xchacha_auth_law lib" and "keyring_ok lib keys'"
    and "primary_key keys Content = Inr k" and "keeps_key keys' k" and "length ciphertext < 2 ^ 64"
  shows "open_payload_segment lib keys' (km_id k) c ciphertext = Inr plaintext \<longleftrightarrow>
    seal_payload_segment lib keys c plaintext = Inr \<lparr>sg_key_id = km_id k, sg_ciphertext = ciphertext\<rparr>"
  using assms by (rule open_iff_seal)

theorem segment_opens_iff_sealed_witness:
  "\<exists>ct. seal_payload_segment tagged_lib example_keys (example_segment 0) [1, 2, 3, 4] = Inr \<lparr>sg_key_id = km_id content_key, sg_ciphertext = ct\<rparr> \<and>
     open_payload_segment tagged_lib rotated_keys (km_id content_key) (example_segment 0) ct = Inr [1, 2, 3, 4] \<and>
     (\<forall>plaintext. open_payload_segment tagged_lib rotated_keys (km_id content_key) (example_segment 1) ct \<noteq> Inr plaintext)"
proof -
  obtain a a' where a: "associated_data (example_segment 0) (km_id content_key) = Inr a"
      "associated_data (example_segment 1) (km_id content_key) = Inr a'" "sum_tag a \<noteq> sum_tag a'"
    using example_tags by blast
  let ?ct = "[1, 2, 3, 4] @ sum_tag a"
  note iff = segment_opens_iff_sealed [OF tagged_lib_laws tagged_keys_ok example_primary(1) example_keeps, of ?ct]
  have "seal_payload_segment tagged_lib example_keys (example_segment 1) pt \<noteq> Inr \<lparr>sg_key_id = km_id content_key, sg_ciphertext = ?ct\<rparr>" for pt
    using a unfolding tagged_seal by (auto simp: sum_tag_def)
  moreover have "seal_payload_segment tagged_lib example_keys (example_segment 0) [1, 2, 3, 4] = Inr \<lparr>sg_key_id = km_id content_key, sg_ciphertext = ?ct\<rparr>"
    using a unfolding tagged_seal by (simp add: example_segment_def)
  ultimately show ?thesis using iff by (auto simp: sum_tag_def)
qed

text \<open>
  C14: \<open>KeyRing_new\<close> accepts exactly the well-formed key rings, unchanged: identifiers are distinct,
  every checkpoint key with a recorded public key has the public key of its secret, no purpose has
  two primary keys, and there is a primary namespace key.
\<close>

theorem keyring_accepts_iff:
  assumes "ct_eq_law lib"
  shows "KeyRing_new lib keys = Inr kr \<longleftrightarrow> kr = keys \<and> distinct (map km_id keys) \<and> list_all (public_key_matches lib) keys \<and>
    (\<forall>p. length (filter (primary_for p) keys) \<le> 1) \<and> list_ex (primary_for KeyPurpose.Namespace) keys"
  using KeyRing_new_iff [OF assms, of keys kr] by (simp add: keyring_ok_def)

theorem keyring_accepts_iff_witness: "KeyRing_new plain_lib rotated_keys = Inr rotated_keys"
  using keyring_accepts_iff [OF plain_lib_laws(6), of rotated_keys rotated_keys] example_keys_ok(2)
  by (simp add: keyring_ok_def)

text \<open>
  C15: A lookup of a key by identifier has exactly four outcomes: an identifier that is not in the
  ring is reported missing; a key for another purpose is refused with both purposes; a disabled or
  retired key is refused with its status; otherwise the key itself is returned.
\<close>

theorem key_lookup_outcome:
  assumes "keyring_ok lib keys"
  shows "(enabled_key_by_id keys i p = Inl (MissingKey i) \<longleftrightarrow> i \<notin> km_id ` set keys) \<and>
    (\<forall>k \<in> set keys. enabled_key_by_id keys (km_id k) p =
      (if km_purpose k \<noteq> p then Inl (KeyPurposeMismatch (km_id k) p (km_purpose k))
       else if km_status k \<in> {Primary, Enabled} then Inr k
       else Inl (InactiveKey (km_id k) (km_status k))))"
proof -
  have "is_enabled_for_lookup s \<longleftrightarrow> s \<in> {Primary, Enabled}" for s by (cases s) auto
  with enabled_key_by_id_outcome [of keys] assms show ?thesis by (simp add: keyring_ok_def)
qed

theorem key_lookup_outcome_witness:
  "enabled_key_by_id rotated_keys (lit ''c0'') Content = Inl (InactiveKey (lit ''c0'') Retired) \<and>
   enabled_key_by_id rotated_keys (lit ''zz'') Content = Inl (MissingKey (lit ''zz''))"
  using key_lookup_outcome [OF example_keys_ok(2), of "lit ''zz''" Content] by (simp add: example_key_defs)

text \<open>
  C16: Checkpoint signatures verify. A ring with a primary signing key signs every payload, and
  every valid ring that keeps that key for lookups verifies the signature under the recorded key
  identifier, whether it derives the public key or uses a recorded one.
\<close>

theorem checkpoint_sign_verify:
  assumes "hmac_law lib" and "ed25519_law lib" and "keyring_ok lib keys'"
    and "primary_key keys CheckpointSigning = Inr k" and "keeps_key keys' k"
  shows "\<exists>sg. sign_checkpoint_payload lib keys payload = Inr sg \<and>
    verify_checkpoint_payload lib keys' (cs_key_id sg) payload (cs_signature sg) = Inr ()"
  using assms by (rule sign_then_verify)

theorem checkpoint_sign_verify_witness:
  "\<exists>sg. sign_checkpoint_payload plain_lib example_keys [1, 2] = Inr sg \<and>
    verify_checkpoint_payload plain_lib rotated_keys (cs_key_id sg) [1, 2] (cs_signature sg) = Inr ()"
  using checkpoint_sign_verify [OF plain_lib_laws(1,4) example_keys_ok(2) example_primary(3), of "[1, 2]"]
  by (simp add: keeps_key_def example_key_defs)

text \<open>
  C17: Sealed metadata opens again. With a nonce from the random source, and a plaintext and associated
  data of at most \<open>2 ^ 32\<close> bytes (the limits of the cipher), sealing succeeds under the primary metadata
  key, keeps the length, and every valid ring that keeps the key opens the result with the same
  associated data to the same plaintext.
\<close>

theorem metadata_seal_open:
  assumes "hmac_law lib" and "gcm_siv_law lib" and "keyring_ok lib keys'"
    and "length plaintext \<le> 2 ^ 32" and "length aad \<le> 2 ^ 32" and "length nonce = METADATA_NONCE_LEN"
    and "primary_key keys KeyPurpose.Metadata = Inr k" and "keeps_key keys' k"
  shows "\<exists>s. seal_metadata_payload lib keys (Some nonce) aad plaintext = Inr s \<and> ms_nonce s = nonce \<and>
    length (ms_ciphertext s) = length plaintext \<and>
    open_metadata_payload lib keys' (ms_key_id s) aad (ms_nonce s) (ms_ciphertext s) (ms_tag s) = Inr plaintext"
  using assms by (rule metadata_roundtrip)

theorem metadata_seal_open_witness:
  "\<exists>s. seal_metadata_payload plain_lib example_keys (Some (replicate 12 0)) [1] [2, 3] = Inr s \<and>
    open_metadata_payload plain_lib rotated_keys (ms_key_id s) [1] (ms_nonce s) (ms_ciphertext s) (ms_tag s) = Inr [2, 3]"
  using metadata_seal_open [OF plain_lib_laws(1,3) example_keys_ok(2) _ _ _ example_primary(2), of "[2, 3]" "[1]" "replicate 12 0"]
  by (auto simp: keeps_key_def example_key_defs METADATA_NONCE_LEN_def)

text \<open>
  C18: A new repository can start: four draws of the random source always give a key ring that
  passes validation and has a primary key for every purpose.
\<close>

theorem fresh_keyring_usable:
  assumes "hmac_law lib" and "ed25519_law lib" and "hex_law lib" and "ct_eq_law lib"
    and "length r0 = 32" and "length r1 = 32" and "length r2 = 32" and "length r3 = 32"
  shows "\<exists>kr. generate_random lib (Some r0) (Some r1) (Some r2) (Some r3) = Inr kr \<and> keyring_ok lib kr \<and>
    (\<forall>p. \<exists>k. primary_key kr p = Inr k)"
  using assms by (rule generate_random_ok)

theorem fresh_keyring_usable_witness:
  "\<exists>kr. generate_random plain_lib (Some (replicate 32 1)) (Some (replicate 32 2)) (Some (replicate 32 3)) (Some (replicate 32 4)) = Inr kr \<and>
    (\<exists>k. primary_key kr Content = Inr k)"
  using fresh_keyring_usable [OF plain_lib_laws(1,4,5,6), of "replicate 32 1" "replicate 32 2" "replicate 32 3" "replicate 32 4"]
  by auto

section \<open>Completion receipts and layouts\<close>

text \<open>
  C19: The bounded set of completion receipts holds exactly the newest 1024 receipts. Inserting
  valid receipts with distinct upload identifiers and distinct commit sequences never fails, in
  whatever order they arrive, and the set then consists of the 1024 receipts with the highest
  commit sequences among all that were inserted.
\<close>

theorem receipts_keep_newest:
  assumes "\<forall>r \<in> set rs. CompletionReceipt_validate r = Inr ()"
    and "inj_on rc_upload_id (set rs)" and "inj_on rc_commit_sequence (set rs)"
  shows "\<exists>m. foldE receipts_insert [] rs = Inr m \<and> receipts_ok m \<and>
    set (receipts_iter m) = {r \<in> set rs. card {s \<in> set rs. rc_commit_sequence r < rc_commit_sequence s} < 1024}"
  using receipts_history [OF assms] by (simp add: newest_def)

theorem receipts_keep_newest_witness:
  "\<exists>m. foldE receipts_insert [] [example_receipt 1, example_receipt 2] = Inr m \<and> receipts_ok m \<and>
    set (receipts_iter m) = {r \<in> {example_receipt 1, example_receipt 2}.
      card {s \<in> {example_receipt 1, example_receipt 2}. rc_commit_sequence r < rc_commit_sequence s} < 1024}"
  using receipts_keep_newest [of "[example_receipt 1, example_receipt 2]"] example_receipt_ok by simp

text \<open>
  C20: Restoring the receipts from a snapshot accepts exactly the lists that some valid set of
  receipts writes, and gives back that set.
\<close>

theorem receipts_snapshot_iff: "from_snapshot rs = Inr m \<longleftrightarrow> receipts_ok m \<and> receipts_iter m = rs"
  by (rule from_snapshot_iff)

text \<open>
  C21: The encoding of a completion receipt is canonical: a byte string decodes to a receipt exactly
  when the receipt is well-typed and the byte string is its encoding. So decoding inverts encoding
  and no second byte string decodes to the same receipt.
\<close>

theorem receipt_decode_canonical:
  "CompletionReceipt_decode bs = Inr r \<longleftrightarrow> receipt_typed r \<and> CompletionReceipt_encode r = Inr bs"
  by (rule CompletionReceipt_decode_iff)

text \<open>
  C22: The stored length of a layout is computed without wrap-around: \<open>PayloadLayout_stored_len\<close>
  returns a length exactly when the layout is valid and its exact stored length (the plaintext plus
  sixteen bytes for every started segment of every part) fits a \<open>u64\<close>, and then it is that length.
\<close>

theorem stored_len_exact:
  "PayloadLayout_stored_len l = Some s \<longleftrightarrow> layout_ok l \<and>
     unat s = (\<Sum>p \<leftarrow> pl_parts l. sealed_len (unat (pl_chunk_size l)) (unat (pp_plaintext_len p)))"
  using PayloadLayout_stored_len_iff [of l s] by (simp add: layout_len_def)

text \<open>
  C23: A segmented layout is built exactly for the valid descriptions: parts in ascending order
  with positive lengths that add up, limits kept, a stored length that fits a \<open>u64\<close> and a
  repository context of 1 to 4096 bytes. Every layout that is built satisfies the invariant that
  reads rely on (start table, stored length and segment count are those of the parts).
\<close>

theorem layout_new_accepts_iff:
  "((\<exists>l. SegmentedPayloadLayout_new ref ctx = Inr l) \<longleftrightarrow>
     layout_ok ref \<and> layout_len ref < 2 ^ 64 \<and> ctx \<noteq> [] \<and> length ctx \<le> 4096) \<and>
   (\<forall>l. SegmentedPayloadLayout_new ref ctx = Inr l \<longrightarrow>
     layout_rep l \<and> sl_reference l = ref \<and> sl_repository_context l = ctx)"
proof -
  have "layout_ok ref \<and> layout_len ref < 2 ^ 64 \<and> ctx \<noteq> [] \<and> length ctx \<le> 4096" if "SegmentedPayloadLayout_new ref ctx = Inr l" for l
    using layout_new_rep [OF that] unat_less_2p [of "sl_stored_len l"] by (simp add: layout_rep_def)
  then show ?thesis using layout_new_total [of ref ctx] layout_new_rep [of ref ctx] by blast
qed

theorem layout_new_accepts_iff_witness: "\<exists>l. SegmentedPayloadLayout_new example_payload [1] = Inr l \<and> layout_rep l"
  using layout_new_accepts_iff [of example_payload "[1]"] example_payload_ok(1,2) by auto

section \<open>Writer lease and anchor\<close>

text \<open>
  C24: The overlap of an old and a new writer is bounded by the latency of the read that observed
  the old one. With reads that arrive within \<open>delta\<close> of the start of their operation: while the
  fence of an unreleased gateway is live, an epoch with a larger fence token is younger than
  \<open>delta\<close>, and an entry with its own fence token is its own.
\<close>

theorem takeover_overlap:
  assumes "lease_api_law api" and "reachable lib api delta s"
    and "live s p c" and "\<not> sy_released s p" and "e \<in> set (sy_log s)" and "en_holder e \<noteq> None"
  shows "(fc_token c < en_token e \<longrightarrow> sy_now s < en_time e + delta) \<and> (en_token e = fc_token c \<longrightarrow> en_owner e = p)"
proof -
  have inv: "lease_inv lib delta s" using reachable_inv assms(1,2) by blast
  obtain i where i: "i < length (sy_log s)" "en_owner (sy_log s ! i) = p" "en_holder (sy_log s ! i) = Some (fc_holder_identity c)"
    "en_token (sy_log s ! i) = fc_token c"
    using live_entry [OF invD(3) [OF inv] assms(3)] .
  obtain j where j: "j < length (sy_log s)" "e = sy_log s ! j" using assms(5) by (auto simp: in_set_conv_nth)
  show ?thesis
    using live_takeover [OF inv assms(3-5)] same_epoch(1) [OF invD(1) [OF inv] i(1) j(1)] i j assms(6)
    by (auto simp: word_less_nat_alt)
qed

theorem takeover_overlap_witness:
  "\<exists>e \<in> set (sy_log example_taken). reachable plain_lib serve_api 5 example_taken \<and> live example_taken 1 claim_b \<and>
     en_token e = fc_token claim_b \<and> en_owner e = 1"
proof -
  have r: "reachable plain_lib serve_api 5 example_taken"
    unfolding reachable_def using example_initial rtranclp_trans [OF example_runs(1,5)] by blast
  have l: "live example_taken 1 claim_b" by (simp add: live_def example_taken_facts(1,5) holding_live NANOS_def)
  have inv: "lease_inv plain_lib 5 example_taken" using reachable_inv [OF r serve_api_law] .
  obtain i where i: "i < length (sy_log example_taken)" "en_holder (sy_log example_taken ! i) = Some (fc_holder_identity claim_b)"
    "en_token (sy_log example_taken ! i) = fc_token claim_b"
    using live_entry [OF invD(3) [OF inv] l] by blast
  have "en_owner (sy_log example_taken ! i) = 1"
    using takeover_overlap [OF serve_api_law r l, of "sy_log example_taken ! i"] i example_taken_facts(4) by simp
  with r l i show ?thesis by (intro bexI [of _ "sy_log example_taken ! i"]) auto
qed

text \<open>
  C25: Fence tokens never go back and identify one epoch. Along every run the coordination fields
  of the stored Lease stay readable, the fence token never decreases, and as long as it stays the
  same the holder stays the same or is cleared by a release.
\<close>

theorem fence_tokens_advance:
  assumes "lease_api_law api" and "reachable lib api delta s" and "(lease_step lib api delta)\<^sup>*\<^sup>* s s'"
  shows "\<exists>a b. coord (sv_lease (sy_store s)) = Inr a \<and> coord (sv_lease (sy_store s')) = Inr b \<and>
    co_fence_token a \<le> co_fence_token b \<and>
    (co_fence_token b = co_fence_token a \<longrightarrow> co_holder_identity b = co_holder_identity a \<or> co_holder_identity b = None)"
proof -
  have inv: "lease_inv lib delta s" using reachable_inv assms(1,2) by blast
  note inv' = steps_inv [OF assms(3,1) inv]
  obtain a b where "coord (sv_lease (sy_store s)) = Inr a" "coord (sv_lease (sy_store s')) = Inr b"
    using current_entry [OF invD(2) [OF inv]] current_entry [OF invD(2) [OF inv'(1)]] by metis
  with token_steps [OF inv inv'] show ?thesis by (auto simp: word_le_nat_alt)
qed

theorem fence_tokens_advance_witness:
  "\<exists>a b. coord (sv_lease (sy_store example_held)) = Inr a \<and> coord (sv_lease (sy_store example_taken)) = Inr b \<and>
     co_fence_token a = 1 \<and> co_fence_token b = 2 \<and> co_fence_token a \<le> co_fence_token b"
proof -
  have r: "reachable plain_lib serve_api 0 example_held" unfolding reachable_def using example_initial example_runs(1) by blast
  obtain l c l' where "sv_lease (sy_store example_held) = Some l" "left_by None (example_guard 0) claim_a 1 l"
    "sv_lease (sy_store example_taken) = Some l'" "left_by c (example_guard 1) claim_b 2 l'"
    using example_held_facts(2) example_taken_facts(2) by blast
  with fence_tokens_advance [OF serve_api_law r example_runs(5)] show ?thesis
    by (auto simp: left_by_def coord_def coordination_def claim_a_def claim_b_def)
qed

text \<open>
  C26: Only the current writer changes the anchor. Whenever a step of the system changes the anchor
  that the Lease carries, it applies a request of some gateway; the anchor before was readable, the
  new one has a larger sequence, and unless the Lease was absent or without writer coordination,
  that gateway owns the current epoch of the Lease, which is held.
\<close>

theorem anchor_writer:
  assumes "lease_api_law api" and "hex_law lib" and "reachable lib api delta s" and "lease_step lib api delta s s'"
    and "anchor_of lib (sv_lease (sy_store s')) \<noteq> anchor_of lib (sv_lease (sy_store s))"
  shows "\<exists>p q r current next. (p, q) \<in> in_flight s \<and> api (sy_store s) q r (sy_store s') \<and>
    anchor_of lib (sv_lease (sy_store s)) = Inr current \<and> anchor_of lib (sv_lease (sy_store s')) = Inr (Some next) \<and>
    (\<forall>x. current = Some x \<longrightarrow> an_sequence x < an_sequence next) \<and>
    (\<forall>l. sv_lease (sy_store s) = Some l \<longrightarrow> lease_has_writer_coordination l \<longrightarrow>
      en_holder (last (sy_log s)) \<noteq> None \<and> en_owner (last (sy_log s)) = p)"
proof -
  have inv: "lease_inv lib delta s" using reachable_inv assms(1,3) by blast
  obtain p q r where q: "(p, q) \<in> in_flight s" "api (sy_store s) q r (sy_store s')"
    using step_store [OF assms(4)] assms(5) by auto
  have "documented_reply (sy_store s) q r (sy_store s')" using assms(1) q(2) by (simp add: lease_api_law_def)
  from anchor_reply [OF inv assms(2) q(1) this assms(5)] obtain current "next" where
    n: "anchor_of lib (sv_lease (sy_store s)) = Inr current" "anchor_of lib (sv_lease (sy_store s')) = Inr (Some next)"
      "\<not> stale_advance current current next"
      "case sv_lease (sy_store s) of None \<Rightarrow> True | Some c \<Rightarrow>
        \<not> lease_has_writer_coordination c \<or> en_holder (last (sy_log s)) \<noteq> None \<and> en_owner (last (sy_log s)) = p" .
  have "an_sequence x < an_sequence next" if "current = Some x" for x
    using n(1-3) that assms(5) by (auto simp: stale_advance_def)
  with q n show ?thesis by (intro exI [of _ p] exI [of _ q] exI [of _ r] exI [of _ current] exI [of _ "next"]) auto
qed

theorem anchor_writer_witness:
  "\<exists>s s' p q. reachable plain_lib serve_api 0 s \<and> lease_step plain_lib serve_api 0 s s' \<and>
     anchor_of plain_lib (sv_lease (sy_store s)) = Inr (Some (example_anchor 1)) \<and> (p, q) \<in> in_flight s"
proof -
  let ?P = "\<lambda>s. anchor_of plain_lib (sv_lease (sy_store s)) = Inr (Some (example_anchor 1))"
  have "?P example_first" "\<not> ?P example_second"
    using example_commits(2,3) by (auto simp: writing_def anchor_of_def example_anchor_def)
  then obtain t u where t: "(lease_step plain_lib serve_api 0)\<^sup>*\<^sup>* example_first t" "lease_step plain_lib serve_api 0 t u" "?P t" "\<not> ?P u"
    using steps_change [OF example_commits(5), of ?P] by blast
  have "reachable plain_lib serve_api 0 t"
    unfolding reachable_def
    using example_initial rtranclp_trans [OF rtranclp_trans [OF rtranclp_trans [OF example_runs(1,5)] example_commits(4)] t(1)] by blast
  with anchor_writer [OF serve_api_law plain_lib_laws(5) _ t(2)] t(2-4) show ?thesis by metis
qed

text \<open>
  C27: The anchor never goes back. Once a reachable system has an anchor, every later state has a
  readable one: the same, or one with a larger sequence, whatever the guards, the anchors and the
  API do in between.
\<close>

theorem anchor_never_back:
  assumes "lease_api_law api" and "hex_law lib" and "reachable lib api delta s" and "(lease_step lib api delta)\<^sup>*\<^sup>* s s'"
    and "anchor_of lib (sv_lease (sy_store s)) = Inr (Some x)"
  shows "\<exists>y. anchor_of lib (sv_lease (sy_store s')) = Inr (Some y) \<and> (y = x \<or> an_sequence x < an_sequence y)"
  using anchor_steps [OF assms(4,1,2) reachable_inv [OF assms(3,1)] assms(5)] .

theorem anchor_never_back_witness:
  "\<exists>y. anchor_of plain_lib (sv_lease (sy_store example_second)) = Inr (Some y) \<and>
     (y = example_anchor 1 \<or> an_sequence (example_anchor 1) < an_sequence y)"
proof -
  have "reachable plain_lib serve_api 0 example_first"
    unfolding reachable_def using example_initial rtranclp_trans [OF rtranclp_trans [OF example_runs(1,5)] example_commits(4)] by blast
  moreover have "anchor_of plain_lib (sv_lease (sy_store example_first)) = Inr (Some (example_anchor 1))"
    using example_commits(2) by (auto simp: writing_def anchor_of_def)
  ultimately show ?thesis using anchor_never_back [OF serve_api_law plain_lib_laws(5) _ example_commits(5)] by blast
qed

text \<open>
  C28: A request that was overtaken is refused for ever. When an update is in flight (waiting for
  its reply, lost, or left behind by a crash) and the stored Lease already has another resource
  version than the one the update was computed from, no later state of the system accepts the
  update. So the state that a completed \<open>fence_and_read_lease\<close> returns is final with respect to
  earlier updates.
\<close>

theorem stale_updates_refused:
  assumes "lease_api_law api" and "reachable lib api delta s" and "(lease_step lib api delta)\<^sup>*\<^sup>* s s'"
    and "(p, ReplaceLease ns n l) \<in> in_flight s" and "sv_lease (sy_store s) = Some c" and "resource_version l \<noteq> resource_version c"
  shows "\<not> accepts (sy_store s') (ReplaceLease ns n l)"
  using stale_request [OF assms(3,1) reachable_inv [OF assms(2,1)] assms(4-6)] .

theorem stale_updates_refused_witness:
  "(3, example_update example_created) \<in> in_flight example_overtaken \<and>
   \<not> accepts (sy_store example_overtaken) (example_update example_created)"
proof -
  have r: "reachable plain_lib serve_api 0 example_overtaken" unfolding reachable_def using example_initial example_late(1) by blast
  obtain c c' where c: "sv_lease (sy_store example_created) = Some c" "sv_lease (sy_store example_overtaken) = Some c'"
    "resource_version c \<noteq> resource_version c'" using example_late(3) by blast
  then have "resource_version (v3_lease_with_state plain_lib (the (sv_lease (sy_store example_created))) (example_anchor 2)) \<noteq> resource_version c'"
    by (simp add: anchor_state_fields)
  from stale_updates_refused [OF serve_api_law r rtranclp.rtrancl_refl example_late(2) [unfolded example_update_def] c(2) this]
  show ?thesis using example_late(2) by (simp add: example_update_def)
qed

text \<open>
  C29: The anchor round-trips through the annotations of a Lease and leaves the writer coordination
  alone. Reading the Lease that \<open>v3_lease_with_state\<close> wrote gives the state back, unless the Lease
  carries an annotation of the older layout (\<open>rs3.rs/v2-\<close>) or the format digest of the state is empty:
  then both readers fail with \<open>AnchorReadFailed\<close>. The coordination fields, the resource version and
  the presence of coordination are those before in every case. The fields of the state satisfy the
  invariants of their types.
\<close>

theorem anchor_roundtrip:
  assumes "anchor_fields_typed state" and "hex_law lib"
  shows "let refused = has_v2_key (annotations_or_empty lease) \<or> fr_digest (an_format_ref state) = [] in
    v3_anchor_state_from_lease_optional lib (v3_lease_with_state lib lease state) =
      (if refused then Inl AnchorReadFailed else Inr (Some state)) \<and>
    v3_anchor_state_from_lease lib (v3_lease_with_state lib lease state) = (if refused then Inl AnchorReadFailed else Inr state) \<and>
    lease_coordination_state (v3_lease_with_state lib lease state) d = lease_coordination_state lease d \<and>
    resource_version (v3_lease_with_state lib lease state) = resource_version lease \<and>
    lease_has_writer_coordination (v3_lease_with_state lib lease state) = lease_has_writer_coordination lease"
  using anchor_state_read [OF assms] anchor_state_fields by (simp add: Let_def)

theorem anchor_roundtrip_witness:
  "v3_anchor_state_from_lease plain_lib (v3_lease_with_state plain_lib (named_lease (lit ''anchor'')) (example_anchor 7)) =
     Inr (example_anchor 7) \<and>
   v3_anchor_state_from_lease plain_lib (v3_lease_with_state plain_lib
     (with_annotations [(lit ''rs3.rs/v2-sequence'', lit ''1'')] (named_lease (lit ''anchor''))) (example_anchor 7)) = Inl AnchorReadFailed"
proof -
  have typed: "anchor_fields_typed (example_anchor 7)" "fr_digest (an_format_ref (example_anchor 7)) \<noteq> []"
    using example_anchor_typed by (simp_all add: anchor_typed_iff)
  have v2: "\<not> has_v2_key (annotations_or_empty (named_lease (lit ''anchor'')))" by (simp add: has_v2_key_def bt_keys_def)
  have v2': "has_v2_key (annotations_or_empty (with_annotations [(lit ''rs3.rs/v2-sequence'', lit ''1'')] (named_lease (lit ''anchor''))))"
    by (simp add: has_v2_key_def bt_keys_def annotations_or_empty_def lit_def)
  from anchor_roundtrip [OF typed(1) plain_lib_laws(5), of "named_lease (lit ''anchor'')"]
    anchor_roundtrip [OF typed(1) plain_lib_laws(5), of "with_annotations [(lit ''rs3.rs/v2-sequence'', lit ''1'')] (named_lease (lit ''anchor''))"]
  show ?thesis using typed(2) v2 v2' by (simp add: Let_def)
qed

text \<open>
  C30: An uncontended writer gets, keeps and gives back the lease. With an API that answers and no
  other client, and a Lease that is absent or has no holder and whose counters have room: a new
  guard acquires it with the next fence token and is live for a lease duration; a renewal extends
  that from its own start; a release clears the holder, keeps the token and ends the claim.
\<close>

theorem lease_lifecycle:
  assumes "serves srv" and "LeaseGuard_new settings identity duration = Inr g"
    and "case st of None \<Rightarrow> token = 0 \<and> renewal = 0
      | Some c \<Rightarrow> \<exists>a. lease_coordination_state c duration = Inr a \<and> co_holder_identity a = None \<and>
          co_fence_token a = token \<and> co_renewal a = renewal"
    and "unat token + 1 < 2 ^ 64" and "unat renewal + 3 < 2 ^ 64"
  shows "\<exists>g1 g2 g3 s1 s2 l1 l2 l3 a. let claim = \<lparr>fc_holder_identity = identity, fc_token = token + 1\<rparr> in
    exec srv None (acquire_at g w1 m1) st = ((g1, Inr s1), Some l1) \<and>
    (\<forall>t. live_claim_at g1 claim t = (if t - m1 < duration then Some claim else None)) \<and> lease_holds_claim l1 claim = Inr True \<and>
    exec srv None (renew_at g1 w2 m2) (Some l1) = ((g2, Inr s2), Some l2) \<and>
    (\<forall>t. live_claim_at g2 claim t = (if t - m2 < duration then Some claim else None)) \<and> lease_holds_claim l2 claim = Inr True \<and>
    exec srv None (release_at g2 w3) (Some l2) = ((g3, Inr ()), Some l3) \<and> current_claim g3 = Inl LostLease \<and>
    lease_coordination_state l3 NANOS = Inr a \<and> co_holder_identity a = None \<and> co_fence_token a = token + 1"
proof -
  have g: "lg_lease_duration g = duration" "lg_holder_identity g = identity" "lg_observation g = None"
    and dur: "\<exists>secs. duration_seconds_i32 (lg_lease_duration g) = Inr secs"
    using assms(2) by (auto simp: LeaseGuard_new_def bindE_eq_Inr split: if_splits)
  then obtain secs where secs: "duration_seconds_i32 (lg_lease_duration g) = Inr secs" by blast
  let ?claim = "\<lparr>fc_holder_identity = identity, fc_token = token + 1\<rparr>"
  have adds: "checked_add token 1 = Some (token + 1)" "checked_add renewal 1 = Some (renewal + 1)"
    "checked_add (renewal + 1) 1 = Some (renewal + 2)" "checked_add (renewal + 2) 1 = Some (renewal + 3)"
    and ne: "token + 1 \<noteq> 0"
    using counter_steps [OF assms(4,5)] by simp_all
  obtain s1 l1 where a: "exec srv None (acquire_at g w1 m1) st = ((holding g ?claim m1, Inr s1), Some l1)" "left_by st g ?claim (renewal + 1) l1"
    using acquire_free [OF assms(1) secs, where st = st and token = token and renewal = renewal and token' = "token + 1" and renewal' = "renewal + 1" and lc = None and wall = w1 and m = m1] assms(3) adds(1,2) g by auto
  have c1: "current_claim (holding g ?claim m1) = Inr ?claim" "left_by st (holding g ?claim m1) ?claim (renewal + 1) l1"
    "duration_seconds_i32 (lg_lease_duration (holding g ?claim m1)) = Inr secs"
    using a(2) secs by (simp_all add: left_by_def)
  obtain s2 l2 where b: "exec srv None (renew_at (holding g ?claim m1) w2 m2) (Some l1) = ((holding g ?claim m2, Inr s2), Some l2)"
    "left_by (Some l1) g ?claim (renewal + 2) l2"
    using renew_held [OF assms(1) c1 adds(3), of None w2 m2] by (auto simp: left_by_def)
  have c2: "current_claim (holding g ?claim m2) = Inr ?claim" "left_by (Some l1) (holding g ?claim m2) ?claim (renewal + 2) l2"
    using b(2) by (simp_all add: left_by_def)
  obtain l3 a3 where c: "exec srv None (release_at (holding g ?claim m2) w3) (Some l2) = ((deactivate (holding g ?claim m2), Inr ()), Some l3)"
    "lease_coordination_state l3 NANOS = Inr a3" "co_holder_identity a3 = None" "co_fence_token a3 = token + 1"
    using release_held [OF assms(1) c2 _ adds(4), of None w3] ne by auto
  have holds: "lease_holds_claim l1 ?claim = Inr True" "lease_holds_claim l2 ?claim = Inr True"
    using a(2) b(2) by (auto simp: left_by_def lease_holds_claim_def coordination_def)
  have "current_claim (deactivate (holding g ?claim m2)) = Inl LostLease" by (simp add: deactivate_def current_claim_def holding_def)
  note facts = a(1) b(1) c holds g(1) this
  show ?thesis
    unfolding Let_def
    by (rule exI [of _ "holding g ?claim m1"], rule exI [of _ "holding g ?claim m2"], rule exI [of _ "deactivate (holding g ?claim m2)"],
        rule exI [of _ s1], rule exI [of _ s2], rule exI [of _ l1], rule exI [of _ l2], rule exI [of _ l3], rule exI [of _ a3])
      (use facts in \<open>simp add: holding_live\<close>)
qed

theorem lease_lifecycle_witness:
  "\<exists>g1 s1 l1. exec lease_serve None (acquire_at (example_guard 0) 0 3) None = ((g1, Inr s1), Some l1) \<and>
     (\<forall>t. live_claim_at g1 claim_a t = (if t - 3 < 15 * NANOS then Some claim_a else None))"
proof -
  have g: "LeaseGuard_new example_settings (lit ''a'') (15 * NANOS) = Inr (example_guard 0)"
    by (simp add: LeaseGuard_new_def example_settings_def example_duration example_guard_def lit_def)
  have st: "case None of None \<Rightarrow> (0 :: u64) = 0 \<and> (0 :: u64) = 0
      | Some c \<Rightarrow> \<exists>a. lease_coordination_state c (15 * NANOS) = Inr a \<and> co_holder_identity a = None \<and> co_fence_token a = 0 \<and> co_renewal a = 0"
    by simp
  have "unat (0 :: u64) + 1 < 2 ^ 64" "unat (0 :: u64) + 3 < 2 ^ 64" by simp_all
  from lease_lifecycle [OF lease_serve_serves g st this, of 0 3 0 4 0]
  obtain g1 s1 l1 where "exec lease_serve None (acquire_at (example_guard 0) 0 3) None = ((g1, Inr s1), Some l1)"
    "\<forall>t. live_claim_at g1 \<lparr>fc_holder_identity = lit ''a'', fc_token = 0 + 1\<rparr> t =
      (if t - 3 < 15 * NANOS then Some \<lparr>fc_holder_identity = lit ''a'', fc_token = 0 + 1\<rparr> else None)"
    unfolding Let_def by blast
  then show ?thesis by (simp add: claim_a_def)
qed

text \<open>
  C31: An abandoned lease is taken over. A new guard polls a Lease that stays held and unchanged:
  the first poll observes it; after any number of further polls within the lease duration of the
  holder both waiting loops are still waiting, the guard has no claim and the Lease is unchanged;
  the first poll after the lease duration takes the lease with the next fence token, and the loops
  return. The sequence of polls is any, the counters need room for one more epoch.
\<close>

theorem abandoned_lease_taken:
  assumes "serves srv" and "LeaseGuard_new settings identity duration = Inr g"
    and "lease_coordination_state c duration = Inr a" and "co_holder_identity a \<noteq> None"
    and "\<forall>x \<in> set early. snd x - m0 < co_lease_duration a" and "co_lease_duration a \<le> m1 - m0"
    and "transitions_left c identity" and "unat (co_fence_token a) + 1 < 2 ^ 64" and "unat (co_renewal a) + 3 < 2 ^ 64"
  shows "\<exists>g' gs l. let claim = \<lparr>fc_holder_identity = identity, fc_token = co_fence_token a + 1\<rparr> in
    exec srv None (acquire_unless_live_writer ((w0, m0) # early @ [(w1, m1)]) g) (Some c) = ((g', Some (Inr gs)), Some l) \<and>
    exec srv None (acquire ((w0, m0) # early @ [(w1, m1)]) g) (Some c) = ((g', Some (Inr gs)), Some l) \<and>
    current_claim g' = Inr claim \<and> lease_holds_claim l claim = Inr True \<and>
    (\<forall>n. \<exists>gn. exec srv None (acquire_unless_live_writer ((w0, m0) # take n early) g) (Some c) = ((gn, None), Some c) \<and>
       exec srv None (acquire ((w0, m0) # take n early) g) (Some c) = ((gn, None), Some c) \<and>
       current_claim gn = Inl LostLease)"
proof -
  have g: "lg_lease_duration g = duration" "lg_holder_identity g = identity" "lg_observation g = None" "\<not> lf_active (lg_local_state g)"
    and dur: "\<exists>secs. duration_seconds_i32 (lg_lease_duration g) = Inr secs"
    using assms(2) by (auto simp: LeaseGuard_new_def LocalFenceState_inactive_def bindE_eq_Inr split: if_splits)
  obtain secs where secs: "duration_seconds_i32 (lg_lease_duration g) = Inr secs" using dur by blast
  obtain r where r: "observation a = Some r" using assms(4) by (auto simp: observation_def)
  have a: "lease_coordination_state c (lg_lease_duration g) = Inr a" "transitions_left c (lg_holder_identity g)" using assms(3,7) g by simp_all
  let ?claim = "\<lparr>fc_holder_identity = identity, fc_token = co_fence_token a + 1\<rparr>"
  obtain gs l where t: "exec srv None (acquire_unless_live_writer ((w0, m0) # early @ [(w1, m1)]) g) (Some c) =
      ((holding g ?claim m1, Some (Inr gs)), Some l)" and l: "left_by (Some c) g ?claim (co_renewal a + 1) l"
    using poll_takeover [OF assms(1) a(1) r g(3) secs assms(5,6) a(2) counter_steps(1,2) [OF assms(8,9)], of None w0 w1] g(2) by auto
  have "lease_holds_claim l ?claim = Inr True" using l by (auto simp: left_by_def lease_holds_claim_def coordination_def)
  moreover have "\<exists>gn. exec srv None (acquire_unless_live_writer ((w0, m0) # take n early) g) (Some c) = ((gn, None), Some c) \<and>
       exec srv None (acquire ((w0, m0) # take n early) g) (Some c) = ((gn, None), Some c) \<and>
       current_claim gn = Inl LostLease" for n
  proof -
    have "\<forall>x \<in> set (take n early). snd x - m0 < co_lease_duration a" using assms(5) in_set_takeD by fast
    note wait = early_polls_wait [OF assms(1) a(1) r g(3) this, of None w0]
    show ?thesis using wait acquire_same_waiting [OF wait] g(4) unfolding current_claim_def by fastforce
  qed
  ultimately show ?thesis using t acquire_same [OF t] by (auto simp: Let_def)
qed

theorem abandoned_lease_taken_witness:
  "\<exists>c g' gs l g1. sv_lease (sy_store example_held) = Some c \<and>
     exec lease_serve None (acquire [(0, 2), (0, 9)] (example_guard 1)) (Some c) = ((g1, None), Some c) \<and>
     current_claim g1 = Inl LostLease \<and>
     exec lease_serve None (acquire [(0, 2), (0, 9), (0, 2 + 15 * NANOS)] (example_guard 1)) (Some c) = ((g', Some (Inr gs)), Some l) \<and>
     current_claim g' = Inr claim_b"
proof -
  obtain c where c: "sv_lease (sy_store example_held) = Some c" "left_by None (example_guard 0) claim_a 1 c" "transitions_left c (lit ''b'')"
    using example_held_facts(2) by blast
  then obtain secs where a: "lease_coordination_state c (15 * NANOS) = Inr (coordination claim_a 1 (15 * NANOS) secs)" by (auto simp: left_by_def)
  have g: "LeaseGuard_new example_settings (lit ''b'') (15 * NANOS) = Inr (example_guard 1)"
    by (simp add: LeaseGuard_new_def example_settings_def example_duration example_guard_def lit_def)
  let ?a = "coordination claim_a 1 (15 * NANOS) secs"
  have pre: "co_holder_identity ?a \<noteq> None" "\<forall>x \<in> set [(0, 9)]. snd x - 2 < co_lease_duration ?a"
    "co_lease_duration ?a \<le> (2 + 15 * NANOS) - 2" "unat (co_fence_token ?a) + 1 < 2 ^ 64" "unat (co_renewal ?a) + 3 < 2 ^ 64"
    and b: "\<lparr>fc_holder_identity = lit ''b'', fc_token = co_fence_token ?a + 1\<rparr> = claim_b"
    by (simp_all add: coordination_def NANOS_def claim_a_def claim_b_def)
  from abandoned_lease_taken [OF lease_serve_serves g a pre(1,2,3) c(3) pre(4,5), of 0 0]
  obtain g' gs l where t: "exec lease_serve None (acquire ((0, 2) # [(0, 9)] @ [(0, 2 + 15 * NANOS)]) (example_guard 1)) (Some c) = ((g', Some (Inr gs)), Some l)"
      "current_claim g' = Inr claim_b"
    and early: "\<forall>n. \<exists>gn. exec lease_serve None (acquire ((0, 2) # take n [(0, 9)]) (example_guard 1)) (Some c) = ((gn, None), Some c) \<and>
      current_claim gn = Inl LostLease"
    unfolding Let_def b by blast
  from early have "\<exists>g1. exec lease_serve None (acquire ((0, 2) # take 1 [(0, 9)]) (example_guard 1)) (Some c) = ((g1, None), Some c) \<and>
      current_claim g1 = Inl LostLease" by blast
  then show ?thesis using t c(1) by (simp del: acquire.simps)
qed

text \<open>
  C32: Advancing the anchor refines a compare-and-set. Without contention the result is exactly
  that of the specification \<open>advance_spec\<close>: the error of an unreadable anchor, \<open>StaleAnchor\<close> when
  the expected state is not the stored one or the new one would not move forward,
  \<open>AnchorAdvanceFailed\<close> when the fence (or its absence) does not match the Lease, else the new
  state. An error leaves the Lease as it was; success stores the new anchor and keeps the
  coordination fields. The fields of the new state satisfy the invariants of their types, and its
  format digest is not empty.
\<close>

theorem anchor_compare_and_set:
  assumes "serves srv" and "hex_law lib" and "anchor_typed next"
  shows "\<exists>st'. exec srv lc (compare_and_advance_lease lib settings fenced expected next) st =
      (advance_spec (anchor_of lib st) (permitted fenced lc st) expected next, st') \<and>
    (case advance_spec (anchor_of lib st) (permitted fenced lc st) expected next of
       Inl err \<Rightarrow> st' = st
     | Inr _ \<Rightarrow> anchor_of lib st' = Inr (Some next) \<and> coord st' = coord st)"
  using advance_exec [OF assms, of lc settings fenced expected st] by blast

theorem anchor_compare_and_set_witness:
  "\<exists>st'. exec lease_serve None (compare_and_advance_lease plain_lib example_settings False None (example_anchor 1)) None =
     (Inr (example_anchor 1), st') \<and> anchor_of plain_lib st' = Inr (Some (example_anchor 1))"
  using anchor_compare_and_set [OF lease_serve_serves plain_lib_laws(5) example_anchor_typed, of None example_settings False None 1 None]
  by (auto simp: advance_spec_def permitted_def anchor_of_def)

section \<open>Commit objects\<close>

text \<open>
  C33: Writing a commit and reading it back. A header for a fresh key, with the algorithms of this
  format, a permitted section shape and a section table whose digests match the region, is signed by
  the primary signing key of one ring, provided that its encoding fits the bound on headers; the
  object can then be encoded, and a reader whose ring still keeps that key gets back the signed
  header, its length and the start of the sections.
\<close>

theorem commit_object_roundtrip:
  assumes "hmac_law lib" and "ed25519_law lib" and "ed25519_len_law lib" and "base64url_law fl" and "sha256_law fl"
    and "keyring_ok lib keys'" and "primary_key keys CheckpointSigning = Inr k" and "keeps_key keys' k"
    and "name_ok (km_id k)"
    and "V3CommitKey_from_parts fl sequence random_id = Inr key" and "length random_id = 32"
    and "ch_self_ref h = \<lparr>sr_sequence = sequence, sr_commit_key = key_object_id key\<rparr>"
    and "ch_algorithms h = V3Algorithms_v03" and "\<forall>q. ch_parent h = Some q \<longrightarrow> parent_ref_ok q"
    and "keyring_ref_ok (ch_keyring_envelope_ref h)"
    and "validate_commit_section_semantics h = Inr ()"
    and "body_digest_for_v3_sections fl (ch_section_index h) region = Inr (ch_body_digest h)"
    and "header_span (h\<lparr>ch_signing_key_id := km_id k\<rparr>) Zero = Inr payload"
  shows "\<exists>sg body.
    sign_with_keyring lib keys h = Inr (h\<lparr>ch_signing_key_id := km_id k, ch_signature := sg\<rparr>) \<and>
    encode_object fl (h\<lparr>ch_signing_key_id := km_id k, ch_signature := sg\<rparr>) region = Inr body \<and>
    parse_v3_commit_object lib fl (key_object_id key) body keys' =
      Inr \<lparr>pc_parsed_header =
             \<lparr>ph_header = h\<lparr>ch_signing_key_id := km_id k, ch_signature := sg\<rparr>,
              ph_header_len = length payload - 40, ph_sections_start = length payload\<rparr>,
           pc_version_id = None, pc_body = body\<rparr>"
  using sign_encode_parse [OF assms] .

theorem commit_object_roundtrip_witness:
  "\<exists>sg body. sign_with_keyring example_crypto_lib example_keys example_header
      = Inr (example_header\<lparr>ch_signing_key_id := lit ''s1'', ch_signature := sg\<rparr>) \<and>
    encode_object example_format_lib (example_header\<lparr>ch_signing_key_id := lit ''s1'', ch_signature := sg\<rparr>) [1, 2, 3] = Inr body \<and>
    (\<exists>c. parse_v3_commit_object example_crypto_lib example_format_lib (key_object_id example_commit_key) body rotated_keys = Inr c)"
proof -
  obtain payload where "header_span (example_header\<lparr>ch_signing_key_id := km_id signing_key\<rparr>) Zero = Inr payload"
    by (rule example_span)
  from commit_object_roundtrip [OF example_crypto_laws [of 0] example_format_laws example_rings_ok(2) example_primary(3)
      example_signing_kept example_header_fields(5) example_commit_key_parts _ example_header_fields(1-4) example_semantics
      example_body_digest this]
  show ?thesis by (auto simp: example_region_def example_material_def)
qed

text \<open>
  C34: A commit object is accepted exactly when it is what the encoder writes for a trusted header: a
  well-formed header with the algorithms of this format whose own key is the key of the object, in a
  form that parses to its sequence, and whose signature verifies over the span with the signature
  zeroed. There is no second accepted form: the reader returns the header and the region that encode
  to these very bytes.
\<close>

theorem commit_accept_iff:
  "parse_v3_commit_object lib fl object_id body keys = Inr c \<longleftrightarrow>
     (\<exists>h region. header_trusted lib fl keys object_id h \<and> encode_object fl h region = Inr body \<and>
        c = \<lparr>pc_parsed_header = \<lparr>ph_header = h, ph_header_len = length body - length region - 40,
               ph_sections_start = length body - length region\<rparr>,
             pc_version_id = None, pc_body = body\<rparr>)"
  by (rule parse_object_iff)

text \<open>
  C35: What an accepted commit guarantees. Its header names the key it is stored under; it has no
  parent only as a root with sequence one, and else exactly the next sequence after its parent; its
  sections have one of the six permitted shapes, lie one after the other from offset zero and together
  are the whole section region; each section has its length and its digest, and the body digest is the
  digest of the region.
\<close>

theorem accepted_commit:
  assumes "parse_v3_commit_object lib fl object_id body keys = Inr c"
  shows "let h = ph_header (pc_parsed_header c);
             region = drop (ph_sections_start (pc_parsed_header c)) body;
             sections = ch_section_index h
    in sr_commit_key (ch_self_ref h) = object_id \<and>
       (case ch_parent h of
          None \<Rightarrow> sr_sequence (ch_self_ref h) = 1 \<and> ch_kind h = Root
        | Some q \<Rightarrow> unat (sr_sequence (ch_self_ref h)) = unat (pr_sequence q) + 1) \<and>
       map sd_section_type sections \<in>
         (case ch_kind h of
            Root \<Rightarrow> {[IndexRoot], [IndexRoot, Recovery]}
          | Delta \<Rightarrow> {[IndexRun], [PayloadPack, IndexRun], [IndexRun, Recovery], [PayloadPack, IndexRun, Recovery]}) \<and>
       (\<forall>i < length sections. unat (sd_offset (sections ! i)) = (\<Sum>s \<leftarrow> take i sections. unat (sd_length s))) \<and>
       (\<forall>s \<in> set sections. length (section_slice region s) = unat (sd_length s) \<and>
          sha256 fl (section_slice region s) = sd_digest s) \<and>
       concat (map (section_slice region) sections) = region \<and>
       ch_body_digest h = sha256 fl region"
proof -
  obtain h region where h: "ph_header (pc_parsed_header c) = h" "drop (ph_sections_start (pc_parsed_header c)) body = region"
    "header_trusted lib fl keys object_id h" "validate_commit_section_semantics h = Inr ()"
    "body_digest_for_v3_sections fl (ch_section_index h) region = Inr (ch_body_digest h)"
    by (rule accepted_parts [OF assms])
  have d: "contiguous 0 (ch_section_index h) (length region)" "ch_body_digest h = sha256 fl region"
    "\<forall>s \<in> set (ch_section_index h). sha256 fl (section_slice region s) = sd_digest s"
    using h(5) by (simp_all add: body_digest_iff)
  have "case ch_parent h of None \<Rightarrow> sr_sequence (ch_self_ref h) = 1 \<and> ch_kind h = Root
      | Some q \<Rightarrow> unat (sr_sequence (ch_self_ref h)) = unat (pr_sequence q) + 1"
    using h(4) unfolding semantics_iff by (auto split: option.splits V3CommitKind.splits)
  moreover have "map sd_section_type (ch_section_index h) \<in>
      (case ch_kind h of Root \<Rightarrow> {[IndexRoot], [IndexRoot, Recovery]}
        | Delta \<Rightarrow> {[IndexRun], [PayloadPack, IndexRun], [IndexRun, Recovery], [PayloadPack, IndexRun, Recovery]})"
    using h(4) unfolding semantics_iff by (auto split: V3CommitKind.splits if_splits)
  ultimately show ?thesis
    using h(1-3) d contiguous_slices [OF d(1)] contiguous_offsets [OF d(1)]
    by (simp add: Let_def header_trusted_def list_all_iff)
qed

theorem accepted_commit_witness:
  "\<exists>body c. parse_v3_commit_object example_crypto_lib example_format_lib (key_object_id example_commit_key) body rotated_keys = Inr c \<and>
     drop (ph_sections_start (pc_parsed_header c)) body = concat (map (section_slice (drop (ph_sections_start (pc_parsed_header c)) body))
       (ch_section_index (ph_header (pc_parsed_header c))))"
proof -
  obtain body c where c: "parse_v3_commit_object example_crypto_lib example_format_lib (key_object_id example_commit_key) body rotated_keys = Inr c"
    by (rule example_commit_object [where b = 0]) blast
  from accepted_commit [OF c] have "concat (map (section_slice (drop (ph_sections_start (pc_parsed_header c)) body))
      (ch_section_index (ph_header (pc_parsed_header c)))) = drop (ph_sections_start (pc_parsed_header c)) body"
    unfolding Let_def by blast
  with c show ?thesis by metis
qed

text \<open>
  C36: The signature covers the whole object. Two accepted objects with the same signed bytes have the
  same key, headers that differ at most in the signature, and, unless their section regions are a
  collision of the digest, the same sections.
\<close>

theorem commit_signature_binds:
  assumes "parse_v3_commit_object lib fl object_id body keys = Inr c"
    and "parse_v3_commit_object lib fl object_id' body' keys' = Inr c'"
    and "header_span (ph_header (pc_parsed_header c)) Zero = header_span (ph_header (pc_parsed_header c')) Zero"
    and "sha256 fl (drop (ph_sections_start (pc_parsed_header c)) body)
        = sha256 fl (drop (ph_sections_start (pc_parsed_header c')) body') \<longrightarrow>
      drop (ph_sections_start (pc_parsed_header c)) body = drop (ph_sections_start (pc_parsed_header c')) body'"
  shows "object_id' = object_id \<and>
    ph_header (pc_parsed_header c')
      = (ph_header (pc_parsed_header c))\<lparr>ch_signature := ch_signature (ph_header (pc_parsed_header c'))\<rparr> \<and>
    drop (ph_sections_start (pc_parsed_header c')) body' = drop (ph_sections_start (pc_parsed_header c)) body"
proof -
  obtain h region where h: "ph_header (pc_parsed_header c) = h" "drop (ph_sections_start (pc_parsed_header c)) body = region"
    "header_trusted lib fl keys object_id h" "body_digest_for_v3_sections fl (ch_section_index h) region = Inr (ch_body_digest h)"
    by (rule accepted_parts [OF assms(1)])
  obtain h' region' where h': "ph_header (pc_parsed_header c') = h'" "drop (ph_sections_start (pc_parsed_header c')) body' = region'"
    "header_trusted lib fl keys' object_id' h'" "body_digest_for_v3_sections fl (ch_section_index h') region' = Inr (ch_body_digest h')"
    by (rule accepted_parts [OF assms(2)])
  obtain s where s: "header_span h Zero = Inr s" "header_span h' Zero = Inr s"
    using h(1,3) h'(1) assms(3) by (auto simp: header_trusted_def)
  have eq: "h' = h\<lparr>ch_signature := ch_signature h'\<rparr>"
    using signed_bytes_inj [OF _ _ s] h(3) h'(3) by (simp add: header_trusted_def)
  then have "ch_self_ref h' = ch_self_ref h" "ch_body_digest h' = ch_body_digest h"
    by (metis V3CommitHeader.select_convs V3CommitHeader.surjective V3CommitHeader.update_convs(9))+
  then show ?thesis
    using assms(4) h h' eq by (simp add: header_trusted_def body_digest_iff)
qed

theorem commit_signature_binds_witness:
  "\<exists>body c body' c'. parse_v3_commit_object example_crypto_lib example_format_lib (key_object_id example_commit_key) body rotated_keys = Inr c \<and>
     parse_v3_commit_object example_crypto_lib example_format_lib (key_object_id example_commit_key) body' rotated_keys = Inr c' \<and>
     ph_header (pc_parsed_header c') \<noteq> ph_header (pc_parsed_header c) \<and>
     ph_header (pc_parsed_header c')
       = (ph_header (pc_parsed_header c))\<lparr>ch_signature := ch_signature (ph_header (pc_parsed_header c'))\<rparr>"
proof -
  obtain sg body c where c: "parse_v3_commit_object example_crypto_lib example_format_lib (key_object_id example_commit_key) body rotated_keys = Inr c"
    "ph_header (pc_parsed_header c) = example_header\<lparr>ch_signing_key_id := lit ''s1'', ch_signature := sg\<rparr>"
    "drop (ph_sections_start (pc_parsed_header c)) body = example_region" "last sg = 0"
    by (rule example_commit_object [where b = 0]) blast
  obtain sg' body' c' where c': "parse_v3_commit_object example_crypto_lib example_format_lib (key_object_id example_commit_key) body' rotated_keys = Inr c'"
    "ph_header (pc_parsed_header c') = example_header\<lparr>ch_signing_key_id := lit ''s1'', ch_signature := sg'\<rparr>"
    "drop (ph_sections_start (pc_parsed_header c')) body' = example_region" "last sg' = 1"
    by (rule example_commit_object [where b = 1]) blast
  have span: "header_span (ph_header (pc_parsed_header c)) Zero = header_span (ph_header (pc_parsed_header c')) Zero"
    unfolding c(2) c'(2) by (simp add: header_span_eq header_wire_def)
  have "ch_signature (ph_header (pc_parsed_header c')) \<noteq> ch_signature (ph_header (pc_parsed_header c))"
    using c(2,4) c'(2,4) by auto
  moreover have "ph_header (pc_parsed_header c')
      = (ph_header (pc_parsed_header c))\<lparr>ch_signature := ch_signature (ph_header (pc_parsed_header c'))\<rparr>"
    using commit_signature_binds [OF c(1) c'(1) span] unfolding c(3) c'(3) by blast
  ultimately show ?thesis using c(1) c'(1) by metis
qed

text \<open>
  C37: A commit key is accepted exactly when it is the text of its parts: the sequence in twenty digits
  and thirty-two random bytes in base64. Every sequence and every identifier of thirty-two bytes have
  a key, which parses back to them.
\<close>

theorem commit_key_roundtrip:
  assumes "base64url_law fl"
  shows "(V3CommitKey_parse fl object_id = Inr k \<longleftrightarrow>
      length (key_random_id k) = 32 \<and> key_object_id k = object_id \<and>
      V3CommitKey_from_parts fl (key_sequence k) (key_random_id k) = Inr k) \<and>
    (length random_id = 32 \<longrightarrow> (\<exists>key. V3CommitKey_from_parts fl sequence random_id = Inr key \<and>
      key_sequence key = sequence \<and> key_random_id key = random_id \<and>
      V3CommitKey_parse fl (key_object_id key) = Inr key))"
  using parse_iff [OF assms, of object_id k] from_parts_eq [OF assms, of random_id sequence]
    parse_text [OF assms, of random_id sequence]
  by auto

theorem commit_key_roundtrip_witness:
  "\<exists>key. V3CommitKey_from_parts example_format_lib 7 (replicate 32 9) = Inr key \<and>
     V3CommitKey_parse example_format_lib (key_object_id key) = Inr key"
  using commit_key_roundtrip [OF example_format_laws(1), of "[]" example_commit_key "replicate 32 9" 7] length_replicate by metis

end
